(* ===== verification/Fid_Prelude.thy ===== *)
theory Fid_Prelude
  imports Complex_Main "HOL-Library.AList"
begin

text \<open>
  Shared vocabulary of the development: the Go string operations the sources call, the
  dynamic values (\<open>interface{}\<close>) that flow through contexts, journals and manifests, and
  the generic lemmas about them.

  Go strings are byte sequences, so they are \<open>string\<close> (\<open>char list\<close>). A Go map with string
  keys is an association list with distinct keys: \<open>map_of\<close> reads it, \<open>AList.update\<close> is
  \<open>m[k] = v\<close>, \<open>AList.delete\<close> is \<open>delete(m, k)\<close>, and the order of the list is the order in
  which \<open>range\<close> visits the map.
\<close>

named_theorems go_str \<open>facts about the Go string operations\<close>
named_theorems fid_wf \<open>well-formedness facts\<close>

section \<open>Go strings\<close>

definition hasPrefix :: "string \<Rightarrow> string \<Rightarrow> bool" where
  "hasPrefix s p \<longleftrightarrow> take (length p) s = p"

definition hasSuffix :: "string \<Rightarrow> string \<Rightarrow> bool" where
  "hasSuffix s p \<longleftrightarrow> hasPrefix (rev s) (rev p)"

definition trimPrefix :: "string \<Rightarrow> string \<Rightarrow> string" where
  "trimPrefix s p = (if hasPrefix s p then drop (length p) s else s)"

definition trimSuffix :: "string \<Rightarrow> string \<Rightarrow> string" where
  "trimSuffix s p = (if hasSuffix s p then take (length s - length p) s else s)"

text \<open>\<open>strings.Split(s, sep)\<close> for a one-byte separator: never empty, empty parts are kept.\<close>

fun split_on :: "char \<Rightarrow> string \<Rightarrow> string list" where
  "split_on c [] = [[]]"
| "split_on c (x # xs) =
     (if x = c then [] # split_on c xs
      else (case split_on c xs of [] \<Rightarrow> [[x]] | p # ps \<Rightarrow> (x # p) # ps))"

abbreviation split_dot :: "string \<Rightarrow> string list" where
  "split_dot \<equiv> split_on (CHR ''.'')"

fun join :: "string \<Rightarrow> string list \<Rightarrow> string" where
  "join sep [] = []"
| "join sep [s] = s"
| "join sep (s # t # ss) = s @ sep @ join sep (t # ss)"

text \<open>\<open>strings.Contains(s, sub)\<close> and the byte search of \<open>strings.Index\<close>.\<close>

fun contains :: "string \<Rightarrow> string \<Rightarrow> bool" where
  "contains [] sub = (sub = [])"
| "contains (x # xs) sub = (hasPrefix (x # xs) sub \<or> contains xs sub)"

definition containsAny :: "string \<Rightarrow> string \<Rightarrow> bool" where
  "containsAny s chars = list_ex (\<lambda>c. c \<in> set chars) s"

definition replaceChar :: "char \<Rightarrow> char \<Rightarrow> string \<Rightarrow> string" where
  "replaceChar a b s = map (\<lambda>c. if c = a then b else c) s"

definition lower_char :: "char \<Rightarrow> char" where
  "lower_char c = (if 65 \<le> (of_char c :: nat) \<and> (of_char c :: nat) \<le> 90
                   then char_of ((of_char c :: nat) + 32) else c)"

definition toLower :: "string \<Rightarrow> string" where
  "toLower s = map lower_char s"

text \<open>
  \<open>strings.TrimSpace\<close>: the UTF-8 encodings of the code points for which
  \<open>unicode.IsSpace\<close> holds.
\<close>

definition spaces :: "string list" where
  "spaces = [[CHR 0x09], [CHR 0x0A], [CHR 0x0B], [CHR 0x0C], [CHR 0x0D], [CHR 0x20],
     [CHR 0xC2, CHR 0x85], [CHR 0xC2, CHR 0xA0], [CHR 0xE1, CHR 0x9A, CHR 0x80],
     [CHR 0xE2, CHR 0x80, CHR 0x80], [CHR 0xE2, CHR 0x80, CHR 0x81],
     [CHR 0xE2, CHR 0x80, CHR 0x82], [CHR 0xE2, CHR 0x80, CHR 0x83],
     [CHR 0xE2, CHR 0x80, CHR 0x84], [CHR 0xE2, CHR 0x80, CHR 0x85],
     [CHR 0xE2, CHR 0x80, CHR 0x86], [CHR 0xE2, CHR 0x80, CHR 0x87],
     [CHR 0xE2, CHR 0x80, CHR 0x88], [CHR 0xE2, CHR 0x80, CHR 0x89],
     [CHR 0xE2, CHR 0x80, CHR 0x8A], [CHR 0xE2, CHR 0x80, CHR 0xA8],
     [CHR 0xE2, CHR 0x80, CHR 0xA9], [CHR 0xE2, CHR 0x80, CHR 0xAF],
     [CHR 0xE2, CHR 0x81, CHR 0x9F], [CHR 0xE3, CHR 0x80, CHR 0x80]]"

fun strip_with :: "string list \<Rightarrow> string \<Rightarrow> string" where
  "strip_with ps [] = []"
| "strip_with ps (x # xs) =
     (case find (\<lambda>p. p \<noteq> [] \<and> hasPrefix (x # xs) p) ps of
        None \<Rightarrow> x # xs
      | Some p \<Rightarrow> strip_with ps (drop (length p - 1) xs))"

definition trimSpace :: "string \<Rightarrow> string" where
  "trimSpace s = rev (strip_with (map rev spaces) (rev (strip_with spaces s)))"

text \<open>\<open>strings.TrimRight(s, cutset)\<close> for a one-byte cutset.\<close>

definition trimRightChar :: "char \<Rightarrow> string \<Rightarrow> string" where
  "trimRightChar c s = rev (dropWhile (\<lambda>x. x = c) (rev s))"

lemma hasPrefix_iff [go_str]: "hasPrefix s p \<longleftrightarrow> (\<exists>r. s = p @ r)"
  by (metis append_take_drop_id hasPrefix_def append_eq_conv_conj)

lemma hasPrefix_append [simp]: "hasPrefix (p @ r) p"
  by (simp add: hasPrefix_def)

lemma hasPrefix_refl [simp]: "hasPrefix p p"
  by (simp add: hasPrefix_def)

lemma hasPrefix_Nil [simp]: "hasPrefix s []"
  by (simp add: hasPrefix_def)

lemma trimPrefix_append [simp]: "trimPrefix (p @ r) p = r"
  by (simp add: trimPrefix_def)

lemma hasSuffix_iff [go_str]: "hasSuffix s p \<longleftrightarrow> (\<exists>r. s = r @ p)"
proof -
  have "hasSuffix s p \<longleftrightarrow> (\<exists>r. rev s = rev p @ r)"
    by (simp add: hasSuffix_def hasPrefix_iff)
  also have "\<dots> \<longleftrightarrow> (\<exists>r. s = r @ p)"
    by (metis rev_append rev_rev_ident)
  finally show ?thesis .
qed

lemma hasSuffix_append [simp]: "hasSuffix (r @ p) p"
  by (simp add: hasSuffix_iff)

lemma trimSuffix_append [simp]: "trimSuffix (r @ p) p = r"
  by (simp add: trimSuffix_def)

lemma find_Some_mem: "find P xs = Some x \<Longrightarrow> x \<in> set xs \<and> P x"
  by (induction xs) (auto split: if_splits)

text \<open>What trimming leaves has nothing left to trim.\<close>

lemma strip_with_clean:
  "p \<in> set ps \<Longrightarrow> p \<noteq> [] \<Longrightarrow> \<not> hasPrefix (strip_with ps s) p"
proof (induction ps s rule: strip_with.induct)
  case (1 ps)
  then show ?case by (simp add: hasPrefix_def)
next
  case (2 ps x xs)
  then show ?case by (auto split: option.splits simp: find_None_iff)
qed

lemma strip_with_id: "\<forall>p \<in> set ps. p \<noteq> [] \<longrightarrow> \<not> hasPrefix s p \<Longrightarrow> strip_with ps s = s"
  by (cases s) (auto simp: find_None_iff split: option.splits dest: find_Some_mem)

lemma strip_with_idem [simp]: "strip_with ps (strip_with ps s) = strip_with ps s"
  by (rule strip_with_id) (simp add: strip_with_clean)

lemma strip_with_suffix: "\<exists>r. s = r @ strip_with ps s"
proof (induction ps s rule: strip_with.induct)
  case (2 ps x xs)
  show ?case
  proof (cases "find (\<lambda>p. p \<noteq> [] \<and> hasPrefix (x # xs) p) ps")
    case (Some p)
    with 2 [OF Some] obtain r where "drop (length p - 1) xs = r @ strip_with ps (x # xs)" by auto
    then have "x # xs = (x # take (length p - 1) xs @ r) @ strip_with ps (x # xs)"
      by (metis append_Cons append_assoc append_take_drop_id)
    then show ?thesis by blast
  qed simp
qed simp

lemma trimSpace_idem [simp]: "trimSpace (trimSpace s) = trimSpace s"
proof -
  let ?t = "strip_with spaces s"
  obtain r where r: "rev ?t = r @ strip_with (map rev spaces) (rev ?t)"
    using strip_with_suffix by blast
  have "?t = trimSpace s @ rev r"
    by (metis r rev_append rev_rev_ident trimSpace_def)
  moreover have "\<forall>p \<in> set spaces. p \<noteq> [] \<longrightarrow> \<not> hasPrefix ?t p"
    by (simp add: strip_with_clean)
  ultimately have "strip_with spaces (trimSpace s) = trimSpace s"
    by (intro strip_with_id) (metis hasPrefix_iff append_assoc)
  then show ?thesis by (simp add: trimSpace_def)
qed

lemma split_on_nonempty [simp]: "split_on c s \<noteq> []"
  by (induction s) (auto split: list.splits)

lemma length_split_on_pos [simp]: "0 < length (split_on c s)"
  using split_on_nonempty by blast

lemma join_Cons_Cons_char:
  "ps \<noteq> [] \<Longrightarrow> join sep ((x # p) # ps) = x # join sep (p # ps)"
  by (cases ps) auto

text \<open>Splitting and joining are inverse to each other.\<close>

lemma join_split_on [go_str]: "join [c] (split_on c s) = s"
proof (induction s)
  case Nil
  then show ?case by simp
next
  case (Cons x xs)
  show ?case
  proof (cases "split_on c xs")
    case Nil
    then show ?thesis by simp
  next
    case (Cons p ps)
    with Cons.IH show ?thesis
      by (cases ps) auto
  qed
qed

lemma split_on_no_sep [go_str]: "c \<notin> set s \<Longrightarrow> split_on c s = [s]"
  by (induction s) auto

lemma split_on_append_sep [go_str]:
  "c \<notin> set p \<Longrightarrow> split_on c (p @ c # r) = p # split_on c r"
  by (induction p) auto

lemma split_on_parts_no_sep: "p \<in> set (split_on c s) \<Longrightarrow> c \<notin> set p"
proof (induction s arbitrary: p)
  case Nil
  then show ?case by simp
next
  case (Cons x xs)
  obtain q qs where q: "split_on c xs = q # qs"
    using split_on_nonempty by (meson neq_Nil_conv)
  with Cons show ?case
    by (auto split: if_splits)
qed

lemma split_on_join [go_str]:
  "ps \<noteq> [] \<Longrightarrow> \<forall>p \<in> set ps. c \<notin> set p \<Longrightarrow> split_on c (join [c] ps) = ps"
proof (induction "[c]" ps rule: join.induct)
  case 1
  then show ?case by simp
next
  case (2 s)
  then show ?case by (simp add: split_on_no_sep)
next
  case (3 s t ss)
  then show ?case by (simp add: split_on_append_sep)
qed

section \<open>Dynamic values\<close>

text \<open>
  A \<open>float64\<close> is a finite rational, an infinity or NaN; the two zeros are not told apart (no
  operation of the sources does). Comparisons with NaN are false, as in IEEE 754.
\<close>

datatype f64 = Fin rat | PInf | NInf | NaN

fun f64_lt :: "f64 \<Rightarrow> f64 \<Rightarrow> bool" where
  "f64_lt (Fin a) (Fin b) = (a < b)"
| "f64_lt NaN _ = False"
| "f64_lt _ NaN = False"
| "f64_lt _ NInf = False"
| "f64_lt PInf _ = False"
| "f64_lt _ _ = True"

fun f64_eq :: "f64 \<Rightarrow> f64 \<Rightarrow> bool" where
  "f64_eq (Fin a) (Fin b) = (a = b)"
| "f64_eq PInf PInf = True"
| "f64_eq NInf NInf = True"
| "f64_eq _ _ = False"

definition f64_le :: "f64 \<Rightarrow> f64 \<Rightarrow> bool" where
  "f64_le a b \<longleftrightarrow> f64_lt a b \<or> f64_eq a b"

text \<open>
  \<open>float64(x)\<close> for a machine integer: exact up to \<open>2^53\<close>, above that rounded to the nearest
  multiple of a power of two, ties to even.
\<close>

function f64_scale :: "nat \<Rightarrow> nat" where
  "f64_scale n = (if n < 2 ^ 53 then 1 else 2 * f64_scale (n div 2))"
  by pat_completeness auto
termination
  by (relation "measure id") auto

declare f64_scale.simps [simp del]

definition round_even :: "nat \<Rightarrow> nat \<Rightarrow> nat" where
  "round_even n u =
     (let q = n div u; r = n mod u in
      if 2 * r < u then q * u
      else if u < 2 * r then (q + 1) * u
      else if even q then q * u else (q + 1) * u)"

definition f64_of_int :: "int \<Rightarrow> f64" where
  "f64_of_int i =
     (let n = nat \<bar>i\<bar> in Fin (of_int (sgn i * int (round_even n (f64_scale n)))))"

lemma f64_of_int_exact: "\<bar>i\<bar> < 2 ^ 53 \<Longrightarrow> f64_of_int i = Fin (of_int i)"
proof -
  assume a: "\<bar>i\<bar> < 2 ^ 53"
  then have "nat \<bar>i\<bar> < 2 ^ 53" by simp
  then have "f64_scale (nat \<bar>i\<bar>) = 1" by (simp add: f64_scale.simps)
  then show ?thesis
    by (simp add: f64_of_int_def round_even_def Let_def sgn_if)
qed

text \<open>
  What \<open>interface{}\<close> holds after a YAML or JSON decode: YAML integers are \<open>JInt\<close>, JSON
  numbers \<open>JFloat\<close>; \<open>JOther\<close> is any other Go type (\<open>uint64\<close>, \<open>time.Time\<close>), named by the string.
\<close>

datatype json =
    JNull
  | JBool bool
  | JInt int
  | JFloat f64
  | JStr string
  | JArr "json list"
  | JObj "(string \<times> json) list"
  | JOther string

type_synonym obj = "(string \<times> json) list"

text \<open>\<open>reflect.DeepEqual\<close>: maps are compared by size and by key, not by order.\<close>

fun deepEqual :: "json \<Rightarrow> json \<Rightarrow> bool"
  and deepEqual_list :: "json list \<Rightarrow> json list \<Rightarrow> bool"
  and deepEqual_obj :: "obj \<Rightarrow> obj \<Rightarrow> bool" where
  "deepEqual JNull w = (case w of JNull \<Rightarrow> True | _ \<Rightarrow> False)"
| "deepEqual (JBool a) w = (case w of JBool b \<Rightarrow> a = b | _ \<Rightarrow> False)"
| "deepEqual (JInt a) w = (case w of JInt b \<Rightarrow> a = b | _ \<Rightarrow> False)"
| "deepEqual (JFloat a) w = (case w of JFloat b \<Rightarrow> f64_eq a b | _ \<Rightarrow> False)"
| "deepEqual (JStr a) w = (case w of JStr b \<Rightarrow> a = b | _ \<Rightarrow> False)"
| "deepEqual (JArr a) w = (case w of JArr b \<Rightarrow> deepEqual_list a b | _ \<Rightarrow> False)"
| "deepEqual (JObj a) w =
     (case w of JObj b \<Rightarrow> length a = length b \<and> deepEqual_obj a b | _ \<Rightarrow> False)"
| "deepEqual (JOther a) w = (case w of JOther b \<Rightarrow> a = b | _ \<Rightarrow> False)"
| "deepEqual_list [] ys = (ys = [])"
| "deepEqual_list (x # xs) ys =
     (case ys of [] \<Rightarrow> False | y # ys' \<Rightarrow> deepEqual x y \<and> deepEqual_list xs ys')"
| "deepEqual_obj [] ys = True"
| "deepEqual_obj ((k, v) # xs) ys =
     ((case map_of ys k of None \<Rightarrow> False | Some w \<Rightarrow> deepEqual v w) \<and> deepEqual_obj xs ys)"

text \<open>A JSON round trip (\<open>json.Marshal\<close>, then \<open>json.Unmarshal\<close>) turns integers into floats.\<close>

fun json_rt :: "json \<Rightarrow> json" where
  "json_rt (JInt i) = JFloat (f64_of_int i)"
| "json_rt (JArr xs) = JArr (map json_rt xs)"
| "json_rt (JObj kvs) = JObj (map (\<lambda>(k, v). (k, json_rt v)) kvs)"
| "json_rt v = v"

definition obj_rt :: "obj \<Rightarrow> obj" where
  "obj_rt kvs = map (\<lambda>(k, v). (k, json_rt v)) kvs"

text \<open>\<open>json.Marshal\<close> refuses NaN and the infinities.\<close>

fun marshals :: "json \<Rightarrow> bool" where
  "marshals (JFloat f) = (case f of Fin _ \<Rightarrow> True | _ \<Rightarrow> False)"
| "marshals (JArr xs) = list_all marshals xs"
| "marshals (JObj kvs) = list_all (\<lambda>(k, v). marshals v) kvs"
| "marshals _ = True"

abbreviation is_obj :: "json \<Rightarrow> bool" where
  "is_obj v \<equiv> (case v of JObj _ \<Rightarrow> True | _ \<Rightarrow> False)"

text \<open>Well-formed maps have no repeated key.\<close>

abbreviation wf_map :: "(string \<times> 'a) list \<Rightarrow> bool" where
  "wf_map m \<equiv> distinct (map fst m)"

lemma wf_map_update [fid_wf]: "wf_map m \<Longrightarrow> wf_map (AList.update k v m)"
  by (rule distinct_update)

lemma wf_map_delete [fid_wf]: "wf_map m \<Longrightarrow> wf_map (AList.delete k m)"
  by (rule distinct_delete)

lemma map_of_upd_alist [simp]: "map_of (AList.update k v m) k' = (if k' = k then Some v else map_of m k')"
  by (simp add: AList.update_conv)

lemma map_of_del [simp]: "map_of (AList.delete k m) k' = (if k' = k then None else map_of m k')"
  by (simp add: AList.delete_conv)

lemma map_of_obj_rt [simp]: "map_of (obj_rt m) k = map_option json_rt (map_of m k)"
  by (induction m) (auto simp: obj_rt_def)

lemma wf_obj_rt [simp]: "map fst (obj_rt m) = map fst m"
  by (induction m) (auto simp: obj_rt_def)

text \<open>The keys of a Go set built by insertion: first occurrences, in order.\<close>

fun nub :: "'a list \<Rightarrow> 'a list" where
  "nub [] = []"
| "nub (x # xs) = x # filter (\<lambda>y. y \<noteq> x) (nub xs)"

lemma set_nub [simp]: "set (nub xs) = set xs"
  by (induction xs) auto

lemma distinct_nub [simp]: "distinct (nub xs)"
  by (induction xs) auto

lemma nub_distinct [simp]: "distinct xs \<Longrightarrow> nub xs = xs"
  by (induction xs) (auto simp: filter_id_conv)

text \<open>Reading a Go map of slices: a missing key is the empty slice.\<close>

definition lookup_list :: "('k \<times> 'a list) list \<Rightarrow> 'k \<Rightarrow> 'a list" where
  "lookup_list m k = (case map_of m k of None \<Rightarrow> [] | Some l \<Rightarrow> l)"

definition append_at :: "'k \<Rightarrow> 'a \<Rightarrow> ('k \<times> 'a list) list \<Rightarrow> ('k \<times> 'a list) list" where
  "append_at k x m = AList.update k (lookup_list m k @ [x]) m"

lemma lookup_append_at [simp]:
  "lookup_list (append_at k x m) k' = (if k' = k then lookup_list m k @ [x] else lookup_list m k')"
  by (simp add: lookup_list_def append_at_def AList.update_conv)

lemma wf_append_at [fid_wf]: "distinct (map fst m) \<Longrightarrow> distinct (map fst (append_at k x m))"
  by (simp add: append_at_def distinct_update)

lemma keys_append_at [simp]: "fst ` set (append_at k x m) = insert k (fst ` set m)"
  by (simp add: append_at_def dom_update)

lemma mem_lookup_list:
  "x \<in> set (lookup_list m k) \<longleftrightarrow> (\<exists>l. map_of m k = Some l \<and> x \<in> set l)"
  by (cases "map_of m k") (auto simp: lookup_list_def)

end
