(* ===== verification/RunCtx.thy ===== *)
theory RunCtx
  imports Fid_Prelude
begin

text \<open>
  The run context (internal/runctx): \<open>Ctx.Data\<close>, a map with the namespaces \<open>input\<close> and
  \<open>steps\<close>, the dot-path lookups over it, and the shape check a context read from disk passes.
  A nil \<open>Data\<close> reads like an empty map everywhere in the sources and is replaced by one
  before any write, so both are the empty list here. Receivers are never nil in a run.
\<close>

section \<open>runctx/store.go\<close>

text \<open>\<open>jsonKind\<close>: the JSON type named in a shape error.\<close>

fun jsonKind :: "json \<Rightarrow> string" where
  "jsonKind JNull = ''null''"
| "jsonKind (JBool _) = ''boolean''"
| "jsonKind (JFloat _) = ''number''"
| "jsonKind (JInt _) = ''number''"
| "jsonKind (JStr _) = ''string''"
| "jsonKind (JArr _) = ''array''"
| "jsonKind (JObj _) = ''object''"
| "jsonKind (JOther _) = ''unknown''"

text \<open>\<open>ShapeError\<close> names the field and the JSON kind of what was found there.\<close>

datatype shapeError = ShapeError (se_field: string) (se_kind: string)

definition NewCtx :: "obj \<Rightarrow> obj" where
  "NewCtx input = [(''input'', JObj input), (''steps'', JObj [])]"

text \<open>One turn of the loop of \<open>Normalize\<close>, for the namespace \<open>ns\<close>.\<close>

definition normalize_ns :: "string \<Rightarrow> obj \<Rightarrow> shapeError + obj" where
  "normalize_ns ns data =
     (case map_of data ns of
        None \<Rightarrow> Inr (AList.update ns (JObj []) data)
      | Some JNull \<Rightarrow> Inr (AList.update ns (JObj []) data)
      | Some (JObj _) \<Rightarrow> Inr data
      | Some v \<Rightarrow> Inl (ShapeError ns (jsonKind v)))"

definition Normalize :: "obj \<Rightarrow> shapeError + obj" where
  "Normalize data =
     (case normalize_ns ''input'' data of
        Inl e \<Rightarrow> Inl e
      | Inr data' \<Rightarrow> normalize_ns ''steps'' data')"

text \<open>
  \<open>Ctx.namespace\<close> returns the map of a namespace and repairs the context when the entry is
  not an object; the repaired context is the second component.
\<close>

definition namespace :: "string \<Rightarrow> obj \<Rightarrow> obj \<times> obj" where
  "namespace key data =
     (case map_of data key of
        Some (JObj m) \<Rightarrow> (m, data)
      | _ \<Rightarrow> ([], AList.update key (JObj []) data))"

definition ResetSteps :: "obj \<Rightarrow> obj" where
  "ResetSteps data = AList.update ''steps'' (JObj []) data"

definition SetInput :: "string \<Rightarrow> json \<Rightarrow> obj \<Rightarrow> obj" where
  "SetInput key val data =
     (let (m, data') = namespace ''input'' data
      in AList.update ''input'' (JObj (AList.update key val m)) data')"

definition SetStep :: "string \<Rightarrow> obj \<Rightarrow> obj \<Rightarrow> obj" where
  "SetStep stepID out data =
     (let (m, data') = namespace ''steps'' data
      in AList.update ''steps'' (JObj (AList.update stepID (JObj out) m)) data')"

definition Input :: "obj \<Rightarrow> obj" where
  "Input data = fst (namespace ''input'' data)"

definition Steps :: "obj \<Rightarrow> obj" where
  "Steps data = fst (namespace ''steps'' data)"

text \<open>
  The idiom \<open>if m, ok := ctx.Data["steps"].(map...); ok { ... }\<close>: change the steps map in
  place when there is one, do nothing otherwise.
\<close>

definition on_steps :: "(obj \<Rightarrow> obj) \<Rightarrow> obj \<Rightarrow> obj" where
  "on_steps f data =
     (case map_of data ''steps'' of
        Some (JObj m) \<Rightarrow> AList.update ''steps'' (JObj (f m)) data
      | _ \<Rightarrow> data)"

text \<open>\<open>Ctx.Get\<close>: every part of the split path, empty ones included, is looked up.\<close>

fun walk :: "string list \<Rightarrow> json \<Rightarrow> json option" where
  "walk [] v = Some v"
| "walk (p # ps) v =
     (case v of
        JObj m \<Rightarrow> (case map_of m p of None \<Rightarrow> None | Some w \<Rightarrow> walk ps w)
      | _ \<Rightarrow> None)"

definition Get :: "string \<Rightarrow> obj \<Rightarrow> json option" where
  "Get path data = walk (split_dot path) (JObj data)"

section \<open>runctx/binding.go\<close>

text \<open>
  \<open>splitPath\<close> accumulates characters and emits a part at each dot, but only when the part is
  not empty.
\<close>

fun splitPath_acc :: "string \<Rightarrow> string \<Rightarrow> string list" where
  "splitPath_acc cur [] = (if cur \<noteq> [] then [cur] else [])"
| "splitPath_acc cur (ch # s) =
     (if ch = CHR ''.'' then (if cur \<noteq> [] then cur # splitPath_acc [] s else splitPath_acc [] s)
      else splitPath_acc (cur @ [ch]) s)"

definition splitPath :: "string \<Rightarrow> string list" where
  "splitPath path = splitPath_acc [] path"

definition ResolvePath :: "string \<Rightarrow> obj \<Rightarrow> json option" where
  "ResolvePath path data =
     (let parts = splitPath path in if parts = [] then None else walk parts (JObj data))"

section \<open>Lemmas\<close>

definition ctx_wf :: "obj \<Rightarrow> bool" where
  "ctx_wf data \<longleftrightarrow>
     (\<exists>i s. map_of data ''input'' = Some (JObj i) \<and> map_of data ''steps'' = Some (JObj s))"

lemma ctx_wf_NewCtx [fid_wf]: "ctx_wf (NewCtx i)"
  by (simp add: ctx_wf_def NewCtx_def)

lemma normalize_ns_Inr:
  "normalize_ns ns data = Inr data' \<Longrightarrow>
     (\<exists>m. map_of data' ns = Some (JObj m)) \<and> (\<forall>k. k \<noteq> ns \<longrightarrow> map_of data' k = map_of data k)"
  by (auto simp: normalize_ns_def split: option.splits json.splits)

lemma normalize_ns_id: "map_of data ns = Some (JObj m) \<Longrightarrow> normalize_ns ns data = Inr data"
  by (simp add: normalize_ns_def)

lemma Normalize_ctx_wf [fid_wf]: "Normalize data = Inr data' \<Longrightarrow> ctx_wf data'"
  by (auto simp: Normalize_def ctx_wf_def split: sum.splits dest!: normalize_ns_Inr)

lemma ctx_wf_SetStep [fid_wf]: "ctx_wf d \<Longrightarrow> ctx_wf (SetStep i o' d)"
  by (auto simp: ctx_wf_def SetStep_def namespace_def)

lemma ctx_wf_SetInput [fid_wf]: "ctx_wf d \<Longrightarrow> ctx_wf (SetInput k v d)"
  by (auto simp: ctx_wf_def SetInput_def namespace_def)

lemma ctx_wf_ResetSteps [fid_wf]: "ctx_wf d \<Longrightarrow> ctx_wf (ResetSteps d)"
  by (auto simp: ctx_wf_def ResetSteps_def)

lemma ctx_wf_on_steps [fid_wf]: "ctx_wf d \<Longrightarrow> ctx_wf (on_steps f d)"
  by (auto simp: ctx_wf_def on_steps_def)

lemma Steps_SetStep [simp]: "Steps (SetStep i out d) = AList.update i (JObj out) (Steps d)"
  by (auto simp: Steps_def SetStep_def namespace_def split: option.splits json.splits)

lemma Input_SetStep [simp]: "Input (SetStep i out d) = Input d"
  by (auto simp: Input_def SetStep_def namespace_def split: option.splits json.splits)

lemma Steps_SetInput [simp]: "Steps (SetInput k v d) = Steps d"
  by (auto simp: Steps_def SetInput_def namespace_def split: option.splits json.splits)

lemma Input_SetInput [simp]: "Input (SetInput k v d) = AList.update k v (Input d)"
  by (auto simp: Input_def SetInput_def namespace_def split: option.splits json.splits)

lemma Steps_ResetSteps [simp]: "Steps (ResetSteps d) = []"
  by (simp add: Steps_def ResetSteps_def namespace_def)

lemma Steps_on_steps: "ctx_wf d \<Longrightarrow> Steps (on_steps f d) = f (Steps d)"
  by (auto simp: ctx_wf_def Steps_def on_steps_def namespace_def)

lemma walk_append: "walk (ps @ qs) v = Option.bind (walk ps v) (walk qs)"
  by (induction ps arbitrary: v) (auto split: json.splits option.splits)

lemma splitPath_acc_filter:
  "splitPath_acc cur s =
     (case split_dot s of [] \<Rightarrow> [] | p # ps \<Rightarrow> filter (\<lambda>q. q \<noteq> []) ((cur @ p) # ps))"
proof (induction s arbitrary: cur)
  case Nil
  then show ?case by simp
next
  case (Cons ch s)
  obtain p ps where s: "split_dot s = p # ps"
    using split_on_nonempty by (meson neq_Nil_conv)
  show ?case
    using Cons.IH [of "[]"] Cons.IH [of "cur @ [ch]"] s by auto
qed

text \<open>\<open>splitPath\<close> is \<open>strings.Split\<close> with the empty parts dropped.\<close>

lemma splitPath_eq: "splitPath path = filter (\<lambda>q. q \<noteq> []) (split_dot path)"
  by (simp add: splitPath_def splitPath_acc_filter split: list.splits)

text \<open>The two lookups agree on a path without empty parts.\<close>

lemma ResolvePath_eq_Get:
  "[] \<notin> set (split_dot path) \<Longrightarrow> ResolvePath path data = Get path data"
proof -
  assume "[] \<notin> set (split_dot path)"
  then have "splitPath path = split_dot path"
    by (simp add: splitPath_eq filter_id_conv) (metis (mono_tags))
  then show ?thesis
    by (simp add: ResolvePath_def Get_def)
qed

lemma split_dot_steps [simp]:
  "CHR ''.'' \<notin> set i \<Longrightarrow> split_dot (''steps.'' @ i @ CHR ''.'' # f) = ''steps'' # i # split_dot f"
  by (simp add: split_on_append_sep)

lemma Get_steps:
  assumes "CHR ''.'' \<notin> set i" and "map_of data ''steps'' = Some (JObj s)"
  shows "Get (''steps.'' @ i @ CHR ''.'' # f) data =
    (case map_of s i of None \<Rightarrow> None | Some w \<Rightarrow> walk (split_dot f) w)"
  using assms by (simp add: Get_def split_on_append_sep)

end
