(* ===== verification/Pipeline_Model.thy ===== *)
theory Pipeline_Model
  imports RunCtx
begin

text \<open>
  The pipeline file and the plugin manifest (internal/pipeline/model.go), the closed registry
  of built-in modules (internal/common/util.go) and the effective network policy. A duration
  is an \<open>int\<close> of nanoseconds. Fields the modelled code never reads (\<open>pos\<close>, descriptions,
  authors, the donor recipe) are left out.
\<close>

section \<open>internal/pipeline/model.go: the pipeline\<close>

record whenCond =
  w_path :: string
  w_op :: string
  w_value :: json

record retry =
  r_attempts :: int
  r_delay :: int
  r_backoff :: string

record formField =
  ff_field :: string
  ff_editable :: bool
  ff_type :: string
  ff_format :: string

record step =
  st_id :: string
  st_plugin :: string
  st_onError :: string
  st_retry :: "retry option"
  st_timeout :: int
  st_bind :: "(string \<times> string) list"
  st_afterForeach :: bool
  st_when :: whenCond
  st_foreach :: string
  st_foreachItem :: string
  st_parallelGroup :: string
  st_loop :: string
  st_loopCondition :: string
  st_maxIterations :: int
  st_form :: "formField list"
  st_actions :: "string list"
  st_onReject :: string
  st_approval :: string

record scheduleAlerts =
  al_onWaiting :: string
  al_onFailure :: string
  al_webhook :: string

record schedule =
  sc_cron :: string
  sc_timezone :: string
  sc_enabled :: "bool option"
  sc_overlap :: string
  sc_catchUp :: bool
  sc_humanGate :: string
  sc_alerts :: scheduleAlerts
  sc_gateTimeout :: int
  sc_onTimeout :: string

record pipeline =
  p_name :: string
  p_input :: obj
  p_foreach :: string
  p_foreachItem :: string
  p_itemType :: string
  p_itemFormat :: string
  p_secrets :: "string list"
  p_network :: string
  p_gates :: string
  p_schedule :: "schedule option"
  p_steps :: "step list"

record pipelineFile =
  pf_formatVersion :: string
  pf_pipeline :: pipeline

definition RequiresHuman :: "pipeline \<Rightarrow> step \<Rightarrow> bool" where
  "RequiresHuman p st \<longleftrightarrow> p_gates p = ''human_only'' \<or> st_approval st = ''human''"

definition IsEnabled :: "schedule option \<Rightarrow> bool" where
  "IsEnabled s =
     (case s of None \<Rightarrow> False | Some sc \<Rightarrow> (case sc_enabled sc of None \<Rightarrow> True | Some b \<Rightarrow> b))"

definition Mode :: "pipeline \<Rightarrow> string" where
  "Mode p = (if p_schedule p \<noteq> None then ''scheduled'' else ''solo'')"

text \<open>The zero values, as a YAML decode leaves them.\<close>

definition no_when :: whenCond where
  "no_when = \<lparr>w_path = [], w_op = [], w_value = JNull\<rparr>"

definition zero_step :: step where
  "zero_step = \<lparr>st_id = [], st_plugin = [], st_onError = [], st_retry = None, st_timeout = 0,
     st_bind = [], st_afterForeach = False, st_when = no_when, st_foreach = [],
     st_foreachItem = [], st_parallelGroup = [], st_loop = [], st_loopCondition = [],
     st_maxIterations = 0, st_form = [], st_actions = [], st_onReject = [], st_approval = []\<rparr>"

definition zero_pipeline :: pipeline where
  "zero_pipeline = \<lparr>p_name = [], p_input = [], p_foreach = [], p_foreachItem = [],
     p_itemType = [], p_itemFormat = [], p_secrets = [], p_network = [], p_gates = [],
     p_schedule = None, p_steps = []\<rparr>"

section \<open>internal/pipeline/model.go: the manifest\<close>

record port =
  po_from :: string
  po_type :: string
  po_format :: string
  po_optional :: bool

record networkPermission =
  np_host :: string
  np_port :: int
  np_anyHost :: bool

record manifest =
  m_id :: string
  m_version :: string
  m_platformAPI :: string
  m_rtType :: string
  m_entry :: string
  m_requires :: "string list"
  m_input :: "(string \<times> port) list"
  m_output :: "(string \<times> port) list"
  m_network :: "networkPermission list"
  m_filesystem :: string
  m_secrets :: "string list"
  m_sandbox :: string
  m_dir :: string

definition zero_manifest :: manifest where
  "zero_manifest = \<lparr>m_id = [], m_version = [], m_platformAPI = [], m_rtType = [], m_entry = [],
     m_requires = [], m_input = [], m_output = [], m_network = [], m_filesystem = [],
     m_secrets = [], m_sandbox = [], m_dir = []\<rparr>"

definition Untrusted :: "manifest option \<Rightarrow> bool" where
  "Untrusted m = (case m of None \<Rightarrow> False | Some mf \<Rightarrow> m_sandbox mf = ''untrusted'')"

definition second :: int where "second = 1000000000"
definition minute :: int where "minute = 60 * second"

definition PlatformAPI :: string where "PlatformAPI = ''0.1''"
definition MaxForeachItems :: int where "MaxForeachItems = 10000"
definition MaxParallelWidth :: int where "MaxParallelWidth = 32"
definition MaxRetryAttempts :: int where "MaxRetryAttempts = 10"
definition MaxRetryDelay :: int where "MaxRetryDelay = 5 * minute"
definition MaxStepTimeout :: int where "MaxStepTimeout = 30 * minute"
definition MaxAggregateItems :: int where "MaxAggregateItems = 100000"
definition MaxLoopIterations :: int where "MaxLoopIterations = 100"
definition MaxTotalLoopBudget :: int where "MaxTotalLoopBudget = 1000"
definition MaxLoopJournalEvents :: int where "MaxLoopJournalEvents = 10000"

lemmas limit_defs = MaxForeachItems_def MaxParallelWidth_def MaxRetryAttempts_def
  MaxRetryDelay_def MaxStepTimeout_def MaxAggregateItems_def MaxLoopIterations_def
  MaxTotalLoopBudget_def MaxLoopJournalEvents_def minute_def second_def

text \<open>\<open>strconv.Itoa\<close>.\<close>

fun nat_digits :: "nat \<Rightarrow> string" where
  "nat_digits n =
     (if n < 10 then [char_of (48 + n)] else nat_digits (n div 10) @ [char_of (48 + n mod 10)])"

declare nat_digits.simps [simp del]

definition itoa :: "int \<Rightarrow> string" where
  "itoa i = (if i < 0 then CHR ''-'' # nat_digits (nat (- i)) else nat_digits (nat i))"

text \<open>Reading the digits back.\<close>

definition digits_val :: "string \<Rightarrow> nat" where
  "digits_val s = foldl (\<lambda>a c. 10 * a + (of_char c - 48)) 0 s"

lemma digits_val_nat_digits [simp]: "digits_val (nat_digits n) = n"
proof (induction n rule: nat_digits.induct)
  case (1 n)
  then show ?case
    by (subst nat_digits.simps) (auto simp: digits_val_def)
qed

lemma nat_digits_inject [simp]: "nat_digits m = nat_digits n \<longleftrightarrow> m = n"
  by (metis digits_val_nat_digits)

lemma nat_digits_range: "c \<in> set (nat_digits n) \<Longrightarrow> of_char c \<in> {48..57 :: nat}"
proof (induction n arbitrary: c rule: nat_digits.induct)
  case (1 n)
  from "1.prems" show ?case
    by (subst (asm) nat_digits.simps) (use "1.IH" in \<open>auto split: if_splits\<close>)
qed

definition NetworkHostList :: "manifest \<Rightarrow> string list" where
  "NetworkHostList m =
     map (\<lambda>np. let host = (if np_anyHost np then ''*'' else np_host np) in
            if np_port np > 0 then host @ '':'' @ itoa (np_port np) else host) (m_network m)"

definition NetworkHosts :: "manifest \<Rightarrow> string" where
  "NetworkHosts m =
     (let list = NetworkHostList m in if length list = 0 then [] else join '', '' list)"

definition NetworkRequestsAnyHost :: "manifest \<Rightarrow> bool" where
  "NetworkRequestsAnyHost m = list_ex np_anyHost (m_network m)"

definition NetworkHasStructuredDeclarations :: "manifest \<Rightarrow> bool" where
  "NetworkHasStructuredDeclarations m =
     (if m_network m = [] then False else \<not> NetworkRequestsAnyHost m)"

definition EffectiveNetwork :: "pipeline \<Rightarrow> string" where
  "EffectiveNetwork p = (if p_network p = [] then ''deny'' else p_network p)"

definition PortSource :: "string \<Rightarrow> port \<Rightarrow> step \<Rightarrow> string" where
  "PortSource portName port st =
     (case map_of (st_bind st) portName of
        Some p \<Rightarrow> (if p \<noteq> [] then p else po_from port)
      | None \<Rightarrow> po_from port)"

section \<open>internal/common/util.go: built-in modules\<close>

definition HumanGatePluginRef :: string where "HumanGatePluginRef = ''core/human_gate''"
definition TextStatsPluginRef :: string where "TextStatsPluginRef = ''core/text_stats''"

definition builtinRefs :: "string list" where
  "builtinRefs = [HumanGatePluginRef, TextStatsPluginRef]"

abbreviation backslash :: char where "backslash \<equiv> CHR 0x5C"

definition normalizeRef :: "string \<Rightarrow> string" where
  "normalizeRef ref = replaceChar backslash (CHR ''/'') (trimSpace ref)"

definition CanonicalBuiltinRef :: "string \<Rightarrow> string option" where
  "CanonicalBuiltinRef ref =
     (let normalized = normalizeRef ref in
      if List.member builtinRefs normalized then Some normalized else None)"

definition IsBuiltin :: "string \<Rightarrow> bool" where
  "IsBuiltin ref = (CanonicalBuiltinRef ref \<noteq> None)"

definition IsBuiltinNamespace :: "string \<Rightarrow> bool" where
  "IsBuiltinNamespace ref =
     (let normalized = normalizeRef ref in
      normalized = ''core'' \<or> hasPrefix normalized ''core/'')"

definition IsHumanGate :: "string \<Rightarrow> bool" where
  "IsHumanGate ref =
     (case CanonicalBuiltinRef ref of None \<Rightarrow> False | Some c \<Rightarrow> c = HumanGatePluginRef)"

text \<open>\<open>KindOf\<close> of internal/common and internal/pipeline: anything unknown counts as a string.\<close>

fun KindOf :: "json \<Rightarrow> string" where
  "KindOf (JStr _) = ''string''"
| "KindOf (JFloat _) = ''number''"
| "KindOf (JInt _) = ''number''"
| "KindOf (JBool _) = ''boolean''"
| "KindOf (JArr _) = ''array''"
| "KindOf (JObj _) = ''object''"
| "KindOf _ = ''string''"

definition Basename :: "string \<Rightarrow> string" where
  "Basename path = last (split_dot path)"

definition ExtractStepID :: "string \<Rightarrow> string" where
  "ExtractStepID path =
     (case split_dot path of
        a # b # _ \<Rightarrow> (if a = ''steps'' then b else [])
      | _ \<Rightarrow> [])"

section \<open>Lemmas\<close>

lemma IsHumanGate_builtin: "IsHumanGate ref \<Longrightarrow> IsBuiltin ref"
  by (auto simp: IsHumanGate_def IsBuiltin_def split: option.splits)

text \<open>Every built-in lies in the reserved namespace, so the order of the two tests matters.\<close>

lemma IsBuiltin_namespace: "IsBuiltin ref \<Longrightarrow> IsBuiltinNamespace ref"
  by (auto simp: IsBuiltin_def CanonicalBuiltinRef_def IsBuiltinNamespace_def builtinRefs_def
      HumanGatePluginRef_def TextStatsPluginRef_def hasPrefix_def Let_def split: if_splits)

lemma EffectiveNetwork_cases:
  "p_network p \<in> {[], ''allow'', ''deny''} \<Longrightarrow>
     EffectiveNetwork p = ''allow'' \<and> p_network p = ''allow'' \<or> EffectiveNetwork p = ''deny''"
  by (auto simp: EffectiveNetwork_def)

lemma NetworkHasStructured_iff:
  "NetworkHasStructuredDeclarations m \<longleftrightarrow>
     m_network m \<noteq> [] \<and> (\<forall>np \<in> set (m_network m). \<not> np_anyHost np)"
  by (auto simp: NetworkHasStructuredDeclarations_def NetworkRequestsAnyHost_def list_ex_iff)

end
