(* ===== verification/Exec_Graph.thy ===== *)
theory Exec_Graph
  imports Pipeline_Model
begin

text \<open>
  The dependency graph of a pipeline (internal/execution/graph.go): construction from the
  \<open>bind\<close> and \<open>form\<close> references, the topological sort, and the batches of independent
  steps. Go's map iteration order is not determined; the lists here fix one order, and the
  theorems do not depend on it.
\<close>

section \<open>Construction\<close>

record graph =
  g_nodes :: "string list"
  g_edges :: "(string \<times> string list) list"

text \<open>The step a path depends on: \<open>steps.<id>...\<close>, with a trailing \<open>_all\<close> removed.\<close>

definition dep_of :: "string \<Rightarrow> string option" where
  "dep_of v =
     (if hasPrefix v ''steps.'' then
        (let parts = split_dot v in
         if length parts \<ge> 2 then Some (trimSuffix (parts ! 1) ''_all'') else None)
      else None)"

definition step_deps :: "step \<Rightarrow> string list" where
  "step_deps st =
     nub (List.map_filter dep_of (map snd (st_bind st)) @
          List.map_filter (\<lambda>f. dep_of (ff_field f)) (st_form st))"

definition graph_nodes :: "step list \<Rightarrow> graph" where
  "graph_nodes steps =
     \<lparr>g_nodes = nub (map st_id steps), g_edges = map (\<lambda>n. (n, [])) (nub (map st_id steps))\<rparr>"

definition add_step_edges :: "step \<Rightarrow> graph \<Rightarrow> graph" where
  "add_step_edges st g =
     g\<lparr>g_edges := foldl (\<lambda>es dep. if dep = st_id st then es else append_at dep (st_id st) es)
         (g_edges g) (step_deps st)\<rparr>"

definition BuildGraphFromPipeline :: "step list \<Rightarrow> graph" where
  "BuildGraphFromPipeline steps = foldl (\<lambda>g st. add_step_edges st g) (graph_nodes steps) steps"

definition succs :: "graph \<Rightarrow> string \<Rightarrow> string list" where
  "succs g u = lookup_list (g_edges g) u"

section \<open>TopoSort\<close>

definition targets :: "graph \<Rightarrow> string list" where
  "targets g = concat (map snd (g_edges g))"

definition initDeg :: "graph \<Rightarrow> string \<Rightarrow> int" where
  "initDeg g = foldl (\<lambda>d to. d(to := d to + 1)) (\<lambda>_. 0) (targets g)"

text \<open>The inner loop over the neighbours of the node taken from the queue.\<close>

fun relax :: "string list \<Rightarrow> (string \<Rightarrow> int) \<Rightarrow> string list \<Rightarrow> (string \<Rightarrow> int) \<times> string list" where
  "relax [] d queue = (d, queue)"
| "relax (nb # nbs) d queue =
     (let d' = d(nb := d nb - 1) in
      relax nbs d' (if d' nb = 0 then queue @ [nb] else queue))"

definition pos_targets :: "graph \<Rightarrow> (string \<Rightarrow> int) \<Rightarrow> string set" where
  "pos_targets g d = {n \<in> set (targets g). 0 < d n}"

lemma succs_targets: "set (succs g u) \<subseteq> set (targets g)"
proof (cases "map_of (g_edges g) u")
  case (Some vs)
  then have "(u, vs) \<in> set (g_edges g)" by (rule map_of_SomeD)
  with Some show ?thesis by (force simp: succs_def lookup_list_def targets_def)
qed (simp add: succs_def lookup_list_def)

lemma relax_measure:
  "set nbs \<subseteq> set (targets g) \<Longrightarrow> relax nbs d q = (d', q') \<Longrightarrow>
     length q' + card (pos_targets g d') \<le> length q + card (pos_targets g d)"
proof (induction nbs arbitrary: d q)
  case Nil
  then show ?case by simp
next
  case (Cons nb nbs)
  let ?d = "d(nb := d nb - 1)"
  let ?q = "if ?d nb = 0 then q @ [nb] else q"
  have fin: "finite (pos_targets g d)" by (simp add: pos_targets_def)
  have "length ?q + card (pos_targets g ?d) \<le> length q + card (pos_targets g d)"
  proof (cases "d nb = 1")
    case True
    then have "pos_targets g ?d = pos_targets g d - {nb}"
      by (auto simp: pos_targets_def)
    moreover have "nb \<in> pos_targets g d"
      using True Cons.prems(1) by (simp add: pos_targets_def)
    ultimately have "card (pos_targets g ?d) + 1 = card (pos_targets g d)"
      using fin by (metis Suc_eq_plus1 card_Suc_Diff1)
    with True show ?thesis by simp
  next
    case False
    have "pos_targets g ?d \<subseteq> pos_targets g d"
      by (auto simp: pos_targets_def split: if_splits)
    with fin have "card (pos_targets g ?d) \<le> card (pos_targets g d)"
      by (rule card_mono)
    with False show ?thesis by simp
  qed
  moreover have rec: "relax nbs ?d ?q = (d', q')"
    using Cons.prems(2) by (simp add: Let_def)
  have "length q' + card (pos_targets g d') \<le> length ?q + card (pos_targets g ?d)"
    by (rule Cons.IH [OF _ rec]) (use Cons.prems(1) in simp)
  ultimately show ?case by (rule order_trans [rotated])
qed

function topo_loop ::
  "graph \<Rightarrow> (string \<Rightarrow> int) \<Rightarrow> string list \<Rightarrow> string list \<Rightarrow> string list" where
  "topo_loop g d [] order = order"
| "topo_loop g d (cur # queue) order =
     (case relax (succs g cur) d queue of
        (d', queue') \<Rightarrow> topo_loop g d' queue' (order @ [cur]))"
  by pat_completeness auto
termination
proof (relation "measure (\<lambda>(g, d, queue, order). length queue + card (pos_targets g d))",
    goal_cases)
  case 1
  then show ?case by simp
next
  case prems: 2
  show ?case
    using relax_measure [OF succs_targets prems [symmetric]] by simp
qed

definition TopoSort :: "graph \<Rightarrow> string list option" where
  "TopoSort g =
     (let d = initDeg g;
          order = topo_loop g d (filter (\<lambda>n. d n = 0) (g_nodes g)) []
      in if length order \<noteq> length (g_nodes g) then None else Some order)"

section \<open>IndependentBatches\<close>

text \<open>The highest level among the already levelled predecessors of \<open>n\<close>, -1 if there is none.\<close>

definition maxDep :: "graph \<Rightarrow> (string \<rightharpoonup> int) \<Rightarrow> string \<Rightarrow> int" where
  "maxDep g level n =
     foldl (\<lambda>acc (from, tos).
        if List.member tos n then (case level from of Some l \<Rightarrow> max acc l | None \<Rightarrow> acc) else acc)
       (-1) (g_edges g)"

definition levels :: "graph \<Rightarrow> string list \<Rightarrow> (string \<rightharpoonup> int)" where
  "levels g order = foldl (\<lambda>level n. level(n \<mapsto> maxDep g level n + 1)) Map.empty order"

definition level_of :: "(string \<rightharpoonup> int) \<Rightarrow> string \<Rightarrow> int" where
  "level_of level n = (case level n of Some l \<Rightarrow> l | None \<Rightarrow> 0)"

definition IndependentBatches :: "graph \<Rightarrow> string list list option" where
  "IndependentBatches g =
     (case TopoSort g of
        None \<Rightarrow> None
      | Some order \<Rightarrow>
          (let level = levels g order;
               maxLevel = foldl (\<lambda>acc n. max acc (level_of level n)) 0 order
           in Some (map (\<lambda>l. filter (\<lambda>n. level_of level n = int l) (g_nodes g))
                      [0..<nat maxLevel + 1])))"

section \<open>Correctness of the sort\<close>

definition edge_rel :: "graph \<Rightarrow> (string \<times> string) set" where
  "edge_rel g = {(u, v). v \<in> set (succs g u)}"

text \<open>
  Every built graph is of this form: the edge map has one entry per key, the nodes are
  distinct, and every edge ends in a node. Its start may be a name that is no step.
\<close>

definition graph_wf :: "graph \<Rightarrow> bool" where
  "graph_wf g \<longleftrightarrow> distinct (map fst (g_edges g)) \<and> distinct (g_nodes g) \<and>
     set (targets g) \<subseteq> set (g_nodes g)"

definition no_dangling :: "graph \<Rightarrow> bool" where
  "no_dangling g \<longleftrightarrow> fst ` edge_rel g \<subseteq> set (g_nodes g)"

text \<open>The number of edges into \<open>v\<close> from sources outside \<open>S\<close>.\<close>

definition openDeg :: "graph \<Rightarrow> string set \<Rightarrow> string \<Rightarrow> int" where
  "openDeg g S v = (\<Sum>(u, vs) \<leftarrow> g_edges g. if u \<in> S then 0 else int (count_list vs v))"

lemma foldl_incr: "foldl (\<lambda>d to. d(to := d to + 1)) d xs v = d v + int (count_list xs v)"
  by (induction xs arbitrary: d) auto

lemma count_list_concat: "int (count_list (concat xss) v) = (\<Sum>xs \<leftarrow> xss. int (count_list xs v))"
  by (induction xss) auto

lemma initDeg_openDeg: "initDeg g v = openDeg g {} v"
  by (simp add: initDeg_def foldl_incr targets_def count_list_concat openDeg_def o_def split_def)

lemma openDeg_nonneg: "0 \<le> openDeg g S v"
  by (auto simp: openDeg_def intro!: sum_list_nonneg)

lemma sum_list_insert_key:
  "distinct (map fst es) \<Longrightarrow> u \<notin> S \<Longrightarrow>
    (\<Sum>(k, vs) \<leftarrow> es. if k \<in> insert u S then 0 else int (count_list vs v)) =
    (\<Sum>(k, vs) \<leftarrow> es. if k \<in> S then 0 else int (count_list vs v))
      - int (count_list (lookup_list es u) v)"
proof (induction es)
  case Nil
  then show ?case by (simp add: lookup_list_def)
next
  case (Cons e es)
  obtain k vs where e: "e = (k, vs)" by (cases e)
  show ?case
  proof (cases "k = u")
    case True
    with Cons.prems e have "u \<notin> fst ` set es" by auto
    then have "(\<Sum>(k, vs) \<leftarrow> es. if k \<in> insert u S then 0 else int (count_list vs v)) =
        (\<Sum>(k, vs) \<leftarrow> es. if k \<in> S then 0 else int (count_list vs v))"
      by (intro arg_cong [where f = sum_list] map_cong) (auto simp: image_iff)
    with True e Cons.prems show ?thesis by (simp add: lookup_list_def)
  next
    case False
    with Cons e show ?thesis by (auto simp: lookup_list_def)
  qed
qed

lemma openDeg_insert:
  "distinct (map fst (g_edges g)) \<Longrightarrow> u \<notin> S \<Longrightarrow>
     openDeg g (insert u S) v = openDeg g S v - int (count_list (succs g u) v)"
  unfolding openDeg_def succs_def by (rule sum_list_insert_key)

lemma elem_le_sum_list_int:
  "x \<in> set xs \<Longrightarrow> \<forall>y \<in> set xs. 0 \<le> f y \<Longrightarrow> f x \<le> (\<Sum>y \<leftarrow> xs. f y :: int)"
proof (induction xs)
  case (Cons z xs)
  then have "0 \<le> (\<Sum>y \<leftarrow> xs. f y)" by (auto intro!: sum_list_nonneg)
  with Cons show ?case by fastforce
qed simp

lemma openDeg_zero:
  assumes "openDeg g S v = 0" and "v \<in> set (succs g u)"
  shows "u \<in> S"
proof (rule ccontr)
  assume u: "u \<notin> S"
  from assms(2) obtain vs where m: "map_of (g_edges g) u = Some vs" and v: "v \<in> set vs"
    by (cases "map_of (g_edges g) u") (auto simp: succs_def lookup_list_def)
  let ?f = "\<lambda>e. case e of (u, vs) \<Rightarrow> if u \<in> S then 0 else int (count_list vs v)"
  from m have mem: "(u, vs) \<in> set (g_edges g)" by (rule map_of_SomeD)
  have "?f (u, vs) > 0" using u v by (simp add: count_list_0_iff neq0_conv [symmetric])
  moreover have "?f (u, vs) \<le> (\<Sum>e \<leftarrow> g_edges g. ?f e)"
    by (rule elem_le_sum_list_int) (use mem in \<open>auto split: prod.splits\<close>)
  ultimately show False using assms(1) by (simp add: openDeg_def)
qed

lemma openDeg_pos:
  assumes "openDeg g S v \<noteq> 0" and "distinct (map fst (g_edges g))"
  obtains u where "u \<notin> S" and "v \<in> set (succs g u)"
proof -
  have "\<exists>(u, vs) \<in> set (g_edges g). u \<notin> S \<and> v \<in> set vs"
  proof (rule ccontr)
    assume a: "\<not> ?thesis"
    have "openDeg g S v = (\<Sum>e \<leftarrow> g_edges g. 0)"
      unfolding openDeg_def
      by (intro arg_cong [where f = sum_list] map_cong) (use a in \<open>auto simp: count_list_0_iff\<close>)
    with assms(1) show False by simp
  qed
  then obtain u vs where "(u, vs) \<in> set (g_edges g)" "u \<notin> S" "v \<in> set vs" by blast
  with assms(2) show thesis
    by (intro that [of u]) (auto simp: succs_def lookup_list_def)
qed

lemma edge_rel_targets: "(u, v) \<in> edge_rel g \<Longrightarrow> v \<in> set (targets g)"
  using succs_targets by (auto simp: edge_rel_def)

lemma relax_spec:
  "\<forall>v. int (count_list nbs v) \<le> d v \<Longrightarrow> relax nbs d q = (d', q') \<Longrightarrow>
     (\<forall>v. d' v = d v - int (count_list nbs v)) \<and>
     (\<exists>new. q' = q @ new \<and> distinct new \<and> set new = {v. 0 < d v \<and> d' v = 0})"
proof (induction nbs arbitrary: d q)
  case Nil
  then show ?case by auto
next
  case (Cons nb nbs)
  let ?d = "d(nb := d nb - 1)"
  let ?q = "if ?d nb = 0 then q @ [nb] else q"
  have le: "\<forall>v. int (count_list nbs v) \<le> ?d v"
    using Cons.prems(1) by (auto dest: spec split: if_splits)
  have "relax nbs ?d ?q = (d', q')"
    using Cons.prems(2) by (simp add: Let_def)
  from Cons.IH [OF le this] obtain new where
    d': "\<And>v. d' v = ?d v - int (count_list nbs v)" and
    new: "q' = ?q @ new" "distinct new" "set new = {v. 0 < ?d v \<and> d' v = 0}"
    by blast
  have dec: "\<forall>v. d' v = d v - int (count_list (nb # nbs) v)"
    using d' by auto
  have ge: "1 \<le> d nb" "int (count_list nbs nb) \<le> d nb - 1"
    using Cons.prems(1) [rule_format, of nb] by auto
  show ?case
  proof (cases "d nb = 1")
    case True
    with ge d' [of nb] have "d' nb = 0" by simp
    have "q' = q @ nb # new" using new(1) True by simp
    moreover have "distinct (nb # new)" using new(2,3) True by simp
    moreover have "set (nb # new) = {v. 0 < d v \<and> d' v = 0}"
      using new(3) True \<open>d' nb = 0\<close> by auto
    ultimately show ?thesis using dec by blast
  next
    case False
    then have "q' = q @ new" and "set new = {v. 0 < d v \<and> d' v = 0}"
      using new(1,3) ge(1) by auto
    with new(2) dec show ?thesis by blast
  qed
qed

text \<open>A list in which every node comes after its predecessors, those in \<open>S\<close> being done.\<close>

fun precFrom :: "graph \<Rightarrow> string set \<Rightarrow> string list \<Rightarrow> bool" where
  "precFrom g S [] = True"
| "precFrom g S (v # vs) = ({u. (u, v) \<in> edge_rel g} \<subseteq> S \<and> precFrom g (insert v S) vs)"

text \<open>The invariant of the main loop.\<close>

definition topo_inv :: "graph \<Rightarrow> (string \<Rightarrow> int) \<Rightarrow> string list \<Rightarrow> string list \<Rightarrow> bool" where
  "topo_inv g d queue order \<longleftrightarrow>
     distinct (order @ queue) \<and> set (order @ queue) \<subseteq> set (g_nodes g) \<and>
     (\<forall>v. d v = openDeg g (set order) v) \<and>
     {v \<in> set (g_nodes g). d v = 0} \<subseteq> set (order @ queue) \<and>
     (\<forall>v \<in> set (order @ queue). d v = 0)"

lemma topo_inv_step:
  assumes wf: "graph_wf g" and inv: "topo_inv g d (cur # queue) order"
    and rel: "relax (succs g cur) d queue = (d', queue')"
  shows "topo_inv g d' queue' (order @ [cur])"
proof -
  have cur: "cur \<notin> set order" and deg: "\<And>v. d v = openDeg g (set order) v"
    using inv by (auto simp: topo_inv_def)
  have step: "openDeg g (insert cur (set order)) v = d v - int (count_list (succs g cur) v)" for v
    using wf cur deg by (simp add: graph_wf_def openDeg_insert)
  have le: "\<forall>v. int (count_list (succs g cur) v) \<le> d v"
    using openDeg_nonneg [of g "insert cur (set order)"] by (simp add: step)
  from relax_spec [OF le rel] obtain new where
    d': "\<And>v. d' v = d v - int (count_list (succs g cur) v)" and
    new: "queue' = queue @ new" "distinct new" "set new = {v. 0 < d v \<and> d' v = 0}"
    by blast
  have "set new \<subseteq> set (g_nodes g)"
  proof
    fix v assume "v \<in> set new"
    with new d' [of v] have "count_list (succs g cur) v \<noteq> 0" by auto
    then have "v \<in> set (succs g cur)" by (simp add: count_list_0_iff)
    with succs_targets wf show "v \<in> set (g_nodes g)" by (auto simp: graph_wf_def)
  qed
  moreover have "d' v = 0" if "d v = 0" for v
    using that le [rule_format, of v] d' [of v] by simp
  moreover have pos: "0 < d v" if "d v \<noteq> 0" for v
    using that openDeg_nonneg [of g "set order" v] by (simp add: deg)
  moreover have "v \<in> set (order @ cur # queue) \<union> set new" if "v \<in> set (g_nodes g)" "d' v = 0" for v
    using that inv new(3) pos [of v] by (cases "d v = 0") (auto simp: topo_inv_def)
  moreover have "d' v = openDeg g (set (order @ [cur])) v" for v
    using step [of v] d' [of v] by simp
  moreover have "set new \<inter> set (order @ cur # queue) = {}"
    using inv new(3) by (auto simp: topo_inv_def)
  ultimately show ?thesis
    using inv new unfolding topo_inv_def by auto
qed

lemma topo_loop_spec:
  "graph_wf g \<Longrightarrow> topo_inv g d queue order \<Longrightarrow>
     \<exists>rest. topo_loop g d queue order = order @ rest \<and> precFrom g (set order) rest \<and>
       (\<exists>d'. topo_inv g d' [] (order @ rest))"
proof (induction g d queue order rule: topo_loop.induct)
  case (1 g d order)
  then show ?case by auto
next
  case (2 g d cur queue order)
  obtain d' queue' where rel: "relax (succs g cur) d queue = (d', queue')"
    by (cases "relax (succs g cur) d queue")
  from 2(1) [OF rel [symmetric] 2(2) topo_inv_step [OF 2(2,3) rel]] obtain rest where
    rest: "topo_loop g d' queue' (order @ [cur]) = (order @ [cur]) @ rest"
    "precFrom g (set (order @ [cur])) rest" "\<exists>d'. topo_inv g d' [] ((order @ [cur]) @ rest)"
    by blast
  have "openDeg g (set order) cur = 0"
    using 2(3) by (auto simp: topo_inv_def)
  then have "{u. (u, cur) \<in> edge_rel g} \<subseteq> set order"
    by (auto simp: edge_rel_def dest: openDeg_zero)
  with rest rel show ?case by (intro exI [of _ "cur # rest"]) auto
qed

lemma topo_inv_init:
  "graph_wf g \<Longrightarrow> topo_inv g (initDeg g) (filter (\<lambda>n. initDeg g n = 0) (g_nodes g)) []"
  by (auto simp: topo_inv_def graph_wf_def initDeg_openDeg)

lemma TopoSort_order:
  assumes "graph_wf g"
  obtains order d where "TopoSort g = (if set order = set (g_nodes g) then Some order else None)"
    and "distinct order" and "precFrom g {} order" and "topo_inv g d [] order"
proof -
  from topo_loop_spec [OF assms topo_inv_init [OF assms]] obtain order d where
    o: "topo_loop g (initDeg g) (filter (\<lambda>n. initDeg g n = 0) (g_nodes g)) [] = order"
    "precFrom g {} order" "topo_inv g d [] order" by auto
  have dist: "distinct order" and sub: "set order \<subseteq> set (g_nodes g)"
    using o(3) by (auto simp: topo_inv_def)
  have "length order = length (g_nodes g) \<longleftrightarrow> set order = set (g_nodes g)"
    using dist sub assms
    by (metis List.finite_set card_subset_eq distinct_card graph_wf_def)
  with o dist show thesis by (intro that [of order d]) (auto simp: TopoSort_def Let_def)
qed

lemma precFrom_index:
  "precFrom g S xs \<Longrightarrow> v \<in> set xs \<Longrightarrow> (u, v) \<in> edge_rel g \<Longrightarrow> u \<notin> S \<Longrightarrow>
     length (takeWhile (\<lambda>x. x \<noteq> u) xs) < length (takeWhile (\<lambda>x. x \<noteq> v) xs)"
  by (induction xs arbitrary: S) auto

lemma precFrom_mem:
  "precFrom g S xs \<Longrightarrow> v \<in> set xs \<Longrightarrow> (u, v) \<in> edge_rel g \<Longrightarrow> u \<in> S \<union> set xs"
  by (induction xs arbitrary: S) auto

lemma precFrom_acyclic:
  assumes "precFrom g {} xs" and "snd ` edge_rel g \<subseteq> set xs"
  shows "acyclic (edge_rel g)"
proof (rule wf_acyclic, rule wf_subset)
  show "wf (measure (\<lambda>v. length (takeWhile (\<lambda>x. x \<noteq> v) xs)))" by simp
  show "edge_rel g \<subseteq> measure (\<lambda>v. length (takeWhile (\<lambda>x. x \<noteq> v) xs))"
    using precFrom_index [OF assms(1)] assms(2) by (force simp: image_subset_iff)
qed

lemma finite_edge_rel: "finite (edge_rel g)"
proof (rule finite_subset)
  show "edge_rel g \<subseteq> fst ` set (g_edges g) \<times> set (targets g)"
  proof
    fix e assume e: "e \<in> edge_rel g"
    obtain u v where uv: "e = (u, v)" by (cases e)
    with e have "map_of (g_edges g) u \<noteq> None"
      by (auto simp: edge_rel_def succs_def mem_lookup_list)
    then have "u \<in> fst ` set (g_edges g)" by (simp add: map_of_eq_None_iff)
    with e uv edge_rel_targets show "e \<in> fst ` set (g_edges g) \<times> set (targets g)" by auto
  qed
qed simp

lemma TopoSort_Some_iff:
  assumes wf: "graph_wf g"
  shows "(\<exists>order. TopoSort g = Some order) \<longleftrightarrow> acyclic (edge_rel g) \<and> no_dangling g"
proof -
  from TopoSort_order [OF wf] obtain order d where
    t: "TopoSort g = (if set order = set (g_nodes g) then Some order else None)" and
    r: "precFrom g {} order" and i: "topo_inv g d [] order" by blast
  have tgt: "snd ` edge_rel g \<subseteq> set (g_nodes g)"
    using wf by (auto simp: graph_wf_def dest: edge_rel_targets)
  show ?thesis
  proof (cases "set order = set (g_nodes g)")
    case True
    have "no_dangling g"
      using precFrom_mem [OF r] tgt True by (force simp: no_dangling_def)
    with True t precFrom_acyclic [OF r] tgt show ?thesis by auto
  next
    case False
    define R where "R = set (g_nodes g) - set order"
    have "R \<noteq> {}" using False i by (auto simp: R_def topo_inv_def)
    have pred: "\<exists>u \<in> R. (u, v) \<in> edge_rel g" if v: "v \<in> R" and nd: "no_dangling g" for v
    proof -
      from v i have "openDeg g (set order) v \<noteq> 0" by (auto simp: R_def topo_inv_def)
      moreover from wf have "distinct (map fst (g_edges g))" by (simp add: graph_wf_def)
      ultimately obtain u where "u \<notin> set order" "v \<in> set (succs g u)" by (rule openDeg_pos)
      with nd show ?thesis by (force simp: edge_rel_def no_dangling_def R_def)
    qed
    have "\<not> (acyclic (edge_rel g) \<and> no_dangling g)"
    proof
      assume a: "acyclic (edge_rel g) \<and> no_dangling g"
      then have "wf (edge_rel g)" by (simp add: finite_acyclic_wf finite_edge_rel)
      with \<open>R \<noteq> {}\<close> obtain v where "v \<in> R" "\<And>u. (u, v) \<in> edge_rel g \<Longrightarrow> u \<notin> R"
        by (metis all_not_in_conv wfE_min)
      with pred a show False by blast
    qed
    with False t show ?thesis by auto
  qed
qed

lemma TopoSort_sorted:
  assumes "graph_wf g" and "TopoSort g = Some order"
  shows "distinct order" and "set order = set (g_nodes g)" and "precFrom g {} order"
  using TopoSort_order [OF assms(1)] assms(2) by (metis option.distinct(1) option.inject)+

section \<open>The graph of a pipeline\<close>

lemma lookup_add_edges:
  "lookup_list (foldl (\<lambda>es dep. if dep = w then es else append_at dep w es) es deps) u =
     lookup_list es u @ (if u = w then [] else replicate (count_list deps u) w)"
  by (induction deps arbitrary: es) (auto simp: replicate_append_same [symmetric])

lemma wf_add_edges:
  "distinct (map fst es) \<Longrightarrow>
     distinct (map fst (foldl (\<lambda>es dep. if dep = w then es else append_at dep w es) es deps))"
  by (induction deps arbitrary: es) (auto simp: wf_append_at)

lemma step_deps_distinct [simp]: "distinct (step_deps st)"
  by (simp add: step_deps_def)

text \<open>\<open>v\<close> depends on \<open>u\<close>: some step \<open>v\<close> reads \<open>steps.u...\<close> in a binding or in its form.\<close>

definition depends :: "step list \<Rightarrow> (string \<times> string) set" where
  "depends steps = {(u, v). u \<noteq> v \<and> (\<exists>st \<in> set steps. st_id st = v \<and> u \<in> set (step_deps st))}"

lemma foldl_add_step:
  "g_nodes (foldl (\<lambda>g st. add_step_edges st g) g steps) = g_nodes g \<and>
   (distinct (map fst (g_edges g)) \<longrightarrow>
      distinct (map fst (g_edges (foldl (\<lambda>g st. add_step_edges st g) g steps)))) \<and>
   set (succs (foldl (\<lambda>g st. add_step_edges st g) g steps) u) =
     set (succs g u) \<union> {v. (u, v) \<in> depends steps}"
proof (induction steps arbitrary: g)
  case Nil
  then show ?case by (simp add: depends_def)
next
  case (Cons st steps)
  have "set (succs (add_step_edges st g) u) =
      set (succs g u) \<union> (if u \<noteq> st_id st \<and> u \<in> set (step_deps st) then {st_id st} else {})"
    by (auto simp: succs_def add_step_edges_def lookup_add_edges set_replicate_conv_if count_list_0_iff)
  with Cons [of "add_step_edges st g"] show ?case
    by (auto simp: depends_def add_step_edges_def wf_add_edges split: if_splits)
qed

lemma succs_graph_nodes [simp]: "succs (graph_nodes steps) u = []"
proof -
  have "lookup_list (map (\<lambda>n. (n, [])) ns) u = []" for ns :: "string list"
    by (induction ns) (auto simp: lookup_list_def)
  then show ?thesis by (simp add: succs_def graph_nodes_def)
qed

lemma Build_nodes [simp]: "g_nodes (BuildGraphFromPipeline steps) = nub (map st_id steps)"
  using foldl_add_step [of "graph_nodes steps" steps]
  by (simp add: BuildGraphFromPipeline_def graph_nodes_def)

lemma Build_edge_rel [simp]: "edge_rel (BuildGraphFromPipeline steps) = depends steps"
  using foldl_add_step [of "graph_nodes steps" steps]
  by (auto simp: BuildGraphFromPipeline_def edge_rel_def)

lemma targets_edge_rel:
  "distinct (map fst (g_edges g)) \<Longrightarrow> set (targets g) = snd ` edge_rel g"
  using edge_rel_targets
  by (force simp: targets_def edge_rel_def succs_def lookup_list_def)

lemma graph_wf_Build: "graph_wf (BuildGraphFromPipeline steps)"
proof -
  have d: "distinct (map fst (g_edges (BuildGraphFromPipeline steps)))"
    using foldl_add_step [of "graph_nodes steps" steps]
    by (simp add: BuildGraphFromPipeline_def graph_nodes_def o_def)
  have "snd ` depends steps \<subseteq> set (map st_id steps)" by (auto simp: depends_def)
  with d show ?thesis by (simp add: graph_wf_def targets_edge_rel)
qed

section \<open>Batches\<close>

lemma foldl_max_ge:
  "acc \<le> foldl (\<lambda>acc x. max acc (f x)) acc xs \<and>
   (\<forall>x \<in> set xs. f x \<le> foldl (\<lambda>acc x. max acc (f x)) (acc :: int) xs)"
proof (induction xs arbitrary: acc)
  case (Cons a xs)
  from Cons [of "max acc (f a)"] show ?case by auto
qed simp

lemma maxDep_foldl:
  "acc \<le> foldl (\<lambda>acc (from, tos). if List.member tos n
       then (case level from of Some l \<Rightarrow> max acc l | None \<Rightarrow> acc) else acc) acc es \<and>
   (\<forall>(from, tos) \<in> set es. n \<in> set tos \<longrightarrow> (\<forall>l. level from = Some l \<longrightarrow>
     l \<le> foldl (\<lambda>acc (from, tos). if List.member tos n
       then (case level from of Some l \<Rightarrow> max acc l | None \<Rightarrow> acc) else acc) (acc :: int) es))"
proof (induction es arbitrary: acc)
  case (Cons e es)
  obtain k tos where e: "e = (k, tos)" by (cases e)
  let ?fold = "foldl (\<lambda>acc (from, tos). if List.member tos n
       then (case level from of Some l \<Rightarrow> max acc l | None \<Rightarrow> acc) else acc)"
  let ?acc = "if List.member tos n
       then (case level k of Some l \<Rightarrow> max acc l | None \<Rightarrow> acc) else acc"
  have "acc \<le> ?acc" and "n \<in> set tos \<Longrightarrow> level k = Some l \<Longrightarrow> l \<le> ?acc" for l
    by (auto split: option.splits)
  moreover have "?acc \<le> ?fold ?acc es" and "\<forall>(from, tos) \<in> set es. n \<in> set tos \<longrightarrow>
      (\<forall>l. level from = Some l \<longrightarrow> l \<le> ?fold ?acc es)"
    using Cons.IH [of ?acc] by auto
  moreover have "?fold acc (e # es) = ?fold ?acc es" by (simp add: e)
  ultimately show ?case by (auto simp: e intro: order_trans)
qed simp

lemma maxDep_ge: "-1 \<le> maxDep g level n"
  using maxDep_foldl unfolding maxDep_def by fast

lemma maxDep_pred:
  assumes "n \<in> set (succs g u)" and "level u = Some l"
  shows "l \<le> maxDep g level n"
proof -
  from assms(1) obtain tos where "(u, tos) \<in> set (g_edges g)" "n \<in> set tos"
    by (cases "map_of (g_edges g) u") (auto simp: succs_def lookup_list_def dest: map_of_SomeD)
  with assms(2) show ?thesis
    using maxDep_foldl [of "-1" n level "g_edges g"] unfolding maxDep_def by fast
qed

definition forward :: "graph \<Rightarrow> (string \<rightharpoonup> int) \<Rightarrow> string \<Rightarrow> bool" where
  "forward g level v \<longleftrightarrow> (\<exists>l. level v = Some l \<and> 0 \<le> l \<and>
     (\<forall>u. (u, v) \<in> edge_rel g \<longrightarrow> (\<exists>k. level u = Some k \<and> k < l)))"

lemma levels_spec:
  "precFrom g (dom lv) xs \<Longrightarrow> distinct xs \<Longrightarrow> set xs \<inter> dom lv = {} \<Longrightarrow>
     \<exists>lv'. foldl (\<lambda>level n. level(n \<mapsto> maxDep g level n + 1)) lv xs = lv' \<and>
       (\<forall>u \<in> dom lv. lv' u = lv u) \<and> dom lv' = dom lv \<union> set xs \<and>
       (\<forall>v \<in> set xs. forward g lv' v)"
proof (induction xs arbitrary: lv)
  case Nil
  then show ?case by auto
next
  case (Cons v xs)
  let ?lv = "lv(v \<mapsto> maxDep g lv v + 1)"
  have v: "v \<notin> dom lv" and pre: "{u. (u, v) \<in> edge_rel g} \<subseteq> dom lv"
    using Cons.prems by auto
  have "precFrom g (dom ?lv) xs" "distinct xs" "set xs \<inter> dom ?lv = {}"
    using Cons.prems by auto
  from Cons.IH [OF this] obtain lv' where
    lv': "foldl (\<lambda>level n. level(n \<mapsto> maxDep g level n + 1)) ?lv xs = lv'"
    "\<forall>u \<in> dom ?lv. lv' u = ?lv u" "dom lv' = dom ?lv \<union> set xs" "\<forall>v \<in> set xs. forward g lv' v"
    by blast
  have "forward g lv' v"
    unfolding forward_def
  proof (intro exI conjI allI impI)
    show "lv' v = Some (maxDep g lv v + 1)" using lv'(2) by simp
    show "0 \<le> maxDep g lv v + 1" using maxDep_ge [of g lv v] by simp
    fix u assume u: "(u, v) \<in> edge_rel g"
    with pre obtain k where k: "lv u = Some k" by blast
    with v have "lv' u = Some k" using lv'(2) by (metis domI dom_fun_upd fun_upd_other insertI2 option.simps(3))
    then show "lv' u = Some (the (lv u))" using k by simp
    show "the (lv u) < maxDep g lv v + 1"
      using maxDep_pred [of v g u lv] u k by (simp add: edge_rel_def)
  qed
  moreover have "\<forall>u \<in> dom lv. lv' u = lv u"
    using lv'(2) v by auto
  moreover have "dom lv' = dom lv \<union> set (v # xs)" using lv'(3) by simp
  moreover have "\<forall>w \<in> set (v # xs). forward g lv' w"
    using \<open>forward g lv' v\<close> lv'(4) by simp
  ultimately show ?case using lv'(1) unfolding foldl_Cons by blast
qed

lemma distinct_concat_filter:
  "inj h \<Longrightarrow> distinct xs \<Longrightarrow> distinct ls \<Longrightarrow>
     distinct (concat (map (\<lambda>l. filter (\<lambda>n. f n = h l) xs) ls))"
  by (induction ls) (auto dest: injD)

lemma IndependentBatches_spec:
  assumes wf: "graph_wf g" and b: "IndependentBatches g = Some bs"
  shows "distinct (concat bs)" and "set (concat bs) = set (g_nodes g)"
    and "\<lbrakk>(u, v) \<in> edge_rel g; i < length bs; j < length bs; u \<in> set (bs ! i); v \<in> set (bs ! j)\<rbrakk>
         \<Longrightarrow> i < j"
proof -
  from b obtain order where t: "TopoSort g = Some order"
    by (auto simp: IndependentBatches_def split: option.splits)
  note o = TopoSort_sorted [OF wf t]
  define lv where "lv = levels g order"
  define mx where "mx = foldl (\<lambda>acc n. max acc (level_of lv n)) 0 order"
  have fw: "\<forall>v \<in> set order. forward g lv v"
    using levels_spec [of g Map.empty order] o by (simp add: lv_def levels_def)
  have bs: "bs = map (\<lambda>l. filter (\<lambda>n. level_of lv n = int l) (g_nodes g)) [0..<nat mx + 1]"
    using b t by (simp add: IndependentBatches_def lv_def mx_def Let_def)
  have mx: "level_of lv n \<le> mx" "0 \<le> mx" if "n \<in> set order" for n
    using foldl_max_ge [of 0 "level_of lv" order] that by (auto simp: mx_def)
  have nn: "0 \<le> level_of lv n" if "n \<in> set order" for n
    using fw that by (auto simp: forward_def level_of_def)
  show "distinct (concat bs)"
    unfolding bs using wf
    by (intro distinct_concat_filter) (simp_all add: graph_wf_def inj_on_def)
  show "set (concat bs) = set (g_nodes g)"
  proof
    show "set (g_nodes g) \<subseteq> set (concat bs)"
    proof
      fix n assume n: "n \<in> set (g_nodes g)"
      then have "n \<in> set order" by (simp add: o(2))
      then have "level_of lv n = int (nat (level_of lv n))" "nat (level_of lv n) < nat mx + 1"
        using nn mx by (auto simp: nat_le_iff less_Suc_eq_le)
      with n show "n \<in> set (concat bs)" unfolding bs
        by (auto simp del: upt_Suc int_nat_eq intro!: bexI [of _ "nat (level_of lv n)"])
    qed
  qed (auto simp: bs)
  assume e: "(u, v) \<in> edge_rel g" and ij: "i < length bs" "j < length bs"
    and mem: "u \<in> set (bs ! i)" "v \<in> set (bs ! j)"
  have "level_of lv u = int i" "level_of lv v = int j" "v \<in> set order"
    using ij mem by (auto simp: bs o(2) simp del: upt_Suc)
  with fw e show "i < j" by (fastforce simp: forward_def level_of_def)
qed

section \<open>Properties\<close>

text \<open>
  The topological sort of a pipeline's graph succeeds exactly when the dependencies have
  no cycle and every name a step depends on is a step of the pipeline. (For a reference to an
  unknown step it reports a cycle.)
\<close>

lemma TopoSort_succeeds_iff:
  "TopoSort (BuildGraphFromPipeline steps) \<noteq> None \<longleftrightarrow>
     acyclic (depends steps) \<and> fst ` depends steps \<subseteq> st_id ` set steps"
  using TopoSort_Some_iff [OF graph_wf_Build, of steps] by (simp add: no_dangling_def)

text \<open>
  The order it returns lists every step once, and every step after the steps it depends on.
\<close>

lemma TopoSort_order_sound:
  assumes "TopoSort (BuildGraphFromPipeline steps) = Some order"
  shows "distinct order \<and> set order = st_id ` set steps \<and>
    (\<forall>(u, v) \<in> depends steps. \<exists>a b c. order = a @ u # b @ v # c)"
proof -
  note o = TopoSort_sorted [OF graph_wf_Build assms]
  have split: "\<exists>a b c. order = a @ u # b @ v # c" if e: "(u, v) \<in> depends steps" for u v
  proof -
    from e have "v \<in> set order" unfolding o(2) by (auto simp: depends_def)
    then have lt: "length (takeWhile (\<lambda>x. x \<noteq> u) order) < length (takeWhile (\<lambda>x. x \<noteq> v) order)"
      using precFrom_index [OF o(3)] e by simp
    from \<open>v \<in> set order\<close> obtain p c where p: "order = p @ v # c" "v \<notin> set p"
      by (meson split_list_first)
    with lt have "u \<in> set p" by (auto simp: takeWhile_append split: if_splits)
    then obtain a b where "p = a @ u # b" by (meson split_list)
    with p show ?thesis by auto
  qed
  with o show ?thesis by auto
qed

text \<open>
  The batches partition the steps, and a step lies in a strictly later batch than every
  step it depends on: the steps of one batch are independent of each other.
\<close>

lemma IndependentBatches_sound:
  assumes "IndependentBatches (BuildGraphFromPipeline steps) = Some bs"
  shows "distinct (concat bs) \<and> set (concat bs) = st_id ` set steps \<and>
    (\<forall>i j u v. i < length bs \<and> j < length bs \<and> u \<in> set (bs ! i) \<and> v \<in> set (bs ! j) \<and>
       (u, v) \<in> depends steps \<longrightarrow> i < j)"
  using IndependentBatches_spec [OF graph_wf_Build assms] by auto

definition demo_steps :: "step list" where
  "demo_steps =
     [zero_step\<lparr>st_id := ''a''\<rparr>,
      zero_step\<lparr>st_id := ''b'', st_bind := [(''x'', ''steps.a.v'')]\<rparr>,
      zero_step\<lparr>st_id := ''c'', st_bind := [(''x'', ''steps.b_all.v''), (''y'', ''steps.a.v'')]\<rparr>]"

end
