(* ===== verification/When_Cond.thy ===== *)
theory When_Cond
  imports Pipeline_Model
begin

text \<open>
  Step conditions (internal/pipeline/when.go): the operators, truthiness, equality that
  ignores the numeric representation, and the evaluation of a condition over a context.
\<close>

definition IsSet :: "whenCond \<Rightarrow> bool" where
  "IsSet w = (w_path w \<noteq> [])"

definition WhenOps :: "string list" where
  "WhenOps = [''truthy'', ''exists'', ''missing'', ''eq'', ''neq'', ''gt'', ''gte'', ''lt'',
     ''lte'', ''contains'']"

text \<open>
  \<open>UnmarshalYAML\<close>: a scalar node is a path with the operator \<open>truthy\<close>, a mapping node has a
  path, an operator (\<open>eq\<close> when empty) and a value. The YAML decoder is not in the sources;
  the two node kinds are its results.
\<close>

datatype whenNode = WhenScalar string | WhenMap string string json

datatype whenParseError = EmptyCondition | PathRequired

fun unmarshalWhen :: "whenNode \<Rightarrow> whenParseError + whenCond" where
  "unmarshalWhen (WhenScalar s) =
     (if s = [] then Inl EmptyCondition
      else Inr \<lparr>w_path = s, w_op = ''truthy'', w_value = JNull\<rparr>)"
| "unmarshalWhen (WhenMap path op value) =
     (if path = [] then Inl PathRequired
      else Inr \<lparr>w_path = path, w_op = (if op = [] then ''eq'' else op), w_value = value\<rparr>)"

fun toFloat :: "json \<Rightarrow> f64 option" where
  "toFloat (JFloat x) = Some x"
| "toFloat (JInt x) = Some (f64_of_int x)"
| "toFloat _ = None"

fun isTruthy :: "json \<Rightarrow> bool" where
  "isTruthy JNull = False"
| "isTruthy (JBool b) = b"
| "isTruthy (JStr s) = (s \<noteq> [])"
| "isTruthy (JArr xs) = (length xs > 0)"
| "isTruthy (JObj m) = (length m > 0)"
| "isTruthy v = (case toFloat v of None \<Rightarrow> False | Some f \<Rightarrow> \<not> f64_eq f (Fin 0))"

text \<open>\<open>valueEqual(a, b, aFound)\<close>; a missing left side is \<open>None\<close> and equals null.\<close>

definition valueEqual :: "json option \<Rightarrow> json \<Rightarrow> bool" where
  "valueEqual a b =
     (let an = (case a of None \<Rightarrow> True | Some v \<Rightarrow> v = JNull); bn = (b = JNull) in
      if an \<or> bn then an \<and> bn
      else case a of
        None \<Rightarrow> False
      | Some v \<Rightarrow>
          (case toFloat v of
             Some af \<Rightarrow> (case toFloat b of None \<Rightarrow> False | Some bf \<Rightarrow> f64_eq af bf)
           | None \<Rightarrow> (if toFloat b \<noteq> None then False else deepEqual v b)))"

definition containsValue :: "json \<Rightarrow> json \<Rightarrow> bool" where
  "containsValue haystack needle =
     (case haystack of
        JStr s \<Rightarrow> (case needle of JStr ns \<Rightarrow> contains s ns | _ \<Rightarrow> False)
      | JArr arr \<Rightarrow> list_ex (\<lambda>el. valueEqual (Some el) needle) arr
      | _ \<Rightarrow> False)"

datatype whenError = NotNumeric | UnknownOp

definition EvaluateWhen :: "whenCond \<Rightarrow> obj \<Rightarrow> whenError + bool" where
  "EvaluateWhen w data =
     (let v = ResolvePath (w_path w) data; op = w_op w in
      if op = ''exists'' then Inr (v \<noteq> None)
      else if op = ''missing'' then Inr (v = None)
      else if op = ''truthy'' then Inr (case v of None \<Rightarrow> False | Some x \<Rightarrow> isTruthy x)
      else if op = ''eq'' then Inr (valueEqual v (w_value w))
      else if op = ''neq'' then Inr (\<not> valueEqual v (w_value w))
      else if op \<in> {''gt'', ''gte'', ''lt'', ''lte''} then
        (case (Option.bind v toFloat, toFloat (w_value w)) of
           (Some lhs, Some rhs) \<Rightarrow>
             Inr (if op = ''gt'' then f64_lt rhs lhs
                  else if op = ''gte'' then f64_le rhs lhs
                  else if op = ''lt'' then f64_lt lhs rhs
                  else f64_le lhs rhs)
         | _ \<Rightarrow> Inl NotNumeric)
      else if op = ''contains'' then
        Inr (case v of None \<Rightarrow> False | Some x \<Rightarrow> containsValue x (w_value w))
      else Inl UnknownOp)"

section \<open>Lemmas\<close>

lemma toFloat_isTruthy:
  "toFloat v = Some f \<Longrightarrow> isTruthy v \<longleftrightarrow> \<not> f64_eq f (Fin 0)"
  by (cases v) auto

text \<open>The errors of an evaluation: an operator outside the list, or a non-number compared.\<close>

lemma EvaluateWhen_UnknownOp:
  "EvaluateWhen w data = Inl UnknownOp \<longleftrightarrow> w_op w \<notin> set WhenOps"
  by (auto simp: EvaluateWhen_def WhenOps_def Let_def split: option.splits)

lemma EvaluateWhen_NotNumeric:
  "EvaluateWhen w data = Inl NotNumeric \<longleftrightarrow>
     w_op w \<in> {''gt'', ''gte'', ''lt'', ''lte''} \<and>
     (Option.bind (ResolvePath (w_path w) data) toFloat = None \<or> toFloat (w_value w) = None)"
  by (auto simp: EvaluateWhen_def Let_def split: option.splits)

lemma valueEqual_int_float:
  "\<bar>i\<bar> < 2 ^ 53 \<Longrightarrow> valueEqual (Some (JFloat (Fin (of_int i)))) (JInt i)"
  by (simp add: valueEqual_def f64_of_int_exact)

end
