(* ===== verification/Plugin_Contract.thy ===== *)
theory Plugin_Contract
  imports Pipeline_Model
begin

text \<open>
  The runtime contract between the engine and a plugin (internal/plugin/contract.go,
  \<open>EnforceOutput\<close> of internal/plugin/process.go, \<open>buildInput\<close> of
  internal/execution/runner.go): kinds, string formats, the check of one value against a
  port, the assembly of a plugin's input and the filtering of its output.
\<close>

section \<open>IP literals (net.ParseIP)\<close>

definition isDigit :: "char \<Rightarrow> bool" where
  "isDigit c \<longleftrightarrow> 48 \<le> (of_char c :: nat) \<and> (of_char c :: nat) \<le> 57"

definition digit_val :: "char \<Rightarrow> nat" where
  "digit_val c = of_char c - 48"

definition dec_val :: "string \<Rightarrow> nat" where
  "dec_val s = foldl (\<lambda>acc c. acc * 10 + digit_val c) 0 s"

definition octet :: "string \<Rightarrow> nat option" where
  "octet s =
     (if s \<noteq> [] \<and> list_all isDigit s \<and> length s \<le> 3 \<and> (length s = 1 \<or> hd s \<noteq> CHR ''0'')
         \<and> dec_val s \<le> 255
      then Some (dec_val s) else None)"

fun collect :: "'a option list \<Rightarrow> 'a list option" where
  "collect [] = Some []"
| "collect (x # xs) =
     (case x of None \<Rightarrow> None
      | Some v \<Rightarrow> (case collect xs of None \<Rightarrow> None | Some vs \<Rightarrow> Some (v # vs)))"

definition parseIPv4 :: "string \<Rightarrow> nat list option" where
  "parseIPv4 s =
     (let parts = split_dot s in if length parts = 4 then collect (map octet parts) else None)"

definition hex_val :: "char \<Rightarrow> nat option" where
  "hex_val c =
     (let n = (of_char c :: nat) in
      if 48 \<le> n \<and> n \<le> 57 then Some (n - 48)
      else if 97 \<le> n \<and> n \<le> 102 then Some (n - 87)
      else if 65 \<le> n \<and> n \<le> 70 then Some (n - 55) else None)"

abbreviation is_hex :: "char \<Rightarrow> bool" where "is_hex c \<equiv> hex_val c \<noteq> None"

definition hex_num :: "string \<Rightarrow> nat" where
  "hex_num s = foldl (\<lambda>acc c. acc * 16 + (case hex_val c of None \<Rightarrow> 0 | Some d \<Rightarrow> d)) 0 s"

text \<open>
  The group loop of the IPv6 parser: \<open>acc\<close> holds the bytes read so far, \<open>ell\<close> the position
  of \<open>::\<close>; the first argument bounds the number of groups (there are at most eight).
\<close>

fun ipv6_groups :: "nat \<Rightarrow> string \<Rightarrow> nat list \<Rightarrow> nat option \<Rightarrow> (nat list \<times> nat option) option" where
  "ipv6_groups 0 s acc ell = (if s = [] then Some (acc, ell) else None)"
| "ipv6_groups (Suc k) s acc ell =
     (if length acc \<ge> 16 then (if s = [] then Some (acc, ell) else None)
      else
        (let g = takeWhile is_hex s; rest = dropWhile is_hex s in
         if g = [] \<or> length g > 4 then None
         else if rest \<noteq> [] \<and> hd rest = CHR ''.'' then
           (if ell = None \<and> length acc \<noteq> 12 then None
            else if length acc + 4 > 16 then None
            else case parseIPv4 s of None \<Rightarrow> None | Some b \<Rightarrow> Some (acc @ b, ell))
         else
           (let acc' = acc @ [hex_num g div 256, hex_num g mod 256] in
            if rest = [] then Some (acc', ell)
            else if hd rest \<noteq> CHR '':'' \<or> length rest = 1 then None
            else if rest ! 1 = CHR '':'' then
              (if ell \<noteq> None then None
               else if length rest = 2 then Some (acc', Some (length acc'))
               else ipv6_groups k (drop 2 rest) acc' (Some (length acc')))
            else ipv6_groups k (tl rest) acc' ell)))"

definition parseIPv6 :: "string \<Rightarrow> nat list option" where
  "parseIPv6 s =
     (let start = (if hasPrefix s ''::'' then (drop 2 s, Some 0) else (s, None)) in
      if hasPrefix s ''::'' \<and> length s = 2 then Some (replicate 16 0)
      else case ipv6_groups 8 (fst start) [] (snd start) of
        None \<Rightarrow> None
      | Some (b, ell) \<Rightarrow>
          (if length b < 16 then
             (case ell of None \<Rightarrow> None
              | Some e \<Rightarrow> Some (take e b @ replicate (16 - length b) 0 @ drop e b))
           else if ell \<noteq> None then None else Some b))"

text \<open>The 16-byte form, IPv4 addresses mapped into \<open>::ffff:0:0/96\<close>; zones are refused.\<close>

definition ParseIP :: "string \<Rightarrow> nat list option" where
  "ParseIP s =
     (case find (\<lambda>c. c = CHR ''.'' \<or> c = CHR '':'' \<or> c = CHR ''%'') s of
        None \<Rightarrow> None
      | Some c \<Rightarrow>
          (if c = CHR ''.'' then
             map_option (\<lambda>b. replicate 10 0 @ [255, 255] @ b) (parseIPv4 s)
           else if c = CHR '':'' then parseIPv6 s
           else None))"

section \<open>internal/plugin/contract.go\<close>

fun pluginKindOf :: "json \<Rightarrow> string" where
  "pluginKindOf (JBool _) = ''boolean''"
| "pluginKindOf (JFloat _) = ''number''"
| "pluginKindOf (JInt _) = ''number''"
| "pluginKindOf (JStr _) = ''string''"
| "pluginKindOf (JArr _) = ''array''"
| "pluginKindOf (JObj _) = ''object''"
| "pluginKindOf JNull = ''null''"
| "pluginKindOf (JOther t) = (if t = ''uint64'' then ''number'' else ''unknown'')"

text \<open>The white space of \<open>\s\<close> in a Go regular expression.\<close>

definition re_space :: "char \<Rightarrow> bool" where
  "re_space c = (c \<in> set [CHR 0x09, CHR 0x0A, CHR 0x0C, CHR 0x0D, CHR 0x20])"

text \<open>\<open>^[^@\s]+@[^@\s]+$\<close>: one at sign between two non-empty parts without white space.\<close>

definition emailRe :: "string \<Rightarrow> bool" where
  "emailRe s =
     (case split_on (CHR ''@'') s of
        [a, b] \<Rightarrow> a \<noteq> [] \<and> b \<noteq> [] \<and> \<not> list_ex re_space s
      | _ \<Rightarrow> False)"

text \<open>\<open>^https?://\S+$\<close>.\<close>

definition contractURLRe :: "string \<Rightarrow> bool" where
  "contractURLRe s =
     (let rest = (if hasPrefix s ''http://'' then drop 7 s
                  else if hasPrefix s ''https://'' then drop 8 s else [])
      in rest \<noteq> [] \<and> \<not> list_ex re_space rest)"

definition FormatOK :: "string \<Rightarrow> string \<Rightarrow> bool" where
  "FormatOK format s =
     (if format = [] \<or> format = ''text'' then True
      else if format = ''email'' then emailRe s
      else if format = ''url'' then contractURLRe s
      else if format = ''ip'' then ParseIP s \<noteq> None
      else if format = ''file_ref'' then s \<noteq> []
      else True)"

datatype contractError =
    WrongType string string
  | BadFormat string
  | MissingOutput string
  | PathNotFound string

definition CheckValue :: "string \<Rightarrow> port \<Rightarrow> json \<Rightarrow> contractError option" where
  "CheckValue portName port v =
     (if po_type port \<noteq> [] \<and> pluginKindOf v \<noteq> po_type port
      then Some (WrongType portName (pluginKindOf v))
      else if po_format port \<noteq> [] then
        (case v of
           JStr s \<Rightarrow> (if \<not> FormatOK (po_format port) s then Some (BadFormat portName) else None)
         | _ \<Rightarrow> None)
      else None)"

section \<open>internal/plugin/process.go: EnforceOutput\<close>

text \<open>The first loop: declared keys are kept, the others are dropped.\<close>

definition declared_part :: "manifest \<Rightarrow> obj \<Rightarrow> obj" where
  "declared_part m out = filter (\<lambda>(k, v). map_of (m_output m) k \<noteq> None) out"

definition dropped_part :: "manifest \<Rightarrow> obj \<Rightarrow> string list" where
  "dropped_part m out = map fst (filter (\<lambda>(k, v). map_of (m_output m) k = None) out)"

text \<open>The second loop, over the declared ports.\<close>

fun check_ports :: "(string \<times> port) list \<Rightarrow> obj \<Rightarrow> contractError option" where
  "check_ports [] clean = None"
| "check_ports ((name, port) # ps) clean =
     (case map_of clean name of
        None \<Rightarrow> (if \<not> po_optional port then Some (MissingOutput name) else check_ports ps clean)
      | Some v \<Rightarrow>
          (case CheckValue name port v of
             Some e \<Rightarrow> Some e
           | None \<Rightarrow> check_ports ps clean))"

definition EnforceOutput :: "manifest \<Rightarrow> obj \<Rightarrow> (contractError + obj) \<times> string list" where
  "EnforceOutput m out =
     (let clean = declared_part m out in
      (case check_ports (m_output m) clean of
         Some e \<Rightarrow> Inl e
       | None \<Rightarrow> Inr clean, dropped_part m out))"

section \<open>internal/execution/runner.go: buildInput\<close>

fun build_ports :: "(string \<times> port) list \<Rightarrow> step \<Rightarrow> obj \<Rightarrow> obj \<Rightarrow> contractError + obj" where
  "build_ports [] st data inp = Inr inp"
| "build_ports ((name, port) # ps) st data inp =
     (case Get (PortSource name port st) data of
        None \<Rightarrow>
          (if po_optional port then build_ports ps st data inp else Inl (PathNotFound name))
      | Some v \<Rightarrow>
          (case CheckValue name port v of
             Some e \<Rightarrow> Inl e
           | None \<Rightarrow> build_ports ps st data (AList.update name v inp)))"

definition buildInput :: "manifest \<Rightarrow> step \<Rightarrow> obj \<Rightarrow> contractError + obj" where
  "buildInput m st data = build_ports (m_input m) st data []"

section \<open>Lemmas\<close>

text \<open>What a value promised by a port looks like.\<close>

definition conforms :: "port \<Rightarrow> json \<Rightarrow> bool" where
  "conforms port v \<longleftrightarrow>
     (po_type port = [] \<or> pluginKindOf v = po_type port) \<and>
     (\<forall>s. v = JStr s \<longrightarrow> FormatOK (po_format port) s)"

lemma CheckValue_None_iff: "CheckValue name port v = None \<longleftrightarrow> conforms port v"
  by (auto simp: CheckValue_def conforms_def FormatOK_def split: json.splits)

lemma CheckValue_SomeD: "CheckValue name port v = Some e \<Longrightarrow> \<not> conforms port v"
  by (simp flip: CheckValue_None_iff [of name])

lemma map_of_declared_part:
  "map_of (declared_part m out) k =
     (if map_of (m_output m) k \<noteq> None then map_of out k else None)"
  by (induction out) (auto simp: declared_part_def)

lemma wf_declared_part: "wf_map out \<Longrightarrow> wf_map (declared_part m out)"
  by (induction out) (auto simp: declared_part_def)

text \<open>Whether the output keeps the promise of a port.\<close>

definition port_kept :: "obj \<Rightarrow> string \<times> port \<Rightarrow> bool" where
  "port_kept clean np \<longleftrightarrow>
     (case map_of clean (fst np) of
        None \<Rightarrow> po_optional (snd np)
      | Some v \<Rightarrow> conforms (snd np) v)"

lemma check_ports_None_iff:
  "check_ports ps clean = None \<longleftrightarrow> (\<forall>np \<in> set ps. port_kept clean np)"
proof (induction ps)
  case Nil
  then show ?case by simp
next
  case (Cons p ps)
  then show ?case
    by (cases p)
       (auto simp: port_kept_def CheckValue_None_iff dest: CheckValue_SomeD split: option.splits)
qed

text \<open>Whether a port can be fed: its source resolves to a conforming value, or it may stay empty.\<close>

definition port_fed :: "step \<Rightarrow> obj \<Rightarrow> string \<times> port \<Rightarrow> bool" where
  "port_fed st data np \<longleftrightarrow>
     (case Get (PortSource (fst np) (snd np) st) data of
        None \<Rightarrow> po_optional (snd np)
      | Some v \<Rightarrow> conforms (snd np) v)"

lemma build_ports_Inr_iff:
  "(\<exists>out. build_ports ps st data inp = Inr out) \<longleftrightarrow> (\<forall>np \<in> set ps. port_fed st data np)"
proof (induction ps arbitrary: inp)
  case Nil
  then show ?case by simp
next
  case (Cons p ps)
  then show ?case
    by (cases p)
       (auto simp: port_fed_def CheckValue_None_iff dest: CheckValue_SomeD split: option.splits)
qed

text \<open>The value a successful assembly puts under each port name.\<close>

lemma build_ports_map_of:
  "build_ports ps st data inp = Inr out \<Longrightarrow> distinct (map fst ps) \<Longrightarrow>
     map_of out name =
       (case map_of ps name of
          None \<Rightarrow> map_of inp name
        | Some port \<Rightarrow>
            (case Get (PortSource name port st) data of
               None \<Rightarrow> map_of inp name
             | Some v \<Rightarrow> Some v))"
proof (induction ps arbitrary: inp)
  case Nil
  then show ?case by simp
next
  case (Cons p ps)
  obtain n port where p: "p = (n, port)" by (cases p)
  have notin: "n \<notin> fst ` set ps" and dist: "distinct (map fst ps)"
    using Cons.prems(2) p by auto
  then have none: "map_of ps n = None" by (simp add: map_of_eq_None_iff)
  show ?case
  proof (cases "Get (PortSource n port st) data")
    case None
    with Cons.prems(1) p have "build_ports ps st data inp = Inr out"
      by (auto split: if_splits)
    from Cons.IH [OF this dist] None p none show ?thesis by auto
  next
    case (Some v)
    with Cons.prems(1) p have "build_ports ps st data (AList.update n v inp) = Inr out"
      by (auto split: option.splits)
    from Cons.IH [OF this dist] Some p none show ?thesis
      by (auto split: option.splits)
  qed
qed

end
