(* ===== verification/Plugin_Trust.thy ===== *)
theory Plugin_Trust
  imports Pipeline_Model
begin

text \<open>
  Who is trusted to run without isolation (internal/plugin/trust.go, trustlist.go): the
  operator's allow-list, the digest of a plugin's content, and the decision. The file tree of a
  plugin directory and SHA-256 are parameters; paths are those of a Unix system.
\<close>

section \<open>path/filepath\<close>

abbreviation slash :: char where "slash \<equiv> CHR ''/''"

text \<open>\<open>filepath.Clean\<close>: the stack of components, \<open>rooted\<close> for an absolute path.\<close>

definition clean_push :: "bool \<Rightarrow> string list \<Rightarrow> string \<Rightarrow> string list" where
  "clean_push rooted st c =
     (if c = [] \<or> c = ''.'' then st
      else if c = ''..'' then
        (if st \<noteq> [] \<and> last st \<noteq> ''..'' then butlast st
         else if rooted then st else st @ [c])
      else st @ [c])"

definition path_clean :: "string \<Rightarrow> string" where
  "path_clean p =
     (let rooted = hasPrefix p ''/'';
          comps = foldl (clean_push rooted) [] (split_on slash p);
          body = join ''/'' comps
      in if rooted then CHR ''/'' # body else if body = [] then ''.'' else body)"

section \<open>trust.go: plugins written by an agent\<close>

definition AgentPluginDir :: string where "AgentPluginDir = ''agent-plugins''"

definition IsAgentWrittenPlugin :: "manifest option \<Rightarrow> bool" where
  "IsAgentWrittenPlugin mo =
     (case mo of
        None \<Rightarrow> False
      | Some m \<Rightarrow> m_dir m \<noteq> [] \<and>
          list_ex (\<lambda>part. part \<noteq> [] \<and> part = path_clean AgentPluginDir)
            (split_on slash (path_clean (m_dir m))))"

section \<open>trustlist.go: the digest\<close>

definition ignoredByName :: "string \<Rightarrow> bool" where
  "ignoredByName rel \<longleftrightarrow> rel = ''.fidespipe'' \<or> rel = ''.wedra''"

definition entryIsHashed :: "string \<Rightarrow> bool" where
  "entryIsHashed entry0 =
     (let entry = trimSpace entry0 in
      if entry = [] then True
      else let clean = path_clean entry in
        if clean = ''.'' \<or> clean = ''..'' \<or> hasPrefix clean ''../'' \<or> hasPrefix entry ''/'' \<or>
           hasPrefix clean ''/''
        then False else \<not> ignoredByName clean)"

text \<open>
  What \<open>filepath.WalkDir\<close> meets below a plugin directory, with paths relative to it; \<open>NFile\<close>
  without content is a file that cannot be read.
\<close>

datatype node = NDir string | NFile string "string option" | NSymlink string | NOther string | NError

type_synonym digest_item = "string \<times> string option"

fun digest_items :: "node list \<Rightarrow> digest_item list option" where
  "digest_items [] = Some []"
| "digest_items (NDir _ # ns) = digest_items ns"
| "digest_items (NFile rel c # ns) =
     (if ignoredByName rel then digest_items ns else map_option (\<lambda>r. (rel, c) # r) (digest_items ns))"
| "digest_items (NSymlink _ # ns) = None"
| "digest_items (NOther _ # ns) = None"
| "digest_items (NError # ns) = None"

fun str_less :: "string \<Rightarrow> string \<Rightarrow> bool" where
  "str_less _ [] = False"
| "str_less [] (y # ys) = True"
| "str_less (x # xs) (y # ys) =
     ((of_char x :: nat) < of_char y \<or> x = y \<and> str_less xs ys)"

fun insert_item :: "digest_item \<Rightarrow> digest_item list \<Rightarrow> digest_item list" where
  "insert_item i [] = [i]"
| "insert_item i (j # js) =
     (if str_less (fst j) (fst i) then j # insert_item i js else i # j # js)"

definition sort_items :: "digest_item list \<Rightarrow> digest_item list" where
  "sort_items is = foldr insert_item is []"

text \<open>The bytes fed to the hash: name, NUL, size in decimal, NUL, content.\<close>

abbreviation nul :: char where "nul \<equiv> CHR 0x00"

fun digest_bytes :: "digest_item list \<Rightarrow> string option" where
  "digest_bytes [] = Some []"
| "digest_bytes ((rel, None) # is) = None"
| "digest_bytes ((rel, Some c) # is) =
     map_option (\<lambda>r. rel @ nul # nat_digits (length c) @ nul # c @ r) (digest_bytes is)"

definition ContentDigest ::
  "(string \<Rightarrow> node list option) \<Rightarrow> (string \<Rightarrow> string) \<Rightarrow> string \<Rightarrow> string option" where
  "ContentDigest tree sha dir =
     (if trimSpace dir = [] then None
      else case tree dir of
        None \<Rightarrow> None
      | Some ns \<Rightarrow>
          (case digest_items ns of
             None \<Rightarrow> None
           | Some is \<Rightarrow>
               map_option (\<lambda>b. ''sha256:'' @ sha b) (digest_bytes (sort_items is))))"

section \<open>trustlist.go: the allow-list\<close>

type_synonym allowList = "(string \<times> string list) list"

definition NewAllowList :: allowList where "NewAllowList = []"

text \<open>\<open>Allow\<close>: the new list, and whether the record was added.\<close>

definition Allow :: "string \<Rightarrow> string \<Rightarrow> allowList \<Rightarrow> allowList \<times> bool" where
  "Allow id0 hash0 a =
     (let pid = trimSpace id0; hash = trimSpace hash0 in
      if pid = [] \<or> hash = [] then (a, False)
      else
        let hs = lookup_list a pid;
            a' = (if map_of a pid = None then AList.update pid [] a else a) in
        if List.member hs hash then (a', False) else (append_at pid hash a', True))"

definition Allows :: "allowList option \<Rightarrow> string \<Rightarrow> string \<Rightarrow> bool" where
  "Allows ao pid hash =
     (case ao of
        None \<Rightarrow> False
      | Some a \<Rightarrow>
          (case map_of a (trimSpace pid) of
             None \<Rightarrow> False
           | Some hs \<Rightarrow> List.member hs (trimSpace hash)))"

definition allow_all :: "string \<Rightarrow> string list \<Rightarrow> allowList \<Rightarrow> allowList" where
  "allow_all pid hs a = foldl (\<lambda>a h. fst (Allow pid h a)) a hs"

definition Merge :: "allowList \<Rightarrow> allowList option \<Rightarrow> allowList" where
  "Merge a other =
     (case other of
        None \<Rightarrow> a
      | Some o' \<Rightarrow> foldl (\<lambda>a (pid, hs). allow_all pid hs a) a o')"

definition Clone :: "allowList option \<Rightarrow> allowList" where
  "Clone a = Merge NewAllowList a"

definition isHex :: "char \<Rightarrow> bool" where
  "isHex c \<longleftrightarrow> c \<in> set ''0123456789abcdef''"

definition ValidateAllowHash :: "string \<Rightarrow> bool" where
  "ValidateAllowHash hash =
     (if \<not> hasPrefix hash ''sha256:'' then False
      else
        let hex = drop (length ''sha256:'') hash in
        if length hex \<noteq> 64 then False
        else list_all isHex hex)"

fun index_of :: "char \<Rightarrow> string \<Rightarrow> nat option" where
  "index_of c [] = None"
| "index_of c (x # xs) = (if x = c then Some 0 else map_option Suc (index_of c xs))"

definition SplitAllowEntry :: "string \<Rightarrow> (string \<times> string) option" where
  "SplitAllowEntry entry0 =
     (let entry = trimSpace entry0 in
      if entry = [] then None
      else case index_of (CHR ''@'') entry of
        None \<Rightarrow> None
      | Some idx \<Rightarrow>
          if idx = 0 then None
          else
            let hash = drop (idx + 1) entry in
            if ValidateAllowHash hash then Some (take idx entry, hash) else None)"

definition AllowEntry :: "string \<Rightarrow> allowList \<Rightarrow> allowList option" where
  "AllowEntry entry a =
     (case SplitAllowEntry entry of
        None \<Rightarrow> None
      | Some (pid, hash) \<Rightarrow> Some (fst (Allow pid hash a)))"

text \<open>The list part of \<open>LoadTrustConfig\<close>: the version check and the entries of a decoded file.\<close>

fun allow_entries :: "string list \<Rightarrow> allowList \<Rightarrow> allowList option" where
  "allow_entries [] a = Some a"
| "allow_entries (e # es) a =
     (case AllowEntry e a of None \<Rightarrow> None | Some a' \<Rightarrow> allow_entries es a')"

definition load_config :: "string \<Rightarrow> string list \<Rightarrow> allowList option" where
  "load_config version entries =
     (if version \<noteq> [] \<and> version \<noteq> ''0.1'' then None else allow_entries entries NewAllowList)"

section \<open>trust.go: the decision\<close>

record trustPolicy =
  tp_deny :: bool
  tp_allow :: bool
  tp_trusted :: "allowList option"

datatype trustReason = NoManifest | AgentWritten | DeclaredUntrusted | EntryNotHashed | NoDigest | NotListed

record trustDecision =
  td_trusted :: bool
  td_digest :: string
  td_reason :: "trustReason option"

definition untrusted_because :: "trustReason \<Rightarrow> trustDecision" where
  "untrusted_because r = \<lparr>td_trusted = False, td_digest = [], td_reason = Some r\<rparr>"

record trustWorld =
  tw_walk :: "string \<Rightarrow> node list option"
  tw_sha :: "string \<Rightarrow> string"

definition DecideTrust :: "trustWorld \<Rightarrow> manifest option \<Rightarrow> trustPolicy \<Rightarrow> trustDecision" where
  "DecideTrust tw mo policy =
     (case mo of
        None \<Rightarrow> untrusted_because NoManifest
      | Some m \<Rightarrow>
          if IsAgentWrittenPlugin mo then untrusted_because AgentWritten
          else if m_sandbox m = ''untrusted'' then untrusted_because DeclaredUntrusted
          else if \<not> entryIsHashed (m_entry m) then untrusted_because EntryNotHashed
          else case ContentDigest (tw_walk tw) (tw_sha tw) (m_dir m) of
            None \<Rightarrow> untrusted_because NoDigest
          | Some digest \<Rightarrow>
              if Allows (tp_trusted policy) (m_id m) digest
              then \<lparr>td_trusted = True, td_digest = digest, td_reason = None\<rparr>
              else \<lparr>td_trusted = False, td_digest = digest, td_reason = Some NotListed\<rparr>)"

definition IsTrusted :: "trustWorld \<Rightarrow> manifest option \<Rightarrow> trustPolicy \<Rightarrow> bool" where
  "IsTrusted tw mo policy = td_trusted (DecideTrust tw mo policy)"

text \<open>\<open>enforceTrust\<close>: is the start refused?\<close>

definition enforceTrust :: "trustWorld \<Rightarrow> manifest option \<Rightarrow> trustPolicy \<Rightarrow> bool" where
  "enforceTrust tw mo policy =
     (case mo of
        None \<Rightarrow> False
      | Some m \<Rightarrow>
          let decision = DecideTrust tw mo policy in
          if tp_deny policy then True
          else \<not> td_trusted decision \<and> \<not> tp_allow policy)"

section \<open>The allow-list as a set of records\<close>

text \<open>
  What the trust decision needs from the list: a set of (plugin, hash) records that starts
  empty and only grows by insertion, up to a normalisation of its keys.
\<close>

locale record_set =
  fixes none :: 'a
    and ins :: "string \<Rightarrow> string \<Rightarrow> 'a \<Rightarrow> 'a"
    and has :: "'a \<Rightarrow> string \<Rightarrow> string \<Rightarrow> bool"
    and norm :: "string \<Rightarrow> string"
    and wf :: "'a \<Rightarrow> bool"
  assumes wf_none: "wf none"
    and wf_ins: "wf a \<Longrightarrow> wf (ins i h a)"
    and has_none: "\<not> has none i h"
    and has_ins: "wf a \<Longrightarrow> has (ins i h a) i' h' \<longleftrightarrow>
      has a i' h' \<or> norm i \<noteq> [] \<and> norm h \<noteq> [] \<and> norm i' = norm i \<and> norm h' = norm h"
begin

lemma wf_ins_all: "wf a \<Longrightarrow> wf (foldl (\<lambda>a (i, h). ins i h a) a ps)"
  by (induction ps arbitrary: a) (auto simp: wf_ins split: prod.splits)

lemma has_ins_all:
  "wf a \<Longrightarrow> has (foldl (\<lambda>a (i, h). ins i h a) a ps) i' h' \<longleftrightarrow>
     has a i' h' \<or> (\<exists>(i, h) \<in> set ps. norm i \<noteq> [] \<and> norm h \<noteq> [] \<and> norm i' = norm i \<and> norm h' = norm h)"
proof (induction ps arbitrary: a)
  case Nil
  then show ?case by simp
next
  case (Cons p ps)
  obtain i h where p: "p = (i, h)" by (cases p)
  from Cons.IH [of "ins i h a"] Cons.prems show ?case
    by (auto simp: p has_ins wf_ins)
qed

lemma has_only_listed:
  "has (foldl (\<lambda>a (i, h). ins i h a) none ps) i' h' \<longleftrightarrow>
     (\<exists>(i, h) \<in> set ps. norm i \<noteq> [] \<and> norm h \<noteq> [] \<and> norm i' = norm i \<and> norm h' = norm h)"
  using has_ins_all [OF wf_none] by (simp add: has_none)

end

definition allow_wf :: "allowList \<Rightarrow> bool" where
  "allow_wf a \<longleftrightarrow> distinct (map fst a) \<and>
     (\<forall>i hs. map_of a i = Some hs \<longrightarrow>
        trimSpace i = i \<and> i \<noteq> [] \<and> (\<forall>h \<in> set hs. trimSpace h = h \<and> h \<noteq> []))"

lemma allow_wf_update:
  "allow_wf a \<Longrightarrow> trimSpace k = k \<Longrightarrow> k \<noteq> [] \<Longrightarrow> \<forall>h \<in> set hs. trimSpace h = h \<and> h \<noteq> [] \<Longrightarrow>
     allow_wf (AList.update k hs a)"
  by (simp add: allow_wf_def wf_map_update)

lemma allow_wf_append:
  "allow_wf a \<Longrightarrow> trimSpace k = k \<Longrightarrow> k \<noteq> [] \<Longrightarrow> trimSpace v = v \<Longrightarrow> v \<noteq> [] \<Longrightarrow>
     allow_wf (append_at k v a)"
proof -
  assume a: "allow_wf a" "trimSpace k = k" "k \<noteq> []" and v: "trimSpace v = v" "v \<noteq> []"
  have "\<forall>h \<in> set (lookup_list a k). trimSpace h = h \<and> h \<noteq> []"
  proof
    fix h assume "h \<in> set (lookup_list a k)"
    then obtain hs where "map_of a k = Some hs" "h \<in> set hs" unfolding mem_lookup_list by blast
    with a(1) show "trimSpace h = h \<and> h \<noteq> []" unfolding allow_wf_def by blast
  qed
  with a v show ?thesis unfolding append_at_def by (intro allow_wf_update) auto
qed

lemma allow_wf_Allow: "allow_wf a \<Longrightarrow> allow_wf (fst (Allow i h a))"
  by (auto simp: Allow_def Let_def intro!: allow_wf_append allow_wf_update)

lemma Allows_Allow:
  "Allows (Some (fst (Allow i h a))) i' h' \<longleftrightarrow>
     Allows (Some a) i' h' \<or>
     trimSpace i \<noteq> [] \<and> trimSpace h \<noteq> [] \<and> trimSpace i' = trimSpace i \<and> trimSpace h' = trimSpace h"
  by (auto simp: Allows_def Allow_def Let_def append_at_def lookup_list_def split: option.splits)

interpretation al: record_set NewAllowList "\<lambda>i h a. fst (Allow i h a)" "\<lambda>a. Allows (Some a)"
  trimSpace allow_wf
proof
  show "allow_wf NewAllowList" by (simp add: allow_wf_def NewAllowList_def)
  show "\<not> Allows (Some NewAllowList) i h" for i h by (simp add: Allows_def NewAllowList_def)
qed (simp_all add: allow_wf_Allow Allows_Allow)

definition records :: "allowList \<Rightarrow> (string \<times> string) list" where
  "records a = concat (map (\<lambda>(i, hs). map (\<lambda>h. (i, h)) hs) a)"

lemma Merge_records:
  "Merge a (Some b) = foldl (\<lambda>a (i, h). fst (Allow i h a)) a (records b)"
proof -
  have "allow_all i hs a = foldl (\<lambda>a (i, h). fst (Allow i h a)) a (map (\<lambda>h. (i, h)) hs)" for i hs a
    by (simp add: allow_all_def foldl_map)
  then have "foldl (\<lambda>a (i, hs). allow_all i hs a) a b =
      foldl (\<lambda>a (i, h). fst (Allow i h a)) a (records b)"
    by (induction b arbitrary: a) (auto simp: records_def)
  then show ?thesis by (simp add: Merge_def)
qed

lemma Allows_records:
  assumes "allow_wf b"
  shows "Allows (Some b) i' h' \<longleftrightarrow> (\<exists>(i, h) \<in> set (records b).
     trimSpace i \<noteq> [] \<and> trimSpace h \<noteq> [] \<and> trimSpace i' = trimSpace i \<and> trimSpace h' = trimSpace h)"
proof -
  have mem: "(i, h) \<in> set (records b) \<longleftrightarrow> (\<exists>hs. map_of b i = Some hs \<and> h \<in> set hs)" for i h
    using assms by (auto simp: records_def allow_wf_def)
  have fixed: "trimSpace i = i \<and> i \<noteq> [] \<and> trimSpace h = h \<and> h \<noteq> []"
    if "map_of b i = Some hs" "h \<in> set hs" for i h hs
    using assms that unfolding allow_wf_def by blast
  have "Allows (Some b) i' h' \<longleftrightarrow> (trimSpace i', trimSpace h') \<in> set (records b)"
    by (auto simp: Allows_def mem split: option.splits)
  also have "\<dots> \<longleftrightarrow> (\<exists>(i, h) \<in> set (records b).
     trimSpace i \<noteq> [] \<and> trimSpace h \<noteq> [] \<and> trimSpace i' = trimSpace i \<and> trimSpace h' = trimSpace h)"
  proof
    assume "(trimSpace i', trimSpace h') \<in> set (records b)"
    moreover from this have "trimSpace i' \<noteq> []" "trimSpace h' \<noteq> []" using fixed mem by blast+
    ultimately show "\<exists>(i, h) \<in> set (records b). trimSpace i \<noteq> [] \<and> trimSpace h \<noteq> [] \<and>
        trimSpace i' = trimSpace i \<and> trimSpace h' = trimSpace h"
      by (intro bexI [of _ "(trimSpace i', trimSpace h')"]) auto
  next
    assume "\<exists>(i, h) \<in> set (records b). trimSpace i \<noteq> [] \<and> trimSpace h \<noteq> [] \<and>
        trimSpace i' = trimSpace i \<and> trimSpace h' = trimSpace h"
    then obtain i h where ih: "(i, h) \<in> set (records b)" "trimSpace i' = trimSpace i"
      "trimSpace h' = trimSpace h" by blast
    then have "trimSpace i = i" "trimSpace h = h" using fixed mem by blast+
    with ih show "(trimSpace i', trimSpace h') \<in> set (records b)" by simp
  qed
  finally show ?thesis .
qed

lemma allow_wf_Merge: "allow_wf a \<Longrightarrow> allow_wf (Merge a b)"
  by (cases b) (simp_all add: Merge_def Merge_records [unfolded Merge_def, simplified] al.wf_ins_all)

lemma Allows_Merge:
  "allow_wf a \<Longrightarrow> allow_wf b \<Longrightarrow>
     Allows (Some (Merge a (Some b))) i h \<longleftrightarrow> Allows (Some a) i h \<or> Allows (Some b) i h"
  unfolding Merge_records by (subst al.has_ins_all) (simp_all add: Allows_records [of b])

section \<open>Parsing a record\<close>

lemma index_of_first [simp]: "c \<notin> set a \<Longrightarrow> index_of c (a @ c # b) = Some (length a)"
  by (induction a) auto

lemma index_of_SomeD:
  "index_of c s = Some n \<Longrightarrow> s = take n s @ c # drop (n + 1) s \<and> c \<notin> set (take n s) \<and> n < length s"
  by (induction s arbitrary: n) (auto split: if_splits)

lemma SplitAllowEntry_Some_iff:
  "SplitAllowEntry e = Some (i, h) \<longleftrightarrow>
     trimSpace e = i @ CHR ''@'' # h \<and> i \<noteq> [] \<and> CHR ''@'' \<notin> set i \<and> ValidateAllowHash h"
proof
  assume a: "SplitAllowEntry e = Some (i, h)"
  then obtain n where n: "index_of (CHR ''@'') (trimSpace e) = Some n"
    and r: "0 < n" "i = take n (trimSpace e)" "h = drop (n + 1) (trimSpace e)" "ValidateAllowHash h"
    by (auto simp: SplitAllowEntry_def Let_def split: option.splits if_splits)
  have "i \<noteq> []" using r(1,2) index_of_SomeD [OF n] by auto
  moreover have "trimSpace e = i @ CHR ''@'' # h" "CHR ''@'' \<notin> set i"
    using index_of_SomeD [OF n] unfolding r(2,3) by blast+
  ultimately
  show "trimSpace e = i @ CHR ''@'' # h \<and> i \<noteq> [] \<and> CHR ''@'' \<notin> set i \<and> ValidateAllowHash h"
    using r(4) by blast
qed (simp add: SplitAllowEntry_def)

lemma ValidateAllowHash_iff:
  "ValidateAllowHash h \<longleftrightarrow> (\<exists>x. h = ''sha256:'' @ x \<and> length x = 64 \<and>
     (\<forall>c \<in> set x. isHex c))"
  by (auto simp: ValidateAllowHash_def Let_def list_all_iff hasPrefix_iff)

section \<open>The digest covers the content\<close>

lemma sep_unique:
  "a @ c # r = b @ c # s \<Longrightarrow> c \<notin> set a \<Longrightarrow> c \<notin> set b \<Longrightarrow> a = b \<and> r = s"
proof (induction a arbitrary: b)
  case Nil
  then show ?case by (cases b) auto
next
  case (Cons x a)
  then show ?case by (cases b) auto
qed

lemma nul_notin_digits: "nul \<notin> set (nat_digits n)"
  using nat_digits_range [of nul n] by auto

lemma digest_bytes_inject:
  "digest_bytes is = Some b \<Longrightarrow> digest_bytes js = Some b \<Longrightarrow>
     \<forall>(r, c) \<in> set is \<union> set js. nul \<notin> set r \<Longrightarrow> is = js"
proof (induction "is" arbitrary: js b)
  case Nil
  then show ?case by (cases js rule: digest_bytes.cases) auto
next
  case (Cons i "is")
  obtain r c rest where i: "i = (r, Some c)" and rest: "digest_bytes is = Some rest"
    and b: "b = r @ nul # nat_digits (length c) @ nul # c @ rest"
    using Cons.prems(1) by (cases i; cases "snd i") auto
  obtain r' c' js' rest' where j: "js = (r', Some c') # js'" and rest': "digest_bytes js' = Some rest'"
    and b': "b = r' @ nul # nat_digits (length c') @ nul # c' @ rest'"
    using Cons.prems(2) b by (cases js rule: digest_bytes.cases) auto
  have "nul \<notin> set r" "nul \<notin> set r'" using Cons.prems(3) i j by auto
  with b b' sep_unique have "r = r'"
    and 2: "nat_digits (length c) @ nul # c @ rest = nat_digits (length c') @ nul # c' @ rest'"
    by metis+
  from 2 sep_unique nul_notin_digits have "nat_digits (length c) = nat_digits (length c')"
    and 3: "c @ rest = c' @ rest'" by metis+
  then have "c = c'" "rest = rest'" by simp_all
  with \<open>r = r'\<close> i j rest rest' Cons show ?case by auto
qed

lemma digest_items_set:
  "digest_items ns = Some is \<Longrightarrow>
     set is = {(r, c). NFile r c \<in> set ns \<and> \<not> ignoredByName r}"
  by (induction ns arbitrary: "is" rule: digest_items.induct) (auto split: if_splits)

lemma set_sort_items [simp]: "set (sort_items is) = set is"
proof -
  have "set (insert_item i js) = insert i (set js)" for i js by (induction js) auto
  then show ?thesis by (induction "is") (auto simp: sort_items_def)
qed

section \<open>Properties\<close>


definition hashed_files :: "node list \<Rightarrow> (string \<times> string) set" where
  "hashed_files ns = {(r, c). NFile r (Some c) \<in> set ns \<and> \<not> ignoredByName r}"

text \<open>
  C16. Two directories with the same digest have the same hashed files with the same contents,
  or two different inputs with the same SHA-256 have been found: no file can be added, removed,
  renamed or changed without a new digest.
\<close>

theorem ContentDigest_binds:
  assumes "ContentDigest tree sha dir = Some d" "ContentDigest tree' sha dir' = Some d"
    and "tree dir = Some ns" "tree' dir' = Some ns'"
    and "\<forall>r c. NFile r c \<in> set ns \<union> set ns' \<longrightarrow> nul \<notin> set r"
  shows "hashed_files ns = hashed_files ns' \<or> (\<exists>x y. x \<noteq> y \<and> sha x = sha y)"
proof -
  from assms(1,3) obtain "is" b where i: "digest_items ns = Some is" "digest_bytes (sort_items is) = Some b"
    "d = ''sha256:'' @ sha b" by (auto simp: ContentDigest_def split: if_splits option.splits)
  from assms(2,4) obtain js b' where j: "digest_items ns' = Some js" "digest_bytes (sort_items js) = Some b'"
    "d = ''sha256:'' @ sha b'" by (auto simp: ContentDigest_def split: if_splits option.splits)
  have files: "hashed_files ms = {(r, c). (r, Some c) \<in> set ks}" if "digest_items ms = Some ks" for ms ks
    using digest_items_set [OF that] by (auto simp: hashed_files_def)
  show ?thesis
  proof (cases "b = b'")
    case True
    have "\<forall>(r, c) \<in> set (sort_items is) \<union> set (sort_items js). nul \<notin> set r"
      using assms(5) digest_items_set [OF i(1)] digest_items_set [OF j(1)] by auto
    from digest_bytes_inject [OF i(2) j(2) [folded True] this] have "set is = set js"
      by (metis set_sort_items)
    then show ?thesis by (simp add: files [OF i(1)] files [OF j(1)])
  next
    case False
    moreover have "sha b = sha b'" using i(3) j(3) by simp
    ultimately show ?thesis by blast
  qed
qed

text \<open>
  The list of a trust file allows exactly the records written in it: \<open>i\<close> with \<open>h\<close> is
  allowed if and only if some entry is \<open>id@sha256:...\<close> with that id and hash.
\<close>

lemma load_config_allows:
  assumes "load_config version entries = Some a"
  shows "Allows (Some a) i h \<longleftrightarrow>
    (\<exists>e \<in> set entries. \<exists>i0 h0. SplitAllowEntry e = Some (i0, h0) \<and> trimSpace i0 \<noteq> [] \<and>
       trimSpace h0 \<noteq> [] \<and> trimSpace i = trimSpace i0 \<and> trimSpace h = trimSpace h0)"
proof -
  have gen: "allow_wf a0 \<Longrightarrow> allow_entries es a0 = Some a \<Longrightarrow> Allows (Some a) i h \<longleftrightarrow>
    Allows (Some a0) i h \<or> (\<exists>e \<in> set es. \<exists>i0 h0. SplitAllowEntry e = Some (i0, h0) \<and>
       trimSpace i0 \<noteq> [] \<and> trimSpace h0 \<noteq> [] \<and> trimSpace i = trimSpace i0 \<and>
       trimSpace h = trimSpace h0)" for es a0
  proof (induction es arbitrary: a0)
    case (Cons e es)
    then obtain i0 h0 where e: "SplitAllowEntry e = Some (i0, h0)"
      and rest: "allow_entries es (fst (Allow i0 h0 a0)) = Some a"
      by (auto simp: AllowEntry_def split: option.splits)
    from Cons.IH [OF _ rest] Cons.prems(1) e show ?case
      by (auto simp: allow_wf_Allow Allows_Allow)
  qed simp
  have "allow_entries entries NewAllowList = Some a"
    using assms by (simp add: load_config_def split: if_splits)
  from gen [OF al.wf_none this] show ?thesis by (simp add: al.has_none)
qed

definition demo_hash :: string where
  "demo_hash = ''sha256:'' @ replicate 64 (CHR ''a'')"

definition demo_tree :: "string \<Rightarrow> node list option" where
  "demo_tree d = (if d = ''p'' then Some [NFile ''main.py'' (Some ''x''), NFile ''.fidespipe'' (Some d)]
                  else Some [NFile ''main.py'' (Some ''x'')])"

lemma ContentDigest_binds_witness:
  "hashed_files [NFile ''main.py'' (Some ''x''), NFile ''.fidespipe'' (Some ''p'')] =
     hashed_files [NFile ''main.py'' (Some ''x'')] \<or>
   (\<exists>x y :: string. x \<noteq> y \<and> id x = id y)"
  by (rule ContentDigest_binds [where tree = demo_tree and tree' = demo_tree and dir = "''p''" and
        dir' = "''q''" and d = "''sha256:'' @ ''main.py'' @ nul # ''1'' @ nul # ''x''"])
    (simp_all add: demo_tree_def, code_simp+)

end
