(* ===== verification/Plugin_Exec.thy ===== *)
theory Plugin_Exec
  imports Plugin_Trust
begin

text \<open>
  Running a plugin (internal/plugin/process.go): the checks before the start, the environment
  the process gets, and the classification of what it did. What the operating system answers
  at each point is an \<open>osrun\<close> record; message texts, durations and stderr are left out.
\<close>

section \<open>Results\<close>

record execResult =
  er_output :: obj
  er_errCode :: string
  er_retryable :: bool
  er_platform :: bool
  er_exitCode :: int
  er_cancelled :: bool

definition res_OK :: "execResult \<Rightarrow> bool" where
  "res_OK r \<longleftrightarrow> \<not> er_platform r \<and> er_exitCode r = 0 \<and> er_errCode r = []"

definition ShouldRetry :: "execResult \<Rightarrow> bool" where
  "ShouldRetry r =
     (if er_cancelled r then False
      else if er_errCode r = ''timeout'' then True
      else if er_platform r then False
      else er_retryable r)"

definition PlatformErrCode :: "string \<Rightarrow> string" where
  "PlatformErrCode code =
     (if code = [] then []
      else if hasPrefix code ''platform:'' then code else ''platform:'' @ code)"

definition fresh_result :: execResult where
  "fresh_result = \<lparr>er_output = [], er_errCode = [], er_retryable = False, er_platform = False,
     er_exitCode = -1, er_cancelled = False\<rparr>"

definition platform_fail :: "string \<Rightarrow> execResult \<Rightarrow> execResult" where
  "platform_fail code r = r\<lparr>er_platform := True, er_errCode := code, er_exitCode := 2\<rparr>"

definition cancel_result :: "execResult \<Rightarrow> execResult" where
  "cancel_result r = (platform_fail ''cancelled'' r)\<lparr>er_cancelled := True\<rparr>"

section \<open>The environment of the process\<close>

definition trustedEnvNames :: "string list" where
  "trustedEnvNames =
     [''PATH'', ''PATHEXT'', ''SYSTEMROOT'', ''WINDIR'', ''COMSPEC'', ''TEMP'', ''TMP'', ''TMPDIR'',
      ''LANG'', ''LC_ALL'', ''LC_CTYPE'', ''TZ'', ''HOME'', ''USERPROFILE'', ''APPDATA'',
      ''LOCALAPPDATA'', ''PROGRAMDATA'', ''PROGRAMFILES'', ''PROGRAMFILES(X86)'',
      ''COMMONPROGRAMFILES'', ''COMMONPROGRAMFILES(X86)'', ''COMMONPROGRAMW6432'',
      ''PROGRAMW6432'', ''SYSTEMDRIVE'', ''HOMEDRIVE'', ''HOMEPATH'', ''PUBLIC'', ''USERNAME'',
      ''USERDOMAIN'', ''SESSIONNAME'', ''PROCESSOR_ARCHITECTURE'', ''NUMBER_OF_PROCESSORS'', ''OS'',
      ''PSMODULEPATH'']"

definition untrustedEnvNames :: "string list" where
  "untrustedEnvNames =
     [''PATH'', ''PATHEXT'', ''SYSTEMROOT'', ''WINDIR'', ''COMSPEC'', ''TEMP'', ''TMP'', ''TMPDIR'',
      ''LANG'', ''LC_ALL'', ''LC_CTYPE'', ''TZ'']"

definition upper_char :: "char \<Rightarrow> char" where
  "upper_char c = (if 97 \<le> (of_char c :: nat) \<and> (of_char c :: nat) \<le> 122
                   then char_of ((of_char c :: nat) - 32) else c)"

definition toUpper :: "string \<Rightarrow> string" where
  "toUpper s = map upper_char s"

definition validEnvName :: "string \<Rightarrow> bool" where
  "validEnvName name \<longleftrightarrow> name \<noteq> [] \<and> \<not> containsAny name [CHR ''='', nul]"

definition env_key :: "string \<Rightarrow> string option" where
  "env_key kv = (case index_of (CHR ''='') kv of None \<Rightarrow> None | Some i \<Rightarrow> Some (take i kv))"

definition inherited :: "string list \<Rightarrow> string list \<Rightarrow> string list" where
  "inherited allow environ =
     filter (\<lambda>kv. case index_of (CHR ''='') kv of
        None \<Rightarrow> False
      | Some i \<Rightarrow> i > 0 \<and> validEnvName (take i kv) \<and> toUpper (take i kv) \<in> set allow) environ"

text \<open>\<open>os.LookupEnv\<close>: the value of the first entry with this name.\<close>

definition LookupEnv :: "string list \<Rightarrow> string \<Rightarrow> string option" where
  "LookupEnv environ name =
     (case find (\<lambda>kv. env_key kv = Some name) environ of
        None \<Rightarrow> None | Some kv \<Rightarrow> Some (drop (length name + 1) kv))"

definition baseEnvFor ::
  "string list \<Rightarrow> string \<Rightarrow> manifest \<Rightarrow> string list \<Rightarrow> bool \<Rightarrow> string list" where
  "baseEnvFor environ donorEnv m allow withSecrets =
     (if donorEnv \<noteq> [] then [donorEnv] else []) @ inherited allow environ @
     (if withSecrets
      then List.map_filter (\<lambda>name. if \<not> validEnvName name then None
             else map_option (\<lambda>v. name @ CHR ''='' # v) (LookupEnv environ name)) (m_secrets m)
      else [])"

definition env_pairs :: "string list \<Rightarrow> (string \<times> string) list" where
  "env_pairs kvs = List.map_filter
     (\<lambda>kv. map_option (\<lambda>i. (take i kv, drop (i + 1) kv)) (index_of (CHR ''='') kv)) kvs"

definition mergeEnv :: "string list \<Rightarrow> string list \<Rightarrow> string list" where
  "mergeEnv base extra =
     map (\<lambda>(k, v). k @ CHR ''='' # v)
       (foldl (\<lambda>m (k, v). AList.update k v m) [] (env_pairs base @ env_pairs extra))"

section \<open>Execution\<close>

datatype ctxState = Running | ParentDone | DeadlineHit | ChildCancelled
datatype waitOutcome = WaitOk | WaitExit int | WaitDelay int | WaitOther

record wireError =
  we_code :: string
  we_retryable :: bool

datatype wire = WireEmpty | WireGarbage | Wire string "obj option" "wireError option"

record osrun =
  os_cancelled :: bool
  os_python :: bool
  os_abs :: bool
  os_environ :: "string list"
  os_donorEnv :: string
  os_sandbox :: bool
  os_netSetup :: bool
  os_scratchEnv :: "string list"
  os_egress :: "string list option"
  os_group :: bool
  os_start :: bool
  os_attach :: bool
  os_netAttach :: bool
  os_ctxAtFail :: ctxState
  os_ctxAtEnd :: ctxState
  os_wait :: waitOutcome
  os_overflow :: bool
  os_stdout :: wire

definition markContextResult :: "ctxState \<Rightarrow> execResult \<Rightarrow> execResult option" where
  "markContextResult c r =
     (case c of
        Running \<Rightarrow> None
      | ParentDone \<Rightarrow> Some (cancel_result r)
      | DeadlineHit \<Rightarrow> Some (platform_fail ''timeout'' r)
      | ChildCancelled \<Rightarrow> Some (cancel_result r))"

definition declaresNetwork :: "manifest \<Rightarrow> bool" where
  "declaresNetwork m = NetworkRequestsAnyHost m"

record launch =
  la_isolated :: bool
  la_env :: "string list"

text \<open>
  \<open>cmd.Env\<close> before the caller's variables; \<open>needProxy\<close>: the egress filter was started and its
  address is passed.
\<close>

definition plugin_env :: "osrun \<Rightarrow> manifest \<Rightarrow> bool \<Rightarrow> bool \<Rightarrow> string list" where
  "plugin_env os m trusted needProxy =
     (if trusted then baseEnvFor (os_environ os) (os_donorEnv os) m trustedEnvNames True
      else baseEnvFor (os_environ os) (os_donorEnv os) m untrustedEnvNames False @ os_scratchEnv os @
           (if needProxy then (case os_egress os of None \<Rightarrow> [] | Some e \<Rightarrow> e) else [])) @
     (if m_rtType m = ''python'' then [''PYTHONUTF8=1'', ''PYTHONDONTWRITEBYTECODE=1''] else [])"

text \<open>Everything up to the built command: a refusal, or how the process is going to be started.\<close>

definition exec_prepare ::
  "trustWorld \<Rightarrow> trustPolicy \<Rightarrow> osrun \<Rightarrow> manifest \<Rightarrow> string list \<Rightarrow> execResult + launch" where
  "exec_prepare tw policy os m extraEnv =
     (if os_cancelled os then Inl (cancel_result fresh_result)
      else if enforceTrust tw (Some m) policy
      then Inl (platform_fail ''sandbox_unavailable'' (fresh_result\<lparr>er_exitCode := 2\<rparr>))
      else
        let trusted = IsTrusted tw (Some m) policy in
        if m_rtType m \<noteq> ''python'' \<and> m_rtType m \<noteq> ''binary''
        then Inl (platform_fail ''runtime_unknown'' fresh_result)
        else if m_rtType m = ''python'' \<and> \<not> os_python os
        then Inl (platform_fail ''runtime_missing'' fresh_result)
        else if \<not> os_abs os then Inl (platform_fail ''spawn_failed'' fresh_result)
        else if \<not> trusted \<and> \<not> os_sandbox os
        then Inl (platform_fail ''sandbox_unavailable'' fresh_result)
        else
          let needProxy = \<not> trusted \<and> declaresNetwork m \<and> \<not> os_netSetup os in
          if needProxy \<and> os_egress os = None
          then Inl (platform_fail ''sandbox_unavailable'' fresh_result)
          else if \<not> os_group os then Inl (platform_fail ''process_group'' fresh_result)
          else Inr \<lparr>la_isolated = \<not> trusted,
                    la_env = mergeEnv (plugin_env os m trusted needProxy) extraEnv\<rparr>)"

text \<open>The protocol on stdout, by exit code.\<close>

definition classify :: "wire \<Rightarrow> execResult \<Rightarrow> execResult" where
  "classify w r =
     (case w of
        WireGarbage \<Rightarrow>
          r\<lparr>er_platform := True, er_errCode := ''protocol_violation'',
            er_exitCode := (if er_exitCode r = 0 then 2 else er_exitCode r)\<rparr>
      | _ \<Rightarrow>
          let (status, output, err) =
            (case w of Wire s out e \<Rightarrow> (s, out, e) | _ \<Rightarrow> ([], None, None)) in
          if er_exitCode r = 0 then
            (if status \<noteq> ''ok'' then platform_fail ''protocol_violation'' r
             else r\<lparr>er_output := (case output of None \<Rightarrow> [] | Some out \<Rightarrow> out)\<rparr>)
          else if er_exitCode r = 1 then
            (case err of
               None \<Rightarrow> r\<lparr>er_errCode := ''plugin_error''\<rparr>
             | Some e \<Rightarrow> r\<lparr>er_errCode := we_code e, er_retryable := we_retryable e\<rparr>)
          else
            (case err of
               Some e \<Rightarrow>
                 if we_code e \<noteq> []
                 then r\<lparr>er_platform := True, er_errCode := PlatformErrCode (we_code e),
                        er_retryable := we_retryable e\<rparr>
                 else r\<lparr>er_platform := True, er_errCode := ''crash''\<rparr>
             | None \<Rightarrow> r\<lparr>er_platform := True, er_errCode := ''crash''\<rparr>))"

definition exec_finish :: "osrun \<Rightarrow> execResult \<Rightarrow> execResult" where
  "exec_finish os r =
     (if os_ctxAtEnd os = ParentDone then cancel_result r
      else if os_ctxAtEnd os = DeadlineHit then platform_fail ''timeout'' r
      else
        case (case os_wait os of
                WaitOk \<Rightarrow> Some 0 | WaitExit c \<Rightarrow> Some c | WaitDelay c \<Rightarrow> Some c | WaitOther \<Rightarrow> None) of
          None \<Rightarrow> platform_fail ''spawn_failed'' r
        | Some code \<Rightarrow>
            let r' = r\<lparr>er_exitCode := code\<rparr> in
            if os_overflow os then platform_fail ''protocol_violation'' r'
            else classify (os_stdout os) r')"

definition failed_or :: "osrun \<Rightarrow> string \<Rightarrow> execResult" where
  "failed_or os code =
     (case markContextResult (os_ctxAtFail os) fresh_result of
        Some r \<Rightarrow> r | None \<Rightarrow> platform_fail code fresh_result)"

definition execPluginEnv ::
  "trustWorld \<Rightarrow> trustPolicy \<Rightarrow> osrun \<Rightarrow> manifest \<Rightarrow> string list \<Rightarrow> execResult" where
  "execPluginEnv tw policy os m extraEnv =
     (case exec_prepare tw policy os m extraEnv of
        Inl r \<Rightarrow> r
      | Inr la \<Rightarrow>
          if \<not> os_start os then failed_or os ''spawn_failed''
          else if \<not> os_attach os then failed_or os ''process_group''
          else if la_isolated la \<and> os_netSetup os \<and> \<not> os_netAttach os
          then failed_or os ''sandbox_unavailable''
          else exec_finish os fresh_result)"

section \<open>Lemmas on the environment\<close>

lemma foldl_update_map_of:
  "map_of (foldl (\<lambda>m (k, v). AList.update k v m) m kvs) k =
     (case map_of (rev kvs) k of Some v \<Rightarrow> Some v | None \<Rightarrow> map_of m k)"
proof (induction kvs arbitrary: m)
  case (Cons kv kvs)
  then show ?case by (cases kv) (auto simp: map_add_def split: option.splits)
qed simp

lemma foldl_update_keys:
  "fst ` set (foldl (\<lambda>m (k, v). AList.update k v m) m kvs) = fst ` set m \<union> fst ` set kvs"
proof (induction kvs arbitrary: m)
  case (Cons kv kvs)
  then show ?case by (cases kv) (auto simp: dom_update)
qed simp

lemma env_pairs_key: "(k, v) \<in> set (env_pairs kvs) \<Longrightarrow> CHR ''='' \<notin> set k"
  by (auto simp: env_pairs_def List.map_filter_def dest: index_of_SomeD)

lemma env_pairs_map:
  "\<forall>(k, v) \<in> set ps. CHR ''='' \<notin> set k \<Longrightarrow>
     env_pairs (map (\<lambda>(k, v). k @ CHR ''='' # v) ps) = ps"
  by (induction ps) (auto simp: env_pairs_def List.map_filter_simps)

definition env_value :: "string list \<Rightarrow> string \<Rightarrow> string option" where
  "env_value kvs k = map_of (rev (env_pairs kvs)) k"

lemma env_pairs_append: "env_pairs (a @ b) = env_pairs a @ env_pairs b"
  by (simp add: env_pairs_def List.map_filter_def)

lemma env_pairs_mergeEnv:
  "env_pairs (mergeEnv base extra) =
     foldl (\<lambda>m (k, v). AList.update k v m) [] (env_pairs base @ env_pairs extra)"
  unfolding mergeEnv_def
proof (rule env_pairs_map, clarify)
  fix k v
  assume m: "(k, v) \<in> set (foldl (\<lambda>m (k, v). AList.update k v m) [] (env_pairs base @ env_pairs extra))"
    and e: "CHR ''='' \<in> set k"
  from imageI [OF m, of fst] have "k \<in> fst ` set (env_pairs base @ env_pairs extra)"
    by (simp add: foldl_update_keys image_Un)
  then obtain w where "(k, w) \<in> set (env_pairs base) \<union> set (env_pairs extra)" by force
  with e show False by (auto dest: env_pairs_key)
qed

lemma distinct_foldl_update:
  "distinct (map fst m) \<Longrightarrow> distinct (map fst (foldl (\<lambda>m (k, v). AList.update k v m) m kvs))"
proof (induction kvs arbitrary: m)
  case (Cons kv kvs)
  then show ?case by (cases kv) (simp add: distinct_update)
qed simp

lemma env_value_mergeEnv:
  "env_value (mergeEnv base extra) k =
     (case env_value extra k of Some v \<Rightarrow> Some v | None \<Rightarrow> env_value base k)"
proof -
  let ?ps = "foldl (\<lambda>m (k, v). AList.update k v m) [] (env_pairs base @ env_pairs extra)"
  have "distinct (map fst ?ps)" by (rule distinct_foldl_update) simp
  then have "map_of (rev ?ps) = map_of ?ps"
    by (intro map_of_inject_set [THEN iffD2]) (simp_all add: rev_map [symmetric])
  then show ?thesis
    by (simp add: env_value_def env_pairs_mergeEnv foldl_update_map_of map_add_def
        split: option.splits)
qed

definition env_names :: "string list \<Rightarrow> string set" where
  "env_names kvs = fst ` set (env_pairs kvs)"

lemma env_names_mergeEnv: "env_names (mergeEnv base extra) = env_names base \<union> env_names extra"
  by (simp add: env_names_def env_pairs_mergeEnv foldl_update_keys image_Un)

lemma env_names_append: "env_names (a @ b) = env_names a \<union> env_names b"
  by (simp add: env_names_def env_pairs_append image_Un)

lemma env_names_inherited: "k \<in> env_names (inherited allow environ) \<Longrightarrow> toUpper k \<in> set allow"
  by (auto simp: env_names_def env_pairs_def List.map_filter_def inherited_def split: option.splits)

lemma exec_prepare_Inr:
  assumes "exec_prepare tw policy os m extraEnv = Inr la"
  shows "\<not> os_cancelled os" "\<not> tp_deny policy"
    "la_isolated la \<longleftrightarrow> \<not> IsTrusted tw (Some m) policy"
    "la_isolated la \<Longrightarrow> tp_allow policy \<and> os_sandbox os"
  using assms
  by (auto simp: exec_prepare_def enforceTrust_def IsTrusted_def Let_def split: if_splits)

lemma env_names_simps [simp]:
  "env_names [] = {}"
  "env_names [''PYTHONUTF8=1'', ''PYTHONDONTWRITEBYTECODE=1''] =
     {''PYTHONUTF8'', ''PYTHONDONTWRITEBYTECODE''}"
  by (simp_all add: env_names_def env_pairs_def List.map_filter_simps)

lemma plugin_env_untrusted:
  "env_names (plugin_env os m False np) \<subseteq> {k. toUpper k \<in> set untrustedEnvNames} \<union>
     env_names [os_donorEnv os] \<union> env_names (os_scratchEnv os) \<union>
     env_names (case os_egress os of None \<Rightarrow> [] | Some e \<Rightarrow> e) \<union>
     {''PYTHONUTF8'', ''PYTHONDONTWRITEBYTECODE''}"
proof -
  have "env_names (if c then xs else []) = (if c then env_names xs else {})" for c xs by simp
  moreover have "env_names (inherited untrustedEnvNames (os_environ os)) \<subseteq>
      {k. toUpper k \<in> set untrustedEnvNames}"
    using env_names_inherited by blast
  ultimately show ?thesis
    unfolding plugin_env_def baseEnvFor_def
    by (simp only: env_names_append if_False env_names_simps) (auto split: if_split)
qed

lemma exec_prepare_env:
  assumes "exec_prepare tw policy os m extraEnv = Inr la"
  obtains np where "la_env la = mergeEnv (plugin_env os m (\<not> la_isolated la) np) extraEnv"
  using assms by (auto simp: exec_prepare_def Let_def split: if_splits)

lemma classify_cancelled [simp]: "er_cancelled (classify w r) = er_cancelled r"
  by (auto simp: classify_def Let_def platform_fail_def split: wire.splits option.splits)

lemma exec_finish_cancelled:
  "er_cancelled (exec_finish os fresh_result) \<Longrightarrow>
     exec_finish os fresh_result = cancel_result fresh_result"
  by (auto simp: exec_finish_def fresh_result_def platform_fail_def Let_def
      split: waitOutcome.splits if_splits)

lemma failed_or_cancelled:
  "er_cancelled (failed_or os code) \<Longrightarrow> failed_or os code = cancel_result fresh_result"
  by (auto simp: failed_or_def markContextResult_def fresh_result_def platform_fail_def
      split: ctxState.splits)

lemma exec_prepare_cancelled:
  "exec_prepare tw policy os m extraEnv = Inl r \<Longrightarrow> er_cancelled r \<Longrightarrow>
     r = cancel_result fresh_result"
  by (auto simp: exec_prepare_def Let_def fresh_result_def platform_fail_def split: if_splits)

lemma exec_cancelled:
  "er_cancelled (execPluginEnv tw policy os m extraEnv) \<Longrightarrow>
     execPluginEnv tw policy os m extraEnv = cancel_result fresh_result"
  using exec_prepare_cancelled [of tw policy os m extraEnv]
  by (auto simp: execPluginEnv_def exec_finish_cancelled failed_or_cancelled
      split: sum.splits if_splits)

lemma cancel_result_fields [simp]:
  "er_platform (cancel_result r)" "er_errCode (cancel_result r) = ''cancelled''"
  "er_cancelled (cancel_result r)" "\<not> res_OK (cancel_result r)"
  by (simp_all add: cancel_result_def platform_fail_def res_OK_def)

section \<open>Properties\<close>

text \<open>
  C13. External code never runs unconfined: a process is only started without the isolator when
  the plugin is trusted, an untrusted one only with the operator's consent and a working
  isolator, and with --deny-untrusted-plugins nothing is started at all.
\<close>

theorem exec_isolation:
  assumes "exec_prepare tw policy os m extraEnv = Inr la"
  shows "\<not> tp_deny policy \<and>
    (\<not> la_isolated la \<longrightarrow> td_trusted (DecideTrust tw (Some m) policy)) \<and>
    (la_isolated la \<longrightarrow> tp_allow policy \<and> os_sandbox os)"
  using exec_prepare_Inr [OF assms] by (auto simp: IsTrusted_def)

text \<open>
  Secrets do not reach an isolated plugin: every variable of its environment is one of the
  fixed system names, or was set by the caller, the isolator, the proxy, the donor record or
  the Python launcher; the names in \<open>permissions.secrets\<close> add nothing.
\<close>

lemma isolated_env_names:
  assumes "exec_prepare tw policy os m extraEnv = Inr la" and "la_isolated la"
    and "k \<in> env_names (la_env la)"
  shows "toUpper k \<in> set untrustedEnvNames \<or> k \<in> env_names extraEnv \<or>
    k \<in> env_names [os_donorEnv os] \<or> k \<in> env_names (os_scratchEnv os) \<or>
    k \<in> env_names (case os_egress os of None \<Rightarrow> [] | Some e \<Rightarrow> e) \<or>
    k \<in> {''PYTHONUTF8'', ''PYTHONDONTWRITEBYTECODE''}"
proof -
  from exec_prepare_env [OF assms(1)] obtain np where
    "la_env la = mergeEnv (plugin_env os m (\<not> la_isolated la) np) extraEnv" .
  with assms(2,3) have "k \<in> env_names (plugin_env os m False np) \<or> k \<in> env_names extraEnv"
    by (simp add: env_names_mergeEnv)
  with plugin_env_untrusted [of os m np] show ?thesis by blast
qed

text \<open>
  The caller's variables win over anything inherited: whatever the environment of the
  orchestrator holds, the started plugin sees the network verdict of this run.
\<close>

lemma network_verdict_reaches_plugin:
  assumes "exec_prepare tw policy os m [''FIDESPIPE_NETWORK='' @ v] = Inr la"
  shows "env_value (la_env la) ''FIDESPIPE_NETWORK'' = Some v"
proof -
  from exec_prepare_env [OF assms] obtain base where
    "la_env la = mergeEnv base [''FIDESPIPE_NETWORK='' @ v]" by metis
  then show ?thesis
    by (simp add: env_value_mergeEnv) (simp add: env_value_def env_pairs_def List.map_filter_simps)
qed

text \<open>
  A run of a started plugin counts as a success exactly when neither the run nor the
  step's deadline ended first, the process exited with 0 within the output limit and its
  answer is a protocol message with status ok.
\<close>

lemma exec_finish_OK_iff:
  "res_OK (exec_finish os fresh_result) \<longleftrightarrow>
     os_ctxAtEnd os \<noteq> ParentDone \<and> os_ctxAtEnd os \<noteq> DeadlineHit \<and>
     os_wait os \<in> {WaitOk, WaitExit 0, WaitDelay 0} \<and> \<not> os_overflow os \<and>
     (\<exists>out e. os_stdout os = Wire ''ok'' out e)"
  by (auto simp: exec_finish_def res_OK_def fresh_result_def platform_fail_def cancel_result_def
      classify_def Let_def split: waitOutcome.splits wire.splits option.splits if_splits)


definition demo_os :: osrun where
  "demo_os = \<lparr>os_cancelled = False, os_python = True, os_abs = True,
     os_environ = [''PATH=/bin'', ''KEY=secret'', ''FIDESPIPE_NETWORK=allow''], os_donorEnv = [],
     os_sandbox = True, os_netSetup = False, os_scratchEnv = [''HOME=/tmp/x''], os_egress = None,
     os_group = True, os_start = True, os_attach = True, os_netAttach = True,
     os_ctxAtFail = Running, os_ctxAtEnd = Running, os_wait = WaitOk, os_overflow = False,
     os_stdout = Wire ''ok'' None None\<rparr>"

definition demo_plugin :: manifest where
  "demo_plugin = zero_manifest\<lparr>m_id := ''p'', m_rtType := ''python'', m_entry := ''main.py'',
     m_dir := ''p'', m_sandbox := ''untrusted'', m_secrets := [''KEY'']\<rparr>"

definition demo_tw :: trustWorld where
  "demo_tw = \<lparr>tw_walk = (\<lambda>_. None), tw_sha = id\<rparr>"

definition demo_launch :: launch where
  "demo_launch = \<lparr>la_isolated = True, la_env = [''PATH=/bin'', ''HOME=/tmp/x'', ''PYTHONUTF8=1'',
     ''PYTHONDONTWRITEBYTECODE=1'', ''FIDESPIPE_NETWORK=deny'']\<rparr>"

lemma demo_prepare:
  "exec_prepare demo_tw \<lparr>tp_deny = False, tp_allow = True, tp_trusted = None\<rparr> demo_os demo_plugin
     [''FIDESPIPE_NETWORK='' @ ''deny''] = Inr demo_launch"
  by code_simp

lemma exec_isolation_witness:
  "la_isolated demo_launch \<and> tp_allow \<lparr>tp_deny = False, tp_allow = True, tp_trusted = None\<rparr> \<and>
   os_sandbox demo_os"
  using exec_isolation [OF demo_prepare] by (simp add: demo_launch_def)


end
