(* ===== verification/Journal.thy ===== *)
theory Journal
  imports RunCtx
begin

text \<open>
  The append-only journal of a run and its context snapshot (internal/journal/writer.go).
  \<open>journal\<close> is the Go object together with the two files it owns: \<open>j_lines\<close> and \<open>j_torn\<close> are
  journal.jsonl, \<open>j_context\<close> is context.json. What the disk does to the n-th write is given by
  an \<open>io\<close> record. Lengths are those of the JSON encoding, which is a parameter.
\<close>

datatype wout = WOk | WFail | WPartial
datatype sout = SOk | SWriteFail | SRenameFail

record io =
  io_len :: "obj \<Rightarrow> int"
  io_indentLen :: "obj \<Rightarrow> int"
  io_now :: "nat \<Rightarrow> string"
  io_write :: "nat \<Rightarrow> wout"
  io_snap :: "nat \<Rightarrow> sout"

text \<open>
  A line is a complete event, or \<open>Junk\<close> when a write that stopped in the middle was followed
  by another line; \<open>j_torn\<close> says that the file ends inside such an incomplete line.
\<close>

datatype jline = Line obj | Junk

record journal =
  j_open :: bool
  j_lines :: "jline list"
  j_torn :: bool
  j_context :: "obj option"
  j_ops :: nat
  j_writeErrs :: nat
  j_snapErrs :: nat
  j_snapErr :: "string option"

definition maxJournalPayloadSize :: int where "maxJournalPayloadSize = 16 * 2 ^ 20"
definition maxSnapshotPayloadSize :: int where
  "maxSnapshotPayloadSize = maxJournalPayloadSize"

definition NewJournal :: journal where
  "NewJournal = \<lparr>j_open = True, j_lines = [], j_torn = False, j_context = None, j_ops = 0,
     j_writeErrs = 0, j_snapErrs = 0, j_snapErr = None\<rparr>"

text \<open>\<open>OpenJournalAppend\<close>: the files as the last process left them, fresh counters.\<close>

definition OpenJournalAppend :: "jline list \<Rightarrow> bool \<Rightarrow> obj option \<Rightarrow> journal" where
  "OpenJournalAppend lines torn ctx =
     NewJournal\<lparr>j_lines := lines, j_torn := torn, j_context := ctx\<rparr>"

definition lose_event :: "journal \<Rightarrow> journal" where
  "lose_event j = j\<lparr>j_writeErrs := j_writeErrs j + 1\<rparr>"

definition event_obj :: "io \<Rightarrow> journal \<Rightarrow> string \<Rightarrow> obj \<Rightarrow> obj" where
  "event_obj io j kind kv =
     AList.update ''type'' (JStr kind) (AList.update ''ts'' (JStr (io_now io (j_ops j))) kv)"

text \<open>\<open>Event\<close>: the new state, and whether the event was written.\<close>

definition Event :: "io \<Rightarrow> string \<Rightarrow> obj \<Rightarrow> journal \<Rightarrow> journal \<times> bool" where
  "Event io kind kv j =
     (if \<not> j_open j then (lose_event j, False)
      else
        let e = event_obj io j kind kv in
        if \<not> marshals (JObj e) then (lose_event j, False)
        else if io_len io e + 1 > maxJournalPayloadSize then (lose_event j, False)
        else
          let j' = j\<lparr>j_ops := j_ops j + 1\<rparr> in
          case io_write io (j_ops j) of
            WOk \<Rightarrow> (j'\<lparr>j_lines := j_lines j @ [if j_torn j then Junk else Line e],
                      j_torn := False\<rparr>, True)
          | WFail \<Rightarrow> (lose_event j', False)
          | WPartial \<Rightarrow> (lose_event (j'\<lparr>j_torn := True\<rparr>), False))"

definition emit :: "io \<Rightarrow> string \<Rightarrow> obj \<Rightarrow> journal \<Rightarrow> journal" where
  "emit io kind kv j = fst (Event io kind kv j)"

text \<open>\<open>writeSnapshot\<close>: \<open>None\<close> on success, otherwise the reason and the size when it is known.\<close>

definition writeSnapshot :: "io \<Rightarrow> obj \<Rightarrow> journal \<Rightarrow> journal \<times> (string \<times> int) option" where
  "writeSnapshot io ctx j =
     (if \<not> j_open j then (j, Some (''journal_closed'', 0))
      else if \<not> marshals (JObj ctx) then (j, Some (''serialize'', 0))
      else if io_indentLen io ctx > maxSnapshotPayloadSize
      then (j, Some (''too_large'', io_indentLen io ctx))
      else
        let j' = j\<lparr>j_ops := j_ops j + 1\<rparr> in
        case io_snap io (j_ops j) of
          SOk \<Rightarrow> (j'\<lparr>j_context := Some ctx\<rparr>, None)
        | SWriteFail \<Rightarrow> (j', Some (''write'', 0))
        | SRenameFail \<Rightarrow> (j', Some (''rename'', 0)))"

definition count_loss :: "string \<Rightarrow> journal \<Rightarrow> journal" where
  "count_loss reason j =
     j\<lparr>j_writeErrs := j_writeErrs j + 1, j_snapErrs := j_snapErrs j + 1,
       j_snapErr := (case j_snapErr j of None \<Rightarrow> Some reason | Some c \<Rightarrow> Some c)\<rparr>"

definition noteSnapshotLoss :: "io \<Rightarrow> string \<Rightarrow> int \<Rightarrow> journal \<Rightarrow> journal" where
  "noteSnapshotLoss io reason sz j =
     (let j' = count_loss reason j in
      if j_snapErrs j' > 1 then j'
      else emit io ''snapshot_lost''
             ((''reason'', JStr reason) #
              (if sz > 0 then [(''bytes'', JInt sz)] else [])) j')"

definition Snapshot :: "io \<Rightarrow> obj option \<Rightarrow> journal \<Rightarrow> journal \<times> bool" where
  "Snapshot io ctx j =
     (case ctx of
        None \<Rightarrow> (j, True)
      | Some data \<Rightarrow>
          (case writeSnapshot io data j of
             (j', None) \<Rightarrow> (j', True)
           | (j', Some (reason, sz)) \<Rightarrow> (noteSnapshotLoss io reason sz j', False)))"

definition snap :: "io \<Rightarrow> obj \<Rightarrow> journal \<Rightarrow> journal" where
  "snap io ctx j = fst (Snapshot io (Some ctx) j)"

definition SnapshotLosses :: "journal \<Rightarrow> nat" where "SnapshotLosses j = j_snapErrs j"
definition WriteErrors :: "journal \<Rightarrow> nat" where "WriteErrors j = j_writeErrs j"
definition Close :: "journal \<Rightarrow> journal" where "Close j = j\<lparr>j_open := False\<rparr>"

section \<open>Reading back\<close>

text \<open>
  \<open>Reader.Events\<close> over these files: every line is decoded, a line that is not JSON (also the
  torn last one) is an error.
\<close>

fun decode_lines :: "jline list \<Rightarrow> obj list option" where
  "decode_lines [] = Some []"
| "decode_lines (Junk # ls) = None"
| "decode_lines (Line e # ls) = map_option (\<lambda>es. obj_rt e # es) (decode_lines ls)"

definition Events :: "journal \<Rightarrow> obj list option" where
  "Events j = (if j_torn j then None else decode_lines (j_lines j))"

definition event_type :: "obj \<Rightarrow> string" where
  "event_type e = (case map_of e ''type'' of Some (JStr t) \<Rightarrow> t | _ \<Rightarrow> [])"

definition str_field :: "string \<Rightarrow> obj \<Rightarrow> string" where
  "str_field k e = (case map_of e k of Some (JStr s) \<Rightarrow> s | _ \<Rightarrow> [])"

section \<open>Lemmas\<close>

lemma decode_lines_append:
  "decode_lines (a @ b) =
     (case (decode_lines a, decode_lines b) of
        (Some x, Some y) \<Rightarrow> Some (x @ y) | _ \<Rightarrow> None)"
  by (induction a rule: decode_lines.induct) (auto split: option.splits)

lemma Event_fields:
  "Event io kind kv j = (j', ok) \<Longrightarrow>
     j_writeErrs j' = j_writeErrs j + (if ok then 0 else 1) \<and> j_open j' = j_open j \<and>
     j_snapErrs j' = j_snapErrs j \<and> j_snapErr j' = j_snapErr j \<and> j_context j' = j_context j \<and>
     (\<exists>ls. j_lines j' = j_lines j @ ls)"
  by (auto simp: Event_def lose_event_def Let_def split: if_splits wout.splits)

lemma emit_fields [simp]:
  "j_open (emit io kind kv j) = j_open j" "j_snapErrs (emit io kind kv j) = j_snapErrs j"
  "j_snapErr (emit io kind kv j) = j_snapErr j" "j_context (emit io kind kv j) = j_context j"
  using Event_fields [of io kind kv j] by (auto simp: emit_def split: prod.splits)
    (cases "Event io kind kv j"; auto)+

lemma emit_writeErrs: "j_writeErrs j \<le> j_writeErrs (emit io kind kv j)"
  using Event_fields [of io kind kv j "fst (Event io kind kv j)" "snd (Event io kind kv j)"]
  by (simp add: emit_def)

lemma emit_append: "\<exists>ls. j_lines (emit io kind kv j) = j_lines j @ ls"
  using Event_fields [of io kind kv j "fst (Event io kind kv j)" "snd (Event io kind kv j)"]
  by (simp add: emit_def)

text \<open>The loss counters are consistent: a lost snapshot is also a write error, with a cause.\<close>

definition journal_inv :: "journal \<Rightarrow> bool" where
  "journal_inv j \<longleftrightarrow> j_snapErrs j \<le> j_writeErrs j \<and> (j_snapErrs j > 0 \<longleftrightarrow> j_snapErr j \<noteq> None)"

lemma journal_inv_new [fid_wf]:
  "journal_inv NewJournal" "journal_inv (OpenJournalAppend lines torn ctx)"
  by (simp_all add: journal_inv_def NewJournal_def OpenJournalAppend_def)

lemma journal_inv_emit [fid_wf]: "journal_inv j \<Longrightarrow> journal_inv (emit io kind kv j)"
  using emit_writeErrs [of j io kind kv] by (auto simp: journal_inv_def)

lemma writeSnapshot_fields [simp]:
  "j_writeErrs (fst (writeSnapshot io ctx j)) = j_writeErrs j"
  "j_snapErrs (fst (writeSnapshot io ctx j)) = j_snapErrs j"
  "j_snapErr (fst (writeSnapshot io ctx j)) = j_snapErr j"
  "j_open (fst (writeSnapshot io ctx j)) = j_open j"
  "j_lines (fst (writeSnapshot io ctx j)) = j_lines j"
  "j_torn (fst (writeSnapshot io ctx j)) = j_torn j"
  "j_context (fst (writeSnapshot io ctx j)) =
     (if snd (writeSnapshot io ctx j) = None then Some ctx else j_context j)"
  by (auto simp: writeSnapshot_def Let_def split: sout.splits)

lemma Snapshot_cases:
  obtains (kept) "Snapshot io (Some ctx) j = (fst (writeSnapshot io ctx j), True)"
      "snd (writeSnapshot io ctx j) = None"
  | (lost) reason sz where
      "Snapshot io (Some ctx) j = (noteSnapshotLoss io reason sz (fst (writeSnapshot io ctx j)), False)"
      "snd (writeSnapshot io ctx j) = Some (reason, sz)"
  by (cases "writeSnapshot io ctx j"; cases "snd (writeSnapshot io ctx j)")
    (auto simp: Snapshot_def)

lemma note_fields:
  "j_snapErrs (noteSnapshotLoss io reason sz j) = j_snapErrs j + 1"
  "j_context (noteSnapshotLoss io reason sz j) = j_context j"
  "j_open (noteSnapshotLoss io reason sz j) = j_open j"
  "j_snapErr (noteSnapshotLoss io reason sz j) \<noteq> None"
  by (auto simp: noteSnapshotLoss_def count_loss_def Let_def split: option.splits)

lemma note_writeErrs: "j_writeErrs j + 1 \<le> j_writeErrs (noteSnapshotLoss io reason sz j)"
proof -
  have "j_writeErrs (count_loss reason j) = j_writeErrs j + 1" by (simp add: count_loss_def)
  with emit_writeErrs [of "count_loss reason j" io] show ?thesis
    by (simp add: noteSnapshotLoss_def Let_def)
qed

lemma note_append: "\<exists>ls. j_lines (noteSnapshotLoss io reason sz j) = j_lines j @ ls"
proof -
  have "j_lines (count_loss reason j) = j_lines j" by (simp add: count_loss_def)
  with emit_append [of io _ _ "count_loss reason j"] show ?thesis
    by (simp add: noteSnapshotLoss_def Let_def)
qed

lemma journal_inv_snap [fid_wf]: "journal_inv j \<Longrightarrow> journal_inv (snap io ctx j)"
  by (cases rule: Snapshot_cases [of io ctx j])
    (auto simp: snap_def journal_inv_def note_fields
      intro: order_trans [OF _ note_writeErrs])

lemma snap_open [simp]: "j_open (snap io ctx j) = j_open j"
  by (cases rule: Snapshot_cases [of io ctx j]) (auto simp: snap_def note_fields)

lemma snap_append: "\<exists>ls. j_lines (snap io ctx j) = j_lines j @ ls"
  using note_append [of io _ _ "fst (writeSnapshot io ctx j)"]
  by (cases rule: Snapshot_cases [of io ctx j]) (auto simp: snap_def)

lemma snap_losses_mono: "SnapshotLosses j \<le> SnapshotLosses (snap io ctx j)"
  by (cases rule: Snapshot_cases [of io ctx j]) (auto simp: snap_def note_fields SnapshotLosses_def)

text \<open>Without a new loss the snapshot on disk is the context that was given.\<close>

lemma snap_context:
  "SnapshotLosses (snap io ctx j) = SnapshotLosses j \<Longrightarrow> j_context (snap io ctx j) = Some ctx"
  by (cases rule: Snapshot_cases [of io ctx j]) (auto simp: snap_def note_fields SnapshotLosses_def)

section \<open>A disk that works\<close>

definition good_io :: "io \<Rightarrow> bool" where
  "good_io io \<longleftrightarrow> (\<forall>n. io_write io n = WOk) \<and> (\<forall>n. io_snap io n = SOk)"

definition fits :: "io \<Rightarrow> string \<Rightarrow> obj \<Rightarrow> bool" where
  "fits io kind kv \<longleftrightarrow> (\<forall>j. marshals (JObj (event_obj io j kind kv)) \<and>
     io_len io (event_obj io j kind kv) + 1 \<le> maxJournalPayloadSize)"

lemma Event_written:
  "j_open j \<Longrightarrow> \<not> j_torn j \<Longrightarrow> snd (Event io kind kv j) \<Longrightarrow>
     Events (fst (Event io kind kv j)) =
       map_option (\<lambda>es. es @ [obj_rt (event_obj io j kind kv)]) (Events j)"
  by (auto simp: Event_def Events_def Let_def decode_lines_append split: if_splits wout.splits option.splits)

lemma event_obj_type [simp]: "map_of (event_obj io j kind kv) ''type'' = Some (JStr kind)"
  by (simp add: event_obj_def)

lemma event_type_rt [simp]: "event_type (obj_rt (event_obj io j kind kv)) = kind"
  by (simp add: event_type_def)

section \<open>Properties\<close>

datatype jop = OpEvent string obj | OpSnapshot obj

fun run_op :: "io \<Rightarrow> jop \<Rightarrow> journal \<Rightarrow> journal" where
  "run_op io (OpEvent kind kv) j = emit io kind kv j"
| "run_op io (OpSnapshot ctx) j = snap io ctx j"

text \<open>
  The counters never lie: along any sequence of events and snapshots, the write errors
  count at least the lost snapshots, there is a cause exactly when a snapshot was lost, and
  the file is only appended to.
\<close>

lemma journal_ops_inv:
  assumes "journal_inv j"
  shows "journal_inv (fold (run_op io) ops j) \<and>
    (\<exists>ls. j_lines (fold (run_op io) ops j) = j_lines j @ ls)"
  using assms
proof (induction ops arbitrary: j)
  case Nil
  then show ?case by simp
next
  case (Cons op ops)
  have "journal_inv (run_op io op j)" and "\<exists>ls. j_lines (run_op io op j) = j_lines j @ ls"
    using Cons.prems by (cases op; auto simp: fid_wf emit_append snap_append)+
  with Cons.IH [of "run_op io op j"] show ?case by auto
qed

text \<open>
  An event that \<open>Event\<close> reports as written is read back as the last event of the journal,
  and one it reports as lost is counted, unless the file ended in a torn line before.
\<close>

lemma Event_roundtrip:
  assumes "j_open j" and "\<not> j_torn j"
  shows "case Event io kind kv j of
      (j', True) \<Rightarrow> Events j' =
         map_option (\<lambda>es. es @ [obj_rt (event_obj io j kind kv)]) (Events j) \<and>
         WriteErrors j' = WriteErrors j
    | (j', False) \<Rightarrow> j_lines j' = j_lines j \<and> WriteErrors j' = WriteErrors j + 1"
  using Event_written [OF assms, of io kind kv] assms
  by (auto simp: WriteErrors_def Event_def Let_def lose_event_def split: if_splits wout.splits)

text \<open>
  A torn write poisons the journal: whatever succeeds after a partial write, reading the
  events fails.
\<close>

lemma torn_write_unreadable:
  assumes "j_open j" "io_write io (j_ops j) = WPartial" "fits io kind kv"
  shows "Events (fold (run_op io) ops (emit io kind kv j)) = None"
proof -
  let ?bad = "\<lambda>j. j_torn j \<or> Junk \<in> set (j_lines j)"
  have junk: "decode_lines ls = None" if "Junk \<in> set ls" for ls
    using that by (induction ls rule: decode_lines.induct) auto
  have ev: "?bad (emit io k v j)" if "?bad j" for k v j
    using that by (auto simp: emit_def Event_def lose_event_def Let_def split: wout.splits)
  have sn: "?bad (snap io c j)" if "?bad j" for c j
  proof -
    have w: "?bad (fst (writeSnapshot io c j))"
      using that by simp
    have n: "?bad (noteSnapshotLoss io r s j)" if "?bad j" for r s j
    proof -
      have "?bad (count_loss r j)" using that by (simp add: count_loss_def)
      with ev [OF this] show ?thesis by (simp add: noteSnapshotLoss_def Let_def)
    qed
    show ?thesis using w n [OF w]
      by (cases rule: Snapshot_cases [of io c j]) (simp_all add: snap_def)
  qed
  have "?bad j' \<Longrightarrow> ?bad (fold (run_op io) ops j')" for j'
  proof (induction ops arbitrary: j')
    case (Cons op ops)
    have "?bad (run_op io op j')" using Cons.prems by (cases op) (auto simp: ev sn)
    then show ?case using Cons.IH by simp
  qed simp
  moreover have "?bad (emit io kind kv j)"
    using assms(1,2) assms(3) [unfolded fits_def, rule_format, of j]
    by (simp add: emit_def Event_def Let_def lose_event_def not_less)
  ultimately have "?bad (fold (run_op io) ops (emit io kind kv j))" by blast
  then show ?thesis by (auto simp: Events_def junk)
qed

definition demo_io :: io where
  "demo_io = \<lparr>io_len = (\<lambda>_. 10), io_indentLen = (\<lambda>_. 10), io_now = (\<lambda>_. ''t''),
     io_write = (\<lambda>n. if n = 1 then WPartial else WOk), io_snap = (\<lambda>_. SOk)\<rparr>"

end
