(* ===== verification/Gate_Service.thy ===== *)
theory Gate_Service
  imports Journal Pipeline_Model
begin

text \<open>
  The human gate (internal/gate/service.go): the policy of automatic approval, the terminal
  dialogue and the structured one, the validation of edits and their materialisation. The
  answers of the human are a stream indexed by the position \<open>gs_in\<close>; decoding a JSON answer is
  a parameter. Printing is left out.
\<close>

section \<open>Policy\<close>

record gateOptions =
  go_yes :: bool
  go_allowAuto :: bool
  go_requireHuman :: bool
  go_allowAgentAuto :: bool

fun gate_actions_acc :: "string list \<Rightarrow> string list \<Rightarrow> string list" where
  "gate_actions_acc [] out = out"
| "gate_actions_acc (action # as) out =
     (let normalized = toLower (trimSpace action) in
      if (normalized = ''accept'' \<or> normalized = ''reject'') \<and> normalized \<notin> set out
      then gate_actions_acc as (out @ [normalized])
      else gate_actions_acc as out)"

definition gateActions :: "string list \<Rightarrow> string list" where
  "gateActions actions =
     (let out = gate_actions_acc actions [] in
      if length out = 0 then [''accept'', ''reject''] else out)"

definition autoApproveAllowed :: "step \<Rightarrow> gateOptions \<Rightarrow> bool" where
  "autoApproveAllowed st opts \<longleftrightarrow>
     go_yes opts \<and> go_allowAuto opts \<and> \<not> go_requireHuman opts \<and> st_approval st \<noteq> ''human''"

definition agentAutoAllowed :: "step \<Rightarrow> gateOptions \<Rightarrow> bool" where
  "agentAutoAllowed st opts \<longleftrightarrow> go_allowAgentAuto opts \<and> st_approval st \<noteq> ''human''"

section \<open>The form\<close>

text \<open>\<open>kindOf\<close> of the gate, unlike the others: a Go \<open>int\<close> is unknown.\<close>

fun gateKindOf :: "json \<Rightarrow> string" where
  "gateKindOf (JBool _) = ''boolean''"
| "gateKindOf (JFloat _) = ''number''"
| "gateKindOf (JStr _) = ''string''"
| "gateKindOf (JArr _) = ''array''"
| "gateKindOf (JObj _) = ''object''"
| "gateKindOf JNull = ''null''"
| "gateKindOf _ = ''unknown''"

definition bnCount :: "formField list \<Rightarrow> string \<Rightarrow> nat" where
  "bnCount form bn = count_list (map (\<lambda>f. Basename (ff_field f)) form) bn"

definition editKey :: "formField list \<Rightarrow> formField \<Rightarrow> string" where
  "editKey form f =
     (let bn = Basename (ff_field f) in
      if bnCount form bn > 1 then
        (let parts = split_dot (ff_field f) in
         if length parts \<ge> 3 \<and> parts ! 0 = ''steps'' then parts ! 1 @ ''_'' @ bn
         else replaceChar (CHR ''.'') (CHR ''_'') (ff_field f))
      else bn)"

definition materialize_field :: "formField list \<Rightarrow> obj \<Rightarrow> obj \<Rightarrow> formField \<Rightarrow> json option" where
  "materialize_field form ctx edits f =
     (let bn = Basename (ff_field f) in
      case map_of edits (editKey form f) of
        Some v \<Rightarrow> Some v
      | None \<Rightarrow>
          (case (if bnCount form bn = 1 then map_of edits bn else None) of
             Some v \<Rightarrow> Some v
           | None \<Rightarrow> Get (ff_field f) ctx))"

definition gateMaterialize :: "formField list \<Rightarrow> obj \<Rightarrow> obj \<Rightarrow> obj" where
  "gateMaterialize form ctx edits =
     foldl (\<lambda>out f. case materialize_field form ctx edits f of
              Some v \<Rightarrow> AList.update (editKey form f) v out
            | None \<Rightarrow> out) [] form"

definition expectedType :: "formField \<Rightarrow> obj \<Rightarrow> string" where
  "expectedType f ctx =
     (if ff_type f \<noteq> [] then ff_type f
      else case Get (ff_field f) ctx of Some v \<Rightarrow> gateKindOf v | None \<Rightarrow> [])"

definition type_fits :: "formField \<Rightarrow> obj \<Rightarrow> json \<Rightarrow> bool" where
  "type_fits f ctx v \<longleftrightarrow> expectedType f ctx = [] \<or> gateKindOf v = expectedType f ctx"

definition validate_field ::
  "formField list \<Rightarrow> obj \<Rightarrow> obj \<Rightarrow> obj \<times> string list \<Rightarrow> formField \<Rightarrow> obj \<times> string list" where
  "validate_field form ctx edits acc f =
     (if \<not> ff_editable f then acc
      else case map_of edits (ff_field f) of
        None \<Rightarrow> acc
      | Some v \<Rightarrow>
          if type_fits f ctx v
          then (AList.update (editKey form f) v (fst acc), snd acc)
          else (fst acc, snd acc @ [ff_field f]))"

definition validateStructuredEdits :: "formField list \<Rightarrow> obj \<Rightarrow> obj \<Rightarrow> obj \<times> string list" where
  "validateStructuredEdits form ctx edits =
     (if edits = [] then ([], []) else foldl (validate_field form ctx edits) ([], []) form)"

section \<open>The service\<close>

record decision =
  d_action :: string
  d_edits :: obj
  d_source :: string
  d_session :: string

datatype ui = LineUI | StructuredUI

record gateIO =
  gi_line :: "nat \<Rightarrow> string option"
  gi_decision :: "nat \<Rightarrow> decision option"
  gi_unmarshal :: "string \<Rightarrow> json option"
  gi_show :: "json \<Rightarrow> string"

record gstate =
  gs_ctx :: obj
  gs_j :: journal
  gs_in :: nat

definition gate_event :: "io \<Rightarrow> obj \<Rightarrow> gstate \<Rightarrow> gstate" where
  "gate_event io kv s = s\<lparr>gs_j := emit io ''gate_decision'' kv (gs_j s)\<rparr>"

definition decision_kv :: "step \<Rightarrow> string \<Rightarrow> obj \<Rightarrow> obj" where
  "decision_kv st action rest = [(''step'', JStr (st_id st)), (''action'', JStr action)] @ rest"

definition set_materialized :: "step \<Rightarrow> obj \<Rightarrow> gstate \<Rightarrow> gstate" where
  "set_materialized st m s =
     (if length m > 0 then s\<lparr>gs_ctx := SetStep (st_id st) m (gs_ctx s)\<rparr> else s)"

definition auto_accept :: "io \<Rightarrow> step \<Rightarrow> string \<Rightarrow> gstate \<Rightarrow> gstate \<times> string" where
  "auto_accept io st source s =
     (let m = gateMaterialize (st_form st) (gs_ctx s) [] in
      (gate_event io (decision_kv st ''accept''
          [(''auto'', JBool True), (''source'', JStr source), (''materialized'', JObj m)])
        (set_materialized st m s), ''ok''))"

definition on_reject :: "step \<Rightarrow> string" where
  "on_reject st = (if st_onReject st = [] \<or> st_onReject st = ''stop'' then ''abort_item'' else ''ok'')"

subsection \<open>Terminal\<close>

fun read_edits ::
  "gateIO \<Rightarrow> formField list \<Rightarrow> obj \<Rightarrow> formField list \<Rightarrow> nat \<Rightarrow> obj \<Rightarrow> nat \<times> obj" where
  "read_edits gi form ctx [] n edits = (n, edits)"
| "read_edits gi form ctx (f # fs) n edits =
     (if \<not> ff_editable f then read_edits gi form ctx fs n edits
      else case gi_line gi n of
        None \<Rightarrow> (n + 1, edits)
      | Some line0 \<Rightarrow>
          let line = trimSpace line0 in
          if line = [] then read_edits gi form ctx fs (n + 1) edits
          else case gi_unmarshal gi line of
            None \<Rightarrow> read_edits gi form ctx fs (n + 1) edits
          | Some v \<Rightarrow>
              if type_fits f ctx v
              then read_edits gi form ctx fs (n + 1) (AList.update (editKey form f) v edits)
              else read_edits gi form ctx fs (n + 1) edits)"

datatype answer = Eof | NoAction | Action string

definition match_line :: "string list \<Rightarrow> string \<Rightarrow> string option" where
  "match_line actions ans = find (\<lambda>a. ans = a \<or> ans = (if a \<noteq> [] then toLower (take 1 a) else [])) actions"

text \<open>At most \<open>k\<close> more attempts to read an action.\<close>

fun read_action :: "gateIO \<Rightarrow> string list \<Rightarrow> nat \<Rightarrow> nat \<Rightarrow> nat \<times> answer" where
  "read_action gi actions 0 n = (n, NoAction)"
| "read_action gi actions (Suc k) n =
     (case gi_line gi n of
        None \<Rightarrow> (n + 1, Eof)
      | Some line \<Rightarrow>
          let ans = toLower (trimSpace line) in
          if ans = [] then read_action gi actions k (n + 1)
          else case match_line actions ans of
            Some a \<Rightarrow> (n + 1, Action a)
          | None \<Rightarrow> read_action gi actions k (n + 1))"

definition runTerminal :: "io \<Rightarrow> gateIO \<Rightarrow> step \<Rightarrow> gstate \<Rightarrow> gstate \<times> string" where
  "runTerminal io gi st s =
     (let form = st_form st;
          (n1, edits) = read_edits gi form (gs_ctx s) form (gs_in s) [];
          (n2, ans) = read_action gi (gateActions (st_actions st)) 5 n1;
          s1 = s\<lparr>gs_in := n2\<rparr>;
          source = (''source'', JStr ''terminal'')
      in case ans of
           Eof \<Rightarrow>
             (gate_event io (decision_kv st ''stop'' [(''reason'', JStr ''EOF''), source]) s1, ''abort_item'')
         | NoAction \<Rightarrow>
             (gate_event io (decision_kv st ''stop'' [(''reason'', JStr ''unrecognised''), source]) s1,
              ''abort_item'')
         | Action a \<Rightarrow>
             if a = ''reject'' then
               (gate_event io (decision_kv st ''reject'' [source]) s1, on_reject st)
             else
               (let m = gateMaterialize form (gs_ctx s1) edits in
                (gate_event io (decision_kv st ''accept''
                    [(''edits'', JObj edits), (''materialized'', JObj m), source])
                  (set_materialized st m s1), ''ok'')))"

subsection \<open>Structured\<close>

definition form_view :: "gateIO \<Rightarrow> obj \<Rightarrow> formField list \<Rightarrow> json list" where
  "form_view gi ctx form =
     map (\<lambda>f. JObj
       [(''field'', JStr (ff_field f)), (''editable'', JBool (ff_editable f)),
        (''type'', JStr (ff_type f)),
        (''value'', JStr (case Get (ff_field f) ctx of
           Some v \<Rightarrow> (if marshals v then gi_show gi v else ''<no data>'') | None \<Rightarrow> ''<no data>''))]) form"

definition source_kv :: "decision option \<Rightarrow> obj" where
  "source_kv d =
     (case d of
        None \<Rightarrow> [(''source'', JStr ''gui'')]
      | Some d \<Rightarrow>
          (''source'', JStr (if d_source d = [] then ''gui'' else d_source d)) #
          (if d_session d \<noteq> [] then [(''session'', JStr (d_session d))] else []))"

definition equalFold :: "string \<Rightarrow> string \<Rightarrow> bool" where
  "equalFold a b \<longleftrightarrow> toLower a = toLower b"

text \<open>
  The loop over \<open>WaitDecision\<close>, \<open>att\<close> attempts done and \<open>k\<close> left: each unrecognised action
  is a \<open>gate_retry\<close> event.
\<close>

datatype waited = WClosed | WNone "decision option" | WAction string decision

fun wait_action ::
  "io \<Rightarrow> gateIO \<Rightarrow> step \<Rightarrow> string list \<Rightarrow> nat \<Rightarrow> nat \<Rightarrow> decision option \<Rightarrow> gstate \<Rightarrow> gstate \<times> waited" where
  "wait_action io gi st actions att 0 lst s = (s, WNone lst)"
| "wait_action io gi st actions att (Suc k) lst s =
     (case gi_decision gi (gs_in s) of
        None \<Rightarrow> (s\<lparr>gs_in := gs_in s + 1\<rparr>, WClosed)
      | Some d \<Rightarrow>
          let s1 = s\<lparr>gs_in := gs_in s + 1\<rparr> in
          case find (equalFold (d_action d)) actions of
            Some a \<Rightarrow> (s1, WAction a d)
          | None \<Rightarrow>
              wait_action io gi st actions (att + 1) k (Some d)
                (s1\<lparr>gs_j := emit io ''gate_retry''
                   [(''step'', JStr (st_id st)), (''attempt'', JInt (int att + 1))] (gs_j s1)\<rparr>))"

definition runStructured :: "io \<Rightarrow> gateIO \<Rightarrow> step \<Rightarrow> gstate \<Rightarrow> gstate \<times> string" where
  "runStructured io gi st s =
     (let actions = gateActions (st_actions st);
          s0 = s\<lparr>gs_j := emit io ''gate_wait''
                 [(''step'', JStr (st_id st)), (''form'', JArr (form_view gi (gs_ctx s) (st_form st))),
                  (''actions'', JArr (map JStr actions))] (gs_j s)\<rparr>;
          (s1, w) = wait_action io gi st actions 0 5 None s0
      in case w of
           WClosed \<Rightarrow>
             (gate_event io (decision_kv st ''stop''
                [(''reason'', JStr ''EOF''), (''source'', JStr ''gui'')]) s1, ''abort_item'')
         | WNone d \<Rightarrow>
             (gate_event io (decision_kv st ''stop'' ((''reason'', JStr ''unrecognised'') # source_kv d)) s1,
              ''abort_item'')
         | WAction a d \<Rightarrow>
             if a = ''reject'' then
               (gate_event io (decision_kv st ''reject'' (source_kv (Some d))) s1, on_reject st)
             else
               (let (clean, skipped) = validateStructuredEdits (st_form st) (gs_ctx s1) (d_edits d);
                    m = gateMaterialize (st_form st) (gs_ctx s1) clean
                in (gate_event io (decision_kv st ''accept''
                      ([(''edits'', JObj clean), (''materialized'', JObj m)] @ source_kv (Some d) @
                       (if skipped \<noteq> [] then [(''skipped_edits'', JArr (map JStr skipped))] else [])))
                    (set_materialized st m s1), ''ok'')))"

definition gateRun ::
  "io \<Rightarrow> gateIO \<Rightarrow> ui \<Rightarrow> gateOptions \<Rightarrow> step \<Rightarrow> gstate \<Rightarrow> gstate \<times> string" where
  "gateRun io gi ui opts st s =
     (if autoApproveAllowed st opts then auto_accept io st ''auto_yes'' s
      else if go_allowAgentAuto opts \<and> agentAutoAllowed st opts
      then auto_accept io st ''agent_auto'' s
      else case ui of
        StructuredUI \<Rightarrow> runStructured io gi st s
      | LineUI \<Rightarrow> runTerminal io gi st s)"

section \<open>Lemmas\<close>

lemma foldl_put_other:
  "x \<notin> k ` set fs \<Longrightarrow>
     map_of (foldl (\<lambda>out f. case g f of Some v \<Rightarrow> AList.update (k f) v out | None \<Rightarrow> out) m fs) x =
     map_of m x"
  by (induction fs arbitrary: m) (auto split: option.splits)

lemma foldl_put_key:
  "distinct (map k fs) \<Longrightarrow> f \<in> set fs \<Longrightarrow>
     map_of (foldl (\<lambda>out f. case g f of Some v \<Rightarrow> AList.update (k f) v out | None \<Rightarrow> out) m fs) (k f) =
     (case g f of Some v \<Rightarrow> Some v | None \<Rightarrow> map_of m (k f))"
proof (induction fs arbitrary: m)
  case (Cons a fs)
  show ?case
  proof (cases "a = f")
    case True
    with Cons.prems have "k f \<notin> k ` set fs" by auto
    with True show ?thesis by (simp add: foldl_put_other split: option.splits)
  next
    case False
    with Cons.prems have "f \<in> set fs" "k a \<noteq> k f" by (auto simp: image_iff)
    with Cons show ?thesis by (auto split: option.splits)
  qed
qed simp

lemma materialize_lookup:
  "distinct (map (editKey form) form) \<Longrightarrow> f \<in> set form \<Longrightarrow>
     map_of (gateMaterialize form ctx edits) (editKey form f) = materialize_field form ctx edits f"
  by (simp add: gateMaterialize_def foldl_put_key split: option.splits)

lemma validate_fold_lookup:
  "map_of (fst (foldl (validate_field form ctx edits) acc fs)) x = Some v \<Longrightarrow>
     map_of (fst acc) x = Some v \<or>
     (\<exists>f \<in> set fs. ff_editable f \<and> editKey form f = x \<and> map_of edits (ff_field f) = Some v \<and>
        type_fits f ctx v)"
proof (induction fs arbitrary: acc)
  case (Cons a fs)
  from Cons.IH [of "validate_field form ctx edits acc a"] Cons.prems show ?case
    by (auto simp: validate_field_def split: if_splits option.splits)
qed simp

lemma validated_edit:
  "map_of (fst (validateStructuredEdits form ctx edits)) x = Some v \<Longrightarrow>
     \<exists>f \<in> set form. ff_editable f \<and> editKey form f = x \<and> map_of edits (ff_field f) = Some v \<and>
       type_fits f ctx v"
  using validate_fold_lookup [of form ctx edits "([], [])" form x v]
  by (auto simp: validateStructuredEdits_def split: if_splits)

lemma gateActions_range: "set (gateActions as) \<subseteq> {''accept'', ''reject''}"
proof -
  have "set out \<subseteq> {''accept'', ''reject''} \<Longrightarrow> set (gate_actions_acc as out) \<subseteq> {''accept'', ''reject''}"
    for out
    by (induction as out rule: gate_actions_acc.induct) (auto simp: Let_def split: if_splits)
  from this [of "[]"] show ?thesis by (auto simp: gateActions_def Let_def)
qed

lemma read_edits_le: "read_edits gi form ctx fs n edits = (n', edits') \<Longrightarrow> n \<le> n'"
proof (induction fs arbitrary: n edits)
  case (Cons f fs)
  then show ?case by (fastforce simp: Let_def split: if_splits option.splits dest: Suc_leD)
qed simp

lemma read_action_Action:
  "read_action gi actions k n = (n', Action a) \<Longrightarrow>
     \<exists>i l. n \<le> i \<and> i < n' \<and> gi_line gi i = Some l \<and> match_line actions (toLower (trimSpace l)) = Some a"
proof (induction k arbitrary: n)
  case (Suc k)
  show ?case
  proof (cases "gi_line gi n")
    case None
    with Suc.prems show ?thesis by simp
  next
    case (Some line)
    let ?ans = "toLower (trimSpace line)"
    show ?thesis
    proof (cases "?ans = [] \<or> match_line actions ?ans = None")
      case True
      with Suc.prems Some have "read_action gi actions k (n + 1) = (n', Action a)"
        by (auto simp: Let_def split: if_splits)
      from Suc.IH [OF this] obtain i l where "n + 1 \<le> i" "i < n'" "gi_line gi i = Some l"
        "match_line actions (toLower (trimSpace l)) = Some a" by blast
      then show ?thesis by (intro exI [of _ i] exI [of _ l]) simp
    next
      case False
      with Suc.prems Some show ?thesis
        by (intro exI [of _ n] exI [of _ line]) (auto simp: Let_def)
    qed
  qed
qed simp

lemma wait_action_WAction:
  "wait_action io gi st actions att k lst s = (s', WAction a d) \<Longrightarrow>
     (\<exists>i. gs_in s \<le> i \<and> i < gs_in s' \<and> gi_decision gi i = Some d) \<and> a \<in> set actions \<and>
     equalFold (d_action d) a"
proof (induction k arbitrary: att lst s)
  case (Suc k)
  show ?case
  proof (cases "gi_decision gi (gs_in s)")
    case None
    with Suc.prems show ?thesis by simp
  next
    case (Some e)
    show ?thesis
    proof (cases "find (equalFold (d_action e)) actions")
      case None
      with Suc.prems Some obtain s1 where "wait_action io gi st actions (att + 1) k (Some e) s1 =
          (s', WAction a d)" "gs_in s1 = gs_in s + 1"
        by (auto simp: Let_def)
      with Suc.IH [OF this(1)] show ?thesis by (auto intro: Suc_leD)
    next
      case (Some b)
      with Suc.prems \<open>gi_decision gi (gs_in s) = Some e\<close> show ?thesis
        by (auto simp: Let_def dest: find_Some_mem)
    qed
  qed
qed simp

lemma match_line_accept:
  assumes "match_line (gateActions as) ans = Some ''accept''"
  shows "ans = ''accept'' \<or> ans = ''a''"
proof -
  have "toLower ''a'' = ''a''" by code_simp
  with find_Some_mem [OF assms [unfolded match_line_def]] show ?thesis by auto
qed

lemma on_reject_stop: "st_onReject st \<in> {[], ''stop''} \<Longrightarrow> on_reject st = ''abort_item''"
  by (auto simp: on_reject_def)

section \<open>Properties\<close>

definition zero_field :: formField where
  "zero_field = \<lparr>ff_field = [], ff_editable = False, ff_type = [], ff_format = []\<rparr>"

definition said_accept :: "gateIO \<Rightarrow> ui \<Rightarrow> nat \<Rightarrow> bool" where
  "said_accept gi ui i \<longleftrightarrow>
     (case ui of
        LineUI \<Rightarrow> (\<exists>l. gi_line gi i = Some l \<and> toLower (trimSpace l) \<in> {''accept'', ''a''})
      | StructuredUI \<Rightarrow> (\<exists>d. gi_decision gi i = Some d \<and> equalFold (d_action d) ''accept''))"

lemma gate_ok_approved:
  assumes "gateRun io gi ui opts st s = (s', ''ok'')" and "st_onReject st \<in> {[], ''stop''}"
  shows "autoApproveAllowed st opts \<or> agentAutoAllowed st opts \<or> (\<exists>i \<ge> gs_in s. said_accept gi ui i)"
proof (cases "autoApproveAllowed st opts \<or> agentAutoAllowed st opts")
  case False
  then have na: "\<not> autoApproveAllowed st opts" "\<not> (go_allowAgentAuto opts \<and> agentAutoAllowed st opts)"
    by auto
  note stop = on_reject_stop [OF assms(2)]
  show ?thesis
  proof (cases ui)
    case LineUI
    with assms(1) na have r: "runTerminal io gi st s = (s', ''ok'')" by (simp add: gateRun_def)
    obtain n1 edits where e: "read_edits gi (st_form st) (gs_ctx s) (st_form st) (gs_in s) [] = (n1, edits)"
      by fastforce
    obtain n2 ans where a: "read_action gi (gateActions (st_actions st)) 5 n1 = (n2, ans)" by fastforce
    from r e a stop obtain b where b: "ans = Action b" "b \<noteq> ''reject''"
      by (auto simp: runTerminal_def Let_def split: answer.splits if_splits)
    from read_action_Action [OF a [unfolded b]] obtain i l where i: "n1 \<le> i" "gi_line gi i = Some l"
      and m: "match_line (gateActions (st_actions st)) (toLower (trimSpace l)) = Some b" by blast
    from find_Some_mem [OF m [unfolded match_line_def]] gateActions_range b(2) have "b = ''accept''" by auto
    with m match_line_accept have "toLower (trimSpace l) \<in> {''accept'', ''a''}" by blast
    moreover have "gs_in s \<le> n1" using read_edits_le [OF e] .
    ultimately show ?thesis using i LineUI by (auto simp: said_accept_def intro!: exI [of _ i])
  next
    case StructuredUI
    with assms(1) na have r: "runStructured io gi st s = (s', ''ok'')" by (simp add: gateRun_def)
    obtain s1 w where w: "wait_action io gi st (gateActions (st_actions st)) 0 5 None
        (s\<lparr>gs_j := emit io ''gate_wait''
                 [(''step'', JStr (st_id st)), (''form'', JArr (form_view gi (gs_ctx s) (st_form st))),
                  (''actions'', JArr (map JStr (gateActions (st_actions st))))] (gs_j s)\<rparr>) = (s1, w)"
      by fastforce
    from r w stop obtain b d where b: "w = WAction b d" "b \<noteq> ''reject''"
      by (auto simp: runStructured_def Let_def split: waited.splits if_splits)
    from wait_action_WAction [OF w [unfolded b]] obtain i where "gs_in s \<le> i" "gi_decision gi i = Some d"
      "b \<in> set (gateActions (st_actions st))" "equalFold (d_action d) b" by auto
    with b(2) gateActions_range StructuredUI show ?thesis by (fastforce simp: said_accept_def)
  qed
qed auto


text \<open>
  --yes never answers for a human where the author asked for one: with the option the runner
  passes, an automatic approval by --yes excludes \<open>approval: human\<close> and \<open>gates: human_only\<close>.
\<close>

lemma auto_yes_respects_human:
  assumes "autoApproveAllowed st opts" and "go_requireHuman opts = (p_gates p = ''human_only'')"
  shows "\<not> RequiresHuman p st"
  using assms by (auto simp: autoApproveAllowed_def RequiresHuman_def)

text \<open>
  A read-only field is materialised with the value of the context whatever edits the
  client sends, and an editable one with an edit only if the edit has the expected type
  (for a form whose materialisation keys do not collide).
\<close>

lemma structured_edits_confined:
  assumes "distinct (map (editKey (st_form st)) (st_form st))" and "f \<in> set (st_form st)"
    and "\<forall>g \<in> set (st_form st). editKey (st_form st) g = Basename (ff_field f) \<longrightarrow> g = f"
    and "clean = fst (validateStructuredEdits (st_form st) ctx edits)"
  shows "map_of (gateMaterialize (st_form st) ctx clean) (editKey (st_form st) f) =
      Get (ff_field f) ctx \<or>
    ff_editable f \<and> (\<exists>v. map_of edits (ff_field f) = Some v \<and> type_fits f ctx v \<and>
      map_of (gateMaterialize (st_form st) ctx clean) (editKey (st_form st) f) = Some v)"
proof -
  let ?form = "st_form st"
  have own: "g = f" if "g \<in> set ?form" "editKey ?form g = editKey ?form f" for g
    using that assms(1,2) by (meson distinct_map inj_onD)
  have edit: "ff_editable f \<and> map_of edits (ff_field f) = Some v \<and> type_fits f ctx v"
    if k: "map_of clean k = Some v" "k = editKey ?form f \<or> k = Basename (ff_field f)" for k v
  proof -
    from validated_edit [OF k(1) [unfolded assms(4)]] obtain g where
      "g \<in> set ?form" "ff_editable g" "editKey ?form g = k" "map_of edits (ff_field g) = Some v"
      "type_fits g ctx v" by blast
    moreover from this k(2) own assms(3) have "g = f" by blast
    ultimately show ?thesis by blast
  qed
  show ?thesis
    unfolding materialize_lookup [OF assms(1,2)]
    by (auto simp: materialize_field_def Let_def split: option.splits if_splits dest: edit)
qed

text \<open>
  The agent policy, unlike --yes, does not look at the pipeline's \<open>gates: human_only\<close>.
\<close>

lemma agent_auto_ignores_human_only:
  "agentAutoAllowed st
     \<lparr>go_yes = False, go_allowAuto = False, go_requireHuman = True, go_allowAgentAuto = True\<rparr> \<longleftrightarrow>
   st_approval st \<noteq> ''human''"
  by (simp add: agentAutoAllowed_def)

definition gate_io :: io where
  "gate_io = \<lparr>io_len = (\<lambda>_. 10), io_indentLen = (\<lambda>_. 10), io_now = (\<lambda>_. ''t''),
     io_write = (\<lambda>_. WOk), io_snap = (\<lambda>_. SOk)\<rparr>"

definition demo_gi :: gateIO where
  "demo_gi = \<lparr>gi_line = (\<lambda>n. if n = 0 then Some ''what'' else if n = 1 then Some '' A '' else None),
     gi_decision = (\<lambda>_. None), gi_unmarshal = (\<lambda>_. None), gi_show = (\<lambda>_. [])\<rparr>"

definition demo_opts :: gateOptions where
  "demo_opts = \<lparr>go_yes = False, go_allowAuto = True, go_requireHuman = False, go_allowAgentAuto = False\<rparr>"

definition demo_gs :: gstate where
  "demo_gs = \<lparr>gs_ctx = NewCtx [(''x'', JInt 1)], gs_j = NewJournal, gs_in = 0\<rparr>"

definition demo_gate_step :: step where
  "demo_gate_step = zero_step\<lparr>st_id := ''g'', st_plugin := ''core/human_gate''\<rparr>"

definition demo_form_step :: step where
  "demo_form_step = zero_step\<lparr>st_id := ''g'', st_plugin := ''core/human_gate'',
     st_form := [zero_field\<lparr>ff_field := ''input.x''\<rparr>,
                 zero_field\<lparr>ff_field := ''input.y'', ff_editable := True, ff_type := ''string''\<rparr>]\<rparr>"


end
