(* ===== verification/Step_Runner.thy ===== *)
theory Step_Runner
  imports When_Cond Plugin_Contract Plugin_Exec Gate_Service
begin

text \<open>
  The execution of one step (internal/execution/steps.go, loop.go, builtin_text_stats.go): the
  condition, the step-level foreach and loop, the dispatch to a gate, a built-in module or a
  plugin, the attempts and their delays, and what is written to the context and the journal.

  Everything outside the process is a \<open>world\<close>; \<open>rs_clock\<close> counts the interactions with it, so
  that it may answer differently each time. Message texts, durations and timestamps of events
  are left out.
\<close>

section \<open>State and world\<close>

record world =
  w_load :: "string \<Rightarrow> manifest option"
  w_tw :: trustWorld
  w_policy :: trustPolicy
  w_os :: "nat \<Rightarrow> manifest \<Rightarrow> obj \<Rightarrow> int \<Rightarrow> osrun"
  w_cancelled :: "nat \<Rightarrow> bool"
  w_io :: io
  w_gi :: gateIO
  w_fileRefs :: "nat \<Rightarrow> manifest \<Rightarrow> obj \<Rightarrow> string list"
  w_words :: "string \<Rightarrow> string list"
  w_lower :: "string \<Rightarrow> string"
  w_order :: "nat \<Rightarrow> nat \<Rightarrow> nat list"

record rstate =
  rs_ctx :: obj
  rs_j :: journal
  rs_in :: nat
  rs_clock :: nat
  rs_budget :: int

record ropts =
  ro_yes :: bool
  ro_noAutoApprove :: bool
  ro_mcp :: bool
  ro_gateUI :: "(step \<Rightarrow> ui) option"
  ro_budgetLimit :: int
  ro_skip :: "string list"

datatype run_err = RCancelled | RCode string | RPlain

definition ErrorCode :: "run_err \<Rightarrow> string" where
  "ErrorCode e = (case e of RCancelled \<Rightarrow> ''cancelled'' | RCode c \<Rightarrow> c | RPlain \<Rightarrow> ''run_error'')"

type_synonym 'a res = "rstate \<times> (run_err + 'a)"

definition ev :: "world \<Rightarrow> string \<Rightarrow> obj \<Rightarrow> rstate \<Rightarrow> rstate" where
  "ev w kind kv s = s\<lparr>rs_j := emit (w_io w) kind kv (rs_j s)\<rparr>"

definition events :: "world \<Rightarrow> string \<Rightarrow> obj list \<Rightarrow> rstate \<Rightarrow> rstate" where
  "events w kind kvs s = foldl (\<lambda>s kv. ev w kind kv s) s kvs"

definition tick :: "rstate \<Rightarrow> rstate" where
  "tick s = s\<lparr>rs_clock := rs_clock s + 1\<rparr>"

definition snapshot :: "world \<Rightarrow> rstate \<Rightarrow> rstate" where
  "snapshot w s = s\<lparr>rs_j := snap (w_io w) (rs_ctx s) (rs_j s)\<rparr>"

definition cancelled :: "world \<Rightarrow> rstate \<Rightarrow> bool" where
  "cancelled w s = w_cancelled w (rs_clock s)"

definition drop_step :: "string \<Rightarrow> rstate \<Rightarrow> rstate" where
  "drop_step i s = s\<lparr>rs_ctx := on_steps (AList.delete i) (rs_ctx s)\<rparr>"

abbreviation step_kv :: "step \<Rightarrow> obj \<Rightarrow> obj" where
  "step_kv st kv \<equiv> (''step'', JStr (st_id st)) # kv"

section \<open>builtin_text_stats.go\<close>

definition rune_count :: "string \<Rightarrow> nat" where
  "rune_count s = length (filter (\<lambda>c. \<not> (128 \<le> (of_char c :: nat) \<and> (of_char c :: nat) < 192)) s)"

definition longest_word :: "string list \<Rightarrow> string" where
  "longest_word ws = foldl (\<lambda>l x. if l = [] \<or> rune_count x > rune_count l then x else l) [] ws"

definition textStats :: "world \<Rightarrow> string \<Rightarrow> obj option" where
  "textStats w text =
     (let trimmed = trimSpace text in
      if trimmed = [] then None
      else
        let words = w_words w trimmed in
        Some [(''lines'', JInt (int (count_list trimmed (CHR 0x0A)) + 1)),
              (''words'', JInt (int (length words))),
              (''unique_words'', JInt (int (length (nub (map (w_lower w) words))))),
              (''longest_word'', JStr (longest_word words))])"

definition step_error_fate :: "world \<Rightarrow> step \<Rightarrow> string \<Rightarrow> rstate \<Rightarrow> string res" where
  "step_error_fate w st code s =
     (if st_onError st = ''skip'' then
        (drop_step (st_id st)
           (ev w ''step_skipped'' (step_kv st [(''reason'', JStr ''on_error''), (''code'', JStr code)]) s),
         Inr ''ok'')
      else (ev w ''step_failed'' (step_kv st [(''code'', JStr code)]) s, Inr ''abort_item''))"

fun first_string :: "obj \<Rightarrow> string" where
  "first_string [] = []"
| "first_string ((k, JStr s) # m) = s"
| "first_string ((k, v) # m) = first_string m"

definition contract_warning :: "world \<Rightarrow> step \<Rightarrow> string list \<Rightarrow> rstate \<Rightarrow> rstate" where
  "contract_warning w st dropped s =
     (if length dropped > 0
      then ev w ''contract_warning'' (step_kv st [(''dropped_fields'', JArr (map JStr dropped))]) s
      else s)"

text \<open>The last part of a successful step: the output contract, then the context.\<close>

definition accept_output :: "world \<Rightarrow> manifest \<Rightarrow> step \<Rightarrow> obj \<Rightarrow> rstate \<Rightarrow> string res" where
  "accept_output w m st out s =
     (let (res, dropped) = EnforceOutput m out;
          s1 = contract_warning w st dropped s
      in case res of
           Inl _ \<Rightarrow> (s1, Inl (RCode ''contract_output''))
         | Inr clean \<Rightarrow> (s1\<lparr>rs_ctx := SetStep (st_id st) clean (rs_ctx s1)\<rparr>, Inr ''ok''))"

definition runBuiltinDataStep :: "world \<Rightarrow> step \<Rightarrow> rstate \<Rightarrow> string res" where
  "runBuiltinDataStep w st s =
     (case w_load w (st_plugin st) of
        None \<Rightarrow> (s, Inl (RCode ''E_PLUGIN_LOAD''))
      | Some m \<Rightarrow>
          (case buildInput m st (rs_ctx s) of
             Inl _ \<Rightarrow> step_error_fate w st ''contract_input'' s
           | Inr inp \<Rightarrow>
               (case textStats w (first_string inp) of
                  None \<Rightarrow> step_error_fate w st ''empty_text'' s
                | Some out \<Rightarrow> accept_output w m st out s)))"

section \<open>runStep\<close>

definition gate_ui :: "ropts \<Rightarrow> step \<Rightarrow> run_err + ui" where
  "gate_ui opts st =
     (case ro_gateUI opts of
        Some f \<Rightarrow> Inr (f st)
      | None \<Rightarrow> (if ro_mcp opts then Inl (RCode ''E_NO_GATE_UI'') else Inr LineUI))"

definition gate_opts :: "pipeline \<Rightarrow> ropts \<Rightarrow> gateOptions" where
  "gate_opts p opts =
     \<lparr>go_yes = ro_yes opts, go_allowAuto = \<not> ro_noAutoApprove opts,
      go_requireHuman = (p_gates p = ''human_only''), go_allowAgentAuto = False\<rparr>"

definition run_gate :: "world \<Rightarrow> pipeline \<Rightarrow> ropts \<Rightarrow> step \<Rightarrow> rstate \<Rightarrow> string res" where
  "run_gate w p opts st s =
     (case gate_ui opts st of
        Inl e \<Rightarrow> (s, Inl e)
      | Inr ui \<Rightarrow>
          (let (g, action) = gateRun (w_io w) (w_gi w) ui (gate_opts p opts) st
                 \<lparr>gs_ctx = rs_ctx s, gs_j = rs_j s, gs_in = rs_in s\<rparr>;
               s1 = tick (s\<lparr>rs_ctx := gs_ctx g, rs_j := gs_j g, rs_in := gs_in g\<rparr>)
           in if cancelled w s1 then (s1, Inl RCancelled) else (s1, Inr action)))"

definition retryDelay :: "step \<Rightarrow> nat \<Rightarrow> int" where
  "retryDelay st attempt =
     (case st_retry st of
        None \<Rightarrow> second
      | Some r \<Rightarrow>
          (let d0 = (if r_delay r > 0 then r_delay r else second);
               d1 = (if d0 > MaxRetryDelay then MaxRetryDelay else d0)
           in if r_backoff r = ''exponential'' then
                ((\<lambda>d. if d \<ge> MaxRetryDelay div 2 then MaxRetryDelay else d * 2) ^^ (attempt - 1)) d1
              else d1))"

definition statusOf :: "execResult \<Rightarrow> string" where
  "statusOf r = (if res_OK r then ''ok'' else if er_platform r then ''platform_error'' else ''domain_error'')"

definition errOrNil :: "execResult \<Rightarrow> json" where
  "errOrNil r =
     (if res_OK r then JNull
      else JObj [(''code'', JStr (er_errCode r)), (''retryable'', JBool (er_retryable r))])"

text \<open>\<open>k + 1\<close> attempts are left, the first of them numbered \<open>attempt\<close>.\<close>

fun attempts_loop ::
  "world \<Rightarrow> manifest \<Rightarrow> step \<Rightarrow> obj \<Rightarrow> int \<Rightarrow> string \<Rightarrow> nat \<Rightarrow> nat \<Rightarrow> rstate \<Rightarrow> execResult res" where
  "attempts_loop w m st inp timeout netEnv k attempt s =
     (let s1 = ev w ''step_start'' (step_kv st
                 [(''attempt'', JInt (int attempt)), (''network'', JStr netEnv),
                  (''network_declared'', JArr (map JStr (NetworkHostList m)))]) s;
          r = execPluginEnv (w_tw w) (w_policy w) (w_os w (rs_clock s1) m inp timeout) m
                [''FIDESPIPE_NETWORK='' @ netEnv];
          s2 = ev w ''step_end'' (step_kv st
                 [(''attempt'', JInt (int attempt)), (''exit_code'', JInt (er_exitCode r)),
                  (''status'', JStr (statusOf r)), (''error'', errOrNil r)]) (tick s1)
      in if er_cancelled r then (s2, Inl RCancelled)
         else if res_OK r \<or> \<not> ShouldRetry r then (s2, Inr r)
         else
           let s3 = tick s2 in
           if cancelled w s3 then (s3, Inl RCancelled)
           else (case k of
                   0 \<Rightarrow> (s3, Inr r)
                 | Suc k' \<Rightarrow> attempts_loop w m st inp timeout netEnv k' (attempt + 1) s3))"

declare attempts_loop.simps [simp del]

definition num_attempts :: "step \<Rightarrow> int" where
  "num_attempts st =
     (let a = (if st_onError st = ''retry'' then
                 (case st_retry st of
                    Some r \<Rightarrow> (if r_attempts r > 0 then r_attempts r else 3) | None \<Rightarrow> 3)
               else 1)
      in if a > MaxRetryAttempts then MaxRetryAttempts else a)"

definition file_ref_warnings :: "world \<Rightarrow> step \<Rightarrow> manifest \<Rightarrow> obj \<Rightarrow> rstate \<Rightarrow> rstate" where
  "file_ref_warnings w st m inp s =
     events w ''file_ref_warning''
       (map (\<lambda>msg. step_kv st [(''message'', JStr msg)]) (w_fileRefs w (rs_clock s) m inp)) (tick s)"

definition run_plugin :: "world \<Rightarrow> pipeline \<Rightarrow> manifest \<Rightarrow> step \<Rightarrow> obj \<Rightarrow> rstate \<Rightarrow> string res" where
  "run_plugin w p m st inp s =
     (let s1 = file_ref_warnings w st m inp s in
      if \<not> marshals (JObj inp) then
        (ev w ''step_failed'' (step_kv st [(''code'', JStr ''context_serialization'')]) s1,
         Inl (RCode ''context_serialization''))
      else if st_timeout st < 0 \<or> st_timeout st > MaxStepTimeout
      then (s1, Inl (RCode ''E_TIMEOUT_LIMIT''))
      else
        let timeout = (if st_timeout st = 0 then 60 * second else st_timeout st);
            netEnv = (if EffectiveNetwork p = ''deny'' then ''deny'' else ''allow'');
            (s2, res) = attempts_loop w m st inp timeout netEnv (nat (num_attempts st) - 1) 1 s1
        in case res of
             Inl e \<Rightarrow> (s2, Inl e)
           | Inr r \<Rightarrow>
               if res_OK r then accept_output w m st (er_output r) s2
               else if er_platform r then (s2, Inl (RCode (PlatformErrCode (er_errCode r))))
               else step_error_fate w st (er_errCode r) s2)"

definition runStep :: "world \<Rightarrow> pipeline \<Rightarrow> ropts \<Rightarrow> step \<Rightarrow> rstate \<Rightarrow> string res" where
  "runStep w p opts st s =
     (if IsBuiltin (st_plugin st) then
        (if \<not> IsHumanGate (st_plugin st) then runBuiltinDataStep w st s
         else run_gate w p opts st s)
      else if IsBuiltinNamespace (st_plugin st) then (s, Inl (RCode ''E_PLUGIN_LOAD''))
      else case w_load w (st_plugin st) of
        None \<Rightarrow> (s, Inl RPlain)
      | Some m \<Rightarrow>
          (case buildInput m st (rs_ctx s) of
             Inl _ \<Rightarrow> step_error_fate w st ''contract_input'' s
           | Inr inp \<Rightarrow> run_plugin w p m st inp s))"

section \<open>Step-level foreach and loop\<close>

definition item_key :: "string \<Rightarrow> string" where
  "item_key k = (if k = [] then ''item'' else k)"

definition fe_kv :: "step \<Rightarrow> nat \<Rightarrow> obj \<Rightarrow> obj" where
  "fe_kv st i kv = step_kv st ((''index'', JInt (int i)) # kv)"

fun foreach_items ::
  "world \<Rightarrow> pipeline \<Rightarrow> ropts \<Rightarrow> step \<Rightarrow> nat \<Rightarrow> json list \<Rightarrow> json list \<Rightarrow> rstate \<Rightarrow> json list res" where
  "foreach_items w p opts st i [] results s = (s, Inr results)"
| "foreach_items w p opts st i (it # its) results s =
     (let s1 = ev w ''foreach_item_start'' (fe_kv st i [(''item'', it)]) s;
          s2 = s1\<lparr>rs_ctx := SetInput (item_key (st_foreachItem st)) it (rs_ctx s1)\<rparr>
      in case runStep w p opts st s2 of
           (s3, Inl e) \<Rightarrow> (ev w ''foreach_item_failed'' (fe_kv st i []) s3, Inl e)
         | (s3, Inr action) \<Rightarrow>
             if action = ''abort_item'' then
               (ev w ''foreach_item_failed'' (fe_kv st i [(''reason'', JStr ''on_error=stop'')]) s3, Inl RPlain)
             else
               (let results' = (case map_of (Steps (rs_ctx s3)) (st_id st) of
                                  Some out \<Rightarrow> results @ [out] | None \<Rightarrow> results)
                in foreach_items w p opts st (i + 1) its results'
                     (ev w ''foreach_item_end'' (fe_kv st i []) s3)))"

definition runStepForeach :: "world \<Rightarrow> pipeline \<Rightarrow> ropts \<Rightarrow> step \<Rightarrow> rstate \<Rightarrow> string res" where
  "runStepForeach w p opts st s =
     (case Get (st_foreach st) (rs_ctx s) of
        Some (JArr arr) \<Rightarrow>
          if int (length arr) > MaxForeachItems then (s, Inl (RCode ''resource_limit''))
          else
            (case foreach_items w p opts st 0 arr [] s of
               (s1, Inl e) \<Rightarrow> (s1, Inl e)
             | (s1, Inr results) \<Rightarrow>
                 (s1\<lparr>rs_ctx := on_steps (AList.update (st_id st @ ''_all'') (JArr results)) (rs_ctx s1)\<rparr>,
                  Inr ''ok''))
      | _ \<Rightarrow> (s, Inl (RCode ''foreach_path'')))"

definition effectiveLimit :: "ropts \<Rightarrow> int" where
  "effectiveLimit opts = (if ro_budgetLimit opts \<le> 0 then MaxTotalLoopBudget else ro_budgetLimit opts)"

definition consumeLoopIteration :: "ropts \<Rightarrow> rstate \<Rightarrow> rstate \<times> bool" where
  "consumeLoopIteration opts s =
     (s\<lparr>rs_budget := rs_budget s + 1\<rparr>, rs_budget s + 1 \<le> effectiveLimit opts)"

definition loop_max :: "step \<Rightarrow> nat" where
  "loop_max st =
     nat (let m = (if st_maxIterations st \<le> 0 then MaxLoopIterations else st_maxIterations st)
          in if m > MaxLoopIterations then MaxLoopIterations else m)"

definition loop_condition :: "step \<Rightarrow> string" where
  "loop_condition st =
     (if st_loopCondition st = [] then ''steps.'' @ st_id st @ ''.continue'' else st_loopCondition st)"

definition it_kv :: "step \<Rightarrow> nat \<Rightarrow> obj \<Rightarrow> obj" where
  "it_kv st i kv = step_kv st ((''iteration'', JInt (int i)) # kv)"

fun loop_iterations ::
  "world \<Rightarrow> pipeline \<Rightarrow> ropts \<Rightarrow> step \<Rightarrow> nat \<Rightarrow> nat \<Rightarrow> rstate \<Rightarrow> string res" where
  "loop_iterations w p opts st 0 i s =
     (ev w ''loop_max_iterations'' (step_kv st [(''max_iterations'', JInt (int i))]) s, Inr ''ok'')"
| "loop_iterations w p opts st (Suc k) i s =
     (case consumeLoopIteration opts s of
        (s1, False) \<Rightarrow>
          (ev w ''loop_budget_exhausted'' (step_kv st [(''total_iterations'', JInt (rs_budget s1)),
             (''limit'', JInt (effectiveLimit opts))]) s1, Inl (RCode ''resource_limit''))
      | (s1, True) \<Rightarrow>
          if int (WriteErrors (rs_j s1)) > MaxLoopJournalEvents then
            (ev w ''loop_journal_limit'' (step_kv st
               [(''write_errors'', JInt (int (WriteErrors (rs_j s1))))]) s1, Inl (RCode ''resource_limit''))
          else
            (case runStep w p opts st (ev w ''loop_iteration_start'' (it_kv st i []) s1) of
               (s2, Inl e) \<Rightarrow> (ev w ''loop_iteration_failed'' (it_kv st i []) s2, Inl e)
             | (s2, Inr action) \<Rightarrow>
                 if action = ''abort_item'' then
                   (ev w ''loop_iteration_failed'' (it_kv st i [(''reason'', JStr ''on_error=stop'')]) s2,
                    Inl RPlain)
                 else case Get (loop_condition st) (rs_ctx s2) of
                   None \<Rightarrow>
                     (ev w ''loop_iteration_end'' (it_kv st i [(''reason'', JStr ''condition_not_found'')]) s2,
                      Inr ''ok'')
                 | Some v \<Rightarrow>
                     if v \<noteq> JBool True then
                       (ev w ''loop_iteration_end'' (it_kv st i [(''reason'', JStr ''condition_false'')]) s2,
                        Inr ''ok'')
                     else
                       loop_iterations w p opts st k (i + 1)
                         (ev w ''loop_iteration_end'' (it_kv st i [(''reason'', JStr ''continue'')]) s2)))"

definition runStepLoop :: "world \<Rightarrow> pipeline \<Rightarrow> ropts \<Rightarrow> step \<Rightarrow> rstate \<Rightarrow> string res" where
  "runStepLoop w p opts st s = loop_iterations w p opts st (loop_max st) 0 s"

definition runStepFlow :: "world \<Rightarrow> pipeline \<Rightarrow> ropts \<Rightarrow> step \<Rightarrow> rstate \<Rightarrow> string res" where
  "runStepFlow w p opts st s =
     (case (if IsSet (st_when st) then EvaluateWhen (st_when st) (rs_ctx s) else Inr True) of
        Inl _ \<Rightarrow>
          (ev w ''step_skipped'' (step_kv st [(''reason'', JStr ''when''), (''error'', JStr ''when'')]) s,
           Inl (RCode ''when_error''))
      | Inr False \<Rightarrow> (ev w ''step_skipped'' (step_kv st [(''reason'', JStr ''when'')]) s, Inr ''ok'')
      | Inr True \<Rightarrow>
          if st_foreach st \<noteq> [] then runStepForeach w p opts st s
          else if st_loop st \<noteq> [] then runStepLoop w p opts st s
          else runStep w p opts st s)"

section \<open>Lemmas: the state\<close>

lemma ev_fields [simp]:
  "rs_ctx (ev w k kv s) = rs_ctx s" "rs_clock (ev w k kv s) = rs_clock s"
  "rs_budget (ev w k kv s) = rs_budget s" "rs_in (ev w k kv s) = rs_in s"
  by (simp_all add: ev_def)

lemma tick_fields [simp]:
  "rs_ctx (tick s) = rs_ctx s" "rs_budget (tick s) = rs_budget s" "rs_in (tick s) = rs_in s"
  "rs_j (tick s) = rs_j s" "rs_clock (tick s) = rs_clock s + 1"
  by (simp_all add: tick_def)

lemma snapshot_fields [simp]:
  "rs_ctx (snapshot w s) = rs_ctx s" "rs_clock (snapshot w s) = rs_clock s"
  "rs_budget (snapshot w s) = rs_budget s" "rs_in (snapshot w s) = rs_in s"
  by (simp_all add: snapshot_def)

lemma drop_step_fields [simp]:
  "rs_j (drop_step i s) = rs_j s" "rs_clock (drop_step i s) = rs_clock s"
  "rs_budget (drop_step i s) = rs_budget s"
  by (simp_all add: drop_step_def)

lemma contract_warning_fields [simp]:
  "rs_ctx (contract_warning w st d s) = rs_ctx s"
  "rs_budget (contract_warning w st d s) = rs_budget s"
  "rs_clock (contract_warning w st d s) = rs_clock s"
  by (simp_all add: contract_warning_def)

lemma events_fields [simp]:
  "rs_ctx (events w k kvs s) = rs_ctx s" "rs_clock (events w k kvs s) = rs_clock s"
  "rs_budget (events w k kvs s) = rs_budget s" "rs_in (events w k kvs s) = rs_in s"
  by (induction kvs arbitrary: s; simp add: events_def)+

lemma file_ref_warnings_fields [simp]:
  "rs_ctx (file_ref_warnings w st m inp s) = rs_ctx s"
  "rs_budget (file_ref_warnings w st m inp s) = rs_budget s"
  "rs_clock (file_ref_warnings w st m inp s) = rs_clock s + 1"
  by (simp_all add: file_ref_warnings_def)

text \<open>The state a step leaves behind, apart from the context.\<close>

lemma attempts_loop_fields:
  "attempts_loop w m st inp timeout netEnv k attempt s = (s', r) \<Longrightarrow>
     rs_ctx s' = rs_ctx s \<and> rs_budget s' = rs_budget s \<and> rs_clock s \<le> rs_clock s' \<and>
     rs_clock s' \<le> rs_clock s + 2 * (k + 1)"
proof (induction k arbitrary: attempt s)
  case 0
  then show ?case by (subst (asm) attempts_loop.simps) (auto simp: Let_def split: if_splits)
next
  case (Suc k)
  from Suc.prems show ?case
    by (subst (asm) attempts_loop.simps)
      (auto simp: Let_def split: if_splits dest!: Suc.IH)
qed

lemma step_error_fate_fields:
  "step_error_fate w st code s = (s', r) \<Longrightarrow>
     rs_budget s' = rs_budget s \<and> rs_clock s' = rs_clock s \<and>
     (r = Inr ''ok'' \<and> st_onError st = ''skip'' \<and> rs_ctx s' = on_steps (AList.delete (st_id st)) (rs_ctx s) \<or>
      r = Inr ''abort_item'' \<and> rs_ctx s' = rs_ctx s)"
  by (auto simp: step_error_fate_def drop_step_def split: if_splits)

text \<open>An output that satisfies the contract of the manifest.\<close>

definition contract_ok :: "manifest \<Rightarrow> obj \<Rightarrow> bool" where
  "contract_ok m out \<longleftrightarrow> (\<forall>np \<in> set (m_output m). port_kept out np) \<and>
     (\<forall>k \<in> fst ` set out. map_of (m_output m) k \<noteq> None)"

lemma EnforceOutput_contract:
  "EnforceOutput m out = (Inr clean, dropped) \<Longrightarrow> contract_ok m clean"
  by (auto simp: EnforceOutput_def Let_def contract_ok_def declared_part_def check_ports_None_iff
      split: option.splits)

lemma accept_output_cases:
  "accept_output w m st out s = (s', r) \<Longrightarrow>
     rs_budget s' = rs_budget s \<and> rs_clock s' = rs_clock s \<and>
     (r = Inl (RCode ''contract_output'') \<and> rs_ctx s' = rs_ctx s \<or>
      r = Inr ''ok'' \<and> (\<exists>clean. contract_ok m clean \<and> rs_ctx s' = SetStep (st_id st) clean (rs_ctx s)))"
  by (auto simp: accept_output_def Let_def split: prod.splits sum.splits dest: EnforceOutput_contract)

text \<open>What a step may change in the context: the entry of its own id.\<close>

definition step_frame :: "string \<Rightarrow> obj \<Rightarrow> obj \<Rightarrow> bool" where
  "step_frame i d d' \<longleftrightarrow> ctx_wf d' \<and> Input d' = Input d \<and>
     (\<forall>k. k \<noteq> i \<longrightarrow> map_of (Steps d') k = map_of (Steps d) k)"

lemma step_frame_refl: "ctx_wf d \<Longrightarrow> step_frame i d d"
  by (simp add: step_frame_def)

lemma step_frame_SetStep: "ctx_wf d \<Longrightarrow> step_frame i d (SetStep i out d)"
  by (simp add: step_frame_def ctx_wf_SetStep)

lemma Input_on_steps: "Input (on_steps f d) = Input d"
  by (auto simp: Input_def on_steps_def namespace_def split: option.splits json.splits)

lemma step_frame_delete: "ctx_wf d \<Longrightarrow> step_frame i d (on_steps (AList.delete i) d)"
  by (simp add: step_frame_def ctx_wf_on_steps Steps_on_steps Input_on_steps)

definition ctx_step :: "step \<Rightarrow> obj \<Rightarrow> obj \<Rightarrow> bool" where
  "ctx_step st d d' \<longleftrightarrow> d' = d \<or> (\<exists>m. d' = SetStep (st_id st) m d)"

lemma gate_event_ctx [simp]: "gs_ctx (gate_event io kv g) = gs_ctx g"
  by (simp add: gate_event_def)

lemma set_materialized_ctx: "gs_ctx g = d \<Longrightarrow> ctx_step st d (gs_ctx (set_materialized st m g))"
  by (auto simp: set_materialized_def ctx_step_def)

lemma wait_action_ctx: "gs_ctx (fst (wait_action io gi st actions att k lst g)) = gs_ctx g"
  by (induction k arbitrary: att lst g) (auto simp: Let_def split: option.splits)

lemma gate_ctx: "ctx_step st (gs_ctx g) (gs_ctx (fst (gateRun io gi u go st g)))"
proof -
  have refl: "ctx_step st d d" for d by (simp add: ctx_step_def)
  have auto: "ctx_step st (gs_ctx g) (gs_ctx (fst (auto_accept io st src g)))" for src
    by (simp add: auto_accept_def Let_def set_materialized_ctx)
  have structured: "ctx_step st (gs_ctx g) (gs_ctx (fst (runStructured io gi st g)))"
  proof -
    define g0 where "g0 = g\<lparr>gs_j := emit io ''gate_wait''
        [(''step'', JStr (st_id st)), (''form'', JArr (form_view gi (gs_ctx g) (st_form st))),
         (''actions'', JArr (map JStr (gateActions (st_actions st))))] (gs_j g)\<rparr>"
    obtain g1 r where w: "wait_action io gi st (gateActions (st_actions st)) 0 5 None g0 = (g1, r)"
      by fastforce
    have "gs_ctx g1 = gs_ctx g"
      using wait_action_ctx [of io gi st "gateActions (st_actions st)" 0 5 None g0] w
      by (simp add: g0_def)
    with w show ?thesis
      by (auto simp: runStructured_def Let_def refl set_materialized_ctx g0_def [symmetric]
          split: waited.splits prod.splits)
  qed
  have terminal: "ctx_step st (gs_ctx g) (gs_ctx (fst (runTerminal io gi st g)))"
    by (auto simp: runTerminal_def Let_def refl set_materialized_ctx split: prod.splits answer.splits)
  show ?thesis using auto structured terminal by (simp add: gateRun_def split: ui.split)
qed

lemma run_gate_cases:
  "run_gate w p opts st s = (s', r) \<Longrightarrow>
     rs_budget s' = rs_budget s \<and> rs_clock s' \<le> rs_clock s + 1 \<and>
     ctx_step st (rs_ctx s) (rs_ctx s')"
proof (cases "gate_ui opts st")
  case (Inr u)
  assume "run_gate w p opts st s = (s', r)"
  with Inr gate_ctx [of st "\<lparr>gs_ctx = rs_ctx s, gs_j = rs_j s, gs_in = rs_in s\<rparr>" "w_io w" "w_gi w" u
      "gate_opts p opts"]
  show ?thesis by (auto simp: run_gate_def Let_def split_def split: if_splits)
qed (auto simp: run_gate_def ctx_step_def)

text \<open>How a step that is not built in ends.\<close>

lemma run_plugin_cases:
  "run_plugin w p m st inp s = (s', r) \<Longrightarrow>
     rs_budget s' = rs_budget s \<and> rs_clock s' \<le> rs_clock s + 1 + 2 * (nat (num_attempts st) - 1 + 1) \<and>
     (rs_ctx s' = rs_ctx s \<and> r \<noteq> Inr ''ok'' \<or>
      r = Inr ''ok'' \<and> st_onError st = ''skip'' \<and> rs_ctx s' = on_steps (AList.delete (st_id st)) (rs_ctx s) \<or>
      r = Inr ''ok'' \<and> (\<exists>clean. contract_ok m clean \<and> rs_ctx s' = SetStep (st_id st) clean (rs_ctx s)))"
proof -
  assume r: "run_plugin w p m st inp s = (s', r)"
  define s1 where "s1 = file_ref_warnings w st m inp s"
  have s1: "rs_ctx s1 = rs_ctx s" "rs_budget s1 = rs_budget s" "rs_clock s1 = rs_clock s + 1"
    by (simp_all add: s1_def)
  show ?thesis
  proof (cases "\<not> marshals (JObj inp) \<or> st_timeout st < 0 \<or> st_timeout st > MaxStepTimeout")
    case True
    with r s1 show ?thesis
      unfolding run_plugin_def s1_def [symmetric] by (auto simp: Let_def split: if_splits)
  next
    case False
    obtain s2 res where l: "attempts_loop w m st inp
        (if st_timeout st = 0 then 60 * second else st_timeout st)
        (if EffectiveNetwork p = ''deny'' then ''deny'' else ''allow'') (nat (num_attempts st) - 1) 1 s1 =
        (s2, res)" by fastforce
    note f = attempts_loop_fields [OF l]
    from False r l have e: "(case res of
             Inl e \<Rightarrow> (s2, Inl e)
           | Inr r \<Rightarrow>
               if res_OK r then accept_output w m st (er_output r) s2
               else if er_platform r then (s2, Inl (RCode (PlatformErrCode (er_errCode r))))
               else step_error_fate w st (er_errCode r) s2) = (s', r)"
      unfolding run_plugin_def s1_def [symmetric] by (simp add: Let_def)
    show ?thesis
    proof (cases res)
      case (Inl x)
      with e f s1 show ?thesis by auto
    next
      case (Inr x)
      consider "accept_output w m st (er_output x) s2 = (s', r)" | "s' = s2" "\<exists>c. r = Inl c"
        | "step_error_fate w st (er_errCode x) s2 = (s', r)"
        using e Inr by (auto split: if_splits)
      then show ?thesis
      proof cases
        case 1
        from accept_output_cases [OF 1] f s1 show ?thesis by auto
      next
        case 2
        with f s1 show ?thesis by auto
      next
        case 3
        from step_error_fate_fields [OF 3] f s1 show ?thesis by auto
      qed
    qed
  qed
qed

text \<open>The two ways a step that is no gate can succeed.\<close>

definition skipped_step :: "step \<Rightarrow> obj \<Rightarrow> obj \<Rightarrow> bool" where
  "skipped_step st d d' \<longleftrightarrow> st_onError st = ''skip'' \<and> d' = on_steps (AList.delete (st_id st)) d"

definition stored_output :: "world \<Rightarrow> step \<Rightarrow> obj \<Rightarrow> obj \<Rightarrow> bool" where
  "stored_output w st d d' \<longleftrightarrow> (\<exists>m clean. w_load w (st_plugin st) = Some m \<and> contract_ok m clean \<and>
     d' = SetStep (st_id st) clean d)"

definition step_effect :: "world \<Rightarrow> step \<Rightarrow> obj \<Rightarrow> obj \<Rightarrow> run_err + string \<Rightarrow> bool" where
  "step_effect w st d d' r \<longleftrightarrow>
     d' = d \<and> r \<noteq> Inr ''ok'' \<or> r = Inr ''ok'' \<and> (skipped_step st d d' \<or> stored_output w st d d')"

lemma fate_effect:
  "step_error_fate w st code s = (s', r) \<Longrightarrow> rs_ctx s = d \<Longrightarrow>
     step_effect w st d (rs_ctx s') r \<and> rs_budget s' = rs_budget s \<and> rs_clock s' = rs_clock s"
  using step_error_fate_fields [of w st code s s' r] by (auto simp: step_effect_def skipped_step_def)

lemma accept_effect:
  "accept_output w m st out s = (s', r) \<Longrightarrow> rs_ctx s = d \<Longrightarrow> w_load w (st_plugin st) = Some m \<Longrightarrow>
     step_effect w st d (rs_ctx s') r \<and> rs_budget s' = rs_budget s \<and> rs_clock s' = rs_clock s"
  using accept_output_cases [of w m st out s s' r] by (auto simp: step_effect_def stored_output_def)

lemma runBuiltinDataStep_cases:
  "runBuiltinDataStep w st s = (s', r) \<Longrightarrow>
     step_effect w st (rs_ctx s) (rs_ctx s') r \<and> rs_budget s' = rs_budget s \<and> rs_clock s' = rs_clock s"
  unfolding runBuiltinDataStep_def
  by (auto split: option.splits sum.splits dest: fate_effect accept_effect simp: step_effect_def)

lemma run_plugin_effect:
  "run_plugin w p m st inp s = (s', r) \<Longrightarrow> w_load w (st_plugin st) = Some m \<Longrightarrow>
     step_effect w st (rs_ctx s) (rs_ctx s') r \<and> rs_budget s' = rs_budget s \<and>
     rs_clock s' \<le> rs_clock s + 1 + 2 * (nat (num_attempts st) - 1 + 1)"
  using run_plugin_cases [of w p m st inp s s' r]
  by (auto simp: step_effect_def skipped_step_def stored_output_def)

text \<open>The same for every step.\<close>

lemma runStep_cases:
  assumes "runStep w p opts st s = (s', r)"
  shows "rs_budget s' = rs_budget s \<and> rs_clock s' \<le> rs_clock s + 1 + 2 * (nat (num_attempts st) - 1 + 1) \<and>
    (if IsHumanGate (st_plugin st) then ctx_step st (rs_ctx s) (rs_ctx s')
     else step_effect w st (rs_ctx s) (rs_ctx s') r)"
proof -
  consider (data) "\<not> IsHumanGate (st_plugin st)" "runBuiltinDataStep w st s = (s', r)"
    | (gate) "IsHumanGate (st_plugin st)" "run_gate w p opts st s = (s', r)"
    | (early) "\<not> IsHumanGate (st_plugin st)" "s' = s" "\<exists>e. r = Inl e"
    | (fate) "\<not> IsHumanGate (st_plugin st)" "step_error_fate w st ''contract_input'' s = (s', r)"
    | (plug) m inp where "\<not> IsHumanGate (st_plugin st)" "w_load w (st_plugin st) = Some m"
        "run_plugin w p m st inp s = (s', r)"
    using assms IsHumanGate_builtin [of "st_plugin st"]
    by (auto simp: runStep_def split: if_splits option.splits sum.splits)
  then show ?thesis
  proof cases
    case data
    from runBuiltinDataStep_cases [OF data(2)] data(1) show ?thesis by simp
  next
    case gate
    from run_gate_cases [OF gate(2)] gate(1) show ?thesis by simp
  next
    case early
    then show ?thesis by (auto simp: step_effect_def)
  next
    case fate
    from fate_effect [OF fate(2) refl] fate(1) show ?thesis by simp
  next
    case plug
    from run_plugin_effect [OF plug(3,2)] plug(1) show ?thesis by simp
  qed
qed

lemma runStep_frame:
  "ctx_wf (rs_ctx s) \<Longrightarrow> runStep w p opts st s = (s', r) \<Longrightarrow>
     step_frame (st_id st) (rs_ctx s) (rs_ctx s')"
  using runStep_cases [of w p opts st s s' r]
  by (auto simp: ctx_step_def step_effect_def skipped_step_def stored_output_def
      intro: step_frame_refl step_frame_SetStep step_frame_delete split: if_splits)

section \<open>Lemmas: foreach, loop, flow\<close>

text \<open>What a step with its control flow may change.\<close>

definition flow_frame :: "step \<Rightarrow> obj \<Rightarrow> obj \<Rightarrow> bool" where
  "flow_frame st d d' \<longleftrightarrow> ctx_wf d' \<and>
     (\<forall>k. k \<noteq> st_id st \<and> k \<noteq> st_id st @ ''_all'' \<longrightarrow> map_of (Steps d') k = map_of (Steps d) k) \<and>
     (\<forall>k. (st_foreach st = [] \<or> k \<noteq> item_key (st_foreachItem st)) \<longrightarrow>
        map_of (Input d') k = map_of (Input d) k)"

lemma flow_frame_refl: "ctx_wf d \<Longrightarrow> flow_frame st d d"
  by (simp add: flow_frame_def)

lemma flow_frame_trans: "flow_frame st d d' \<Longrightarrow> flow_frame st d' d'' \<Longrightarrow> flow_frame st d d''"
  by (simp add: flow_frame_def)

lemma step_flow_frame: "step_frame (st_id st) d d' \<Longrightarrow> flow_frame st d d'"
  by (simp add: step_frame_def flow_frame_def)

lemma runStep_flow: "ctx_wf (rs_ctx s) \<Longrightarrow> runStep w p opts st s = (s', r) \<Longrightarrow>
    flow_frame st (rs_ctx s) (rs_ctx s')"
  by (rule step_flow_frame) (rule runStep_frame)

lemma foreach_items_frame:
  "ctx_wf (rs_ctx s) \<Longrightarrow> st_foreach st \<noteq> [] \<Longrightarrow> foreach_items w p opts st i its results s = (s', r) \<Longrightarrow>
     flow_frame st (rs_ctx s) (rs_ctx s') \<and> rs_budget s' = rs_budget s"
proof (induction its arbitrary: i results s)
  case Nil
  then show ?case by (simp add: flow_frame_refl)
next
  case (Cons it its)
  define s2 where "s2 = (ev w ''foreach_item_start'' (fe_kv st i [(''item'', it)]) s)
      \<lparr>rs_ctx := SetInput (item_key (st_foreachItem st)) it (rs_ctx s)\<rparr>"
  have wf2: "ctx_wf (rs_ctx s2)" and f2: "flow_frame st (rs_ctx s) (rs_ctx s2)" and
    b2: "rs_budget s2 = rs_budget s"
    using Cons.prems(1,2) by (simp_all add: s2_def ctx_wf_SetInput flow_frame_def)
  obtain s3 q where q: "runStep w p opts st s2 = (s3, q)" by fastforce
  have f3: "flow_frame st (rs_ctx s) (rs_ctx s3)"
    using flow_frame_trans [OF f2 runStep_flow [OF wf2 q]] .
  then have wf3: "ctx_wf (rs_ctx s3)" by (simp add: flow_frame_def)
  have b3: "rs_budget s3 = rs_budget s" using runStep_cases [OF q] b2 by simp
  from Cons.prems(3) q show ?case
    unfolding foreach_items.simps Let_def s2_def [symmetric]
    by (auto simp: s2_def [symmetric] f3 b3 wf3 Cons.prems(2) split: sum.splits if_splits
        dest!: Cons.IH [rotated 2] intro: flow_frame_trans [OF f3])
qed

lemma runStepForeach_frame:
  assumes "ctx_wf (rs_ctx s)" "st_foreach st \<noteq> []" "runStepForeach w p opts st s = (s', r)"
  shows "flow_frame st (rs_ctx s) (rs_ctx s') \<and> rs_budget s' = rs_budget s"
proof -
  have put: "flow_frame st d (on_steps (AList.update (st_id st @ ''_all'') v) d')"
    if "flow_frame st d d'" for d d' v
    using that by (simp add: flow_frame_def ctx_wf_on_steps Steps_on_steps Input_on_steps)
  show ?thesis
  proof (cases "\<exists>arr. Get (st_foreach st) (rs_ctx s) = Some (JArr arr) \<and> \<not> int (length arr) > MaxForeachItems")
    case True
    then obtain arr where arr: "Get (st_foreach st) (rs_ctx s) = Some (JArr arr)"
      "\<not> int (length arr) > MaxForeachItems" by blast
    obtain s1 q where q: "foreach_items w p opts st 0 arr [] s = (s1, q)" by fastforce
    from foreach_items_frame [OF assms(1,2) q] put assms(3) arr q show ?thesis
      by (auto simp: runStepForeach_def split: sum.splits)
  next
    case False
    with assms(1,3) show ?thesis
      by (auto simp: runStepForeach_def flow_frame_refl split: option.splits json.splits if_splits)
  qed
qed

lemma loop_iterations_frame:
  "ctx_wf (rs_ctx s) \<Longrightarrow> loop_iterations w p opts st k i s = (s', r) \<Longrightarrow>
     flow_frame st (rs_ctx s) (rs_ctx s') \<and> rs_budget s \<le> rs_budget s' \<and>
     rs_budget s' \<le> rs_budget s + int k \<and>
     (rs_budget s \<le> effectiveLimit opts \<and> (\<exists>a. r = Inr a) \<longrightarrow> rs_budget s' \<le> effectiveLimit opts)"
proof (induction k arbitrary: i s)
  case 0
  then show ?case by (auto simp: flow_frame_refl)
next
  case (Suc k)
  define s1 where "s1 = s\<lparr>rs_budget := rs_budget s + 1\<rparr>"
  have s1: "rs_ctx s1 = rs_ctx s" "rs_budget s1 = rs_budget s + 1" by (simp_all add: s1_def)
  show ?case
  proof (cases "rs_budget s + 1 \<le> effectiveLimit opts \<and> \<not> int (WriteErrors (rs_j s1)) > MaxLoopJournalEvents")
    case False
    with Suc.prems show ?thesis
      by (auto simp: consumeLoopIteration_def s1_def [symmetric] s1 flow_frame_refl
          split: if_splits bool.splits)
  next
    case True
    define s1' where "s1' = ev w ''loop_iteration_start'' (it_kv st i []) s1"
    have s1': "rs_ctx s1' = rs_ctx s" "rs_budget s1' = rs_budget s + 1" by (simp_all add: s1'_def s1)
    obtain s2 q where q: "runStep w p opts st s1' = (s2, q)" by fastforce
    have f2: "flow_frame st (rs_ctx s) (rs_ctx s2)"
      using runStep_flow [OF _ q] Suc.prems(1) s1' by simp
    then have wf2: "ctx_wf (rs_ctx s2)" by (simp add: flow_frame_def)
    have b2: "rs_budget s2 = rs_budget s + 1" using runStep_cases [OF q] s1' by simp
    show ?thesis
    proof (cases "q = Inr ''abort_item'' \<or> (\<exists>e. q = Inl e) \<or>
        Get (loop_condition st) (rs_ctx s2) \<noteq> Some (JBool True)")
      case True': True
      have "rs_ctx s' = rs_ctx s2 \<and> rs_budget s' = rs_budget s2"
        using Suc.prems(2) True True' q
        by (auto simp: consumeLoopIteration_def s1_def [symmetric] s1'_def [symmetric]
            split: sum.splits option.splits if_splits)
      with f2 b2 True show ?thesis by auto
    next
      case False
      then obtain a where "q = Inr a" "a \<noteq> ''abort_item''" by (cases q) auto
      with Suc.prems(2) True False q have "loop_iterations w p opts st k (i + 1)
          (ev w ''loop_iteration_end'' (it_kv st i [(''reason'', JStr ''continue'')]) s2) = (s', r)"
        by (simp add: consumeLoopIteration_def s1_def [symmetric] s1'_def [symmetric])
      from Suc.IH [OF _ this] wf2 f2 b2 True show ?thesis by (auto intro: flow_frame_trans)
    qed
  qed
qed

lemma runStepFlow_frame:
  assumes "ctx_wf (rs_ctx s)" and "runStepFlow w p opts st s = (s', r)"
  shows "flow_frame st (rs_ctx s) (rs_ctx s')" and "rs_budget s \<le> rs_budget s'"
    and "rs_budget s' \<le> rs_budget s + int (loop_max st)"
    and "rs_budget s \<le> effectiveLimit opts \<Longrightarrow> r = Inr a \<Longrightarrow> rs_budget s' \<le> effectiveLimit opts"
proof -
  consider "rs_ctx s' = rs_ctx s" "rs_budget s' = rs_budget s"
    | "st_foreach st \<noteq> []" "runStepForeach w p opts st s = (s', r)"
    | "runStepLoop w p opts st s = (s', r)" | "runStep w p opts st s = (s', r)"
    using assms(2)
    by (auto simp: runStepFlow_def split: sum.splits bool.splits if_splits)
  note c = this
  show "flow_frame st (rs_ctx s) (rs_ctx s')" "rs_budget s \<le> rs_budget s'"
    "rs_budget s' \<le> rs_budget s + int (loop_max st)"
    "rs_budget s \<le> effectiveLimit opts \<Longrightarrow> r = Inr a \<Longrightarrow> rs_budget s' \<le> effectiveLimit opts"
    using c
    by (cases, use assms(1) in \<open>auto simp: flow_frame_refl runStepLoop_def
        dest: runStepForeach_frame loop_iterations_frame runStep_flow runStep_cases\<close>)+
qed

lemma delay_pow:
  "0 < d \<Longrightarrow> d \<le> MaxRetryDelay \<Longrightarrow>
     0 < ((\<lambda>d. if d \<ge> MaxRetryDelay div 2 then MaxRetryDelay else d * 2) ^^ n) d \<and>
     ((\<lambda>d. if d \<ge> MaxRetryDelay div 2 then MaxRetryDelay else d * 2) ^^ n) d \<le> MaxRetryDelay"
  by (induction n) (auto simp: MaxRetryDelay_def minute_def second_def)

lemma num_attempts_range: "1 \<le> num_attempts st \<and> num_attempts st \<le> MaxRetryAttempts"
  by (auto simp: num_attempts_def Let_def MaxRetryAttempts_def split: option.splits)

section \<open>Properties\<close>

text \<open>
  C20. A step that is no gate and succeeds leaves exactly one trace in the context: its own
  entry, holding an output that satisfies every port of its manifest and no undeclared field,
  or no entry at all when it failed under \<open>on_error: skip\<close>. The input and the outputs of the
  other steps are untouched.
\<close>

theorem step_output_contract:
  assumes "ctx_wf (rs_ctx s)" and "\<not> IsHumanGate (st_plugin st)"
    and "runStep w p opts st s = (s', Inr ''ok'')"
  shows "Input (rs_ctx s') = Input (rs_ctx s) \<and>
    (\<forall>k. k \<noteq> st_id st \<longrightarrow> map_of (Steps (rs_ctx s')) k = map_of (Steps (rs_ctx s)) k) \<and>
    (st_onError st = ''skip'' \<and> map_of (Steps (rs_ctx s')) (st_id st) = None \<or>
     (\<exists>m out. w_load w (st_plugin st) = Some m \<and>
        map_of (Steps (rs_ctx s')) (st_id st) = Some (JObj out) \<and> contract_ok m out))"
  using runStep_frame [OF assms(1,3)] runStep_cases [OF assms(3)] assms(1,2)
  by (auto simp: step_frame_def step_effect_def skipped_step_def stored_output_def Steps_on_steps)

text \<open>
  A failed step changes nothing: when a step that is no gate ends with an error or stops
  its item, the context is the one it started with.
\<close>

lemma step_failure_leaves_context:
  assumes "\<not> IsHumanGate (st_plugin st)" and "runStep w p opts st s = (s', r)" and "r \<noteq> Inr ''ok''"
  shows "rs_ctx s' = rs_ctx s"
  using runStep_cases [OF assms(2)] assms(1,3) by (auto simp: step_effect_def)

text \<open>
  Retries are bounded: a step makes at most ten attempts whatever the pipeline says (each
  attempt and each pause is one interaction with the world, and one more is the file check),
  and every pause lies between nothing and five minutes.
\<close>

lemma step_attempts_bounded:
  assumes "runStep w p opts st s = (s', r)"
  shows "rs_clock s' \<le> rs_clock s + 21 \<and>
    (\<forall>n. 0 < retryDelay st n \<and> retryDelay st n \<le> MaxRetryDelay)"
proof -
  have "nat (num_attempts st) \<le> 10" "1 \<le> nat (num_attempts st)"
    using num_attempts_range [of st] by (auto simp: MaxRetryAttempts_def)
  then have "rs_clock s' \<le> rs_clock s + 21" using runStep_cases [OF assms] by auto
  moreover have "0 < retryDelay st n \<and> retryDelay st n \<le> MaxRetryDelay" for n
  proof (cases "st_retry st")
    case None
    then show ?thesis by (simp add: retryDelay_def limit_defs)
  next
    case (Some r)
    let ?d = "let d0 = (if r_delay r > 0 then r_delay r else second) in
        if d0 > MaxRetryDelay then MaxRetryDelay else d0"
    have "0 < ?d" "?d \<le> MaxRetryDelay" by (auto simp: Let_def limit_defs)
    from delay_pow [OF this, of "n - 1"] this show ?thesis
      by (simp add: retryDelay_def Some Let_def)
  qed
  ultimately show ?thesis by blast
qed

text \<open>
  The loop budget is one for the whole run: a step uses at most a hundred iterations, and
  when it succeeds the total is still within the budget of the run.
\<close>

lemma loop_budget_kept:
  assumes "ctx_wf (rs_ctx s)" and "runStepFlow w p opts st s = (s', r)"
    and "rs_budget s \<le> effectiveLimit opts"
  shows "rs_budget s' \<le> rs_budget s + MaxLoopIterations \<and>
    (\<forall>a. r = Inr a \<longrightarrow> rs_budget s' \<le> effectiveLimit opts)"
proof -
  have "int (loop_max st) \<le> MaxLoopIterations"
    by (auto simp: loop_max_def Let_def MaxLoopIterations_def)
  with runStepFlow_frame [OF assms(1,2)] assms(3) show ?thesis by force
qed

text \<open>
  A step with \<open>foreach\<close> or \<open>loop\<close> still only writes its own name space: the outputs of all
  other steps stay, and of the input only its own item variable changes, and only with
  \<open>foreach\<close>.
\<close>

lemma flow_confined:
  assumes "ctx_wf (rs_ctx s)" and "runStepFlow w p opts st s = (s', r)"
  shows "(\<forall>k. k \<noteq> st_id st \<and> k \<noteq> st_id st @ ''_all'' \<longrightarrow>
      map_of (Steps (rs_ctx s')) k = map_of (Steps (rs_ctx s)) k) \<and>
    (\<forall>k. st_foreach st = [] \<or> k \<noteq> item_key (st_foreachItem st) \<longrightarrow>
      map_of (Input (rs_ctx s')) k = map_of (Input (rs_ctx s)) k)"
  using runStepFlow_frame(1) [OF assms] by (simp add: flow_frame_def)


definition demo_world :: world where
  "demo_world = \<lparr>w_load = (\<lambda>r. if r = ''plugins/p'' then
        Some (demo_plugin\<lparr>m_output := [(''v'', \<lparr>po_from = [], po_type = ''string'', po_format = [], po_optional = False\<rparr>)]\<rparr>)
        else None),
     w_tw = demo_tw, w_policy = \<lparr>tp_deny = False, tp_allow = True, tp_trusted = None\<rparr>,
     w_os = (\<lambda>n m inp t. demo_os\<lparr>os_stdout := Wire ''ok'' (Some [(''v'', JStr ''x''), (''extra'', JNull)]) None\<rparr>),
     w_cancelled = (\<lambda>_. False), w_io = gate_io, w_gi = demo_gi, w_fileRefs = (\<lambda>_ _ _. []),
     w_words = (\<lambda>_. []), w_lower = id, w_order = (\<lambda>_ n. [0..<n])\<rparr>"

definition demo_ropts :: ropts where
  "demo_ropts = \<lparr>ro_yes = False, ro_noAutoApprove = False, ro_mcp = False, ro_gateUI = None,
     ro_budgetLimit = 0, ro_skip = []\<rparr>"

definition demo_state :: rstate where
  "demo_state = \<lparr>rs_ctx = NewCtx [(''x'', JInt 1)], rs_j = NewJournal, rs_in = 0, rs_clock = 0,
     rs_budget = 0\<rparr>"

definition demo_pstep :: step where
  "demo_pstep = zero_step\<lparr>st_id := ''s'', st_plugin := ''plugins/p''\<rparr>"

lemma demo_run:
  "rs_ctx (fst (runStep demo_world zero_pipeline demo_ropts demo_pstep demo_state)) =
     SetStep ''s'' [(''v'', JStr ''x'')] (NewCtx [(''x'', JInt 1)])"
  "snd (runStep demo_world zero_pipeline demo_ropts demo_pstep demo_state) = Inr ''ok''"
  by code_simp+

lemma demo_runStep:
  "runStep demo_world zero_pipeline demo_ropts demo_pstep demo_state =
     (fst (runStep demo_world zero_pipeline demo_ropts demo_pstep demo_state), Inr ''ok'')"
  by (metis demo_run(2) prod.collapse)

lemma demo_facts:
  "ctx_wf (rs_ctx demo_state)" "\<not> IsHumanGate (st_plugin demo_pstep)"
  "rs_budget demo_state \<le> effectiveLimit demo_ropts" "st_foreach demo_pstep = []" "st_loop demo_pstep = []"
  "\<not> IsSet (st_when demo_pstep)" "st_onError demo_pstep = []" "st_id demo_pstep = ''s''"
proof -
  show "\<not> IsHumanGate (st_plugin demo_pstep)" by code_simp
qed (simp_all add: demo_state_def ctx_wf_NewCtx effectiveLimit_def demo_ropts_def MaxTotalLoopBudget_def
    demo_pstep_def zero_step_def no_when_def IsSet_def)

lemma step_output_contract_witness:
  "\<exists>m out. w_load demo_world ''plugins/p'' = Some m \<and> contract_ok m out \<and>
     map_of (Steps (rs_ctx (fst (runStep demo_world zero_pipeline demo_ropts demo_pstep demo_state)))) ''s'' =
       Some (JObj out)"
proof -
  have "st_plugin demo_pstep = ''plugins/p''" by (simp add: demo_pstep_def)
  with step_output_contract [OF demo_facts(1,2) demo_runStep] show ?thesis
    by (auto simp: demo_facts)
qed

lemma demo_flow:
  "runStepFlow demo_world zero_pipeline demo_ropts demo_pstep demo_state =
     (fst (runStep demo_world zero_pipeline demo_ropts demo_pstep demo_state), Inr ''ok'')"
  by (rule trans [OF _ demo_runStep]) (simp add: runStepFlow_def demo_facts)

definition demo_human :: step where
  "demo_human = zero_step\<lparr>st_id := ''g'', st_plugin := ''core/human_gate'', st_approval := ''human''\<rparr>"


end
