(* ===== verification/Parallel_Run.thy ===== *)
theory Parallel_Run
  imports Step_Runner
begin

text \<open>
  Lists of steps (internal/execution/parallel.go): segments, parallel groups with a barrier,
  and the sequential run of the segments. The branches of a group run on copies of the
  context; here each branch is one atomic block, in an order the world chooses, and they share
  the journal, the gate input and the loop budget.
\<close>

record segment =
  sg_parallel :: bool
  sg_group :: string
  sg_steps :: "step list"

function segmentSteps :: "step list \<Rightarrow> segment list" where
  "segmentSteps [] = []"
| "segmentSteps (st # sts) =
     (let g = st_parallelGroup st in
      if g \<noteq> [] then
        (let same = takeWhile (\<lambda>x. st_parallelGroup x = g) sts in
         \<lparr>sg_parallel = length (st # same) > 1, sg_group = g, sg_steps = st # same\<rparr>
         # segmentSteps (dropWhile (\<lambda>x. st_parallelGroup x = g) sts))
      else \<lparr>sg_parallel = False, sg_group = [], sg_steps = [st]\<rparr> # segmentSteps sts)"
  by pat_completeness auto
termination
  by (relation "measure length") (auto simp: length_dropWhile_le less_Suc_eq_le)

definition segmentDone :: "segment \<Rightarrow> string list \<Rightarrow> bool" where
  "segmentDone seg skip =
     (if skip = [] \<or> sg_steps seg = [] then False
      else list_all (\<lambda>st. st_id st \<in> set skip) (sg_steps seg))"

text \<open>\<open>cloneCtx\<close>: a JSON round trip.\<close>

definition cloneCtx :: "obj \<Rightarrow> obj option" where
  "cloneCtx ctx = (if marshals (JObj ctx) then Some (obj_rt ctx) else None)"

record branchOut =
  bo_step :: step
  bo_res :: "run_err + string"
  bo_out :: "obj option"

definition branch_result :: "string \<Rightarrow> obj \<Rightarrow> obj option" where
  "branch_result i ctx =
     (case map_of ctx ''steps'' of
        Some (JObj m) \<Rightarrow> (case map_of m i of Some (JObj v) \<Rightarrow> Some v | _ \<Rightarrow> None)
      | _ \<Rightarrow> None)"

definition run_branch :: "world \<Rightarrow> pipeline \<Rightarrow> ropts \<Rightarrow> step \<Rightarrow> rstate \<Rightarrow> rstate \<times> branchOut" where
  "run_branch w p opts st s =
     (case cloneCtx (rs_ctx s) of
        None \<Rightarrow> (s, \<lparr>bo_step = st, bo_res = Inl (RCode ''context_serialization''), bo_out = None\<rparr>)
      | Some bctx \<Rightarrow>
          (let (s1, r) = runStepFlow w p opts st (s\<lparr>rs_ctx := bctx\<rparr>) in
           (s1\<lparr>rs_ctx := rs_ctx s\<rparr>,
            \<lparr>bo_step = st, bo_res = r,
             bo_out = (case r of Inl _ \<Rightarrow> None | Inr _ \<Rightarrow> branch_result (st_id st) (rs_ctx s1))\<rparr>)))"

fun run_branches ::
  "world \<Rightarrow> pipeline \<Rightarrow> ropts \<Rightarrow> step list \<Rightarrow> nat list \<Rightarrow> rstate \<Rightarrow> rstate \<times> (nat \<times> branchOut) list" where
  "run_branches w p opts steps [] s = (s, [])"
| "run_branches w p opts steps (i # is) s =
     (let (s1, b) = run_branch w p opts (steps ! i) s;
          (s2, bs) = run_branches w p opts steps is s1
      in (s2, (i, b) # bs))"

definition branch_order :: "world \<Rightarrow> rstate \<Rightarrow> nat \<Rightarrow> nat list" where
  "branch_order w s n =
     (let o' = w_order w (rs_clock s) n in
      if distinct o' \<and> set o' = set [0..<n] then o' else [0..<n])"

text \<open>The results in the order of the list, whatever the order of execution.\<close>

definition branch_outs :: "nat \<Rightarrow> (nat \<times> branchOut) list \<Rightarrow> branchOut list" where
  "branch_outs n bs = List.map_filter (\<lambda>i. map_of bs i) [0..<n]"

definition branch_failure :: "branchOut \<Rightarrow> run_err option" where
  "branch_failure b =
     (case bo_res b of
        Inl e \<Rightarrow> Some e
      | Inr a \<Rightarrow> if a = ''abort_item'' then Some RPlain else None)"

fun first_failure :: "branchOut list \<Rightarrow> run_err option" where
  "first_failure [] = None"
| "first_failure (b # bs) = (case branch_failure b of Some e \<Rightarrow> Some e | None \<Rightarrow> first_failure bs)"

definition merge_out :: "rstate \<Rightarrow> branchOut \<Rightarrow> rstate" where
  "merge_out s b =
     (case bo_out b of
        Some out \<Rightarrow> s\<lparr>rs_ctx := SetStep (st_id (bo_step b)) out (rs_ctx s)\<rparr>
      | None \<Rightarrow> s)"

definition branch_status :: "branchOut \<Rightarrow> string" where
  "branch_status b = (if bo_out b \<noteq> None then ''ok'' else ''skipped'')"

definition runParallelGroup ::
  "world \<Rightarrow> pipeline \<Rightarrow> ropts \<Rightarrow> segment \<Rightarrow> rstate \<Rightarrow> string list res" where
  "runParallelGroup w p opts seg s =
     (let steps = sg_steps seg; n = length steps in
      if int n > MaxParallelWidth then (s, Inl (RCode ''resource_limit''))
      else
        let s1 = tick (ev w ''parallel_start'' [(''group'', JStr (sg_group seg)),
                   (''steps'', JArr (map (\<lambda>st. JStr (st_id st)) steps))] s);
            (s2, bs) = run_branches w p opts steps (branch_order w s1 n) s1;
            outs = branch_outs n bs
        in case first_failure outs of
             Some e \<Rightarrow> (s2, Inl e)
           | None \<Rightarrow>
               (let s3 = snapshot w (foldl merge_out s2 outs) in
                (ev w ''parallel_end'' [(''group'', JStr (sg_group seg)),
                   (''statuses'', JObj (foldl (\<lambda>m b. AList.update (st_id (bo_step b)) (JStr (branch_status b)) m)
                      [] outs))] s3,
                 Inr (map branch_status outs))))"

fun run_segments ::
  "world \<Rightarrow> pipeline \<Rightarrow> ropts \<Rightarrow> bool \<Rightarrow> segment list \<Rightarrow> string list \<Rightarrow> rstate \<Rightarrow> string list res" where
  "run_segments w p opts stopOnAbort [] actions s = (s, Inr actions)"
| "run_segments w p opts stopOnAbort (seg # segs) actions s0 =
     (let s = tick s0 in
      if cancelled w s then (s, Inl RCancelled)
      else if sg_parallel seg then
        (if segmentDone seg (ro_skip opts) then run_segments w p opts stopOnAbort segs actions s
         else case runParallelGroup w p opts seg s of
           (s1, Inl e) \<Rightarrow> (s1, Inl e)
         | (s1, Inr acts) \<Rightarrow> run_segments w p opts stopOnAbort segs (actions @ acts) s1)
      else
        let st = hd (sg_steps seg) in
        if st_id st \<in> set (ro_skip opts) then run_segments w p opts stopOnAbort segs actions s
        else case runStepFlow w p opts st s of
          (s1, Inl e) \<Rightarrow> (s1, Inl e)
        | (s1, Inr action) \<Rightarrow>
            if stopOnAbort \<and> action = ''abort_item'' then (s1, Inr (actions @ [action]))
            else run_segments w p opts stopOnAbort segs (actions @ [action]) s1)"

definition runParallelSegments ::
  "world \<Rightarrow> pipeline \<Rightarrow> ropts \<Rightarrow> step list \<Rightarrow> bool \<Rightarrow> rstate \<Rightarrow> string list res" where
  "runParallelSegments w p opts steps stopOnAbort s =
     run_segments w p opts stopOnAbort (segmentSteps steps) [] s"

section \<open>Lemmas\<close>

lemma segmentSteps_concat: "concat (map sg_steps (segmentSteps sts)) = sts"
proof (induction sts rule: segmentSteps.induct)
  case (2 st sts)
  then show ?case by (cases "st_parallelGroup st = []") (simp_all add: Let_def)
qed simp

definition segment_ok :: "segment \<Rightarrow> bool" where
  "segment_ok seg \<longleftrightarrow> sg_steps seg \<noteq> [] \<and> (\<forall>st \<in> set (sg_steps seg). st_parallelGroup st = sg_group seg) \<and>
     (sg_parallel seg \<longleftrightarrow> length (sg_steps seg) > 1) \<and>
     (length (sg_steps seg) > 1 \<longrightarrow> sg_group seg \<noteq> [])"

lemma segmentSteps_cons:
  obtains seg rest where "segmentSteps (st # sts) = seg # segmentSteps rest" "segment_ok seg"
    "length rest \<le> length sts" "hd (sg_steps seg) = st" "sg_group seg = st_parallelGroup st"
    "sg_group seg \<noteq> [] \<Longrightarrow> rest \<noteq> [] \<Longrightarrow> st_parallelGroup (hd rest) \<noteq> sg_group seg"
proof (cases "st_parallelGroup st = []")
  case True
  then show thesis
    by (intro that [of "\<lparr>sg_parallel = False, sg_group = [], sg_steps = [st]\<rparr>" sts])
      (simp_all add: Let_def segment_ok_def)
next
  case False
  let ?same = "takeWhile (\<lambda>x. st_parallelGroup x = st_parallelGroup st) sts"
  let ?rest = "dropWhile (\<lambda>x. st_parallelGroup x = st_parallelGroup st) sts"
  show thesis
  proof (rule that [of "\<lparr>sg_parallel = length (st # ?same) > 1, sg_group = st_parallelGroup st,
        sg_steps = st # ?same\<rparr>" ?rest])
    show "segment_ok \<lparr>sg_parallel = length (st # ?same) > 1, sg_group = st_parallelGroup st,
        sg_steps = st # ?same\<rparr>"
      using False by (auto simp: segment_ok_def dest: set_takeWhileD)
    show "?rest \<noteq> [] \<Longrightarrow> st_parallelGroup (hd ?rest) \<noteq>
        sg_group \<lparr>sg_parallel = length (st # ?same) > 1, sg_group = st_parallelGroup st,
          sg_steps = st # ?same\<rparr>"
      using hd_dropWhile [of "\<lambda>x. st_parallelGroup x = st_parallelGroup st" sts] by simp
  qed (use False in \<open>simp_all add: Let_def length_dropWhile_le\<close>)
qed

lemma segmentSteps_shape: "seg \<in> set (segmentSteps sts) \<Longrightarrow> segment_ok seg"
proof (induction "length sts" arbitrary: sts rule: less_induct)
  case less
  show ?case
  proof (cases sts)
    case (Cons st ys)
    from segmentSteps_cons [of st ys] obtain x rest where
      x: "segmentSteps sts = x # segmentSteps rest" "segment_ok x" "length rest \<le> length ys"
      unfolding Cons by metis
    from less(2) have "seg = x \<or> seg \<in> set (segmentSteps rest)" unfolding x(1) by simp
    with x less(1) [of rest] Cons show ?thesis by auto
  qed (use less in simp)
qed

text \<open>Two neighbouring segments never share a group.\<close>

lemma segmentSteps_maximal:
  "segmentSteps sts = a # b # segs \<Longrightarrow> sg_group a \<noteq> [] \<Longrightarrow> sg_group a \<noteq> sg_group b"
proof -
  assume s: "segmentSteps sts = a # b # segs" and g: "sg_group a \<noteq> []"
  then obtain st ys where sts: "sts = st # ys" by (cases sts) auto
  from segmentSteps_cons [of st ys] s obtain rest where
    r: "segmentSteps rest = b # segs" and
    h: "rest \<noteq> [] \<Longrightarrow> st_parallelGroup (hd rest) \<noteq> sg_group a"
    unfolding sts using g by (metis list.inject)
  then obtain x xs where x: "rest = x # xs" by (cases rest) auto
  from segmentSteps_cons [of x xs] r have "sg_group b = st_parallelGroup x"
    unfolding x by (metis list.inject)
  with h x show ?thesis by simp
qed

section \<open>Lemmas: a parallel group\<close>

lemma ctx_wf_obj_rt: "ctx_wf d \<Longrightarrow> ctx_wf (obj_rt d)"
  by (auto simp: ctx_wf_def obj_rt_def [symmetric])

lemma cloneCtx_wf: "cloneCtx d = Some d' \<Longrightarrow> ctx_wf d \<Longrightarrow> ctx_wf d'"
  by (auto simp: cloneCtx_def ctx_wf_obj_rt split: if_splits)

lemma run_branch_state:
  assumes "run_branch w p opts st s = (s', b)"
  shows "rs_ctx s' = rs_ctx s \<and> bo_step b = st"
  using assms by (auto simp: run_branch_def split: option.splits prod.splits)

lemma run_branch_budget:
  assumes "run_branch w p opts st s = (s', b)" and "ctx_wf (rs_ctx s)"
    and "rs_budget s \<le> effectiveLimit opts" and "branch_failure b = None"
  shows "rs_budget s' \<le> effectiveLimit opts"
proof (cases "cloneCtx (rs_ctx s)")
  case None
  with assms(1,4) show ?thesis by (auto simp: run_branch_def branch_failure_def)
next
  case (Some bctx)
  obtain s1 r where r: "runStepFlow w p opts st (s\<lparr>rs_ctx := bctx\<rparr>) = (s1, r)" by fastforce
  with assms(1,4) Some obtain a where a: "r = Inr a"
    by (cases r) (auto simp: run_branch_def branch_failure_def)
  from runStepFlow_frame(4) [OF _ r _ a] cloneCtx_wf [OF Some assms(2)] assms(1,3) Some r
  show ?thesis by (auto simp: run_branch_def)
qed

lemma run_branch_ok:
  assumes "run_branch w p opts st s = (s', b)" and "branch_failure b = None" and "rs_ctx s = d"
  shows "\<exists>t t' a. rs_ctx t = obj_rt d \<and> a \<noteq> ''abort_item'' \<and>
     runStepFlow w p opts st t = (t', Inr a) \<and> bo_out b = branch_result (st_id st) (rs_ctx t')"
proof (cases "cloneCtx (rs_ctx s)")
  case None
  with assms(1,2) show ?thesis by (auto simp: run_branch_def branch_failure_def)
next
  case (Some bctx)
  define t where "t = s\<lparr>rs_ctx := bctx\<rparr>"
  have t: "rs_ctx t = obj_rt d" using Some assms(3) by (simp add: t_def cloneCtx_def split: if_splits)
  obtain t' q where q: "runStepFlow w p opts st t = (t', q)" by fastforce
  with assms(1) Some have b: "b = \<lparr>bo_step = st, bo_res = q,
      bo_out = (case q of Inl _ \<Rightarrow> None | Inr _ \<Rightarrow> branch_result (st_id st) (rs_ctx t'))\<rparr>"
    by (simp add: run_branch_def t_def)
  with assms(2) obtain a where "q = Inr a" "a \<noteq> ''abort_item''"
    by (cases q) (auto simp: branch_failure_def split: if_splits)
  with t q b show ?thesis by auto
qed

lemma run_branches_all:
  "run_branches w p opts steps is s = (s', bs) \<Longrightarrow>
     rs_ctx s' = rs_ctx s \<and> map fst bs = is \<and>
     (\<forall>(i, b) \<in> set bs. \<exists>t t'. rs_ctx t = rs_ctx s \<and> run_branch w p opts (steps ! i) t = (t', b))"
proof (induction "is" arbitrary: s s' bs)
  case (Cons i "is")
  obtain s1 b where b: "run_branch w p opts (steps ! i) s = (s1, b)" by fastforce
  obtain s2 bs2 where bs: "run_branches w p opts steps is s1 = (s2, bs2)" by fastforce
  from Cons.IH [OF bs] run_branch_state [OF b] Cons.prems b bs show ?case by fastforce
qed simp

lemma run_branches_budget:
  "run_branches w p opts steps is s = (s', bs) \<Longrightarrow> ctx_wf (rs_ctx s) \<Longrightarrow>
     rs_budget s \<le> effectiveLimit opts \<Longrightarrow> \<forall>(i, b) \<in> set bs. branch_failure b = None \<Longrightarrow>
     rs_budget s' \<le> effectiveLimit opts"
proof (induction "is" arbitrary: s s' bs)
  case (Cons i "is")
  obtain s1 b where b: "run_branch w p opts (steps ! i) s = (s1, b)" by fastforce
  obtain s2 bs2 where bs: "run_branches w p opts steps is s1 = (s2, bs2)" by fastforce
  from Cons.prems b bs have e: "s' = s2" "branch_failure b = None"
    "\<forall>(i, b) \<in> set bs2. branch_failure b = None" by auto
  show ?case unfolding e(1)
    by (rule Cons.IH [OF bs _ _ e(3)])
      (use run_branch_state [OF b] run_branch_budget [OF b Cons.prems(2,3) e(2)] Cons.prems(2) in auto)
qed simp

lemma branch_order_perm: "distinct (branch_order w s n) \<and> set (branch_order w s n) = {0..<n}"
  by (simp add: branch_order_def Let_def)

lemma branch_outs_nth:
  assumes "distinct (map fst bs)" and "set (map fst bs) = {0..<n}"
  shows "length (branch_outs n bs) = n" and "\<And>i. i < n \<Longrightarrow> (i, branch_outs n bs ! i) \<in> set bs"
    and "set (branch_outs n bs) = snd ` set bs"
proof -
  have dom: "map_of bs i \<noteq> None" if "i < n" for i
    using that assms(2) by (metis atLeastLessThan_iff le0 map_of_eq_None_iff set_map)
  have e: "branch_outs n bs = map (\<lambda>i. the (map_of bs i)) [0..<n]"
    unfolding branch_outs_def List.map_filter_def comp_def
    by (rule arg_cong2 [of _ _ _ _ map, OF refl filter_True]) (use dom in auto)
  then show l: "length (branch_outs n bs) = n" by simp
  show n: "(i, branch_outs n bs ! i) \<in> set bs" if "i < n" for i
    using dom [OF that] that by (auto simp: e intro: map_of_SomeD)
  have m: "\<exists>i < n. b = branch_outs n bs ! i" if "(i, b) \<in> set bs" for i b
  proof -
    have "i \<in> set (map fst bs)" using that by force
    then have "i < n" unfolding assms(2) by simp
    with n [of i] that assms(1) show ?thesis by (metis eq_key_imp_eq_value)
  qed
  show "set (branch_outs n bs) = snd ` set bs"
  proof (intro set_eqI iffI)
    fix b assume "b \<in> set (branch_outs n bs)"
    then obtain i where "i < n" "b = branch_outs n bs ! i" by (metis in_set_conv_nth l)
    with n show "b \<in> snd ` set bs" by (metis image_eqI snd_conv)
  next
    fix b assume "b \<in> snd ` set bs"
    then obtain i where "(i, b) \<in> set bs" by auto
    with m l show "b \<in> set (branch_outs n bs)" by (metis nth_mem)
  qed
qed

lemma first_failure_None: "first_failure outs = None \<longleftrightarrow> (\<forall>b \<in> set outs. branch_failure b = None)"
  by (induction outs) (auto split: option.splits)

lemma merge_fields:
  "rs_budget (foldl merge_out s outs) = rs_budget s" "rs_clock (foldl merge_out s outs) = rs_clock s"
  "Input (rs_ctx (foldl merge_out s outs)) = Input (rs_ctx s)"
  "ctx_wf (rs_ctx s) \<Longrightarrow> ctx_wf (rs_ctx (foldl merge_out s outs))"
  "\<forall>b \<in> set outs. st_id (bo_step b) \<noteq> k \<Longrightarrow>
     map_of (Steps (rs_ctx (foldl merge_out s outs))) k = map_of (Steps (rs_ctx s)) k"
  by (induction outs arbitrary: s) (auto simp: merge_out_def ctx_wf_SetStep split: option.splits)

lemma merge_ctx:
  "rs_ctx (foldl merge_out s outs) = foldl (\<lambda>d b. case bo_out b of Some out \<Rightarrow>
     SetStep (st_id (bo_step b)) out d | None \<Rightarrow> d) (rs_ctx s) outs"
proof (induction outs arbitrary: s)
  case (Cons b outs)
  have "rs_ctx (merge_out s b) = (case bo_out b of Some out \<Rightarrow>
     SetStep (st_id (bo_step b)) out (rs_ctx s) | None \<Rightarrow> rs_ctx s)"
    by (simp add: merge_out_def split: option.split)
  then show ?case by (simp add: Cons.IH)
qed simp

text \<open>What a group that succeeds has done.\<close>

lemma runParallelGroup_Inr:
  assumes "runParallelGroup w p opts seg s = (s', Inr acts)"
  obtains s2 bs where
    "run_branches w p opts (sg_steps seg) (map fst bs) (tick (ev w ''parallel_start''
       [(''group'', JStr (sg_group seg)), (''steps'', JArr (map (\<lambda>st. JStr (st_id st)) (sg_steps seg)))] s))
       = (s2, bs)"
    "distinct (map fst bs)" "set (map fst bs) = {0..<length (sg_steps seg)}"
    "\<forall>b \<in> snd ` set bs. branch_failure b = None"
    "rs_ctx s' = rs_ctx (foldl merge_out s2 (branch_outs (length (sg_steps seg)) bs))"
    "rs_budget s' = rs_budget s2"
    "acts = map branch_status (branch_outs (length (sg_steps seg)) bs)"
    "int (length (sg_steps seg)) \<le> MaxParallelWidth"
proof -
  let ?n = "length (sg_steps seg)"
  define s1 where "s1 = tick (ev w ''parallel_start'' [(''group'', JStr (sg_group seg)),
                   (''steps'', JArr (map (\<lambda>st. JStr (st_id st)) (sg_steps seg)))] s)"
  obtain s2 bs where bs: "run_branches w p opts (sg_steps seg) (branch_order w s1 ?n) s1 = (s2, bs)"
    by fastforce
  have f: "map fst bs = branch_order w s1 ?n" using run_branches_all [OF bs] by blast
  with branch_order_perm have d: "distinct (map fst bs)" "set (map fst bs) = {0..<?n}" by metis+
  show thesis
    by (rule that [of bs s2])
      (use assms bs f d in \<open>auto simp: runParallelGroup_def Let_def s1_def [symmetric] merge_fields
          first_failure_None branch_outs_nth(3) split: if_splits option.splits\<close>)
qed

section \<open>Lemmas: the chain of segments\<close>

text \<open>What a chain of steps may change.\<close>

definition chain_frame :: "step list \<Rightarrow> obj \<Rightarrow> obj \<Rightarrow> bool" where
  "chain_frame sts d d' \<longleftrightarrow> ctx_wf d' \<and>
     (\<forall>k. k \<notin> st_id ` set sts \<and> k \<notin> (\<lambda>st. st_id st @ ''_all'') ` set sts \<longrightarrow>
        map_of (Steps d') k = map_of (Steps d) k) \<and>
     (\<forall>k. k \<notin> (\<lambda>st. item_key (st_foreachItem st)) ` {st \<in> set sts. st_foreach st \<noteq> []} \<longrightarrow>
        map_of (Input d') k = map_of (Input d) k)"

lemma chain_frame_refl: "ctx_wf d \<Longrightarrow> chain_frame sts d d"
  by (simp add: chain_frame_def)

lemma chain_frame_trans: "chain_frame sts d d' \<Longrightarrow> chain_frame sts d' d'' \<Longrightarrow> chain_frame sts d d''"
  by (simp add: chain_frame_def)

lemma chain_frame_wf: "chain_frame sts d d' \<Longrightarrow> ctx_wf d'"
  by (simp add: chain_frame_def)

lemma flow_chain_frame: "flow_frame st d d' \<Longrightarrow> st \<in> set sts \<Longrightarrow> chain_frame sts d d'"
  unfolding flow_frame_def chain_frame_def by (intro conjI allI impI; elim conjE) auto

lemma runParallelGroup_frame:
  assumes "ctx_wf (rs_ctx s)" and "runParallelGroup w p opts seg s = (s', r)"
    and "set (sg_steps seg) \<subseteq> set sts"
  shows "chain_frame sts (rs_ctx s) (rs_ctx s') \<and>
    (rs_budget s \<le> effectiveLimit opts \<and> (\<exists>a. r = Inr a) \<longrightarrow> rs_budget s' \<le> effectiveLimit opts)"
proof (cases r)
  case (Inl e)
  obtain s2 bs where bs: "run_branches w p opts (sg_steps seg) (branch_order w (tick (ev w ''parallel_start''
       [(''group'', JStr (sg_group seg)), (''steps'', JArr (map (\<lambda>st. JStr (st_id st)) (sg_steps seg)))] s))
       (length (sg_steps seg))) (tick (ev w ''parallel_start''
       [(''group'', JStr (sg_group seg)), (''steps'', JArr (map (\<lambda>st. JStr (st_id st)) (sg_steps seg)))] s))
       = (s2, bs)" by fastforce
  from run_branches_all [OF bs] have "rs_ctx s2 = rs_ctx s" by simp
  with assms Inl bs have "rs_ctx s' = rs_ctx s"
    by (auto simp: runParallelGroup_def Let_def split: if_splits option.splits)
  with assms(1) Inl show ?thesis by (simp add: chain_frame_refl)
next
  case (Inr acts)
  from runParallelGroup_Inr [OF assms(2) [unfolded Inr]] obtain s2 bs where
    bs: "run_branches w p opts (sg_steps seg) (map fst bs) (tick (ev w ''parallel_start''
       [(''group'', JStr (sg_group seg)), (''steps'', JArr (map (\<lambda>st. JStr (st_id st)) (sg_steps seg)))] s))
       = (s2, bs)" and
    d: "distinct (map fst bs)" "set (map fst bs) = {0..<length (sg_steps seg)}" and
    ok: "\<forall>b \<in> snd ` set bs. branch_failure b = None" and
    s': "rs_ctx s' = rs_ctx (foldl merge_out s2 (branch_outs (length (sg_steps seg)) bs))"
      "rs_budget s' = rs_budget s2" by metis
  note all = run_branches_all [OF bs]
  have ids: "bo_step b \<in> set sts" if b: "b \<in> set (branch_outs (length (sg_steps seg)) bs)" for b
  proof -
    from b branch_outs_nth(3) [OF d] obtain i where i: "(i, b) \<in> set bs" by auto
    then have "i \<in> set (map fst bs)" by force
    with d(2) have n: "i < length (sg_steps seg)" by simp
    from all i obtain t t' where "run_branch w p opts (sg_steps seg ! i) t = (t', b)" by blast
    from run_branch_state [OF this] n assms(3) show ?thesis by (metis nth_mem subsetD)
  qed
  have "chain_frame sts (rs_ctx s2) (rs_ctx s')" unfolding chain_frame_def s'
  proof (intro conjI allI impI)
    show "ctx_wf (rs_ctx (foldl merge_out s2 (branch_outs (length (sg_steps seg)) bs)))"
      by (rule merge_fields(4)) (use assms(1) all in simp)
    fix k assume "k \<notin> st_id ` set sts \<and> k \<notin> (\<lambda>st. st_id st @ ''_all'') ` set sts"
    with ids show "map_of (Steps (rs_ctx (foldl merge_out s2
        (branch_outs (length (sg_steps seg)) bs)))) k = map_of (Steps (rs_ctx s2)) k"
      by (intro merge_fields(5)) auto
  qed (simp add: merge_fields(3))
  moreover have "rs_budget s' \<le> effectiveLimit opts" if "rs_budget s \<le> effectiveLimit opts"
    unfolding s' by (rule run_branches_budget [OF bs]) (use assms(1) that ok in auto)
  ultimately show ?thesis using all by simp
qed

lemma run_segments_frame:
  "ctx_wf (rs_ctx s) \<Longrightarrow> run_segments w p opts stop segs actions s = (s', r) \<Longrightarrow>
     \<forall>seg \<in> set segs. segment_ok seg \<and> set (sg_steps seg) \<subseteq> set sts \<Longrightarrow>
     chain_frame sts (rs_ctx s) (rs_ctx s') \<and>
     (rs_budget s \<le> effectiveLimit opts \<and> (\<exists>a. r = Inr a) \<longrightarrow> rs_budget s' \<le> effectiveLimit opts)"
proof (induction segs arbitrary: actions s)
  case Nil
  then show ?case by (auto simp: chain_frame_refl)
next
  case (Cons seg segs)
  have seg: "set (sg_steps seg) \<subseteq> set sts" "hd (sg_steps seg) \<in> set sts"
    "\<forall>seg \<in> set segs. segment_ok seg \<and> set (sg_steps seg) \<subseteq> set sts"
    using Cons.prems(3) by (auto simp: segment_ok_def)
  have wf: "ctx_wf (rs_ctx (tick s))" using Cons.prems(1) by simp
  note IH = Cons.IH [OF _ _ seg(3)]
  show ?case
  proof (cases "cancelled w (tick s)")
    case True
    with Cons.prems show ?thesis by (auto simp: Let_def chain_frame_refl)
  next
    case nc: False
    show ?thesis
    proof (cases "if sg_parallel seg then segmentDone seg (ro_skip opts)
        else st_id (hd (sg_steps seg)) \<in> set (ro_skip opts)")
      case True
      with Cons.prems(2) nc have "run_segments w p opts stop segs actions (tick s) = (s', r)"
        by (simp add: Let_def split: if_splits)
      from IH [OF wf this] show ?thesis by simp
    next
      case ns: False
      define q where "q = (if sg_parallel seg then runParallelGroup w p opts seg (tick s)
        else map_prod id (map_sum id (\<lambda>a. [a])) (runStepFlow w p opts (hd (sg_steps seg)) (tick s)))"
      obtain s1 r1 where q: "q = (s1, r1)" by fastforce
      have f1: "chain_frame sts (rs_ctx (tick s)) (rs_ctx s1)" and
        b1: "rs_budget s \<le> effectiveLimit opts \<Longrightarrow> r1 = Inr a \<Longrightarrow> rs_budget s1 \<le> effectiveLimit opts" for a
      proof -
        have "chain_frame sts (rs_ctx (tick s)) (rs_ctx s1) \<and>
          (rs_budget s \<le> effectiveLimit opts \<and> (\<exists>a. r1 = Inr a) \<longrightarrow> rs_budget s1 \<le> effectiveLimit opts)"
        proof (cases "sg_parallel seg")
          case True
          with q runParallelGroup_frame [OF wf _ seg(1), of w p opts s1 r1] show ?thesis
            by (simp add: q_def)
        next
          case False
          obtain r0 where r0: "runStepFlow w p opts (hd (sg_steps seg)) (tick s) = (s1, r0)"
            "r1 = map_sum id (\<lambda>a. [a]) r0" using q False by (auto simp: q_def map_prod_def split: prod.splits)
          from runStepFlow_frame(1,4) [OF wf r0(1)] flow_chain_frame [OF _ seg(2)] r0(2) show ?thesis
            by (cases r0) auto
        qed
        then show "chain_frame sts (rs_ctx (tick s)) (rs_ctx s1)"
          "rs_budget s \<le> effectiveLimit opts \<Longrightarrow> r1 = Inr a \<Longrightarrow> rs_budget s1 \<le> effectiveLimit opts" for a
          by auto
      qed
      consider "s' = s1" "\<exists>e. r = Inl e" | "s' = s1" "\<exists>a. r1 = Inr a"
        | acts where "run_segments w p opts stop segs (actions @ acts) s1 = (s', r)" "r1 = Inr acts"
        using Cons.prems(2) nc ns q
        by (auto simp: Let_def q_def split: if_splits prod.splits sum.splits)
      then show ?thesis
      proof cases
        case 3
        from IH [OF chain_frame_wf [OF f1] 3(1)] f1 b1 3(2) show ?thesis
          by (auto intro: chain_frame_trans)
      qed (use f1 b1 in auto)
    qed
  qed
qed

lemma run_chain_frame:
  assumes "ctx_wf (rs_ctx s)" and "runParallelSegments w p opts sts stop s = (s', r)"
  shows "chain_frame sts (rs_ctx s) (rs_ctx s')"
    and "rs_budget s \<le> effectiveLimit opts \<Longrightarrow> r = Inr a \<Longrightarrow> rs_budget s' \<le> effectiveLimit opts"
proof -
  have "\<forall>seg \<in> set (segmentSteps sts). segment_ok seg \<and> set (sg_steps seg) \<subseteq> set sts"
  proof
    fix seg assume seg: "seg \<in> set (segmentSteps sts)"
    then have "set (sg_steps seg) \<subseteq> set (concat (map sg_steps (segmentSteps sts)))" by auto
    with segmentSteps_shape [OF seg] show "segment_ok seg \<and> set (sg_steps seg) \<subseteq> set sts"
      by (simp add: segmentSteps_concat)
  qed
  from run_segments_frame [OF assms(1) assms(2) [unfolded runParallelSegments_def] this]
  show "chain_frame sts (rs_ctx s) (rs_ctx s')"
    and "rs_budget s \<le> effectiveLimit opts \<Longrightarrow> r = Inr a \<Longrightarrow> rs_budget s' \<le> effectiveLimit opts"
    by auto
qed

text \<open>Nothing follows an action that stops the item.\<close>

lemma group_actions_no_abort:
  "runParallelGroup w p opts seg s = (s', Inr acts) \<Longrightarrow> ''abort_item'' \<notin> set acts"
  by (auto simp: runParallelGroup_def Let_def branch_status_def split: if_splits prod.splits option.splits)

lemma run_segments_abort:
  "run_segments w p opts True segs actions s = (s', Inr acts) \<Longrightarrow> ''abort_item'' \<notin> set actions \<Longrightarrow>
     ''abort_item'' \<notin> set (butlast acts)"
proof (induction segs arbitrary: actions s)
  case Nil
  then show ?case by (auto dest: in_set_butlastD)
next
  case (Cons seg segs)
  have group: "''abort_item'' \<notin> set (actions @ as)"
    if "runParallelGroup w p opts seg (tick s) = (s1, Inr as)" for s1 as
    using group_actions_no_abort [OF that] Cons.prems(2) by simp
  have single: "''abort_item'' \<notin> set (actions @ [a])" if "a \<noteq> ''abort_item''" for a
    using that Cons.prems(2) by simp
  from Cons.prems show ?case
    by (auto simp: Let_def simp del: set_append dest: Cons.IH [OF _ group] Cons.IH [OF _ single]
        Cons.IH in_set_butlastD split: if_splits prod.splits sum.splits)
qed

section \<open>Properties\<close>

text \<open>
  Segmentation keeps the list: the segments put together are the steps in their order,
  each is a maximal run of one non-empty group or a single step, and it is parallel exactly
  when it has more than one step.
\<close>

lemma segmentSteps_partition:
  "concat (map sg_steps (segmentSteps sts)) = sts \<and> list_all segment_ok (segmentSteps sts) \<and>
   (\<forall>a b segs. segmentSteps sts = a # b # segs \<longrightarrow> sg_group a = [] \<or> sg_group a \<noteq> sg_group b)"
  using segmentSteps_maximal [of sts]
  by (simp add: segmentSteps_concat segmentSteps_shape list_all_iff) blast

text \<open>
  C17. The branches of a parallel group are isolated and their merge is deterministic: every
  branch of a group that succeeds ran on a copy of the context the group started with, whatever
  the other branches did and in whatever order they ran; the outputs are merged in the order of
  the list, and nothing but the entries of the steps of the group changes.
\<close>

theorem parallel_group_isolated:
  assumes "runParallelGroup w p opts seg s = (s', Inr acts)"
  shows "\<exists>outs. map bo_step outs = sg_steps seg \<and> acts = map branch_status outs \<and>
    rs_ctx s' = rs_ctx (foldl merge_out s outs) \<and>
    (\<forall>b \<in> set outs. \<exists>t t' a. rs_ctx t = obj_rt (rs_ctx s) \<and> a \<noteq> ''abort_item'' \<and>
       runStepFlow w p opts (bo_step b) t = (t', Inr a) \<and>
       bo_out b = branch_result (st_id (bo_step b)) (rs_ctx t')) \<and>
    Input (rs_ctx s') = Input (rs_ctx s) \<and>
    (\<forall>k. k \<notin> st_id ` set (sg_steps seg) \<longrightarrow> map_of (Steps (rs_ctx s')) k = map_of (Steps (rs_ctx s)) k)"
proof -
  from runParallelGroup_Inr [OF assms] obtain s2 bs where
    bs: "run_branches w p opts (sg_steps seg) (map fst bs) (tick (ev w ''parallel_start''
       [(''group'', JStr (sg_group seg)), (''steps'', JArr (map (\<lambda>st. JStr (st_id st)) (sg_steps seg)))] s))
       = (s2, bs)" and
    d: "distinct (map fst bs)" "set (map fst bs) = {0..<length (sg_steps seg)}" and
    ok: "\<forall>b \<in> snd ` set bs. branch_failure b = None" and
    s': "rs_ctx s' = rs_ctx (foldl merge_out s2 (branch_outs (length (sg_steps seg)) bs))" and
    acts: "acts = map branch_status (branch_outs (length (sg_steps seg)) bs)" by metis
  define outs where "outs = branch_outs (length (sg_steps seg)) bs"
  note all = run_branches_all [OF bs]
  have nth: "bo_step (outs ! i) = sg_steps seg ! i \<and> (\<exists>t t' a. rs_ctx t = obj_rt (rs_ctx s) \<and>
      a \<noteq> ''abort_item'' \<and> runStepFlow w p opts (sg_steps seg ! i) t = (t', Inr a) \<and>
      bo_out (outs ! i) = branch_result (st_id (sg_steps seg ! i)) (rs_ctx t'))"
    if i: "i < length (sg_steps seg)" for i
  proof -
    have m: "(i, outs ! i) \<in> set bs" using branch_outs_nth(2) [OF d i] by (simp add: outs_def)
    with all obtain u u' where u: "rs_ctx u = rs_ctx s" "run_branch w p opts (sg_steps seg ! i) u = (u', outs ! i)"
      by fastforce
    have "branch_failure (outs ! i) = None" using ok m by force
    from u(2) this u(1) have "\<exists>t t' a. rs_ctx t = obj_rt (rs_ctx s) \<and> a \<noteq> ''abort_item'' \<and>
        runStepFlow w p opts (sg_steps seg ! i) t = (t', Inr a) \<and>
        bo_out (outs ! i) = branch_result (st_id (sg_steps seg ! i)) (rs_ctx t')"
      by (rule run_branch_ok)
    with run_branch_state [OF u(2)] show ?thesis by simp
  qed
  have len: "length outs = length (sg_steps seg)"
    using branch_outs_nth(1) [OF d] by (simp add: outs_def)
  have steps: "map bo_step outs = sg_steps seg"
    by (rule nth_equalityI) (simp_all add: len nth)
  have merge: "rs_ctx (foldl merge_out s2 outs) = rs_ctx (foldl merge_out s outs)"
    using all by (simp add: merge_ctx)
  have ids: "\<forall>b \<in> set outs. st_id (bo_step b) \<noteq> k" if "k \<notin> st_id ` set (sg_steps seg)" for k
    using that unfolding steps [symmetric] by auto
  have runs: "\<exists>t t' a. rs_ctx t = obj_rt (rs_ctx s) \<and> a \<noteq> ''abort_item'' \<and>
       runStepFlow w p opts (bo_step b) t = (t', Inr a) \<and>
       bo_out b = branch_result (st_id (bo_step b)) (rs_ctx t')" if "b \<in> set outs" for b
  proof -
    from that obtain i where i: "i < length (sg_steps seg)" "b = outs ! i"
      by (auto simp: in_set_conv_nth len)
    from nth [OF i(1)] show ?thesis unfolding i(2) by simp
  qed
  show ?thesis
  proof (intro exI [of _ outs] conjI ballI allI impI)
    show ctx: "rs_ctx s' = rs_ctx (foldl merge_out s outs)" using s' merge by (simp add: outs_def)
    show "Input (rs_ctx s') = Input (rs_ctx s)" unfolding ctx by (rule merge_fields(3))
    show "map_of (Steps (rs_ctx s')) k = map_of (Steps (rs_ctx s)) k"
      if "k \<notin> st_id ` set (sg_steps seg)" for k
      unfolding ctx by (rule merge_fields(5)) (rule ids [OF that])
    show "map bo_step outs = sg_steps seg" by (rule steps)
    show "acts = map branch_status outs" by (simp add: acts outs_def)
  qed (rule runs)
qed

text \<open>
  A chain of steps keeps to its own part of the context, and to the loop budget of the run:
  the outputs of steps outside the chain and the input, the item variables of its own step-level
  foreach apart, stay; and a chain that ends without an error is still within the budget.
\<close>

lemma chain_confined:
  assumes "ctx_wf (rs_ctx s)" and "runParallelSegments w p opts sts stop s = (s', r)"
    and "rs_budget s \<le> effectiveLimit opts"
  shows "(\<forall>k. k \<notin> st_id ` set sts \<and> k \<notin> (\<lambda>st. st_id st @ ''_all'') ` set sts \<longrightarrow>
      map_of (Steps (rs_ctx s')) k = map_of (Steps (rs_ctx s)) k) \<and>
    (\<forall>k. k \<notin> (\<lambda>st. item_key (st_foreachItem st)) ` {st \<in> set sts. st_foreach st \<noteq> []} \<longrightarrow>
      map_of (Input (rs_ctx s')) k = map_of (Input (rs_ctx s)) k) \<and>
    (\<forall>a. r = Inr a \<longrightarrow> rs_budget s' \<le> effectiveLimit opts)"
  using run_chain_frame [OF assms(1,2)] assms(3) by (auto simp: chain_frame_def)

text \<open>
  A step that stops its item stops the chain: \<open>abort_item\<close>, of a rejected gate or a failed
  step, can only be the last action of a chain.
\<close>

lemma abort_ends_chain:
  assumes "runParallelSegments w p opts sts True s = (s', Inr acts)"
  shows "''abort_item'' \<notin> set (butlast acts)"
  using run_segments_abort [OF assms [unfolded runParallelSegments_def]] by simp

text \<open>Two steps of one group, then a step that cannot be executed.\<close>

definition demo_chain :: "step list" where
  "demo_chain = [demo_pstep\<lparr>st_parallelGroup := ''g''\<rparr>,
     demo_pstep\<lparr>st_id := ''t'', st_parallelGroup := ''g''\<rparr>, demo_pstep\<lparr>st_id := ''u''\<rparr>]"

definition demo_start :: rstate where
  "demo_start = demo_state\<lparr>rs_ctx := NewCtx []\<rparr>"

lemma demo_start_facts: "ctx_wf (rs_ctx demo_start)" "rs_budget demo_start \<le> effectiveLimit demo_ropts"
  using demo_facts(3) by (simp_all add: demo_start_def ctx_wf_NewCtx)

definition demo_group :: segment where
  "demo_group = \<lparr>sg_parallel = True, sg_group = ''g'', sg_steps = take 2 demo_chain\<rparr>"

lemma demo_chain_run:
  "snd (runParallelGroup demo_world zero_pipeline demo_ropts demo_group demo_start) = Inr [''ok'', ''ok'']"
  "snd (runParallelSegments demo_world zero_pipeline demo_ropts demo_chain True demo_start) =
     Inr [''ok'', ''ok'', ''ok'']"
  by code_simp+

lemma demo_chain_eq:
  "runParallelGroup demo_world zero_pipeline demo_ropts demo_group demo_start =
     (fst (runParallelGroup demo_world zero_pipeline demo_ropts demo_group demo_start), Inr [''ok'', ''ok''])"
  "runParallelSegments demo_world zero_pipeline demo_ropts demo_chain True demo_start =
     (fst (runParallelSegments demo_world zero_pipeline demo_ropts demo_chain True demo_start),
      Inr [''ok'', ''ok'', ''ok''])"
  by (metis demo_chain_run prod.collapse)+

lemma parallel_group_isolated_witness:
  "\<exists>outs. map bo_step outs = sg_steps demo_group \<and> [''ok'', ''ok''] = map branch_status outs"
  using parallel_group_isolated [OF demo_chain_eq(1)] by (elim exE conjE) (intro exI conjI)

end
