(* ===== verification/Run_Resume.thy ===== *)
theory Run_Resume
  imports Journal Pipeline_Model
begin

text \<open>
  What a run reads back from its journal (internal/execution/runner.go, resume_steps.go,
  journal.go; \<open>ParseItemIndex\<close> of internal/journal/store.go): the cursor over items, the set
  of finished steps, the identity of the pipeline and the number of lost snapshots.
\<close>

text \<open>A decoded JSON number is a \<open>float64\<close>; \<open>float64(maxInt)\<close> is \<open>2^63\<close>.\<close>

definition ParseItemIndex :: "json \<Rightarrow> nat option" where
  "ParseItemIndex v =
     (case v of
        JFloat (Fin q) \<Rightarrow>
          if of_int \<lfloor>q\<rfloor> \<noteq> q \<or> q < 0 \<or> q \<ge> 2 ^ 63 then None else Some (nat \<lfloor>q\<rfloor>)
      | JInt n \<Rightarrow> if n < 0 then None else Some (nat n)
      | _ \<Rightarrow> None)"

definition field :: "string \<Rightarrow> obj \<Rightarrow> json" where
  "field k e = (case map_of e k of Some v \<Rightarrow> v | None \<Rightarrow> JNull)"

section \<open>The item cursor\<close>

definition note_item :: "(nat \<times> string) list \<Rightarrow> obj \<Rightarrow> (nat \<times> string) list" where
  "note_item latest e =
     (if event_type e \<noteq> ''item_start'' \<and> event_type e \<noteq> ''item_end'' then latest
      else case ParseItemIndex (field ''item_index'' e) of
        None \<Rightarrow> latest
      | Some idx \<Rightarrow>
          if event_type e = ''item_end'' then AList.update idx (str_field ''status'' e) latest
          else latest)"

definition latest_items :: "obj list \<Rightarrow> (nat \<times> string) list" where
  "latest_items es = foldl note_item [] es"

definition item_ok :: "string \<Rightarrow> bool" where
  "item_ok status \<longleftrightarrow> status = [] \<or> status = ''ok''"

text \<open>
  The counting loop of \<open>resumeCursor\<close>; it ends at the first index that has no entry, so
  \<open>length latest\<close> turns are enough fuel.
\<close>

fun cursor_from :: "(nat \<times> string) list \<Rightarrow> nat \<Rightarrow> nat \<Rightarrow> nat" where
  "cursor_from latest 0 idx = idx"
| "cursor_from latest (Suc fuel) idx =
     (case map_of latest idx of
        None \<Rightarrow> idx
      | Some status \<Rightarrow> if item_ok status then cursor_from latest fuel (idx + 1) else idx)"

text \<open>\<open>resumeCursor\<close>: the index to continue with, which is also the number of items counted ok.\<close>

definition resumeCursor :: "obj list \<Rightarrow> nat" where
  "resumeCursor es = cursor_from (latest_items es) (length (latest_items es)) 0"

section \<open>Finished steps, identity, losses\<close>

definition resumeStepCursor :: "obj list \<Rightarrow> string list" where
  "resumeStepCursor es =
     nub (filter (\<lambda>i. i \<noteq> []) (map (str_field ''step'')
       (filter (\<lambda>e. event_type e = ''step_end'' \<and> str_field ''status'' e = ''ok'') es)))"

fun identity_of :: "obj list \<Rightarrow> string \<Rightarrow> string option" where
  "identity_of [] identity = (if identity = [] then None else Some identity)"
| "identity_of (e # es) identity =
     (if event_type e \<noteq> ''run_start'' then identity_of es identity
      else
        let candidate = str_field ''pipeline_hash'' e in
        if candidate = [] then None
        else if identity \<noteq> [] \<and> identity \<noteq> candidate then None
        else identity_of es candidate)"

definition journalPipelineIdentity :: "obj list \<Rightarrow> string option" where
  "journalPipelineIdentity es = identity_of es []"

definition priorSnapshotLosses :: "obj list \<Rightarrow> nat" where
  "priorSnapshotLosses es = length (filter (\<lambda>e. event_type e = ''snapshot_lost'') es)"

section \<open>Lemmas\<close>

lemma cursor_from_spec:
  assumes "cursor_from latest fuel idx = n"
  shows "idx \<le> n \<and> (\<forall>i. idx \<le> i \<and> i < n \<longrightarrow> (\<exists>st. map_of latest i = Some st \<and> item_ok st)) \<and>
    (n < idx + fuel \<longrightarrow> (\<forall>st. map_of latest n = Some st \<longrightarrow> \<not> item_ok st)) \<and> n \<le> idx + fuel"
  using assms
proof (induction fuel arbitrary: idx)
  case 0
  then show ?case by auto
next
  case (Suc fuel)
  show ?case
  proof (cases "\<exists>st. map_of latest idx = Some st \<and> item_ok st")
    case True
    with Suc.prems have "cursor_from latest fuel (idx + 1) = n" by auto
    from Suc.IH [OF this] True show ?thesis
      by (metis add_Suc_right add_Suc_shift le_Suc_eq le_neq_implies_less less_eq_Suc_le
          not_less_eq_eq Suc_eq_plus1)
  next
    case False
    with Suc.prems have "n = idx" by (auto split: option.splits)
    with False show ?thesis by auto
  qed
qed

lemma wf_latest: "distinct (map fst (latest_items es))"
proof -
  have "distinct (map fst l) \<Longrightarrow> distinct (map fst (foldl note_item l es))" for l
    by (induction es arbitrary: l) (auto simp: note_item_def distinct_update split: option.splits)
  then show ?thesis by (simp add: latest_items_def)
qed

text \<open>The fuel is enough: more keys than \<open>length latest\<close> cannot all be present.\<close>

lemma cursor_fuel:
  assumes "distinct (map fst latest)" and "cursor_from latest (length latest) 0 = n"
  shows "\<forall>st. map_of latest n = Some st \<longrightarrow> \<not> item_ok st"
proof (cases "n < length latest")
  case True
  with cursor_from_spec [OF assms(2)] show ?thesis by simp
next
  case False
  with cursor_from_spec [OF assms(2)] have n: "n = length latest"
    and all: "\<forall>i < n. i \<in> fst ` set latest"
    by (auto simp: image_iff) (metis map_of_SomeD fst_conv)+
  have "n \<notin> fst ` set latest"
  proof
    assume "n \<in> fst ` set latest"
    with all have "{0..n} \<subseteq> fst ` set latest"
      by (metis atLeastAtMost_iff le_neq_implies_less subsetI)
    then have "card {0..n} \<le> card (fst ` set latest)" by (rule card_mono [rotated]) simp
    also have "\<dots> \<le> length latest" by (metis card_length length_map list.set_map)
    finally show False by (simp add: n)
  qed
  then show ?thesis by (metis map_of_eq_None_iff option.distinct(1))
qed

text \<open>The status of the last \<open>item_end\<close> of an index.\<close>

definition ended_with :: "obj list \<Rightarrow> nat \<Rightarrow> string option" where
  "ended_with es idx = map_option (str_field ''status'')
     (find (\<lambda>e. event_type e = ''item_end'' \<and> ParseItemIndex (field ''item_index'' e) = Some idx) (rev es))"

lemma latest_ended: "map_of (latest_items es) idx = ended_with es idx"
proof (induction es rule: rev_induct)
  case Nil
  then show ?case by (simp add: latest_items_def ended_with_def)
next
  case (snoc e es)
  then show ?case
    by (auto simp: latest_items_def ended_with_def note_item_def AList.update_conv split: option.splits)
qed

section \<open>Properties\<close>

text \<open>
  The cursor of a foreach run is the first item that did not end well: every item before
  it has a last \<open>item_end\<close> with status ok, the item at the cursor has none, or ended otherwise.
\<close>

lemma resumeCursor_spec:
  "(\<forall>i < resumeCursor es. \<exists>st. ended_with es i = Some st \<and> item_ok st) \<and>
   (\<forall>st. ended_with es (resumeCursor es) = Some st \<longrightarrow> \<not> item_ok st)"
  using cursor_from_spec [of "latest_items es" "length (latest_items es)" 0 "resumeCursor es"]
    cursor_fuel [OF wf_latest, of es "resumeCursor es"]
  by (simp add: resumeCursor_def latest_ended)

text \<open>
  The identity check accepts a journal exactly when it has a start, every start carries
  the same non-empty hash, and that hash is returned.
\<close>

lemma journalPipelineIdentity_iff:
  "journalPipelineIdentity es = Some h \<longleftrightarrow>
     h \<noteq> [] \<and> (\<exists>e \<in> set es. event_type e = ''run_start'') \<and>
     (\<forall>e \<in> set es. event_type e = ''run_start'' \<longrightarrow> str_field ''pipeline_hash'' e = h)"
proof -
  have "identity_of es i = Some h \<longleftrightarrow>
     h \<noteq> [] \<and> (i = h \<or> i = [] \<and> (\<exists>e \<in> set es. event_type e = ''run_start'')) \<and>
     (\<forall>e \<in> set es. event_type e = ''run_start'' \<longrightarrow> str_field ''pipeline_hash'' e = h)" for i
    by (induction es arbitrary: i) (auto simp: Let_def)
  then show ?thesis by (auto simp: journalPipelineIdentity_def)
qed

definition demo_events :: "obj list" where
  "demo_events = [[(''type'', JStr ''run_start''), (''pipeline_hash'', JStr ''h'')],
     [(''type'', JStr ''item_end''), (''item_index'', JFloat (Fin 0)), (''status'', JStr ''ok'')]]"

end
