(* ===== verification/Run_Pipeline.thy ===== *)
theory Run_Pipeline
  imports Parallel_Run Run_Resume
begin

text \<open>
  A whole run (internal/execution/runner.go \<open>runWithStore\<close>, journal.go): the checks before any
  effect, the fresh or resumed start, the phases before, inside and after the foreach, and the
  terminal record. The store is its effect on the run directory: \<open>Fresh ok\<close> says whether the
  directory of a new run could be created, \<open>Resume\<close> holds the files of an old one.
\<close>

record runEnv =
  re_getenv :: "string \<Rightarrow> string"
  re_identity :: "string option"

record runStats =
  ru_ok :: nat
  ru_aborted :: nat
  ru_losses :: nat

datatype runSource = Fresh bool | Resume "jline list" bool "obj option"

definition zero_stats :: runStats where
  "zero_stats = \<lparr>ru_ok = 0, ru_aborted = 0, ru_losses = 0\<rparr>"

section \<open>execution/journal.go\<close>

definition failEvent :: "world \<Rightarrow> run_err \<Rightarrow> obj \<Rightarrow> rstate \<Rightarrow> rstate" where
  "failEvent w e extra s =
     snapshot w (ev w (if e = RCancelled then ''run_cancelled'' else ''run_failed'')
       ((''code'', JStr (ErrorCode e)) # extra) s)"

definition journalWriteError :: "journal \<Rightarrow> run_err option" where
  "journalWriteError j = (if WriteErrors j > 0 then Some (RCode ''journal_write'') else None)"

definition snapshotLossError :: "journal \<Rightarrow> nat \<Rightarrow> run_err option" where
  "snapshotLossError j prior =
     (if SnapshotLosses j + prior = 0 then None else Some (RCode ''snapshot_lost''))"

definition finish_run :: "world \<Rightarrow> nat \<Rightarrow> obj \<Rightarrow> rstate \<Rightarrow> rstate \<times> run_err option" where
  "finish_run w prior kv s =
     (case snapshotLossError (rs_j s) prior of
        Some e \<Rightarrow>
          (ev w ''run_failed'' [(''code'', JStr ''snapshot_lost''),
             (''snapshot_losses'', JInt (int (SnapshotLosses (rs_j s) + prior)))] s, Some e)
      | None \<Rightarrow> (let s1 = ev w ''run_end'' kv s in (s1, journalWriteError (rs_j s1))))"

section \<open>Before any effect\<close>

fun check_deny :: "world \<Rightarrow> step list \<Rightarrow> run_err option" where
  "check_deny w [] = None"
| "check_deny w (st # sts) =
     (if IsBuiltin (st_plugin st) then check_deny w sts
      else if IsBuiltinNamespace (st_plugin st) then Some (RCode ''E_PLUGIN_LOAD'')
      else case w_load w (st_plugin st) of
        None \<Rightarrow> check_deny w sts
      | Some m \<Rightarrow> if length (m_network m) > 0 then Some (RCode ''network_denied'') else check_deny w sts)"

fun check_allow :: "world \<Rightarrow> step list \<Rightarrow> run_err option" where
  "check_allow w [] = None"
| "check_allow w (st # sts) =
     (if IsBuiltin (st_plugin st) \<or> IsBuiltinNamespace (st_plugin st) then check_allow w sts
      else case w_load w (st_plugin st) of
        None \<Rightarrow> check_allow w sts
      | Some m \<Rightarrow>
          if NetworkHasStructuredDeclarations m then Some (RCode ''network_not_enforceable'')
          else check_allow w sts)"

definition missingSecrets :: "runEnv \<Rightarrow> pipeline \<Rightarrow> string list" where
  "missingSecrets env p = filter (\<lambda>k. re_getenv env k = []) (p_secrets p)"

definition preflight :: "world \<Rightarrow> runEnv \<Rightarrow> pipeline \<Rightarrow> run_err option" where
  "preflight w env p =
     (if p_network p \<noteq> [] \<and> p_network p \<noteq> ''allow'' \<and> p_network p \<noteq> ''deny''
      then Some (RCode ''network_policy'')
      else if length (missingSecrets env p) > 0 then Some (RCode ''secrets_missing'')
      else if EffectiveNetwork p = ''deny'' then check_deny w (p_steps p)
      else if EffectiveNetwork p = ''allow'' then check_allow w (p_steps p)
      else None)"

section \<open>The start\<close>

definition init_state :: "journal \<Rightarrow> obj \<Rightarrow> rstate" where
  "init_state j ctx = \<lparr>rs_ctx = ctx, rs_j = j, rs_in = 0, rs_clock = 0, rs_budget = 0\<rparr>"

definition start_fresh :: "world \<Rightarrow> pipeline \<Rightarrow> string \<Rightarrow> rstate" where
  "start_fresh w p hash =
     ev w ''run_start'' [(''pipeline'', JStr (p_name p)), (''pipeline_hash'', JStr hash)]
       (init_state NewJournal (NewCtx (p_input p)))"

text \<open>The steps a resumed linear chain may skip: done in the journal and present in the context.\<close>

definition skip_steps :: "pipeline \<Rightarrow> obj list \<Rightarrow> obj \<Rightarrow> string list" where
  "skip_steps p es ctx =
     (if p_foreach p = [] then filter (\<lambda>i. i \<in> fst ` set (Steps ctx)) (resumeStepCursor es) else [])"

text \<open>
  In the resume branch \<open>startItemIdx, priorStats, err := resumeCursor(...)\<close> declares a new
  \<open>startItemIdx\<close>: the cursor only reaches the \<open>run_resumed\<close> event, and the outer variable, which
  the later code reads, stays 0. The branches guarded by \<open>startItemIdx > 0\<close> are dead.
\<close>

definition start_resume ::
  "world \<Rightarrow> pipeline \<Rightarrow> ropts \<Rightarrow> string \<Rightarrow> jline list \<Rightarrow> bool \<Rightarrow> obj option \<Rightarrow>
   (run_err + (rstate \<times> ropts \<times> runStats))" where
  "start_resume w p opts hash lines torn disk =
     (case disk of
        None \<Rightarrow> Inl RPlain
      | Some data \<Rightarrow>
     (case Normalize (obj_rt data) of
        Inl _ \<Rightarrow> Inl RPlain
      | Inr ctx \<Rightarrow>
          (let j = OpenJournalAppend lines torn disk in
           case Events j of
             None \<Rightarrow> Inl RPlain
           | Some es \<Rightarrow>
               if journalPipelineIdentity es \<noteq> Some hash then Inl RPlain
               else
                 let start = resumeCursor es; skip = skip_steps p es ctx in
                 Inr (ev w ''run_resumed'' [(''from_item'', JInt (int start)), (''pipeline_hash'', JStr hash)]
                        (init_state j ctx),
                      if length skip > 0 then opts\<lparr>ro_skip := skip\<rparr> else opts,
                      \<lparr>ru_ok = start, ru_aborted = 0, ru_losses = priorSnapshotLosses es\<rparr>))))"

section \<open>Phases\<close>

definition foreach_array :: "pipeline \<Rightarrow> obj \<Rightarrow> run_err + json list" where
  "foreach_array p ctx =
     (case Get (p_foreach p) ctx of
        Some (JArr arr) \<Rightarrow> Inr arr
      | _ \<Rightarrow> Inl (RCode ''foreach_path''))"

fun index_of_step :: "string \<Rightarrow> step list \<Rightarrow> nat option" where
  "index_of_step i [] = None"
| "index_of_step i (st # sts) = (if st_id st = i then Some 0 else map_option Suc (index_of_step i sts))"

text \<open>The steps before, inside and after the foreach.\<close>

definition phases :: "pipeline \<Rightarrow> run_err + (step list \<times> step list \<times> step list)" where
  "phases p =
     (let split = (\<lambda>sts. (filter (\<lambda>st. \<not> st_afterForeach st) sts, filter st_afterForeach sts)) in
      if p_foreach p = [] \<or> hasPrefix (p_foreach p) ''input.'' then Inr ([], split (p_steps p))
      else if hasPrefix (p_foreach p) ''steps.'' then
        (let parts = split_dot (p_foreach p) in
         if length parts < 3 then Inl (RCode ''foreach_path'')
         else case index_of_step (parts ! 1) (p_steps p) of
           None \<Rightarrow> Inl (RCode ''foreach_path'')
         | Some n \<Rightarrow> Inr (take (n + 1) (p_steps p), split (drop (n + 1) (p_steps p))))
      else Inl (RCode ''foreach_path''))"

definition run_pre ::
  "world \<Rightarrow> pipeline \<Rightarrow> ropts \<Rightarrow> bool \<Rightarrow> step list \<Rightarrow> rstate \<Rightarrow> rstate \<times> run_err option" where
  "run_pre w p opts resumed pre s =
     (if \<not> hasPrefix (p_foreach p) ''steps.'' \<or> resumed then (s, None)
      else case runParallelSegments w p opts pre True s of
        (s1, Inl e) \<Rightarrow> (failEvent w e [] s1, Some e)
      | (s1, Inr acts) \<Rightarrow>
          if ''abort_item'' \<in> set acts then (s1, Some RPlain) else (snapshot w s1, None))"

definition foreach_list :: "pipeline \<Rightarrow> obj \<Rightarrow> run_err + json list" where
  "foreach_list p ctx =
     (if p_foreach p = [] then Inr [JNull]
      else case foreach_array p ctx of
        Inl e \<Rightarrow> Inl e
      | Inr arr \<Rightarrow> if int (length arr) > MaxForeachItems then Inl (RCode ''resource_limit'') else Inr arr)"

section \<open>Items and aggregates\<close>

type_synonym agg = "(string \<times> json list) list"

record itemsState =
  is_agg :: agg
  is_count :: int
  is_stats :: runStats

definition writeAggregates :: "agg \<Rightarrow> step list \<Rightarrow> obj \<Rightarrow> obj" where
  "writeAggregates agg steps ctx =
     on_steps (\<lambda>m. foldl (\<lambda>m st.
        if st_foreach st \<noteq> [] then m
        else case map_of agg (st_id st) of
          Some values \<Rightarrow> AList.update (st_id st @ ''_all'') (JArr values) m
        | None \<Rightarrow> m) m steps) ctx"

definition put_aggregates :: "agg \<Rightarrow> step list \<Rightarrow> rstate \<Rightarrow> rstate" where
  "put_aggregates agg steps s = s\<lparr>rs_ctx := writeAggregates agg steps (rs_ctx s)\<rparr>"

definition prepare_item :: "pipeline \<Rightarrow> step list \<Rightarrow> step list \<Rightarrow> json \<Rightarrow> obj \<Rightarrow> obj" where
  "prepare_item p pre loop it ctx =
     (if p_foreach p = [] then ctx
      else SetInput (item_key (p_foreachItem p)) it
        (if length pre = 0 then ResetSteps ctx
         else on_steps (\<lambda>m. foldl (\<lambda>m st. AList.delete (st_id st @ ''_all'') (AList.delete (st_id st) m))
                m loop) ctx))"

definition idx_kv :: "nat \<Rightarrow> obj \<Rightarrow> obj" where
  "idx_kv idx kv = (''item_index'', JInt (int idx)) # kv"

text \<open>
  The outputs of the steps of one item are appended to the aggregates. The sources pair the
  i-th action with the i-th step of the phase, also when steps were skipped.
\<close>

definition agg_key :: "step \<Rightarrow> string" where
  "agg_key st = (if st_foreach st \<noteq> [] then st_id st @ ''_all'' else st_id st)"

fun collect_actions ::
  "world \<Rightarrow> nat \<Rightarrow> (string \<times> step) list \<Rightarrow> agg \<Rightarrow> int \<Rightarrow> rstate \<Rightarrow> (string \<times> agg \<times> int) res" where
  "collect_actions w idx [] agg count s = (s, Inr (''ok'', agg, count))"
| "collect_actions w idx ((action, st) # rest) agg count s =
     (if action = ''abort_item'' then
        (ev w ''item_aborted'' (idx_kv idx [(''at_step'', JStr (st_id st))]) s,
         Inr (''aborted'', agg, count))
      else case map_of (Steps (rs_ctx s)) (agg_key st) of
        None \<Rightarrow> collect_actions w idx rest agg count s
      | Some v \<Rightarrow>
          if count + 1 > MaxAggregateItems
          then (failEvent w (RCode ''resource_limit'') [] s, Inl (RCode ''resource_limit''))
          else collect_actions w idx rest (append_at (st_id st) v agg) (count + 1) s)"

definition count_item :: "string \<Rightarrow> runStats \<Rightarrow> runStats" where
  "count_item status stats =
     (if status = ''aborted'' then stats\<lparr>ru_aborted := ru_aborted stats + 1\<rparr>
      else stats\<lparr>ru_ok := ru_ok stats + 1\<rparr>)"

definition end_item ::
  "world \<Rightarrow> pipeline \<Rightarrow> step list \<Rightarrow> nat \<Rightarrow> string \<Rightarrow> agg \<Rightarrow> rstate \<Rightarrow> rstate" where
  "end_item w p loop idx status agg s =
     ev w ''item_end'' (idx_kv idx [(''status'', JStr status)])
       (snapshot w (if p_foreach p \<noteq> [] then put_aggregates agg loop s else s))"

fun run_items ::
  "world \<Rightarrow> pipeline \<Rightarrow> ropts \<Rightarrow> step list \<Rightarrow> step list \<Rightarrow> nat \<Rightarrow> json list \<Rightarrow> itemsState \<Rightarrow> rstate \<Rightarrow>
   rstate \<times> itemsState \<times> run_err option" where
  "run_items w p opts pre loop idx [] a s = (s, a, None)"
| "run_items w p opts pre loop idx (it # its) a s0 =
     (let s1 = tick s0 in
      if cancelled w s1 then (failEvent w RCancelled (idx_kv idx []) s1, a, Some RCancelled)
      else
        let s2 = ev w ''item_start'' (idx_kv idx [(''item'', it)])
                   (s1\<lparr>rs_ctx := prepare_item p pre loop it (rs_ctx s1)\<rparr>)
        in case runParallelSegments w p opts loop True s2 of
             (s3, Inl e) \<Rightarrow> (failEvent w e [] s3, a, Some e)
           | (s3, Inr acts) \<Rightarrow>
               (case collect_actions w idx (zip acts loop) (is_agg a) (is_count a) s3 of
                  (s4, Inl e) \<Rightarrow> (s4, a, Some e)
                | (s4, Inr (status, agg, count)) \<Rightarrow>
                    run_items w p opts pre loop (idx + 1) its
                      \<lparr>is_agg = agg, is_count = count, is_stats = count_item status (is_stats a)\<rparr>
                      (end_item w p loop idx status agg s4)))"

section \<open>The run\<close>

definition run_post ::
  "world \<Rightarrow> pipeline \<Rightarrow> ropts \<Rightarrow> step list \<Rightarrow> step list \<Rightarrow> itemsState \<Rightarrow> rstate \<Rightarrow>
   rstate \<times> runStats \<times> run_err option" where
  "run_post w p opts loop post a s =
     (if length post = 0 then (s, is_stats a, None)
      else case runParallelSegments w p opts post True
          (ev w ''post_phase_start'' [(''steps'', JInt (int (length post)))]
             (put_aggregates (is_agg a) loop s)) of
        (s1, Inl e) \<Rightarrow> (failEvent w e [] s1, is_stats a, Some e)
      | (s1, Inr acts) \<Rightarrow>
          (ev w ''post_phase_end'' [] (snapshot w s1),
           if ''abort_item'' \<in> set acts then (is_stats a)\<lparr>ru_aborted := ru_aborted (is_stats a) + 1\<rparr>
           else is_stats a,
           None))"

definition stats_kv :: "runStats \<Rightarrow> obj" where
  "stats_kv stats = [(''ok'', JInt (int (ru_ok stats))), (''aborted'', JInt (int (ru_aborted stats)))]"

text \<open>Everything after the start event.\<close>

definition run_phases ::
  "world \<Rightarrow> pipeline \<Rightarrow> ropts \<Rightarrow> bool \<Rightarrow> runStats \<Rightarrow> rstate \<Rightarrow> rstate \<times> runStats \<times> run_err option" where
  "run_phases w p opts resumed stats s =
     (case phases p of
        Inl e \<Rightarrow> (s, stats, Some e)
      | Inr (pre, loop, post) \<Rightarrow>
     (case run_pre w p opts resumed pre s of
        (s1, Some e) \<Rightarrow> (s1, stats, Some e)
      | (s1, None) \<Rightarrow>
     (case foreach_list p (rs_ctx s1) of
        Inl e \<Rightarrow> (s1, stats, Some e)
      | Inr items \<Rightarrow>
     (case run_items w p opts pre loop 0 items \<lparr>is_agg = [], is_count = 0, is_stats = stats\<rparr> s1 of
        (s2, a, Some e) \<Rightarrow> (s2, is_stats a, Some e)
      | (s2, a, None) \<Rightarrow>
     (case run_post w p opts loop post a s2 of
        (s3, stats', Some e) \<Rightarrow> (s3, stats', Some e)
      | (s3, stats', None) \<Rightarrow>
          (let (s4, e) = finish_run w (ru_losses stats') (stats_kv stats') s3 in (s4, stats', e)))))))"

definition close_run :: "rstate \<times> runStats \<times> run_err option \<Rightarrow> rstate option \<times> runStats \<times> run_err option" where
  "close_run r = (case r of (s, stats, e) \<Rightarrow> (Some (s\<lparr>rs_j := Close (rs_j s)\<rparr>), stats, e))"

text \<open>\<open>None\<close> for the state: the run ended before it opened a journal.\<close>

definition runWithStore ::
  "world \<Rightarrow> runEnv \<Rightarrow> pipeline \<Rightarrow> ropts \<Rightarrow> runSource \<Rightarrow> rstate option \<times> runStats \<times> run_err option" where
  "runWithStore w env p opts src =
     (case preflight w env p of
        Some e \<Rightarrow> (None, zero_stats, Some e)
      | None \<Rightarrow>
     (case re_identity env of
        None \<Rightarrow> (None, zero_stats, Some (RCode ''context_serialization''))
      | Some hash \<Rightarrow>
     (case src of
        Fresh created \<Rightarrow>
          (if \<not> created then (None, zero_stats, Some RPlain)
           else close_run (run_phases w p opts False zero_stats (start_fresh w p hash)))
      | Resume lines torn disk \<Rightarrow>
          (case start_resume w p opts hash lines torn disk of
             Inl e \<Rightarrow> (None, zero_stats, Some e)
           | Inr (s, opts', stats) \<Rightarrow> close_run (run_phases w p opts' True stats s)))))"

end
