(* ===== verification/Run_Journal.thy ===== *)
theory Run_Journal
  imports Run_Pipeline
begin

text \<open>
  What a run does to its journal. \<open>jreach\<close> relates a journal to every journal that events and
  snapshots can make of it; each operation of a run is shown to stay inside this relation, so
  that the invariants of the journal hold at the end of every run.
\<close>

inductive jreach :: "io \<Rightarrow> journal \<Rightarrow> journal \<Rightarrow> bool" for io j where
  jr_refl: "jreach io j j"
| jr_event: "jreach io j j' \<Longrightarrow> jreach io j (emit io kind kv j')"
| jr_snap: "jreach io j j' \<Longrightarrow> jreach io j (snap io ctx j')"

inductive_cases jreach_lastE: "jreach io j j'"

lemma jr_trans: "jreach io b c \<Longrightarrow> jreach io a b \<Longrightarrow> jreach io a c"
  by (induction rule: jreach.induct) (auto intro: jreach.intros)

lemma jreach_ops: "jreach io j j' \<longleftrightarrow> (\<exists>ops. j' = fold (run_op io) ops j)"
proof
  assume "jreach io j j'"
  then show "\<exists>ops. j' = fold (run_op io) ops j"
  proof induction
    case jr_refl
    show ?case by (rule exI [of _ "[]"]) simp
  next
    case (jr_event j' kind kv)
    then obtain ops where "j' = fold (run_op io) ops j" by blast
    then show ?case by (intro exI [of _ "ops @ [OpEvent kind kv]"]) simp
  next
    case (jr_snap j' ctx)
    then obtain ops where "j' = fold (run_op io) ops j" by blast
    then show ?case by (intro exI [of _ "ops @ [OpSnapshot ctx]"]) simp
  qed
next
  assume "\<exists>ops. j' = fold (run_op io) ops j"
  then obtain ops where "j' = fold (run_op io) ops j" by blast
  moreover have "jreach io j (fold (run_op io) ops j)"
  proof (induction ops rule: rev_induct)
    case (snoc op ops)
    then show ?case by (cases op) (auto intro: jreach.intros)
  qed (simp add: jr_refl)
  ultimately show "jreach io j j'" by simp
qed

section \<open>What survives\<close>

text \<open>A torn file has been counted as a write error.\<close>

definition torn_counted :: "journal \<Rightarrow> bool" where
  "torn_counted j \<longleftrightarrow> (j_torn j \<longrightarrow> j_writeErrs j > 0)"

lemma torn_event: "torn_counted j \<Longrightarrow> torn_counted (emit io kind kv j)"
  by (auto simp: torn_counted_def emit_def Event_def lose_event_def Let_def split: wout.splits)

lemma torn_count: "torn_counted j \<Longrightarrow> torn_counted (count_loss r j)"
  by (simp add: torn_counted_def count_loss_def)

lemma torn_snap: "torn_counted j \<Longrightarrow> torn_counted (snap io ctx j)"
proof -
  assume t: "torn_counted j"
  then have w: "torn_counted (fst (writeSnapshot io ctx j))"
    by (simp add: torn_counted_def)
  then show ?thesis
    by (cases rule: Snapshot_cases [of io ctx j])
      (auto simp: snap_def noteSnapshotLoss_def Let_def intro: torn_event torn_count)
qed

lemma jreach_inv:
  "jreach io j j' \<Longrightarrow>
     (journal_inv j \<longrightarrow> journal_inv j') \<and> (torn_counted j \<longrightarrow> torn_counted j') \<and>
     j_open j' = j_open j \<and> (\<exists>ls. j_lines j' = j_lines j @ ls) \<and> SnapshotLosses j \<le> SnapshotLosses j'"
proof (induction rule: jreach.induct)
  case (jr_event j' kind kv)
  with emit_append [of io kind kv j'] show ?case
    by (auto simp: journal_inv_emit torn_event SnapshotLosses_def)
next
  case (jr_snap j' ctx)
  with snap_append [of io ctx j'] snap_losses_mono [of j' io ctx] show ?case
    by (auto simp: journal_inv_snap torn_snap intro: order_trans)
qed simp

section \<open>The operations of a run\<close>

abbreviation sreach :: "world \<Rightarrow> rstate \<Rightarrow> rstate \<Rightarrow> bool" where
  "sreach w s s' \<equiv> jreach (w_io w) (rs_j s) (rs_j s')"

lemma sreach_ev: "sreach w s s' \<Longrightarrow> sreach w s (ev w k kv s')"
  by (simp add: ev_def jr_event)

lemma sreach_snapshot: "sreach w s s' \<Longrightarrow> sreach w s (snapshot w s')"
  by (simp add: snapshot_def jr_snap)

lemma sreach_events: "sreach w s s' \<Longrightarrow> sreach w s (events w k kvs s')"
  by (induction kvs arbitrary: s') (auto simp: events_def sreach_ev)

lemmas sreach_intros = jr_refl sreach_ev sreach_snapshot sreach_events

lemma sreach_fail: "sreach w s s' \<Longrightarrow> sreach w s (failEvent w e kv s')"
  by (simp add: failEvent_def sreach_intros)

lemma sreach_fate: "step_error_fate w st code s = (s', r) \<Longrightarrow> sreach w s s'"
  by (auto simp: step_error_fate_def intro!: sreach_intros split: if_splits)

lemma sreach_accept: "accept_output w m st out s = (s', r) \<Longrightarrow> sreach w s s'"
  by (auto simp: accept_output_def contract_warning_def Let_def intro!: sreach_intros
      split: prod.splits sum.splits if_splits)

lemma sreach_builtin: "runBuiltinDataStep w st s = (s', r) \<Longrightarrow> sreach w s s'"
  by (auto simp: runBuiltinDataStep_def intro: jr_refl dest: sreach_fate sreach_accept
      split: option.splits sum.splits)

lemma sreach_attempts:
  "attempts_loop w m st inp timeout netEnv k attempt s = (s', r) \<Longrightarrow> sreach w s s'"
proof (induction k arbitrary: attempt s)
  case 0
  then show ?case
    by (subst (asm) attempts_loop.simps) (auto simp: Let_def intro!: sreach_intros split: if_splits)
next
  case (Suc k)
  from Suc.prems show ?case
    by (subst (asm) attempts_loop.simps)
      (auto simp: Let_def intro!: sreach_intros split: if_splits
        dest!: Suc.IH intro: jr_trans)
qed

subsection \<open>Gates\<close>

abbreviation greach :: "io \<Rightarrow> gstate \<Rightarrow> gstate \<Rightarrow> bool" where
  "greach io g g' \<equiv> jreach io (gs_j g) (gs_j g')"

lemma greach_event: "greach io g g' \<Longrightarrow> greach io g (gate_event io kv g')"
  by (simp add: gate_event_def jr_event)

lemma greach_materialized: "greach io g g' \<Longrightarrow> greach io g (set_materialized st m g')"
  by (simp add: set_materialized_def)

lemma greach_wait: "greach io g (fst (wait_action io gi st actions att k lst g))"
proof (induction k arbitrary: att lst g)
  case (Suc k)
  define g1 where "g1 = g\<lparr>gs_in := gs_in g + 1\<rparr>"
  define g2 where "g2 = g1\<lparr>gs_j := emit io ''gate_retry''
      [(''step'', JStr (st_id st)), (''attempt'', JInt (int att + 1))] (gs_j g1)\<rparr>"
  have g1: "greach io g g1" by (simp add: g1_def jr_refl)
  have g2: "greach io g g2" by (simp add: g2_def g1_def jr_event jr_refl)
  show ?case
  proof (cases "gi_decision gi (gs_in g)")
    case (Some d)
    with jr_trans [OF Suc.IH [of g2 "att + 1" "Some d"] g2] show ?thesis
      by (cases "find (equalFold (d_action d)) actions") (simp_all add: g2_def g1_def jr_refl)
  qed (simp add: jr_refl)
qed (simp add: jr_refl)

lemma greach_gate: "greach io g (fst (gateRun io gi u go st g))"
proof -
  have auto: "greach io g (fst (auto_accept io st src g))" for src
    by (simp add: auto_accept_def Let_def greach_event greach_materialized jr_refl)
  have structured: "greach io g (fst (runStructured io gi st g))"
  proof -
    define g0 where "g0 = g\<lparr>gs_j := emit io ''gate_wait''
        [(''step'', JStr (st_id st)), (''form'', JArr (form_view gi (gs_ctx g) (st_form st))),
         (''actions'', JArr (map JStr (gateActions (st_actions st))))] (gs_j g)\<rparr>"
    obtain g1 r where w: "wait_action io gi st (gateActions (st_actions st)) 0 5 None g0 = (g1, r)"
      by fastforce
    have "greach io g g0" by (simp add: g0_def jr_event jr_refl)
    from jr_trans [OF greach_wait this] w have "greach io g g1" by (metis fst_conv)
    with w show ?thesis
      by (auto simp: runStructured_def Let_def g0_def [symmetric] greach_event greach_materialized
          split: waited.splits prod.splits)
  qed
  have terminal: "greach io g (fst (runTerminal io gi st g))"
    by (auto simp: runTerminal_def Let_def jr_refl greach_event greach_materialized
        split: prod.splits answer.splits)
  show ?thesis using auto structured terminal by (simp add: gateRun_def split: ui.split)
qed

lemma sreach_gate: "run_gate w p opts st s = (s', r) \<Longrightarrow> sreach w s s'"
proof (cases "gate_ui opts st")
  case (Inr u)
  assume "run_gate w p opts st s = (s', r)"
  with Inr greach_gate [of "w_io w" "\<lparr>gs_ctx = rs_ctx s, gs_j = rs_j s, gs_in = rs_in s\<rparr>" "w_gi w" u
      "gate_opts p opts" st]
  show ?thesis by (auto simp: run_gate_def Let_def split_def split: if_splits)
qed (auto simp: run_gate_def jr_refl)

subsection \<open>Steps and their control flow\<close>

lemma sreach_plugin: "run_plugin w p m st inp s = (s', r) \<Longrightarrow> sreach w s s'"
proof -
  assume r: "run_plugin w p m st inp s = (s', r)"
  define s1 where "s1 = file_ref_warnings w st m inp s"
  have s1: "sreach w s s1" by (auto simp: s1_def file_ref_warnings_def intro!: sreach_intros)
  show ?thesis
  proof (cases "\<not> marshals (JObj inp) \<or> st_timeout st < 0 \<or> st_timeout st > MaxStepTimeout")
    case True
    with r s1 show ?thesis
      unfolding run_plugin_def s1_def [symmetric]
      by (auto simp: Let_def intro!: sreach_ev split: if_splits)
  next
    case False
    obtain s2 res where l: "attempts_loop w m st inp
        (if st_timeout st = 0 then 60 * second else st_timeout st)
        (if EffectiveNetwork p = ''deny'' then ''deny'' else ''allow'') (nat (num_attempts st) - 1) 1 s1 =
        (s2, res)" by fastforce
    have s2: "sreach w s s2" using jr_trans [OF sreach_attempts [OF l] s1] .
    from False r l have "s' = s2 \<or> (\<exists>o' r. accept_output w m st o' s2 = (s', r)) \<or>
        (\<exists>c r. step_error_fate w st c s2 = (s', r))"
      unfolding run_plugin_def s1_def [symmetric]
      by (auto simp: Let_def split: sum.splits if_splits)
    with s2 show ?thesis by (auto intro: jr_trans dest: sreach_accept sreach_fate)
  qed
qed

lemma sreach_runStep: "runStep w p opts st s = (s', r) \<Longrightarrow> sreach w s s'"
  unfolding runStep_def
  by (auto intro: jr_refl dest: sreach_builtin sreach_gate sreach_fate sreach_plugin
      split: if_splits option.splits sum.splits)

lemma sreach_foreach_items:
  "foreach_items w p opts st i its results s = (s', r) \<Longrightarrow> sreach w s s'"
proof (induction its arbitrary: i results s)
  case (Cons it its)
  define s2 where "s2 = (ev w ''foreach_item_start'' (fe_kv st i [(''item'', it)]) s)
      \<lparr>rs_ctx := SetInput (item_key (st_foreachItem st)) it (rs_ctx s)\<rparr>"
  have s2: "sreach w s s2" by (simp add: s2_def sreach_ev jr_refl)
  obtain s3 q where q: "runStep w p opts st s2 = (s3, q)" by fastforce
  have s3: "sreach w s s3" using jr_trans [OF sreach_runStep [OF q] s2] .
  from Cons.prems q consider kv where "s' = ev w ''foreach_item_failed'' kv s3"
    | kv i' rs where "foreach_items w p opts st i' its rs (ev w ''foreach_item_end'' kv s3) = (s', r)"
    unfolding foreach_items.simps Let_def s2_def [symmetric]
    by (auto simp: s2_def [symmetric] split: sum.splits if_splits)
  then show ?case
    by cases (auto intro: sreach_ev s3 jr_trans [OF _ sreach_ev [OF s3]] dest: Cons.IH)
qed (simp add: jr_refl)

lemma sreach_foreach: "runStepForeach w p opts st s = (s', r) \<Longrightarrow> sreach w s s'"
  by (auto simp: runStepForeach_def jr_refl dest: sreach_foreach_items
      split: option.splits json.splits if_splits prod.splits sum.splits)

lemma sreach_loop: "loop_iterations w p opts st k i s = (s', r) \<Longrightarrow> sreach w s s'"
proof (induction k arbitrary: i s)
  case 0
  then show ?case by (auto intro!: sreach_intros)
next
  case (Suc k)
  define s1 where "s1 = s\<lparr>rs_budget := rs_budget s + 1\<rparr>"
  have s1: "sreach w s s1" by (simp add: s1_def jr_refl)
  define s1' where "s1' = ev w ''loop_iteration_start'' (it_kv st i []) s1"
  have s1': "sreach w s s1'" by (simp add: s1'_def sreach_ev s1)
  obtain s2 q where q: "runStep w p opts st s1' = (s2, q)" by fastforce
  have s2: "sreach w s s2" using jr_trans [OF sreach_runStep [OF q] s1'] .
  from Suc.prems q consider k kv where "s' = ev w k kv s1" | k kv where "s' = ev w k kv s2"
    | kv i' where "loop_iterations w p opts st k i' (ev w ''loop_iteration_end'' kv s2) = (s', r)"
    unfolding loop_iterations.simps consumeLoopIteration_def s1_def [symmetric]
    by (auto simp: s1'_def [symmetric] split: sum.splits if_splits option.splits bool.splits)
  then show ?case
    by cases (auto intro: sreach_ev s1 s2 jr_trans [OF _ sreach_ev [OF s2]] dest: Suc.IH)
qed

lemma sreach_flow: "runStepFlow w p opts st s = (s', r) \<Longrightarrow> sreach w s s'"
  by (auto simp: runStepFlow_def runStepLoop_def intro!: sreach_ev jr_refl
      dest: sreach_foreach sreach_loop sreach_runStep split: sum.splits bool.splits if_splits)

subsection \<open>Groups, chains, items\<close>

lemma sreach_branch: "run_branch w p opts st s = (s', b) \<Longrightarrow> sreach w s s'"
proof (cases "cloneCtx (rs_ctx s)")
  case (Some bctx)
  assume r: "run_branch w p opts st s = (s', b)"
  obtain s1 q where q: "runStepFlow w p opts st (s\<lparr>rs_ctx := bctx\<rparr>) = (s1, q)" by fastforce
  with r Some have "s' = s1\<lparr>rs_ctx := rs_ctx s\<rparr>" by (simp add: run_branch_def)
  with sreach_flow [OF q] show ?thesis by simp
qed (simp add: run_branch_def jr_refl)

lemma sreach_branches: "run_branches w p opts steps is s = (s', bs) \<Longrightarrow> sreach w s s'"
proof (induction "is" arbitrary: s s' bs)
  case (Cons i "is")
  obtain s1 b where b: "run_branch w p opts (steps ! i) s = (s1, b)" by fastforce
  obtain s2 bs2 where bs: "run_branches w p opts steps is s1 = (s2, bs2)" by fastforce
  from jr_trans [OF Cons.IH [OF bs] sreach_branch [OF b]] Cons.prems b bs show ?case by simp
qed (simp add: jr_refl)

lemma merge_journal: "rs_j (foldl merge_out s outs) = rs_j s"
proof (induction outs arbitrary: s)
  case (Cons b outs)
  have "rs_j (merge_out s b) = rs_j s" by (simp add: merge_out_def split: option.split)
  then show ?case by (simp add: Cons.IH)
qed simp

lemma sreach_group: "runParallelGroup w p opts seg s = (s', r) \<Longrightarrow> sreach w s s'"
proof -
  assume r: "runParallelGroup w p opts seg s = (s', r)"
  define s1 where "s1 = tick (ev w ''parallel_start'' [(''group'', JStr (sg_group seg)),
                   (''steps'', JArr (map (\<lambda>st. JStr (st_id st)) (sg_steps seg)))] s)"
  obtain s2 bs where bs: "run_branches w p opts (sg_steps seg)
      (branch_order w s1 (length (sg_steps seg))) s1 = (s2, bs)" by fastforce
  have "sreach w s s1" by (simp add: s1_def sreach_ev jr_refl)
  from jr_trans [OF sreach_branches [OF bs] this] have s2: "sreach w s s2" .
  then have "sreach w s (foldl merge_out s2 outs)" for outs by (simp add: merge_journal)
  with r s2 bs show ?thesis
    by (auto simp: runParallelGroup_def Let_def s1_def [symmetric] jr_refl sreach_ev sreach_snapshot
        split: if_splits option.splits)
qed

lemma sreach_segments: "run_segments w p opts stop segs actions s = (s', r) \<Longrightarrow> sreach w s s'"
proof (induction segs arbitrary: actions s)
  case (Cons seg segs)
  have t: "sreach w s (tick s)" by (simp add: jr_refl)
  note IH = jr_trans [OF Cons.IH]
  show ?case
  proof (cases "cancelled w (tick s)")
    case True
    with Cons.prems t show ?thesis by (simp add: Let_def)
  next
    case nc: False
    show ?thesis
    proof (cases "sg_parallel seg")
      case True
      obtain s1 q where q: "runParallelGroup w p opts seg (tick s) = (s1, q)" by fastforce
      from jr_trans [OF sreach_group [OF q] t] have s1: "sreach w s s1" .
      with Cons.prems nc True q show ?thesis
        by (cases q) (auto simp: Let_def split: if_splits intro: IH [OF _ s1] IH [OF _ t])
    next
      case False
      obtain s1 q where q: "runStepFlow w p opts (hd (sg_steps seg)) (tick s) = (s1, q)" by fastforce
      from jr_trans [OF sreach_flow [OF q] t] have s1: "sreach w s s1" .
      with Cons.prems nc False q show ?thesis
        by (cases q) (auto simp: Let_def split: if_splits intro: IH [OF _ s1] IH [OF _ t])
    qed
  qed
qed (simp add: jr_refl)

lemma sreach_chain: "runParallelSegments w p opts sts stop s = (s', r) \<Longrightarrow> sreach w s s'"
  unfolding runParallelSegments_def by (rule sreach_segments)

lemma sreach_collect: "collect_actions w idx acts agg count s = (s', r) \<Longrightarrow> sreach w s s'"
  by (induction w idx acts agg count s rule: collect_actions.induct)
    (auto intro!: sreach_intros sreach_fail split: if_splits option.splits)

lemma sreach_put: "sreach w s s' \<Longrightarrow> sreach w s (put_aggregates agg loop s')"
  by (simp add: put_aggregates_def)

lemma sreach_end_item: "sreach w s s' \<Longrightarrow> sreach w s (end_item w p loop idx status agg s')"
  by (simp add: end_item_def sreach_intros sreach_put)

lemma sreach_items: "run_items w p opts pre loop idx its a s = (s', a', e) \<Longrightarrow> sreach w s s'"
proof (induction its arbitrary: idx a s)
  case (Cons it its)
  define s1 where "s1 = tick s"
  define s2 where "s2 = ev w ''item_start'' (idx_kv idx [(''item'', it)])
                   (s1\<lparr>rs_ctx := prepare_item p pre loop it (rs_ctx s1)\<rparr>)"
  have s1: "sreach w s s1" by (simp add: s1_def jr_refl)
  have s2: "sreach w s s2" by (simp add: s2_def s1 sreach_ev)
  obtain s3 q where q: "runParallelSegments w p opts loop True s2 = (s3, q)" by fastforce
  have s3: "sreach w s s3" using jr_trans [OF sreach_chain [OF q] s2] .
  show ?case
  proof (cases "cancelled w s1")
    case True
    with Cons.prems have "s' = failEvent w RCancelled (idx_kv idx []) s1"
      by (simp add: Let_def s1_def [symmetric])
    then show ?thesis by (simp add: sreach_fail s1)
  next
    case nc: False
    show ?thesis
    proof (cases q)
      case (Inl x)
      with Cons.prems nc q have "s' = failEvent w x [] s3"
        by (simp add: Let_def s1_def [symmetric] s2_def [symmetric])
      then show ?thesis by (simp add: sreach_fail s3)
    next
      case (Inr acts)
      obtain s4 r4 where c: "collect_actions w idx (zip acts loop) (is_agg a) (is_count a) s3 = (s4, r4)"
        by fastforce
      have s4: "sreach w s s4" using jr_trans [OF sreach_collect [OF c] s3] .
      show ?thesis
      proof (cases r4)
        case (Inl x)
        with Cons.prems nc q Inr c have "s' = s4"
          by (simp add: Let_def s1_def [symmetric] s2_def [symmetric])
        with s4 show ?thesis by simp
      next
        case r4: (Inr z)
        obtain st ag n where z: "z = (st, ag, n)" by (cases z)
        with Cons.prems nc q Inr c r4
        have "run_items w p opts pre loop (idx + 1) its \<lparr>is_agg = ag, is_count = n,
            is_stats = count_item st (is_stats a)\<rparr> (end_item w p loop idx st ag s4) = (s', a', e)"
          by (simp add: Let_def s1_def [symmetric] s2_def [symmetric])
        from jr_trans [OF Cons.IH [OF this] sreach_end_item [OF s4]] show ?thesis .
      qed
    qed
  qed
qed (simp add: jr_refl)

end
