(* ===== verification/Gate_Policy.thy ===== *)
theory Gate_Policy
  imports When_Cond
begin

text \<open>
  The static rule that a dangerous step must stand behind an effective human gate
  (internal/pipeline/gate_policy.go). The texts of the verdict are constructors; the engine is
  the function \<open>LoadManifest\<close>, \<open>None\<close> being an error.
\<close>

section \<open>Declared capabilities\<close>

record capabilities =
  c_network :: bool
  c_diskWrite :: bool
  c_secrets :: bool
  c_unknown :: bool

definition no_caps :: capabilities where
  "no_caps = \<lparr>c_network = False, c_diskWrite = False, c_secrets = False, c_unknown = False\<rparr>"

definition unknown_caps :: capabilities where
  "unknown_caps = no_caps\<lparr>c_unknown := True\<rparr>"

definition Dangerous :: "capabilities \<Rightarrow> bool" where
  "Dangerous c \<longleftrightarrow> c_network c \<or> c_diskWrite c \<or> c_secrets c \<or> c_unknown c"

datatype right = RNetwork | RDiskWrite | RSecrets | RUnknown

definition Why :: "capabilities \<Rightarrow> right list" where
  "Why c =
     (if c_network c then [RNetwork] else []) @ (if c_diskWrite c then [RDiskWrite] else []) @
     (if c_secrets c then [RSecrets] else []) @ (if c_unknown c then [RUnknown] else [])"

definition FilesystemWrites :: "string \<Rightarrow> bool" where
  "FilesystemWrites fs \<longleftrightarrow> fs = ''workspace'' \<or> fs = ''write'' \<or> fs = ''readwrite''"

definition ManifestCapabilities :: "manifest option \<Rightarrow> capabilities" where
  "ManifestCapabilities mo =
     (case mo of
        None \<Rightarrow> unknown_caps
      | Some m \<Rightarrow> \<lparr>c_network = length (m_network m) > 0,
                  c_diskWrite = FilesystemWrites (m_filesystem m),
                  c_secrets = length (m_secrets m) > 0, c_unknown = False\<rparr>)"

definition StepCapabilities :: "step option \<Rightarrow> manifest option \<Rightarrow> capabilities" where
  "StepCapabilities sto mo =
     (case (sto, mo) of
        (Some st, Some m) \<Rightarrow>
          if IsBuiltin (st_plugin st) then no_caps else ManifestCapabilities (Some m)
      | _ \<Rightarrow> unknown_caps)"

type_synonym engine = "string \<Rightarrow> manifest option"

definition stepCapsOrUnknown :: "step \<Rightarrow> engine option \<Rightarrow> capabilities" where
  "stepCapsOrUnknown st eng =
     (if IsBuiltin (st_plugin st) then no_caps
      else case eng of
        None \<Rightarrow> unknown_caps
      | Some load \<Rightarrow>
          (case load (st_plugin st) of
             None \<Rightarrow> unknown_caps
           | Some m \<Rightarrow> StepCapabilities (Some st) (Some m)))"

section \<open>Effective gates\<close>

definition whenSet :: "whenCond \<Rightarrow> bool" where
  "whenSet w \<longleftrightarrow> w_path w \<noteq> [] \<or> w_op w \<noteq> [] \<or> w_value w \<noteq> JNull"

datatype reason = GateMissing | GateHasWhen | GateSkipsErrors | GateRejectContinues | GateTooLate

definition GateIneffectiveReason ::
  "pipeline option \<Rightarrow> step option \<Rightarrow> step option \<Rightarrow> reason option" where
  "GateIneffectiveReason pf g guarded =
     (case g of
        None \<Rightarrow> Some GateMissing
      | Some gate \<Rightarrow>
          if whenSet (st_when gate) then Some GateHasWhen
          else if st_onError gate = ''skip'' then Some GateSkipsErrors
          else if st_onReject gate = ''continue'' then Some GateRejectContinues
          else (case (pf, guarded) of
                  (Some p, Some s) \<Rightarrow>
                    if p_foreach p \<noteq> [] \<and> st_afterForeach gate \<and> \<not> st_afterForeach s
                    then Some GateTooLate else None
                | _ \<Rightarrow> None))"

record gateRequirement =
  gr_required :: bool
  gr_step :: string
  gr_plugin :: string
  gr_why :: "right list"
  gr_gateID :: string
  gr_gateAfter :: bool
  gr_ineffective :: "reason option"

definition no_requirement :: gateRequirement where
  "no_requirement = \<lparr>gr_required = False, gr_step = [], gr_plugin = [], gr_why = [],
     gr_gateID = [], gr_gateAfter = False, gr_ineffective = None\<rparr>"

text \<open>
  The scan of the prior steps: \<open>Inl\<close> when an effective gate is found, otherwise the first
  ineffective one with its reason.
\<close>

fun scan_gates ::
  "pipeline \<Rightarrow> step \<Rightarrow> step list \<Rightarrow> (step \<times> reason) option \<Rightarrow> unit + (step \<times> reason) option" where
  "scan_gates p st [] bad = Inr bad"
| "scan_gates p st (g # gs) bad =
     (if \<not> IsHumanGate (st_plugin g) then scan_gates p st gs bad
      else case GateIneffectiveReason (Some p) (Some g) (Some st) of
        None \<Rightarrow> Inl ()
      | Some why \<Rightarrow> scan_gates p st gs (if bad = None then Some (g, why) else bad))"

text \<open>The verdict for the unprotected step \<open>st\<close>; \<open>later\<close> are the steps below it.\<close>

definition requirement ::
  "step \<Rightarrow> capabilities \<Rightarrow> (step \<times> reason) option \<Rightarrow> step list \<Rightarrow> gateRequirement" where
  "requirement st caps bad later =
     (let req = no_requirement\<lparr>gr_required := True, gr_step := st_id st,
                  gr_plugin := st_plugin st, gr_why := Why caps\<rparr> in
      case bad of
        Some (g, why) \<Rightarrow> req\<lparr>gr_gateID := st_id g, gr_ineffective := Some why\<rparr>
      | None \<Rightarrow>
          (case find (\<lambda>s. IsHumanGate (st_plugin s)) later of
             None \<Rightarrow> req
           | Some s \<Rightarrow> req\<lparr>gr_gateID := st_id s, gr_gateAfter := True\<rparr>))"

fun eval_steps ::
  "pipeline \<Rightarrow> engine option \<Rightarrow> step list \<Rightarrow> step list \<Rightarrow> gateRequirement" where
  "eval_steps p eng prior [] = no_requirement"
| "eval_steps p eng prior (st # rest) =
     (if IsHumanGate (st_plugin st) then eval_steps p eng (prior @ [st]) rest
      else
        let caps = stepCapsOrUnknown st eng in
        if \<not> Dangerous caps then eval_steps p eng (prior @ [st]) rest
        else case scan_gates p st prior None of
               Inl _ \<Rightarrow> eval_steps p eng (prior @ [st]) rest
             | Inr bad \<Rightarrow> requirement st caps bad rest)"

definition EvaluateGateApproval :: "pipelineFile option \<Rightarrow> engine option \<Rightarrow> gateRequirement" where
  "EvaluateGateApproval pfo eng =
     (case pfo of
        None \<Rightarrow> no_requirement
      | Some pf \<Rightarrow> eval_steps (pf_pipeline pf) eng [] (p_steps (pf_pipeline pf)))"

section \<open>Lemmas\<close>

definition effective_gate :: "pipeline \<Rightarrow> step \<Rightarrow> step \<Rightarrow> bool" where
  "effective_gate p g st \<longleftrightarrow> IsHumanGate (st_plugin g) \<and> \<not> whenSet (st_when g) \<and>
     st_onError g \<noteq> ''skip'' \<and> st_onReject g \<noteq> ''continue'' \<and>
     \<not> (p_foreach p \<noteq> [] \<and> st_afterForeach g \<and> \<not> st_afterForeach st)"

definition dangerous_step :: "engine option \<Rightarrow> step \<Rightarrow> bool" where
  "dangerous_step eng st \<longleftrightarrow>
     \<not> IsHumanGate (st_plugin st) \<and> Dangerous (stepCapsOrUnknown st eng)"

lemma whenSet_IsSet: "\<not> whenSet w \<Longrightarrow> \<not> IsSet w"
  by (auto simp: whenSet_def IsSet_def)

lemma Why_empty_iff: "Why c = [] \<longleftrightarrow> \<not> Dangerous c"
  by (simp add: Why_def Dangerous_def)

lemma builtin_not_dangerous: "IsBuiltin (st_plugin st) \<Longrightarrow> \<not> dangerous_step eng st"
  by (simp add: dangerous_step_def stepCapsOrUnknown_def no_caps_def Dangerous_def)

lemma effective_gate_reason:
  "effective_gate p g st \<longleftrightarrow> IsHumanGate (st_plugin g) \<and>
     GateIneffectiveReason (Some p) (Some g) (Some st) = None"
  by (simp add: effective_gate_def GateIneffectiveReason_def)

lemma scan_gates_Inl_iff:
  "scan_gates p st gs bad = Inl u \<longleftrightarrow> (\<exists>g \<in> set gs. effective_gate p g st)"
  by (induction gs arbitrary: bad) (auto simp: effective_gate_reason split: option.splits)

lemma requirement_required [simp]: "gr_required (requirement st caps bad later)"
  by (auto simp: requirement_def Let_def split: option.splits)

lemma eval_steps_ok_iff:
  "\<not> gr_required (eval_steps p eng prior steps) \<longleftrightarrow>
     (\<forall>i < length steps. dangerous_step eng (steps ! i) \<longrightarrow>
        (\<exists>g \<in> set (prior @ take i steps). effective_gate p g (steps ! i)))"
proof (induction steps arbitrary: prior)
  case Nil
  then show ?case by (simp add: no_requirement_def)
next
  case (Cons st rest)
  have head: "\<not> gr_required (eval_steps p eng prior (st # rest)) \<longleftrightarrow>
      (dangerous_step eng st \<longrightarrow> (\<exists>g \<in> set prior. effective_gate p g st)) \<and>
      \<not> gr_required (eval_steps p eng (prior @ [st]) rest)"
  proof (cases "scan_gates p st prior None")
    case (Inl u)
    with scan_gates_Inl_iff [of p st prior None u] show ?thesis
      by (auto simp: dangerous_step_def Let_def)
  next
    case (Inr bad)
    with scan_gates_Inl_iff [of p st prior None "()"] show ?thesis
      by (auto simp: dangerous_step_def Let_def)
  qed
  show ?case
    unfolding head Cons.IH by (simp add: All_less_Suc2 )
qed

lemma requirement_step:
  "gr_required (eval_steps p eng prior steps) \<Longrightarrow>
     \<exists>i < length steps. dangerous_step eng (steps ! i) \<and>
       gr_step (eval_steps p eng prior steps) = st_id (steps ! i) \<and>
       gr_why (eval_steps p eng prior steps) = Why (stepCapsOrUnknown (steps ! i) eng) \<and>
       (\<forall>g \<in> set (prior @ take i steps). \<not> effective_gate p g (steps ! i))"
proof (induction steps arbitrary: prior)
  case Nil
  then show ?case by (simp add: no_requirement_def)
next
  case (Cons st rest)
  show ?case
  proof (cases "dangerous_step eng st \<and> (\<forall>g \<in> set prior. \<not> effective_gate p g st)")
    case True
    then obtain bad where "scan_gates p st prior None = Inr bad"
      using scan_gates_Inl_iff [of p st prior None] by (cases "scan_gates p st prior None") auto
    with True show ?thesis
      by (intro exI [of _ 0])
        (auto simp: dangerous_step_def Let_def requirement_def no_requirement_def split: option.splits)
  next
    case False
    then have "eval_steps p eng prior (st # rest) = eval_steps p eng (prior @ [st]) rest"
      using scan_gates_Inl_iff [of p st prior None]
      by (cases "scan_gates p st prior None") (auto simp: dangerous_step_def Let_def)
    with Cons.IH [of "prior @ [st]"] Cons.prems obtain i where "i < length rest"
      "dangerous_step eng (rest ! i)"
      "gr_step (eval_steps p eng prior (st # rest)) = st_id (rest ! i)"
      "gr_why (eval_steps p eng prior (st # rest)) = Why (stepCapsOrUnknown (rest ! i) eng)"
      "\<forall>g \<in> set ((prior @ [st]) @ take i rest). \<not> effective_gate p g (rest ! i)"
      by auto
    then show ?thesis by (intro exI [of _ "Suc i"]) auto
  qed
qed

section \<open>Properties\<close>

text \<open>
  C10. A pipeline passes the rule exactly when every step with declared or unknown rights has,
  somewhere above it, a human gate without a condition, whose error or rejection stops the
  run and which is not postponed behind the items.
\<close>

theorem gate_approval_iff:
  "\<not> gr_required (EvaluateGateApproval (Some pf) eng) \<longleftrightarrow>
     (\<forall>i < length (p_steps (pf_pipeline pf)).
        dangerous_step eng (p_steps (pf_pipeline pf) ! i) \<longrightarrow>
        (\<exists>j < i. effective_gate (pf_pipeline pf) (p_steps (pf_pipeline pf) ! j)
                   (p_steps (pf_pipeline pf) ! i)))"
proof -
  have "(\<exists>g \<in> set (take i xs). P g) \<longleftrightarrow> (\<exists>j < i. P (xs ! j))" if "i < length xs"
    for i P and xs :: "step list"
    using that nth_image [of i xs, symmetric] by auto
  then show ?thesis
    by (simp add: EvaluateGateApproval_def eval_steps_ok_iff)
qed

definition demo_gate :: step where
  "demo_gate = zero_step\<lparr>st_id := ''g'', st_plugin := ''core/human_gate''\<rparr>"

definition demo_net :: step where
  "demo_net = zero_step\<lparr>st_id := ''n'', st_plugin := ''plugins/net''\<rparr>"

lemma gate_approval_iff_witness:
  "\<not> gr_required (EvaluateGateApproval
     (Some \<lparr>pf_formatVersion = [], pf_pipeline = zero_pipeline\<lparr>p_steps := [demo_gate, demo_net]\<rparr>\<rparr>)
     (Some (\<lambda>_. None)))"
  unfolding gate_approval_iff
  by (simp add: demo_gate_def demo_net_def zero_pipeline_def All_less_Suc2 effective_gate_def) code_simp

end
