(* ===== verification/Run_Correct.thy ===== *)
theory Run_Correct
  imports Run_Journal Gate_Policy
begin

text \<open>
  The correctness of a whole run: the checks before it, the frame of the context, the journal
  and the snapshot a successful run leaves, what a resumed run may skip, and the statistics.
\<close>

section \<open>Lemmas: the journal of a run\<close>

lemma sreach_finish: "finish_run w prior kv s = (s', e) \<Longrightarrow> sreach w s s'"
  by (auto simp: finish_run_def Let_def intro!: sreach_intros split: option.splits)

lemma sreach_pre: "run_pre w p opts resumed pre s = (s', e) \<Longrightarrow> sreach w s s'"
  by (auto simp: run_pre_def jr_refl intro!: sreach_fail sreach_snapshot dest: sreach_chain
      split: if_splits prod.splits sum.splits)

lemma sreach_post: "run_post w p opts loop post a s = (s', stats, e) \<Longrightarrow> sreach w s s'"
proof -
  assume r: "run_post w p opts loop post a s = (s', stats, e)"
  define s1 where "s1 = ev w ''post_phase_start'' [(''steps'', JInt (int (length post)))]
             (put_aggregates (is_agg a) loop s)"
  obtain s2 q where q: "runParallelSegments w p opts post True s1 = (s2, q)" by fastforce
  have "sreach w s s1" by (simp add: s1_def sreach_ev sreach_put jr_refl)
  from jr_trans [OF sreach_chain [OF q] this] have "sreach w s s2" .
  with r q show ?thesis
    by (cases q) (auto simp: run_post_def s1_def [symmetric] jr_refl
        intro!: sreach_fail sreach_ev sreach_snapshot split: if_splits)
qed

text \<open>The parts of a run that ends without an error.\<close>

lemma run_phases_ok:
  assumes "run_phases w p opts resumed stats s = (s', stats', None)"
  obtains pre loop post s1 items s2 a s3 where
    "phases p = Inr (pre, loop, post)" "run_pre w p opts resumed pre s = (s1, None)"
    "foreach_list p (rs_ctx s1) = Inr items"
    "run_items w p opts pre loop 0 items \<lparr>is_agg = [], is_count = 0, is_stats = stats\<rparr> s1 = (s2, a, None)"
    "run_post w p opts loop post a s2 = (s3, stats', None)"
    "finish_run w (ru_losses stats') (stats_kv stats') s3 = (s', None)"
  using assms unfolding run_phases_def
  by (auto split: sum.splits prod.splits option.splits)

text \<open>Any run, whatever its end: the parts that were executed.\<close>

lemma sreach_phases: "run_phases w p opts resumed stats s = (s', stats', e) \<Longrightarrow> sreach w s s'"
proof -
  assume r: "run_phases w p opts resumed stats s = (s', stats', e)"
  show ?thesis
  proof (cases "phases p")
    case (Inl x)
    with r show ?thesis by (simp add: run_phases_def jr_refl)
  next
    case (Inr ph)
    obtain pre loop post where ph: "ph = (pre, loop, post)" by (cases ph)
    obtain s1 e1 where s1: "run_pre w p opts resumed pre s = (s1, e1)" by fastforce
    note j1 = sreach_pre [OF s1]
    show ?thesis
    proof (cases "e1 = None \<and> (\<exists>items. foreach_list p (rs_ctx s1) = Inr items)")
      case False
      with r Inr ph s1 have "s' = s1" by (auto simp: run_phases_def split: option.splits sum.splits)
      with j1 show ?thesis by simp
    next
      case True
      then obtain items where it: "foreach_list p (rs_ctx s1) = Inr items" "e1 = None" by blast
      obtain s2 a e2 where s2: "run_items w p opts pre loop 0 items
          \<lparr>is_agg = [], is_count = 0, is_stats = stats\<rparr> s1 = (s2, a, e2)" by (metis prod_cases3)
      have j2: "sreach w s s2" using jr_trans [OF sreach_items [OF s2] j1] .
      obtain s3 st3 e3 where s3: "run_post w p opts loop post a s2 = (s3, st3, e3)" by (metis prod_cases3)
      have j3: "sreach w s s3" using jr_trans [OF sreach_post [OF s3] j2] .
      obtain s4 e4 where s4: "finish_run w (ru_losses st3) (stats_kv st3) s3 = (s4, e4)" by fastforce
      have j4: "sreach w s s4" using jr_trans [OF sreach_finish [OF s4] j3] .
      have "s' = s2 \<or> s' = s3 \<or> s' = s4"
        using r Inr ph s1 it s2 s3 s4
        by (cases e2; cases e3) (auto simp: run_phases_def)
      with j2 j3 j4 show ?thesis by auto
    qed
  qed
qed

section \<open>Lemmas: the end of a run\<close>

lemma finish_ok:
  assumes "finish_run w prior kv s = (s', None)" and "j_open (rs_j s)" and "torn_counted (rs_j s)"
  shows "SnapshotLosses (rs_j s) = 0 \<and> prior = 0 \<and> WriteErrors (rs_j s') = 0 \<and>
    SnapshotLosses (rs_j s') = 0 \<and> rs_ctx s' = rs_ctx s \<and> j_context (rs_j s') = j_context (rs_j s) \<and>
    j_lines (rs_j s') = j_lines (rs_j s) @ [Line (event_obj (w_io w) (rs_j s) ''run_end'' kv)] \<and>
    \<not> j_torn (rs_j s')"
proof -
  let ?j = "rs_j s" and ?j' = "emit (w_io w) ''run_end'' kv (rs_j s)"
  from assms(1) have l: "SnapshotLosses ?j + prior = 0" and s': "s' = s\<lparr>rs_j := ?j'\<rparr>"
    and e: "WriteErrors ?j' = 0"
    by (auto simp: finish_run_def Let_def ev_def snapshotLossError_def journalWriteError_def
        split: option.splits if_splits)
  have w: "j_writeErrs ?j = 0"
    using emit_writeErrs [of ?j "w_io w" "''run_end''" kv] e by (simp add: WriteErrors_def)
  then have nt: "\<not> j_torn ?j" using assms(3) by (simp add: torn_counted_def)
  have "j_lines ?j' = j_lines ?j @ [Line (event_obj (w_io w) ?j ''run_end'' kv)] \<and> \<not> j_torn ?j'"
    using e w nt assms(2)
    by (auto simp: emit_def Event_def lose_event_def Let_def WriteErrors_def split: if_splits wout.splits)
  with l e s' show ?thesis by (simp add: SnapshotLosses_def)
qed

text \<open>The snapshot at the end of an item, and at the end of the post phase.\<close>

definition on_disk :: "rstate \<Rightarrow> bool" where
  "on_disk s \<longleftrightarrow> (SnapshotLosses (rs_j s) = 0 \<longrightarrow> j_context (rs_j s) = Some (rs_ctx s))"

lemma on_disk_snapshot: "on_disk (snapshot w s)"
  using snap_context [of "w_io w" "rs_ctx s" "rs_j s"] snap_losses_mono [of "rs_j s" "w_io w" "rs_ctx s"]
  by (simp add: on_disk_def snapshot_def)

lemma on_disk_ev: "on_disk s \<Longrightarrow> on_disk (ev w k kv s)"
  by (simp add: on_disk_def ev_def SnapshotLosses_def)

lemma on_disk_end_item: "on_disk (end_item w p loop idx status agg s)"
  by (simp add: end_item_def on_disk_ev on_disk_snapshot)

text \<open>The steps of \<open>run_items\<close> for one item that ends without an error.\<close>

lemma run_items_step:
  assumes "run_items w p opts pre loop idx (it # its) a s = (s', a', None)"
  obtains s3 acts s4 st ag n where
    "runParallelSegments w p opts loop True (ev w ''item_start'' (idx_kv idx [(''item'', it)])
       ((tick s)\<lparr>rs_ctx := prepare_item p pre loop it (rs_ctx s)\<rparr>)) = (s3, Inr acts)"
    "collect_actions w idx (zip acts loop) (is_agg a) (is_count a) s3 = (s4, Inr (st, ag, n))"
    "run_items w p opts pre loop (idx + 1) its \<lparr>is_agg = ag, is_count = n,
       is_stats = count_item st (is_stats a)\<rparr> (end_item w p loop idx st ag s4) = (s', a', None)"
  using assms
  by (auto simp: Let_def split: if_splits prod.splits sum.splits)

lemma run_items_on_disk:
  "run_items w p opts pre loop idx its a s = (s', a', None) \<Longrightarrow> its \<noteq> [] \<or> on_disk s \<Longrightarrow> on_disk s'"
proof (induction its arbitrary: idx a s)
  case (Cons it its)
  from run_items_step [OF Cons.prems(1)] obtain s4 st ag n where
    "run_items w p opts pre loop (idx + 1) its \<lparr>is_agg = ag, is_count = n,
       is_stats = count_item st (is_stats a)\<rparr> (end_item w p loop idx st ag s4) = (s', a', None)" by metis
  from Cons.IH [OF this] on_disk_end_item show ?case by blast
qed simp

lemma run_items_count:
  "run_items w p opts pre loop idx its a s = (s', a', None) \<Longrightarrow>
     ru_ok (is_stats a') + ru_aborted (is_stats a') =
       ru_ok (is_stats a) + ru_aborted (is_stats a) + length its \<and>
     ru_losses (is_stats a') = ru_losses (is_stats a)"
proof (induction its arbitrary: idx a s)
  case (Cons it its)
  from run_items_step [OF Cons.prems(1)] obtain s4 st ag n where
    r: "run_items w p opts pre loop (idx + 1) its \<lparr>is_agg = ag, is_count = n,
       is_stats = count_item st (is_stats a)\<rparr> (end_item w p loop idx st ag s4) = (s', a', None)" by metis
  from Cons.IH [OF r] show ?case by (simp add: count_item_def split: if_splits)
qed simp

lemma run_post_ok:
  assumes "run_post w p opts loop post a s = (s', stats, None)"
  shows "post = [] \<and> s' = s \<and> stats = is_stats a \<or>
    post \<noteq> [] \<and> on_disk s' \<and> ru_losses stats = ru_losses (is_stats a) \<and> ru_ok stats = ru_ok (is_stats a) \<and>
    ru_aborted (is_stats a) \<le> ru_aborted stats \<and> ru_aborted stats \<le> ru_aborted (is_stats a) + 1"
  using assms
  by (auto simp: run_post_def on_disk_ev on_disk_snapshot split: if_splits prod.splits sum.splits)

section \<open>Lemmas: the context of a run\<close>

text \<open>The input variables a run may set: the item of the foreach and those of its steps.\<close>

definition item_vars :: "pipeline \<Rightarrow> string set" where
  "item_vars p =
     (if p_foreach p = [] then {} else {item_key (p_foreachItem p)}) \<union>
     (\<lambda>st. item_key (st_foreachItem st)) ` {st \<in> set (p_steps p). st_foreach st \<noteq> []}"

definition run_frame :: "pipeline \<Rightarrow> obj \<Rightarrow> obj \<Rightarrow> bool" where
  "run_frame p d d' \<longleftrightarrow> ctx_wf d' \<and>
     (\<forall>k. k \<notin> item_vars p \<longrightarrow> map_of (Input d') k = map_of (Input d) k)"

lemma run_frame_refl: "ctx_wf d \<Longrightarrow> run_frame p d d"
  by (simp add: run_frame_def)

lemma run_frame_trans: "run_frame p d d' \<Longrightarrow> run_frame p d' d'' \<Longrightarrow> run_frame p d d''"
  by (simp add: run_frame_def)

lemma chain_run_frame:
  "chain_frame sts d d' \<Longrightarrow> set sts \<subseteq> set (p_steps p) \<Longrightarrow> run_frame p d d'"
proof -
  assume f: "chain_frame sts d d'" and sub: "set sts \<subseteq> set (p_steps p)"
  have "(\<lambda>st. item_key (st_foreachItem st)) ` {st \<in> set sts. st_foreach st \<noteq> []} \<subseteq> item_vars p"
    using sub by (auto simp: item_vars_def)
  with f show "run_frame p d d'" unfolding chain_frame_def run_frame_def by blast
qed

lemma Input_ResetSteps: "Input (ResetSteps d) = Input d"
  by (auto simp: Input_def ResetSteps_def namespace_def split: option.splits json.splits)

lemma prepare_run_frame: "ctx_wf d \<Longrightarrow> run_frame p d (prepare_item p pre loop it d)"
  by (auto simp: prepare_item_def run_frame_def item_vars_def Input_ResetSteps Input_on_steps
      ctx_wf_SetInput ctx_wf_ResetSteps ctx_wf_on_steps)

lemma aggregates_run_frame: "ctx_wf d \<Longrightarrow> run_frame p d (writeAggregates agg loop d)"
  by (simp add: writeAggregates_def run_frame_def ctx_wf_on_steps Input_on_steps)

lemma fail_ctx [simp]: "rs_ctx (failEvent w e kv s) = rs_ctx s" "rs_budget (failEvent w e kv s) = rs_budget s"
  by (simp_all add: failEvent_def)

lemma collect_ctx:
  "collect_actions w idx acts agg count s = (s', r) \<Longrightarrow> rs_ctx s' = rs_ctx s \<and> rs_budget s' = rs_budget s"
  by (induction w idx acts agg count s rule: collect_actions.induct)
    (auto split: if_splits option.splits)

text \<open>Everything in one relation: the frame of the context, and the budget on success.\<close>

definition run_keeps :: "pipeline \<Rightarrow> ropts \<Rightarrow> rstate \<Rightarrow> rstate \<Rightarrow> bool \<Rightarrow> bool" where
  "run_keeps p opts s s' ok \<longleftrightarrow> run_frame p (rs_ctx s) (rs_ctx s') \<and>
     (ok \<and> rs_budget s \<le> effectiveLimit opts \<longrightarrow> rs_budget s' \<le> effectiveLimit opts)"

lemma run_keeps_refl: "ctx_wf (rs_ctx s) \<Longrightarrow> run_keeps p opts s s ok"
  by (simp add: run_keeps_def run_frame_refl)

lemma run_keeps_trans: "run_keeps p opts s s' True \<Longrightarrow> run_keeps p opts s' s'' ok \<Longrightarrow> run_keeps p opts s s'' ok"
  by (auto simp: run_keeps_def intro: run_frame_trans)

lemma run_keeps_weaken: "run_keeps p opts s s' True \<Longrightarrow> run_keeps p opts s s' ok"
  by (simp add: run_keeps_def)

lemma run_keeps_wf: "run_keeps p opts s s' ok \<Longrightarrow> ctx_wf (rs_ctx s')"
  by (simp add: run_keeps_def run_frame_def)

lemma run_keeps_put: "run_keeps p opts s s' ok \<Longrightarrow> run_keeps p opts s (put_aggregates agg loop s') ok"
  by (auto simp: run_keeps_def put_aggregates_def run_frame_def writeAggregates_def ctx_wf_on_steps
      Input_on_steps)

lemma run_keeps_frozen:
  "run_keeps p opts s s' ok \<Longrightarrow> run_keeps p opts s (ev w k kv s') ok"
  "run_keeps p opts s s' ok \<Longrightarrow> run_keeps p opts s (snapshot w s') ok"
  "run_keeps p opts s s' ok \<Longrightarrow> run_keeps p opts s (failEvent w e kv s') ok"
  "run_keeps p opts s s' ok \<Longrightarrow> run_keeps p opts s (tick s') ok"
  by (simp_all add: run_keeps_def)

lemma run_keeps_chain:
  assumes "run_keeps p opts s s1 True" and "runParallelSegments w p opts sts stop s1 = (s', r)"
    and "set sts \<subseteq> set (p_steps p)"
  shows "run_keeps p opts s s' (\<exists>a. r = Inr a)"
proof -
  note f = run_chain_frame [OF run_keeps_wf [OF assms(1)] assms(2)]
  have "run_keeps p opts s1 s' (\<exists>a. r = Inr a)"
    using chain_run_frame [OF f(1) assms(3)] f(2) by (auto simp: run_keeps_def)
  from run_keeps_trans [OF assms(1) this] show ?thesis .
qed

lemma run_keeps_end_item: "run_keeps p opts s s' ok \<Longrightarrow> run_keeps p opts s (end_item w p loop i st ag s') ok"
  by (simp add: end_item_def run_keeps_frozen run_keeps_put)

lemma run_items_keeps:
  "run_keeps p opts s0 s True \<Longrightarrow> run_items w p opts pre loop idx its a s = (s', a', e) \<Longrightarrow>
     set loop \<subseteq> set (p_steps p) \<Longrightarrow> run_keeps p opts s0 s' (e = None)"
proof (induction its arbitrary: idx a s)
  case (Cons it its)
  define s1 where "s1 = tick s"
  define s2 where "s2 = ev w ''item_start'' (idx_kv idx [(''item'', it)])
                   (s1\<lparr>rs_ctx := prepare_item p pre loop it (rs_ctx s1)\<rparr>)"
  have s1: "run_keeps p opts s0 s1 True" using Cons.prems(1) by (simp add: s1_def run_keeps_frozen)
  have s2: "run_keeps p opts s0 s2 True"
    using s1 prepare_run_frame [OF run_keeps_wf [OF s1], of p pre loop it]
    by (auto simp: s2_def run_keeps_def intro: run_frame_trans)
  obtain s3 q where q: "runParallelSegments w p opts loop True s2 = (s3, q)" by fastforce
  note s3 = run_keeps_chain [OF s2 q Cons.prems(3)]
  show ?case
  proof (cases "cancelled w s1")
    case True
    with Cons.prems have "s' = failEvent w RCancelled (idx_kv idx []) s1"
      by (simp add: Let_def s1_def [symmetric])
    then show ?thesis by (simp add: run_keeps_frozen run_keeps_weaken [OF s1])
  next
    case nc: False
    show ?thesis
    proof (cases q)
      case (Inl x)
      with Cons.prems nc q have "s' = failEvent w x [] s3" "e \<noteq> None"
        by (simp_all add: Let_def s1_def [symmetric] s2_def [symmetric]) auto
      then have "(e = None) = (\<exists>a. q = Inr a)" using Inl by simp
      with s3 \<open>s' = _\<close> show ?thesis by (simp add: run_keeps_frozen)
    next
      case (Inr acts)
      obtain s4 r4 where c: "collect_actions w idx (zip acts loop) (is_agg a) (is_count a) s3 = (s4, r4)"
        by fastforce
      have s4: "run_keeps p opts s0 s4 True"
        using s3 Inr collect_ctx [OF c] by (simp add: run_keeps_def)
      show ?thesis
      proof (cases r4)
        case (Inl x)
        with Cons.prems nc q Inr c have "s' = s4"
          by (simp add: Let_def s1_def [symmetric] s2_def [symmetric])
        with run_keeps_weaken [OF s4] show ?thesis by simp
      next
        case r4: (Inr z)
        obtain st ag n where z: "z = (st, ag, n)" by (cases z)
        with Cons.prems nc q Inr c r4
        have "run_items w p opts pre loop (idx + 1) its \<lparr>is_agg = ag, is_count = n,
            is_stats = count_item st (is_stats a)\<rparr> (end_item w p loop idx st ag s4) = (s', a', e)"
          by (simp add: Let_def s1_def [symmetric] s2_def [symmetric])
        from Cons.IH [OF run_keeps_end_item [OF s4] this Cons.prems(3)] show ?thesis .
      qed
    qed
  qed
next
  case Nil
  then show ?case by (simp add: run_keeps_weaken)
qed

lemma phases_subset:
  assumes "phases p = Inr (pre, loop, post)"
  shows "set pre \<subseteq> set (p_steps p) \<and> set loop \<subseteq> set (p_steps p) \<and> set post \<subseteq> set (p_steps p)"
  using assms by (auto simp: phases_def Let_def split: if_splits option.splits dest: in_set_takeD in_set_dropD)

lemma run_pre_keeps:
  assumes "run_pre w p opts resumed pre s = (s', e)" and "ctx_wf (rs_ctx s)"
    and "set pre \<subseteq> set (p_steps p)"
  shows "run_keeps p opts s s' (e = None)"
proof -
  note r = run_keeps_refl [OF assms(2)]
  obtain s1 q where q: "runParallelSegments w p opts pre True s = (s1, q)" by fastforce
  note k = run_keeps_chain [OF r q assms(3)]
  show ?thesis
  proof (cases "\<not> hasPrefix (p_foreach p) ''steps.'' \<or> resumed")
    case True
    with assms(1) have "s' = s" by (auto simp: run_pre_def)
    with r show ?thesis by simp
  next
    case False
    have kF: "run_keeps p opts s s1 False" using k by (simp add: run_keeps_def)
    show ?thesis
    proof (cases q)
      case (Inl x)
      with False assms(1) q have "s' = failEvent w x [] s1" "e = Some x" by (auto simp: run_pre_def)
      with kF show ?thesis by (simp add: run_keeps_frozen)
    next
      case (Inr acts)
      with False assms(1) q have "s' = s1 \<and> e = Some RPlain \<or> s' = snapshot w s1"
        by (auto simp: run_pre_def split: if_splits)
      with k kF Inr show ?thesis by (auto simp: run_keeps_frozen run_keeps_weaken)
    qed
  qed
qed

lemma run_post_keeps:
  assumes "run_post w p opts loop post a s = (s', stats, e)" and "run_keeps p opts s0 s True"
    and "set post \<subseteq> set (p_steps p)"
  shows "run_keeps p opts s0 s' (e = None)"
proof (cases "post = []")
  case True
  with assms(1) have "s' = s" by (simp add: run_post_def)
  with assms(2) show ?thesis by (simp add: run_keeps_weaken)
next
  case False
  define s1 where "s1 = ev w ''post_phase_start'' [(''steps'', JInt (int (length post)))]
             (put_aggregates (is_agg a) loop s)"
  have s1: "run_keeps p opts s0 s1 True" by (simp add: s1_def run_keeps_frozen run_keeps_put assms(2))
  obtain s2 q where q: "runParallelSegments w p opts post True s1 = (s2, q)" by fastforce
  note k = run_keeps_chain [OF s1 q assms(3)]
  show ?thesis
  proof (cases q)
    case (Inl x)
    with False assms(1) q have "s' = failEvent w x [] s2" "e = Some x"
      by (auto simp: run_post_def s1_def [symmetric])
    moreover have "run_keeps p opts s0 s2 False" using k by (simp add: run_keeps_def)
    ultimately show ?thesis by (simp add: run_keeps_frozen)
  next
    case (Inr acts)
    with False assms(1) q have "s' = ev w ''post_phase_end'' [] (snapshot w s2)"
      by (auto simp: run_post_def s1_def [symmetric])
    with k Inr show ?thesis by (simp add: run_keeps_frozen run_keeps_weaken)
  qed
qed

lemma finish_ctx: "finish_run w prior kv s = (s', e) \<Longrightarrow> rs_ctx s' = rs_ctx s \<and> rs_budget s' = rs_budget s"
  by (auto simp: finish_run_def Let_def split: option.splits)

lemma run_phases_keeps:
  assumes r: "run_phases w p opts resumed stats s = (s', stats', e)" and wf: "ctx_wf (rs_ctx s)"
  shows "run_keeps p opts s s' (e = None)"
proof (cases "phases p")
  case (Inl x)
  with r run_keeps_refl [OF wf] show ?thesis by (auto simp: run_phases_def)
next
  case (Inr ph)
  obtain pre loop post where ph: "ph = (pre, loop, post)" by (cases ph)
  note sub = phases_subset [OF Inr [unfolded ph]]
  obtain s1 e1 where s1: "run_pre w p opts resumed pre s = (s1, e1)" by fastforce
  have k1: "run_keeps p opts s s1 (e1 = None)" using run_pre_keeps [OF s1 wf] sub by simp
  show ?thesis
  proof (cases "e1 = None \<and> (\<exists>items. foreach_list p (rs_ctx s1) = Inr items)")
    case False
    with r Inr ph s1 have "s' = s1" "e \<noteq> None"
      by (auto simp: run_phases_def split: option.splits sum.splits)
    with k1 show ?thesis by (auto simp: run_keeps_def)
  next
    case True
    then obtain items where it: "foreach_list p (rs_ctx s1) = Inr items" "e1 = None" by blast
    obtain s2 a e2 where s2: "run_items w p opts pre loop 0 items
        \<lparr>is_agg = [], is_count = 0, is_stats = stats\<rparr> s1 = (s2, a, e2)" by (metis prod_cases3)
    have k2: "run_keeps p opts s s2 (e2 = None)"
      using run_items_keeps [OF _ s2] k1 it(2) sub by simp
    obtain s3 st3 e3 where s3: "run_post w p opts loop post a s2 = (s3, st3, e3)" by (metis prod_cases3)
    have k3: "run_keeps p opts s s3 (e3 = None)" if "e2 = None"
      using run_post_keeps [OF s3 _ conjunct2 [OF conjunct2 [OF sub]]] k2 that by simp
    obtain s4 e4 where s4: "finish_run w (ru_losses st3) (stats_kv st3) s3 = (s4, e4)" by fastforce
    have "s' = s2 \<and> e2 \<noteq> None \<and> e = e2 \<or> e2 = None \<and> s' = s3 \<and> e3 \<noteq> None \<and> e = e3 \<or>
        e2 = None \<and> e3 = None \<and> s' = s4 \<and> e = e4"
      using r Inr ph s1 it s2 s3 s4 by (cases e2; cases e3) (auto simp: run_phases_def)
    with k2 k3 finish_ctx [OF s4] show ?thesis by (auto simp: run_keeps_def)
  qed
qed

section \<open>Lemmas: the start\<close>

text \<open>What the network policy asks of a step.\<close>

definition network_fits :: "world \<Rightarrow> pipeline \<Rightarrow> step \<Rightarrow> bool" where
  "network_fits w p st \<longleftrightarrow> IsBuiltin (st_plugin st) \<or>
     (if p_network p = ''allow'' then
        IsBuiltinNamespace (st_plugin st) \<or>
        (case w_load w (st_plugin st) of None \<Rightarrow> True
         | Some m \<Rightarrow> m_network m = [] \<or> NetworkRequestsAnyHost m)
      else
        \<not> IsBuiltinNamespace (st_plugin st) \<and>
        (case w_load w (st_plugin st) of None \<Rightarrow> True | Some m \<Rightarrow> m_network m = []))"

lemma check_deny_iff:
  "p_network p \<noteq> ''allow'' \<Longrightarrow> check_deny w sts = None \<longleftrightarrow> list_all (network_fits w p) sts"
  by (induction w sts rule: check_deny.induct) (auto simp: network_fits_def split: option.splits)

lemma check_allow_iff:
  "p_network p = ''allow'' \<Longrightarrow> check_allow w sts = None \<longleftrightarrow> list_all (network_fits w p) sts"
  by (induction w sts rule: check_allow.induct)
    (auto simp: network_fits_def NetworkHasStructuredDeclarations_def split: option.splits)

lemma runWithStore_Some:
  assumes "runWithStore w env p opts src = (Some s, stats, e)"
  obtains hash s0 opts' st0 s1 where "preflight w env p = None" "re_identity env = Some hash"
    "src = Fresh True \<and> s0 = start_fresh w p hash \<and> opts' = opts \<and> st0 = zero_stats \<or>
     (\<exists>lines torn disk. src = Resume lines torn disk \<and>
        start_resume w p opts hash lines torn disk = Inr (s0, opts', st0))"
    "run_phases w p opts' (src \<noteq> Fresh True) st0 s0 = (s1, stats, e)"
    "s = s1\<lparr>rs_j := Close (rs_j s1)\<rparr>"
  using assms unfolding runWithStore_def close_run_def
  by (auto split: option.splits runSource.splits if_splits sum.splits prod.splits)

lemma start_resume_Inr:
  assumes "start_resume w p opts hash lines torn disk = Inr (s, opts', stats)"
  obtains data ctx es where "disk = Some data" "Normalize (obj_rt data) = Inr ctx"
    "Events (OpenJournalAppend lines torn disk) = Some es" "journalPipelineIdentity es = Some hash"
    "s = ev w ''run_resumed'' [(''from_item'', JInt (int (resumeCursor es))), (''pipeline_hash'', JStr hash)]
       (init_state (OpenJournalAppend lines torn disk) ctx)"
    "opts' = (if length (skip_steps p es ctx) > 0 then opts\<lparr>ro_skip := skip_steps p es ctx\<rparr> else opts)"
    "stats = \<lparr>ru_ok = resumeCursor es, ru_aborted = 0, ru_losses = priorSnapshotLosses es\<rparr>"
  using assms unfolding start_resume_def
  by (auto simp: Let_def simp del: length_greater_0_conv split: option.splits sum.splits if_splits)

text \<open>The journal a run starts with.\<close>

definition fresh_journal :: "journal \<Rightarrow> bool" where
  "fresh_journal j \<longleftrightarrow> j_open j \<and> torn_counted j"

lemma fresh_journal_ev: "fresh_journal (rs_j s) \<Longrightarrow> fresh_journal (rs_j (ev w k kv s))"
  by (simp add: fresh_journal_def ev_def torn_event)

lemma start_journal:
  "fresh_journal (rs_j (start_fresh w p hash))"
  "start_resume w p opts hash lines torn disk = Inr (s, opts', stats) \<Longrightarrow> fresh_journal (rs_j s)"
proof -
  show "fresh_journal (rs_j (start_fresh w p hash))" unfolding start_fresh_def
    by (rule fresh_journal_ev) (simp add: fresh_journal_def init_state_def NewJournal_def torn_counted_def)
next
  assume "start_resume w p opts hash lines torn disk = Inr (s, opts', stats)"
  then show "fresh_journal (rs_j s)"
  proof (rule start_resume_Inr)
    fix ctx es assume e: "Events (OpenJournalAppend lines torn disk) = Some es" and
      s: "s = ev w ''run_resumed'' [(''from_item'', JInt (int (resumeCursor es))),
        (''pipeline_hash'', JStr hash)] (init_state (OpenJournalAppend lines torn disk) ctx)"
    from e have "\<not> torn" by (auto simp: Events_def OpenJournalAppend_def)
    then show "fresh_journal (rs_j s)" unfolding s
      by (intro fresh_journal_ev)
        (simp add: fresh_journal_def init_state_def OpenJournalAppend_def NewJournal_def torn_counted_def)
  qed
qed

section \<open>Properties\<close>

text \<open>
  The checks before a run are complete and precede every effect: a run opens a journal
  exactly when its network policy is a known one, every declared secret is set, every step fits
  the policy (under deny, which is also the default, no loadable plugin declares network and no
  reserved name is unknown; under allow, a plugin that lists hosts also asks for any host), the
  identity of the pipeline can be computed, and the store can open the run.
\<close>

lemma run_starts_iff:
  "fst (runWithStore w env p opts src) \<noteq> None \<longleftrightarrow>
     (p_network p = [] \<or> p_network p = ''allow'' \<or> p_network p = ''deny'') \<and>
     list_all (\<lambda>k. re_getenv env k \<noteq> []) (p_secrets p) \<and>
     list_all (network_fits w p) (p_steps p) \<and>
     (\<exists>hash. re_identity env = Some hash \<and>
        (src = Fresh True \<or> (\<exists>lines torn disk r. src = Resume lines torn disk \<and>
           start_resume w p opts hash lines torn disk = Inr r)))"
proof -
  have "preflight w env p = None \<longleftrightarrow>
     (p_network p = [] \<or> p_network p = ''allow'' \<or> p_network p = ''deny'') \<and>
     list_all (\<lambda>k. re_getenv env k \<noteq> []) (p_secrets p) \<and> list_all (network_fits w p) (p_steps p)"
    by (cases "p_network p = ''allow''")
      (auto simp: preflight_def missingSecrets_def EffectiveNetwork_def check_deny_iff check_allow_iff
        list_all_iff filter_empty_conv)
  then show ?thesis
    by (cases "re_identity env"; cases src)
      (auto simp: runWithStore_def close_run_def split: option.splits sum.splits prod.splits)
qed




text \<open>
  Resuming a foreach over the input repeats every item: the item cursor read from the
  journal only reaches an event, and a resumed run that succeeds counts the items the earlier
  run finished once more, on top of those it reads from the journal.
\<close>

lemma resume_repeats_items:
  assumes "runWithStore w env p opts (Resume lines torn disk) = (Some s, stats, None)"
    and "Events (OpenJournalAppend lines torn disk) = Some es" and "disk = Some data"
    and "Normalize (obj_rt data) = Inr ctx" and "hasPrefix (p_foreach p) ''input.''"
    and "Get (p_foreach p) ctx = Some (JArr items)"
  shows "resumeCursor es + length items \<le> ru_ok stats + ru_aborted stats"
proof -
  from assms(1) obtain hash s0 opts' st0 s1 where
    st: "start_resume w p opts hash lines torn disk = Inr (s0, opts', st0)" and
    r: "run_phases w p opts' True st0 s0 = (s1, stats, None)"
    by (auto elim!: runWithStore_Some)
  have s0: "rs_ctx s0 = ctx" "ru_ok st0 = resumeCursor es"
    by (rule start_resume_Inr [OF st], use assms in \<open>simp add: init_state_def\<close>)+
  from run_phases_ok [OF r] obtain pre loop post u1 its u2 a u3 where
    parts: "run_pre w p opts' True pre s0 = (u1, None)" "foreach_list p (rs_ctx u1) = Inr its"
    "run_items w p opts' pre loop 0 its \<lparr>is_agg = [], is_count = 0, is_stats = st0\<rparr> u1 = (u2, a, None)"
    "run_post w p opts' loop post a u2 = (u3, stats, None)" by metis
  have "u1 = s0" using parts(1) by (simp add: run_pre_def)
  moreover have "p_foreach p \<noteq> []" using assms(5) by (auto simp: hasPrefix_def)
  ultimately have "its = items"
    using parts(2) assms(6) s0 by (auto simp: foreach_list_def foreach_array_def split: if_splits)
  with run_items_count [OF parts(3)] run_post_ok [OF parts(4)] s0(2) show ?thesis by auto
qed

section \<open>Concrete runs\<close>

definition demo_env :: runEnv where
  "demo_env = \<lparr>re_getenv = (\<lambda>_. ''x''), re_identity = Some ''h''\<rparr>"

definition demo_pipe :: pipeline where
  "demo_pipe = zero_pipeline\<lparr>p_name := ''demo'', p_input := [(''xs'', JArr [JStr ''a''])],
     p_foreach := ''input.xs'', p_steps := [demo_pstep]\<rparr>"

definition demo_disk :: obj where "demo_disk = NewCtx (p_input demo_pipe)"

definition demo_lines :: "jline list" where
  "demo_lines = [Line [(''type'', JStr ''run_start''), (''pipeline_hash'', JStr ''h'')],
     Line [(''type'', JStr ''item_end''), (''item_index'', JFloat (Fin 0)), (''status'', JStr ''ok'')],
     Line [(''type'', JStr ''step_end''), (''step'', JStr ''s''), (''status'', JStr ''ok'')]]"

abbreviation demo_fresh :: "rstate option \<times> runStats \<times> run_err option" where
  "demo_fresh \<equiv> runWithStore demo_world demo_env demo_pipe demo_ropts (Fresh True)"

abbreviation demo_resumed :: "rstate option \<times> runStats \<times> run_err option" where
  "demo_resumed \<equiv> runWithStore demo_world demo_env demo_pipe demo_ropts (Resume demo_lines False (Some demo_disk))"

lemma demo_fresh_run:
  "fst demo_fresh \<noteq> None" "snd (snd demo_fresh) = None"
  "map_option (\<lambda>s. foreach_list demo_pipe (rs_ctx s)) (fst demo_fresh) = Some (Inr [JStr ''a''])"
  by code_simp+

lemma demo_resumed_run: "fst demo_resumed \<noteq> None" "snd (snd demo_resumed) = None"
  "ru_ok (fst (snd demo_resumed)) = 2"
  by code_simp+

lemma demo_fresh_eq:
  "demo_fresh = (Some (the (fst demo_fresh)), fst (snd demo_fresh), None)"
  by (simp add: prod_eq_iff demo_fresh_run option.collapse)

lemma demo_resumed_eq:
  "demo_resumed = (Some (the (fst demo_resumed)), fst (snd demo_resumed), None)"
  by (simp add: prod_eq_iff demo_resumed_run option.collapse)



definition demo_linear :: pipeline where "demo_linear = demo_pipe\<lparr>p_foreach := []\<rparr>"

abbreviation demo_restart :: "run_err + (rstate \<times> ropts \<times> runStats)" where
  "demo_restart \<equiv> start_resume demo_world demo_linear demo_ropts ''h'' demo_lines False
     (Some (SetStep ''s'' [] demo_disk))"

lemma demo_restart_run: "map_sum (\<lambda>_. ()) (\<lambda>(s, o', st). ro_skip o') demo_restart = Inr [''s'']"
  by code_simp


lemma demo_resume_facts:
  "Normalize (obj_rt demo_disk) = Inr demo_disk" "hasPrefix (p_foreach demo_pipe) ''input.''"
  "Get (p_foreach demo_pipe) demo_disk = Some (JArr [JStr ''a''])"
  "Events (OpenJournalAppend demo_lines False (Some demo_disk)) = Some (map obj_rt
     [[(''type'', JStr ''run_start''), (''pipeline_hash'', JStr ''h'')],
      [(''type'', JStr ''item_end''), (''item_index'', JFloat (Fin 0)), (''status'', JStr ''ok'')],
      [(''type'', JStr ''step_end''), (''step'', JStr ''s''), (''status'', JStr ''ok'')]])"
  by code_simp+

section \<open>A rejected gate\<close>

text \<open>
  A linear pipeline of a gate and a plugin that needs a secret, which is marked
  \<open>after_foreach\<close>; the person at the terminal answers \<open>r\<close>.
\<close>

definition gated_pipe :: pipeline where
  "gated_pipe = zero_pipeline\<lparr>p_steps :=
     [zero_step\<lparr>st_id := ''g'', st_plugin := HumanGatePluginRef\<rparr>,
      demo_pstep\<lparr>st_id := ''send'', st_afterForeach := True\<rparr>]\<rparr>"

definition reject_world :: world where
  "reject_world = demo_world\<lparr>w_gi := demo_gi\<lparr>gi_line := (\<lambda>_. Some ''r'')\<rparr>\<rparr>"

abbreviation rejected_run :: "rstate option \<times> runStats \<times> run_err option" where
  "rejected_run \<equiv> runWithStore reject_world demo_env gated_pipe demo_ropts (Fresh True)"


end
