(* ===== verification/Cron.thy ===== *)
theory Cron
  imports Pipeline_Model
begin

text \<open>
  Cron expressions (internal/cron/cron.go) and the next run of a schedule (\<open>NextRunFor\<close> of
  daemon.go). An instant is an \<open>int\<close> of nanoseconds; how an instant reads on the wall clock of a
  time zone is a parameter, because it comes from the zone database of the host.
\<close>

record civil =
  c_minute :: int
  c_hour :: int
  c_day :: int
  c_month :: int
  c_weekday :: int

type_synonym location = "int \<Rightarrow> civil"

section \<open>strconv.Atoi and strings.Fields\<close>

definition is_digit :: "char \<Rightarrow> bool" where
  "is_digit c \<longleftrightarrow> 48 \<le> (of_char c :: nat) \<and> (of_char c :: nat) \<le> 57"

text \<open>The value and whether there was no error; out of range the value is the nearest bound.\<close>

definition clamp64 :: "int \<Rightarrow> int \<times> bool" where
  "clamp64 n =
     (if n > 2 ^ 63 - 1 then (2 ^ 63 - 1, False) else if n < - (2 ^ 63) then (- (2 ^ 63), False)
      else (n, True))"

definition digits_int :: "string \<Rightarrow> bool \<Rightarrow> int \<times> bool" where
  "digits_int ds neg =
     (if ds = [] \<or> \<not> list_all is_digit ds then (0, False)
      else clamp64 (if neg then - int (digits_val ds) else int (digits_val ds)))"

definition Atoi :: "string \<Rightarrow> int \<times> bool" where
  "Atoi s =
     (case s of
        [] \<Rightarrow> (0, False)
      | c # r \<Rightarrow>
          if c = CHR ''-'' then digits_int r True
          else if c = CHR ''+'' then digits_int r False
          else digits_int s False)"

fun fields_acc :: "string \<Rightarrow> string \<Rightarrow> string list" where
  "fields_acc cur [] = (if cur = [] then [] else [cur])"
| "fields_acc cur (x # xs) =
     (case find (\<lambda>p. hasPrefix (x # xs) p) spaces of
        None \<Rightarrow> fields_acc (cur @ [x]) xs
      | Some p \<Rightarrow> (if cur = [] then [] else [cur]) @ fields_acc [] (drop (length p - 1) xs))"

definition Fields :: "string \<Rightarrow> string list" where
  "Fields s = fields_acc [] s"

section \<open>Fields of an expression\<close>

text \<open>The last five cases of \<open>fieldMatches\<close>, for an expression without comma.\<close>

definition splitN2 :: "char \<Rightarrow> string \<Rightarrow> string \<times> string" where
  "splitN2 c s = (takeWhile (\<lambda>x. x \<noteq> c) s, drop 1 (dropWhile (\<lambda>x. x \<noteq> c) s))"

definition single_matches :: "int \<Rightarrow> string \<Rightarrow> bool" where
  "single_matches v expr =
     (if expr = ''*'' then True
      else if hasPrefix expr ''*/'' then
        (let (n, ok) = Atoi (trimPrefix expr ''*/'') in if \<not> ok \<or> n = 0 then False else n dvd v)
      else if CHR ''-'' \<in> set expr then
        (let (a, b) = splitN2 (CHR ''-'') expr in fst (Atoi a) \<le> v \<and> v \<le> fst (Atoi b))
      else if CHR ''/'' \<in> set expr then False
      else (let (n, ok) = Atoi expr in if \<not> ok then False else v = n))"

text \<open>The recursion is one level deep: the parts between commas have no comma.\<close>

definition fieldMatches :: "int \<Rightarrow> string \<Rightarrow> bool" where
  "fieldMatches v expr =
     (if expr = ''*'' then True
      else if CHR '','' \<in> set expr then list_ex (single_matches v) (split_on (CHR '','') expr)
      else single_matches v expr)"

definition matches :: "civil \<Rightarrow> string list \<Rightarrow> bool" where
  "matches c parts \<longleftrightarrow>
     fieldMatches (c_minute c) (parts ! 0) \<and> fieldMatches (c_hour c) (parts ! 1) \<and>
     fieldMatches (c_day c) (parts ! 2) \<and> fieldMatches (c_month c) (parts ! 3) \<and>
     fieldMatches (c_weekday c) (parts ! 4)"

section \<open>The next match\<close>

definition cron_char :: "char \<Rightarrow> bool" where
  "cron_char ch \<longleftrightarrow> is_digit ch \<or> ch \<in> {CHR ''*'', CHR ''/'', CHR ''-'', CHR '',''}"

definition cron_parts :: "string \<Rightarrow> string list option" where
  "cron_parts cron =
     (let parts = Fields cron in
      if length parts \<noteq> 5 then None
      else if \<not> list_all (list_all cron_char) parts then None
      else Some parts)"

fun search_minute :: "location \<Rightarrow> string list \<Rightarrow> nat \<Rightarrow> int \<Rightarrow> int option" where
  "search_minute loc parts 0 t = None"
| "search_minute loc parts (Suc k) t =
     (if matches (loc t) parts then Some t else search_minute loc parts k (t + minute))"

definition next_minute :: "int \<Rightarrow> int" where
  "next_minute from = (from - from mod minute) + minute"

definition maxSearch :: int where "maxSearch = 525600"

definition Next :: "location \<Rightarrow> string \<Rightarrow> int \<Rightarrow> int option" where
  "Next loc cron from =
     (case cron_parts cron of
        None \<Rightarrow> None
      | Some parts \<Rightarrow> search_minute loc parts (nat maxSearch) (next_minute from))"

definition IsValid :: "location \<Rightarrow> string \<Rightarrow> int \<Rightarrow> bool" where
  "IsValid loc cron now = (Next loc cron now \<noteq> None)"

text \<open>\<open>LoadLocation\<close> is \<open>None\<close> for an unknown zone; then the local zone stays.\<close>

definition NextRunFor ::
  "(string \<Rightarrow> location option) \<Rightarrow> location \<Rightarrow> schedule option \<Rightarrow> int \<Rightarrow> int option" where
  "NextRunFor loadLocation localZone sched now =
     (case sched of
        None \<Rightarrow> None
      | Some sc \<Rightarrow>
          if sc_cron sc = [] then None
          else
            let loc = (if sc_timezone sc \<noteq> [] \<and> sc_timezone sc \<noteq> ''Local'' \<and> sc_timezone sc \<noteq> ''local''
                       then (case loadLocation (sc_timezone sc) of Some l \<Rightarrow> l | None \<Rightarrow> localZone)
                       else localZone)
            in Next loc (sc_cron sc) now)"

definition ValidateTimezone :: "(string \<Rightarrow> location option) \<Rightarrow> string \<Rightarrow> bool" where
  "ValidateTimezone loadLocation tz \<longleftrightarrow>
     tz = [] \<or> tz = ''Local'' \<or> tz = ''UTC'' \<or> tz = ''local'' \<or> CHR ''/'' \<in> set tz \<or>
     loadLocation tz \<noteq> None"

section \<open>Lemmas: the search\<close>

lemma minute_pos: "0 < minute" by (simp add: minute_def second_def)

lemma next_minute_spec:
  "from < next_minute from \<and> minute dvd next_minute from \<and> next_minute from \<le> from + minute"
  using minute_pos pos_mod_sign [OF minute_pos, of "from"] pos_mod_bound [OF minute_pos, of "from"]
  by (simp add: next_minute_def dvd_minus_mod)

lemma search_Some:
  "search_minute loc parts k t = Some u \<longleftrightarrow>
     (\<exists>i < k. u = t + int i * minute \<and> matches (loc u) parts \<and>
        (\<forall>j < i. \<not> matches (loc (t + int j * minute)) parts))"
proof (induction k arbitrary: t)
  case 0
  then show ?case by simp
next
  case (Suc k)
  have shift: "t + minute + int j * minute = t + int (Suc j) * minute" for j
    by (simp add: algebra_simps)
  show ?case
    by (simp add: Suc.IH shift Ex_less_Suc2 All_less_Suc2 del: of_nat_Suc) auto
qed

lemma search_None:
  "search_minute loc parts k t = None \<longleftrightarrow> (\<forall>i < k. \<not> matches (loc (t + int i * minute)) parts)"
proof (induction k arbitrary: t)
  case (Suc k)
  have shift: "t + minute + int j * minute = t + int (Suc j) * minute" for j
    by (simp add: algebra_simps)
  show ?case by (simp add: Suc.IH shift All_less_Suc2 del: of_nat_Suc)
qed simp

text \<open>The full minutes after an instant.\<close>

lemma minutes_after:
  assumes "minute dvd u" and "from < u"
  obtains i where "u = next_minute from + int i * minute"
proof -
  from next_minute_spec [of "from"] have d: "minute dvd next_minute from" "next_minute from \<le> from + minute"
    by auto
  from assms(1) d(1) obtain a b where ab: "u = minute * a" "next_minute from = minute * b"
    by (auto simp: dvd_def)
  have "next_minute from - minute < u" using d(2) assms(2) by simp
  then have "minute * (b - 1) < minute * a" by (simp add: ab algebra_simps)
  then have "b \<le> a" using minute_pos by (simp add: mult_less_cancel_left)
  then have "u = next_minute from + int (nat (a - b)) * minute" by (simp add: ab algebra_simps)
  with that show thesis .
qed

lemma Next_after: "Next loc cron t0 = Some u \<Longrightarrow> t0 < u"
proof -
  assume "Next loc cron t0 = Some u"
  then obtain i where "u = next_minute t0 + int i * minute"
    by (auto simp: Next_def search_Some split: option.splits)
  moreover have "0 \<le> int i * minute" using minute_pos by simp
  ultimately show ?thesis using next_minute_spec [of t0] by linarith
qed

lemma NextRunFor_after: "NextRunFor loadLocation localZone sched t0 = Some u \<Longrightarrow> t0 < u"
  by (auto simp: NextRunFor_def Let_def split: option.splits if_splits intro: Next_after)

section \<open>Lemmas: expressions\<close>

text \<open>An abstract syntax of the supported fields, and how it is written.\<close>

datatype cfield = CStar | CEvery nat | CRange nat nat | CVal nat

fun show_field :: "cfield \<Rightarrow> string" where
  "show_field CStar = ''*''"
| "show_field (CEvery n) = ''*/'' @ nat_digits n"
| "show_field (CRange a b) = nat_digits a @ CHR ''-'' # nat_digits b"
| "show_field (CVal n) = nat_digits n"

fun field_den :: "cfield \<Rightarrow> int \<Rightarrow> bool" where
  "field_den CStar v = True"
| "field_den (CEvery n) v = (int n dvd v)"
| "field_den (CRange a b) v = (int a \<le> v \<and> v \<le> int b)"
| "field_den (CVal n) v = (v = int n)"

fun field_ok :: "cfield \<Rightarrow> bool" where
  "field_ok CStar = True"
| "field_ok (CEvery n) = (0 < n \<and> int n < 2 ^ 63)"
| "field_ok (CRange a b) = (int a < 2 ^ 63 \<and> int b < 2 ^ 63)"
| "field_ok (CVal n) = (int n < 2 ^ 63)"

lemma nat_digits_nonempty: "nat_digits n \<noteq> []"
  by (subst nat_digits.simps) simp

lemma nat_digits_is_digit: "list_all is_digit (nat_digits n)"
  using nat_digits_range [of _ n] by (auto simp: list_all_iff is_digit_def)

lemma nat_digits_no: "\<not> is_digit c \<Longrightarrow> c \<notin> set (nat_digits n)"
  using nat_digits_is_digit [of n] by (auto simp: list_all_iff)

lemma not_digits: "\<not> is_digit (CHR ''-'')" "\<not> is_digit (CHR '','')" "\<not> is_digit (CHR ''/'')"
  "\<not> is_digit (CHR ''*'')" "\<not> is_digit (CHR ''+'')"
  by (simp_all add: is_digit_def)

lemma Atoi_nat_digits: "int n < 2 ^ 63 \<Longrightarrow> Atoi (nat_digits n) = (int n, True)"
proof -
  assume n: "int n < 2 ^ 63"
  obtain c r where c: "nat_digits n = c # r" using nat_digits_nonempty by (cases "nat_digits n") auto
  have "c \<noteq> CHR ''-''" "c \<noteq> CHR ''+''"
    using nat_digits_no [of "CHR ''-''" n] nat_digits_no [of "CHR ''+''" n] not_digits c by auto
  then have "Atoi (nat_digits n) = digits_int (nat_digits n) False" by (simp add: Atoi_def c)
  also have "\<dots> = clamp64 (int n)"
    using nat_digits_nonempty nat_digits_is_digit by (simp add: digits_int_def)
  finally show ?thesis using n by (simp add: clamp64_def)
qed

lemma takeWhile_sep: "c \<notin> set a \<Longrightarrow> splitN2 c (a @ c # b) = (a, b)"
  by (induction a) (auto simp: splitN2_def)

lemma show_field_no_comma: "CHR '','' \<notin> set (show_field f)"
  by (cases f) (auto simp: nat_digits_no not_digits)

lemma digits_not_star: "nat_digits n \<noteq> CHR ''*'' # r"
  using nat_digits_no [of "CHR ''*''" n] not_digits by auto

lemma single_matches_show: "field_ok f \<Longrightarrow> single_matches v (show_field f) = field_den f v"
proof (cases f)
  case CStar
  then show ?thesis by (simp add: single_matches_def)
next
  case (CEvery n)
  assume "field_ok f"
  with CEvery show ?thesis
    using nat_digits_nonempty [of n]
    by (simp add: single_matches_def hasPrefix_def trimPrefix_def Atoi_nat_digits)
next
  case (CRange a b)
  assume ok: "field_ok f"
  have np: "\<not> hasPrefix (nat_digits a @ CHR ''-'' # nat_digits b) ''*/''"
    using digits_not_star [of a] nat_digits_nonempty [of a]
    by (cases "nat_digits a") (auto simp: hasPrefix_def)
  have ns: "nat_digits a @ CHR ''-'' # nat_digits b \<noteq> ''*''"
    using nat_digits_nonempty [of a] by (cases "nat_digits a") auto
  have "CHR ''-'' \<notin> set (nat_digits a)" by (simp add: nat_digits_no not_digits)
  from takeWhile_sep [OF this, of "nat_digits b"] ok CRange np ns show ?thesis
    by (simp add: single_matches_def Atoi_nat_digits)
next
  case (CVal n)
  assume "field_ok f"
  moreover have "\<not> hasPrefix (nat_digits n) ''*/''"
    using digits_not_star [of n] by (auto simp: hasPrefix_iff)
  ultimately show ?thesis
    using CVal digits_not_star [of n "[]"]
    by (simp add: single_matches_def Atoi_nat_digits nat_digits_no not_digits)
qed

lemma join_no_star: "join sep (map show_field fs) = ''*'' \<Longrightarrow> \<exists>f r. fs = f # r"
  by (cases fs) auto

lemma fieldMatches_single: "field_ok f \<Longrightarrow> fieldMatches v (show_field f) = field_den f v"
proof (cases "show_field f = ''*''")
  case True
  then have "single_matches v (show_field f)" by (simp add: single_matches_def)
  with True show "field_ok f \<Longrightarrow> ?thesis" by (simp add: fieldMatches_def flip: single_matches_show)
qed (simp add: fieldMatches_def single_matches_show show_field_no_comma)

section \<open>Properties\<close>


text \<open>
  The text matching of a cron field agrees with its meaning: for a comma list of the
  supported forms, star, every n, a range and a number, written in decimal, \<open>fieldMatches\<close>
  accepts a value exactly when one of the forms denotes it.
\<close>

lemma fieldMatches_denotes:
  assumes "fs \<noteq> []" and "list_all field_ok fs"
  shows "fieldMatches v (join '','' (map show_field fs)) = list_ex (\<lambda>f. field_den f v) fs"
proof -
  have parts: "split_on (CHR '','') (join '','' (map show_field fs)) = map show_field fs"
    using assms(1) show_field_no_comma by (intro split_on_join) auto
  have ex: "list_ex (single_matches v) (map show_field fs) = list_ex (\<lambda>f. field_den f v) fs"
    using assms(2) by (auto simp: list_ex_iff list_all_iff single_matches_show)
  show ?thesis
  proof (cases "CHR '','' \<in> set (join '','' (map show_field fs))")
    case True
    then show ?thesis by (auto simp: fieldMatches_def parts ex)
  next
    case False
    from split_on_no_sep [OF this] parts obtain f where f: "fs = [f]" by (cases fs rule: list.exhaust) auto
    with assms(2) show ?thesis by (simp add: fieldMatches_single)
  qed
qed

definition demo_loc :: location where
  "demo_loc t = \<lparr>c_minute = (t div minute) mod 60, c_hour = 0, c_day = 1, c_month = 1, c_weekday = 0\<rparr>"

lemma demo_parts: "cron_parts ''*/2 * * * *'' = Some [''*/2'', ''*'', ''*'', ''*'', ''*'']"
  by code_simp


end
