(* ===== verification/Slot_Queue.thy ===== *)
theory Slot_Queue
  imports Pipeline_Model "HOL-Library.Char_ord" "HOL-Library.List_Lexorder"
begin

text \<open>
  The durable queue of slots of the scheduler (internal/cron/queue.go): the state in memory, the
  file it is saved to, and what a write may do. A write that fails poisons the queue; a restart
  opens the file again. Times are nanoseconds, given by the caller of an operation.
\<close>

record task =
  qt_id :: string
  qt_key :: string
  qt_job :: string
  qt_status :: string
  qt_created :: int
  qt_updated :: int
  qt_notice :: bool

type_synonym tasks = "(string \<times> task) list"
type_synonym claims = "(string \<times> string) list"

text \<open>queue.json; a file that is no JSON of this shape, with null entries, or unreadable is bad.\<close>

datatype qfile = NoFile | BadFile | QFile int tasks claims

record queue =
  q_tasks :: tasks
  q_claims :: claims
  q_fault :: bool
  q_file :: qfile

text \<open>\<open>Unsure\<close>: the rename happened and the sync of the directory failed.\<close>

datatype commitOut = Written | NotWritten | Unsure

definition slot_statuses :: "string list" where
  "slot_statuses = [''running'', ''done'', ''failed'', ''interrupted'']"

definition valid_file :: "int \<Rightarrow> tasks \<Rightarrow> claims \<Rightarrow> bool" where
  "valid_file version ts cs \<longleftrightarrow> version = 1 \<and>
     list_all (\<lambda>(i, t). qt_id t = i \<and> qt_key t \<noteq> [] \<and> qt_status t \<in> set slot_statuses) ts \<and>
     list_all (\<lambda>(key, i). map_of ts i \<noteq> None) cs"

definition openQueue :: "qfile \<Rightarrow> queue option" where
  "openQueue file =
     (case file of
        NoFile \<Rightarrow> Some \<lparr>q_tasks = [], q_claims = [], q_fault = False, q_file = NoFile\<rparr>
      | BadFile \<Rightarrow> None
      | QFile version ts cs \<Rightarrow>
          if valid_file version ts cs
          then Some \<lparr>q_tasks = ts, q_claims = cs, q_fault = False, q_file = file\<rparr> else None)"

definition commit :: "commitOut \<Rightarrow> queue \<Rightarrow> queue \<times> bool" where
  "commit out q =
     (if q_fault q then (q, False)
      else let saved = QFile 1 (q_tasks q) (q_claims q) in
        case out of
          Written \<Rightarrow> (q\<lparr>q_file := saved\<rparr>, True)
        | NotWritten \<Rightarrow> (q\<lparr>q_fault := True\<rparr>, False)
        | Unsure \<Rightarrow> (q\<lparr>q_file := saved, q_fault := True\<rparr>, False))"

text \<open>\<open>Claim\<close>: \<open>None\<close> is an error.\<close>

definition Claim :: "int \<Rightarrow> commitOut \<Rightarrow> string \<Rightarrow> string \<Rightarrow> queue \<Rightarrow> queue \<times> bool option" where
  "Claim now out key job q =
     (if q_fault q then (q, None)
      else if key = [] \<or> job = [] then (q, None)
      else if map_of (q_claims q) key \<noteq> None then (q, Some False)
      else
        let t = \<lparr>qt_id = key, qt_key = key, qt_job = job, qt_status = ''running'',
                 qt_created = now, qt_updated = now, qt_notice = False\<rparr>;
            (q', ok) = commit out (q\<lparr>q_tasks := AList.update key t (q_tasks q),
                                     q_claims := AList.update key key (q_claims q)\<rparr>)
        in (q', if ok then Some True else None))"

definition set_status :: "int \<Rightarrow> string \<Rightarrow> task \<Rightarrow> task" where
  "set_status now status t = t\<lparr>qt_status := status, qt_updated := now\<rparr>"

definition Release :: "int \<Rightarrow> commitOut \<Rightarrow> string \<Rightarrow> string \<Rightarrow> queue \<Rightarrow> queue \<times> bool" where
  "Release now out key outcome q =
     (if q_fault q then (q, False)
      else case map_of (q_claims q) key of
        None \<Rightarrow> (q, False)
      | Some i \<Rightarrow>
          (case map_of (q_tasks q) i of
             None \<Rightarrow> (q, False)
           | Some t \<Rightarrow>
               commit out (q\<lparr>q_tasks := AList.update i (set_status now outcome t) (q_tasks q)\<rparr>)))"

definition interrupt :: "int \<Rightarrow> task \<Rightarrow> task" where
  "interrupt now t =
     (if qt_status t \<noteq> ''running'' then t
      else set_status now ''interrupted'' t\<lparr>qt_notice := True\<rparr>)"

text \<open>\<open>Interrupted\<close> returns the jobs of the notices, sorted.\<close>

definition Interrupted :: "int \<Rightarrow> commitOut \<Rightarrow> queue \<Rightarrow> queue \<times> string list" where
  "Interrupted now out q =
     (if q_fault q then (q, [])
      else
        let jobs = map (qt_job \<circ> snd) (filter (\<lambda>(i, t). qt_status t = ''running'') (q_tasks q)) in
        if jobs = [] then (q, [])
        else (fst (commit out (q\<lparr>q_tasks := map (\<lambda>(i, t). (i, interrupt now t)) (q_tasks q)\<rparr>)), sort jobs))"

definition trim_one :: "int \<Rightarrow> string \<times> string \<Rightarrow> tasks \<times> claims \<times> nat \<Rightarrow> tasks \<times> claims \<times> nat" where
  "trim_one cutoff kc acc =
     (case (kc, acc) of ((key, i), (ts, cs, n)) \<Rightarrow>
        (case map_of ts i of
           None \<Rightarrow> (AList.delete i ts, AList.delete key cs, n + 1)
         | Some t \<Rightarrow>
             if qt_updated t < cutoff \<and> qt_status t \<noteq> ''running''
             then (AList.delete i ts, AList.delete key cs, n + 1) else (ts, cs, n)))"

definition TrimClaims :: "int \<Rightarrow> int \<Rightarrow> commitOut \<Rightarrow> queue \<Rightarrow> queue \<times> nat" where
  "TrimClaims now keepAge out q =
     (if q_fault q then (q, 0)
      else
        let (ts, cs, removed) = fold (trim_one (now - keepAge)) (q_claims q) (q_tasks q, q_claims q, 0);
            q' = q\<lparr>q_tasks := ts, q_claims := cs\<rparr>
        in (if removed > 0 then fst (commit out q') else q', removed))"

definition claimAge :: int where "claimAge = 24 * 60 * minute"

definition slotKey :: "string \<Rightarrow> int \<Rightarrow> string" where
  "slotKey pipelineFile slot = pipelineFile @ CHR ''|'' # itoa (slot div second)"

section \<open>Operations as steps\<close>

text \<open>
  A restart that cannot open the file leaves a queue that refuses everything, as the daemon then
  skips every slot.
\<close>

datatype qop =
  OClaim int commitOut string string
| ORelease int commitOut string string
| OInterrupted int commitOut
| OTrim int commitOut
| ORestart

fun qstep :: "qop \<Rightarrow> queue \<Rightarrow> queue" where
  "qstep (OClaim now out key job) q = fst (Claim now out key job q)"
| "qstep (ORelease now out key outcome) q = fst (Release now out key outcome q)"
| "qstep (OInterrupted now out) q = fst (Interrupted now out q)"
| "qstep (OTrim now out) q = fst (TrimClaims now claimAge out q)"
| "qstep ORestart q = (case openQueue (q_file q) of Some q' \<Rightarrow> q' | None \<Rightarrow> q\<lparr>q_fault := True\<rparr>)"

text \<open>The key a step lets run.\<close>

fun granted :: "qop \<Rightarrow> queue \<Rightarrow> string option" where
  "granted (OClaim now out key job) q = (if snd (Claim now out key job q) = Some True then Some key else None)"
| "granted _ q = None"

section \<open>An interface: a register of claims\<close>

text \<open>
  The contract the daemon relies on: a key that is held is not granted, and a mild step keeps
  what is held.
\<close>

locale claim_register =
  fixes step_op :: "'o \<Rightarrow> 's \<Rightarrow> 's" and grants :: "'o \<Rightarrow> 's \<Rightarrow> 'k option"
    and held :: "'k \<Rightarrow> 's \<Rightarrow> bool" and mild :: "'o \<Rightarrow> bool"
  assumes grant_free: "grants op s = Some k \<Longrightarrow> \<not> held k s"
    and mild_keeps: "held k s \<Longrightarrow> mild op \<Longrightarrow> held k (step_op op s)"
begin

lemma held_fold: "held k s \<Longrightarrow> list_all mild ops \<Longrightarrow> held k (fold step_op ops s)"
  by (induction ops arbitrary: s) (auto intro: mild_keeps)

lemma never_granted_again:
  "held k s \<Longrightarrow> list_all mild pre \<Longrightarrow> grants op (fold step_op pre s) \<noteq> Some k"
  using held_fold grant_free by blast

end

section \<open>The queue is such a register\<close>

text \<open>
  A key is held since \<open>t\<close> when memory, and the file a restart would read, carry its claim and a
  task updated at \<open>t\<close> or later.
\<close>

definition claim_in :: "int \<Rightarrow> string \<Rightarrow> tasks \<Rightarrow> claims \<Rightarrow> bool" where
  "claim_in t key ts cs \<longleftrightarrow> map_of cs key = Some key \<and> list_all (\<lambda>(k, i). k = key \<longrightarrow> i = key) cs \<and>
     (case map_of ts key of Some tk \<Rightarrow> t \<le> qt_updated tk | None \<Rightarrow> False)"

definition held_since :: "int \<Rightarrow> string \<Rightarrow> queue \<Rightarrow> bool" where
  "held_since t key q \<longleftrightarrow> claim_in t key (q_tasks q) (q_claims q) \<and>
     (case q_file q of QFile v ts cs \<Rightarrow> claim_in t key ts cs | _ \<Rightarrow> False)"

text \<open>Clock readings at or after \<open>t\<close>, and trims no later than the claim age after it.\<close>

fun mild_op :: "int \<Rightarrow> qop \<Rightarrow> bool" where
  "mild_op t (OClaim now _ _ _) = (t \<le> now)"
| "mild_op t (ORelease now _ _ _) = (t \<le> now)"
| "mild_op t (OInterrupted now _) = (t \<le> now)"
| "mild_op t (OTrim now _) = (now \<le> t + claimAge)"
| "mild_op t ORestart = True"

lemma list_all_update: "list_all P al \<Longrightarrow> P (k, v) \<Longrightarrow> list_all P (AList.update k v al)"
  by (induction al) auto

lemma list_all_delete: "list_all P al \<Longrightarrow> list_all P (AList.delete k al)"
  by (auto simp: AList.delete_eq list_all_iff)

lemma held_commit:
  "claim_in t key (q_tasks q) (q_claims q) \<Longrightarrow>
     (case q_file q of QFile v ts cs \<Rightarrow> claim_in t key ts cs | _ \<Rightarrow> False) \<Longrightarrow>
     held_since t key (fst (commit out q))"
  by (auto simp: commit_def held_since_def Let_def split: commitOut.splits)

lemma held_change:
  "held_since t key q \<Longrightarrow> claim_in t key ts cs \<Longrightarrow>
     held_since t key (fst (commit out (q\<lparr>q_tasks := ts, q_claims := cs\<rparr>)))"
  by (rule held_commit) (simp_all add: held_since_def)

lemma claim_in_update_task:
  "claim_in t key ts cs \<Longrightarrow> t \<le> qt_updated tk \<Longrightarrow> claim_in t key (AList.update i tk ts) cs"
  by (auto simp: claim_in_def split: option.splits)

lemma claim_in_add:
  "claim_in t key ts cs \<Longrightarrow> k \<noteq> key \<Longrightarrow> claim_in t key (AList.update k tk ts) (AList.update k i cs)"
  by (auto simp: claim_in_def intro!: list_all_update split: option.splits)

lemma claim_in_interrupt:
  "claim_in t key ts cs \<Longrightarrow> t \<le> now \<Longrightarrow> claim_in t key (map (\<lambda>(i, tk). (i, interrupt now tk)) ts) cs"
  unfolding claim_in_def
  by (induction ts) (auto simp: interrupt_def set_status_def)

lemma claim_in_trim:
  assumes "claim_in t key ts cs" and "cutoff \<le> t" and "k = key \<longrightarrow> i = key"
    and "trim_one cutoff (k, i) (ts, cs, n) = (ts', cs', n')"
  shows "claim_in t key ts' cs'"
  using assms
  by (auto simp: claim_in_def trim_one_def AList.delete_conv list_all_delete split: option.splits if_splits)

lemma claim_in_trims:
  "claim_in t key ts cs \<Longrightarrow> cutoff \<le> t \<Longrightarrow> list_all (\<lambda>(k, i). k = key \<longrightarrow> i = key) kcs \<Longrightarrow>
     fold (trim_one cutoff) kcs (ts, cs, n) = (ts', cs', n') \<Longrightarrow> claim_in t key ts' cs'"
proof (induction kcs arbitrary: ts cs n)
  case (Cons kc kcs)
  obtain k i where kc: "kc = (k, i)" by (cases kc)
  obtain ts1 cs1 n1 where one: "trim_one cutoff (k, i) (ts, cs, n) = (ts1, cs1, n1)" by (metis prod_cases3)
  have "claim_in t key ts1 cs1" using claim_in_trim [OF Cons.prems(1,2) _ one] Cons.prems(3) kc by simp
  then show ?case using Cons.IH [of ts1 cs1 n1] Cons.prems kc one by simp
qed simp

lemma qstep_held: "held_since t key q \<Longrightarrow> mild_op t op \<Longrightarrow> held_since t key (qstep op q)"
proof (cases op)
  case (OClaim now out k job)
  assume h: "held_since t key q" and "mild_op t op"
  then have c: "claim_in t key (q_tasks q) (q_claims q)" by (simp add: held_since_def)
  show ?thesis
  proof (cases "q_fault q \<or> k = [] \<or> job = [] \<or> map_of (q_claims q) k \<noteq> None")
    case True
    with h OClaim show ?thesis by (auto simp: Claim_def)
  next
    case False
    then have "k \<noteq> key" using c by (auto simp: claim_in_def)
    from held_change [OF h claim_in_add [OF c this]] False OClaim show ?thesis
      by (simp add: Claim_def Let_def split_def)
  qed
next
  case (ORelease now out k outcome)
  assume h: "held_since t key q" and m: "mild_op t op"
  then have c: "claim_in t key (q_tasks q) (q_claims q)" by (simp add: held_since_def)
  have "held_since t key (fst (commit out (q\<lparr>q_tasks := AList.update i (set_status now outcome tk) (q_tasks q)\<rparr>)))"
    for i tk
    using held_change [OF h claim_in_update_task [OF c], of "set_status now outcome tk" out i] m ORelease
    by (simp add: set_status_def)
  with h ORelease show ?thesis by (simp add: Release_def split: option.split)
next
  case (OInterrupted now out)
  assume h: "held_since t key q" and m: "mild_op t op"
  then have c: "claim_in t key (q_tasks q) (q_claims q)" by (simp add: held_since_def)
  from held_change [OF h claim_in_interrupt [OF c]] m OInterrupted h show ?thesis
    by (simp add: Interrupted_def Let_def)
next
  case (OTrim now out)
  assume h: "held_since t key q" and m: "mild_op t op"
  obtain ts cs n where f: "fold (trim_one (now - claimAge)) (q_claims q) (q_tasks q, q_claims q, 0) = (ts, cs, n)"
    by (metis prod_cases3)
  have c: "claim_in t key (q_tasks q) (q_claims q)" using h by (simp add: held_since_def)
  then have "list_all (\<lambda>(k, i). k = key \<longrightarrow> i = key) (q_claims q)" by (simp add: claim_in_def)
  from claim_in_trims [OF c _ this f] m OTrim have k: "claim_in t key ts cs" by simp
  then have "held_since t key (q\<lparr>q_tasks := ts, q_claims := cs\<rparr>)" using h by (simp add: held_since_def)
  with held_change [OF h k, of out] h OTrim f show ?thesis
    by (simp add: TrimClaims_def Let_def)
next
  case ORestart
  assume "held_since t key q"
  with ORestart show ?thesis
    by (auto simp: openQueue_def held_since_def split: qfile.splits)
qed

interpretation sq: claim_register qstep granted "held_since t" "mild_op t" for t
proof unfold_locales
  show "\<not> held_since t k s" if "granted op s = Some k" for op s k
    using that by (cases op) (auto simp: Claim_def held_since_def claim_in_def split: if_splits)
  show "held_since t k (qstep op s)" if "held_since t k s" "mild_op t op" for k s op
    using qstep_held that by blast
qed

text \<open>A granted claim is held, in memory and on disk.\<close>

lemma claim_in_fresh:
  assumes "map_of cs key = None" and "t \<le> qt_updated tk"
  shows "claim_in t key (AList.update key tk ts) (AList.update key key cs)"
proof -
  have "list_all (\<lambda>(k, i). k = key \<longrightarrow> i = key) cs"
    using assms(1) by (force simp: list_all_iff map_of_eq_None_iff)
  with assms(2) show ?thesis by (simp add: claim_in_def list_all_update)
qed

lemma granted_held:
  assumes "granted (OClaim now out key job) q = Some key"
  shows "held_since now key (qstep (OClaim now out key job) q)"
proof -
  have "map_of (q_claims q) key = None" using assms by (auto simp: Claim_def split: if_splits)
  from claim_in_fresh [OF this, of now] assms show ?thesis
    by (auto simp: Claim_def commit_def held_since_def Let_def split: if_splits commitOut.splits)
qed

section \<open>Properties\<close>

text \<open>
  After a claim was granted at time \<open>t\<close>, no sequence of claims, releases, interruptions, restarts
  and failed writes grants the key again while the clock does not go back and no trim runs more
  than a claim age later.
\<close>

lemma slot_runs_once:
  assumes "granted (OClaim t out key job) q = Some key" and "list_all (mild_op t) ops"
  shows "granted op (fold qstep ops (qstep (OClaim t out key job) q)) \<noteq> Some key"
  by (rule sq.never_granted_again [OF granted_held [OF assms(1)] assms(2)])

text \<open>
  A key names one slot of one pipeline file: two slot keys are equal only for the same file
  and the same second.
\<close>

lemma slotKey_inject: "slotKey f s = slotKey g u \<longleftrightarrow> f = g \<and> s div second = u div second"
proof -
  have no: "CHR ''|'' \<notin> set (itoa i)" for i
    using nat_digits_range [of "CHR ''|''"] by (auto simp: itoa_def)
  have inj: "itoa i = itoa j \<longleftrightarrow> i = j" for i j
  proof -
    have "CHR ''-'' \<notin> set (nat_digits n)" for n using nat_digits_range [of "CHR ''-''" n] by auto
    then have "nat_digits n \<noteq> CHR ''-'' # xs" for n xs by (metis list.set_intros(1))
    then show ?thesis by (auto simp: itoa_def) (metis nat_digits_inject)+
  qed
  have sep: "f @ c # a = g @ c # b \<longleftrightarrow> f = g \<and> a = b" if "c \<notin> set a" "c \<notin> set b" for c :: char and a b
  proof
    assume e: "f @ c # a = g @ c # b"
    have "rev a @ c # rev f = rev b @ c # rev g" using arg_cong [OF e, of rev] by simp
    then have "takeWhile (\<lambda>x. x \<noteq> c) (rev a @ c # rev f) = takeWhile (\<lambda>x. x \<noteq> c) (rev b @ c # rev g)" by simp
    moreover have "takeWhile (\<lambda>x. x \<noteq> c) (rev a @ c # rev f) = rev a"
      using that(1) by (subst takeWhile_append2) auto
    moreover have "takeWhile (\<lambda>x. x \<noteq> c) (rev b @ c # rev g) = rev b"
      using that(2) by (subst takeWhile_append2) auto
    ultimately have "a = b" by simp
    with e show "f = g \<and> a = b" by simp
  qed simp
  show ?thesis by (simp add: slotKey_def sep no inj)
qed

end
