(* ===== verification/Daemon.thy ===== *)
theory Daemon
  imports Cron Slot_Queue
begin

text \<open>
  The scheduler daemon (internal/cron/daemon.go): one tick over the pipeline files, the lock and
  state files it keeps, the alerts it sends, and its start. The world answers through \<open>tickIn\<close>:
  the clock readings, what the writes of the queue did, the runner, the plugin registry and the
  web hook.
\<close>

section \<open>State\<close>

record scheduleState =
  ss_pipeline :: string
  ss_cron :: string
  ss_nextRun :: "int option"
  ss_lastRun :: "int option"
  ss_enabled :: bool
  ss_overlap :: string

text \<open>
  \<open>Lock None\<close> cannot be read. The path of the state of a pipeline is a hash of its file; here
  the file itself is the key.
\<close>

datatype lockFile = Lock "string option"

record daemon =
  dm_queue :: "queue option"
  dm_disk :: qfile
  dm_states :: "(string \<times> scheduleState) list"
  dm_locks :: "(string \<times> lockFile) list"
  dm_queued :: "string list"

datatype postOut = BadRequest | NotSent | Answered int

record tickIn =
  ti_now :: int
  ti_claim :: int
  ti_release :: int
  ti_out1 :: commitOut
  ti_out2 :: commitOut
  ti_writes :: bool
  ti_alive :: "int \<Rightarrow> bool"
  ti_runner :: "(string \<Rightarrow> bool \<Rightarrow> string option) option"
  ti_exists :: "string \<Rightarrow> bool option"
  ti_post :: "string \<Rightarrow> postOut"

record host =
  ho_load :: "string \<Rightarrow> pipelineFile option"
  ho_loadLocation :: "string \<Rightarrow> location option"
  ho_local :: location
  ho_pid :: int

text \<open>What leaves the daemon: a started run with the key of its slot, and a posted alert.\<close>

datatype devent = Ran string string bool | Posted string string string string

section \<open>Locks\<close>

definition staleLock :: "int \<Rightarrow> (int \<Rightarrow> bool) \<Rightarrow> lockFile \<Rightarrow> bool" where
  "staleLock me alive lock =
     (case lock of
        Lock None \<Rightarrow> False
      | Lock (Some raw) \<Rightarrow>
          (case Fields raw of
             [] \<Rightarrow> True
           | f # _ \<Rightarrow>
               (let (pid, ok) = Atoi f in
                if \<not> ok then True else if pid = me then False else \<not> alive pid)))"

definition lockText :: "int \<Rightarrow> string \<Rightarrow> lockFile" where
  "lockText me stamp = Lock (Some (itoa me @ '' '' @ stamp @ [CHR 0x0A]))"

text \<open>\<open>tryLock\<close> on the lock file of the daemon; creating fails when it exists.\<close>

definition tryLock :: "int \<Rightarrow> (int \<Rightarrow> bool) \<Rightarrow> string \<Rightarrow> bool \<Rightarrow> lockFile option \<Rightarrow> lockFile option \<times> bool" where
  "tryLock me alive stamp writes file =
     (case file of
        None \<Rightarrow> if writes then (Some (lockText me stamp), True) else (None, False)
      | Some lock \<Rightarrow>
          if \<not> staleLock me alive lock then (file, False)
          else if writes then (Some (lockText me stamp), True)
          else (None, False))"

text \<open>\<open>filepath.Base\<close> on a Unix host.\<close>

definition Base :: "string \<Rightarrow> string" where
  "Base path =
     (if path = [] then ''.''
      else let p = trimRightChar (CHR ''/'') path in
        if p = [] then ''/'' else last (split_on (CHR ''/'') p))"

definition runningLock :: "string \<Rightarrow> string" where
  "runningLock f = ''.running.'' @ Base f @ ''.lock''"

text \<open>Whether the pipeline counts as running, and the locks after a stale one was removed.\<close>

definition lock_check ::
  "host \<Rightarrow> tickIn \<Rightarrow> string \<Rightarrow> (string \<times> lockFile) list \<Rightarrow> (string \<times> lockFile) list \<times> bool" where
  "lock_check h ti f locks =
     (case map_of locks (runningLock f) of
        None \<Rightarrow> (locks, False)
      | Some l \<Rightarrow>
          if staleLock (ho_pid h) (ti_alive ti) l then (AList.delete (runningLock f) locks, False)
          else (locks, True))"

section \<open>Alerts\<close>

datatype alertErr =
  NoRegistry string string | NoPlugin string string | NoChannel string string
| NotHttp string | NotPosted string | BadStatus string int

definition alertKindFor :: "schedule \<Rightarrow> string \<Rightarrow> string" where
  "alertKindFor sc kind =
     (if kind = ''on_waiting'' then al_onWaiting (sc_alerts sc)
      else if kind = ''on_failure'' then al_onFailure (sc_alerts sc) else [])"

definition postAlert ::
  "tickIn \<Rightarrow> string \<Rightarrow> string \<Rightarrow> string \<Rightarrow> string \<Rightarrow> devent list \<times> alertErr option" where
  "postAlert ti webhook kind f detail =
     (if \<not> hasPrefix webhook ''http://'' \<and> \<not> hasPrefix webhook ''https://'' then ([], Some (NotHttp kind))
      else case ti_post ti webhook of
        BadRequest \<Rightarrow> ([], Some (NotPosted kind))
      | NotSent \<Rightarrow> ([Posted webhook kind f detail], Some (NotPosted kind))
      | Answered status \<Rightarrow>
          ([Posted webhook kind f detail],
           if status < 200 \<or> 300 \<le> status then Some (BadStatus kind status) else None))"

definition fireAlert ::
  "tickIn \<Rightarrow> schedule option \<Rightarrow> string \<Rightarrow> string \<Rightarrow> string \<Rightarrow> devent list \<times> alertErr option" where
  "fireAlert ti sched kind f detail =
     (case sched of
        None \<Rightarrow> ([], None)
      | Some sc \<Rightarrow>
          if al_webhook (sc_alerts sc) \<noteq> [] then postAlert ti (al_webhook (sc_alerts sc)) kind f detail
          else let wanted = alertKindFor sc kind in
            if wanted = [] then ([], None)
            else case ti_exists ti wanted of
              None \<Rightarrow> ([], Some (NoRegistry kind wanted))
            | Some False \<Rightarrow> ([], Some (NoPlugin kind wanted))
            | Some True \<Rightarrow> ([], Some (NoChannel kind wanted)))"

section \<open>One file of a tick\<close>

text \<open>Whether a slot is due at \<open>now\<close>, and whether a missed one is caught up.\<close>

definition in_window :: "int \<Rightarrow> int \<Rightarrow> bool" where
  "in_window now slot \<longleftrightarrow> now - minute < slot \<and> slot < now + 5 * second"

definition catch_up :: "host \<Rightarrow> schedule \<Rightarrow> scheduleState option \<Rightarrow> int \<Rightarrow> bool" where
  "catch_up h sc st now =
     (sc_catchUp sc \<and>
      (case st of
         None \<Rightarrow> False
       | Some s \<Rightarrow>
           (case ss_lastRun s of
              None \<Rightarrow> False
            | Some l \<Rightarrow>
                (case NextRunFor (ho_loadLocation h) (ho_local h) (Some sc) (l + minute) of
                   None \<Rightarrow> False
                 | Some e \<Rightarrow> e < now \<and> l - 5 * minute < e))))"

definition autoApprove :: "schedule \<Rightarrow> bool" where
  "autoApprove sc \<longleftrightarrow> sc_humanGate sc = ''autoApprove'' \<or> sc_humanGate sc = ''auto_approve''"

definition saveState :: "tickIn \<Rightarrow> string \<Rightarrow> scheduleState \<Rightarrow> daemon \<Rightarrow> daemon" where
  "saveState ti f s d = (if ti_writes ti then d\<lparr>dm_states := AList.update f s (dm_states d)\<rparr> else d)"

text \<open>The queue of the daemon, opened when there is none yet.\<close>

definition the_queue :: "daemon \<Rightarrow> queue option" where
  "the_queue d = (case dm_queue d of Some q \<Rightarrow> Some q | None \<Rightarrow> openQueue (dm_disk d))"

text \<open>The runner and the alerts about its result.\<close>

definition run_slot :: "tickIn \<Rightarrow> schedule \<Rightarrow> string \<Rightarrow> string \<Rightarrow> string \<times> devent list" where
  "run_slot ti sc key f =
     (case ti_runner ti of
        None \<Rightarrow> (''done'', [])
      | Some run \<Rightarrow>
          (case run f (autoApprove sc) of
             Some err \<Rightarrow>
               (''failed'', Ran key f (autoApprove sc) # fst (fireAlert ti (Some sc) ''on_failure'' f err))
           | None \<Rightarrow>
               (''done'', Ran key f (autoApprove sc) #
                  (if sc_humanGate sc = ''wait''
                   then fst (fireAlert ti (Some sc) ''on_waiting'' f ''human gate waiting'') else []))))"

text \<open>From the claim of the slot to its release.\<close>

definition claim_and_run ::
  "host \<Rightarrow> tickIn \<Rightarrow> schedule \<Rightarrow> string \<Rightarrow> int \<Rightarrow> daemon \<Rightarrow> daemon \<times> devent list" where
  "claim_and_run h ti sc f next d =
     (case the_queue d of
        None \<Rightarrow> (d, [])
      | Some q \<Rightarrow>
          let key = slotKey f next;
              (q1, claimed) = Claim (ti_claim ti) (ti_out1 ti) key f q
          in if claimed \<noteq> Some True then (d\<lparr>dm_queue := Some q1\<rparr>, [])
             else
               let (outcome, evs) = run_slot ti sc key f;
                   (q2, released) = Release (ti_release ti) (ti_out2 ti) key outcome q1;
                   nr = NextRunFor (ho_loadLocation h) (ho_local h) (Some sc) (ti_now ti + minute)
               in (saveState ti f
                     \<lparr>ss_pipeline = f, ss_cron = sc_cron sc, ss_nextRun = nr, ss_lastRun = Some (ti_now ti),
                      ss_enabled = True, ss_overlap = sc_overlap sc\<rparr>
                     (d\<lparr>dm_queue := Some q2, dm_locks := AList.delete (runningLock f) (dm_locks d),
                        dm_queued := removeAll (runningLock f) (dm_queued d)\<rparr>), evs))"

text \<open>The state of a schedule that is not due.\<close>

definition idle_state :: "host \<Rightarrow> schedule \<Rightarrow> string \<Rightarrow> scheduleState option \<Rightarrow> int \<Rightarrow> scheduleState" where
  "idle_state h sc f st now =
     \<lparr>ss_pipeline = f, ss_cron = sc_cron sc,
      ss_nextRun = NextRunFor (ho_loadLocation h) (ho_local h) (Some sc) now,
      ss_lastRun = (case st of Some s \<Rightarrow> ss_lastRun s | None \<Rightarrow> None),
      ss_enabled = IsEnabled (Some sc), ss_overlap = sc_overlap sc\<rparr>"

definition overlapOf :: "schedule \<Rightarrow> string" where
  "overlapOf sc = (if sc_overlap sc = [] then ''skip'' else sc_overlap sc)"

definition tick_sched :: "host \<Rightarrow> tickIn \<Rightarrow> schedule \<Rightarrow> string \<Rightarrow> daemon \<Rightarrow> daemon \<times> devent list" where
  "tick_sched h ti sc f d =
     (case NextRunFor (ho_loadLocation h) (ho_local h) (Some sc) (ti_now ti - minute) of
        None \<Rightarrow> (d, [])
      | Some next \<Rightarrow>
          let st = map_of (dm_states d) f;
              (locks, running) = lock_check h ti f (dm_locks d);
              d = d\<lparr>dm_locks := locks\<rparr>
          in if running \<and> overlapOf sc = ''skip'' then (d, [])
             else if running \<and> overlapOf sc = ''queue''
             then (if ti_writes ti then d\<lparr>dm_queued := runningLock f # dm_queued d\<rparr> else d, [])
             else if \<not> in_window (ti_now ti) next \<and> \<not> catch_up h sc st (ti_now ti)
             then (saveState ti f (idle_state h sc f st (ti_now ti)) d, [])
             else claim_and_run h ti sc f next d)"

definition tick_file :: "host \<Rightarrow> tickIn \<Rightarrow> string \<Rightarrow> daemon \<Rightarrow> daemon \<times> devent list" where
  "tick_file h ti f d =
     (case ho_load h f of
        None \<Rightarrow> (d, [])
      | Some pf \<Rightarrow>
          (case p_schedule (pf_pipeline pf) of
             None \<Rightarrow> (d, [])
           | Some sc \<Rightarrow> if IsEnabled (Some sc) then tick_sched h ti sc f d else (d, [])))"

text \<open>\<open>Tick\<close> over the files found, each with the answers it got.\<close>

fun Tick :: "host \<Rightarrow> (tickIn \<times> string) list \<Rightarrow> daemon \<Rightarrow> daemon \<times> devent list" where
  "Tick h [] d = (d, [])"
| "Tick h ((ti, f) # fs) d =
     (let (d1, e1) = tick_file h ti f d; (d2, e2) = Tick h fs d1 in (d2, e1 @ e2))"

section \<open>Start\<close>

text \<open>A process that ends loses the queue in memory; the files stay.\<close>

definition disk_of :: "daemon \<Rightarrow> qfile" where
  "disk_of d = (case dm_queue d of Some q \<Rightarrow> q_file q | None \<Rightarrow> dm_disk d)"

definition stopped :: "daemon \<Rightarrow> daemon" where
  "stopped d = d\<lparr>dm_queue := None, dm_disk := disk_of d\<rparr>"

text \<open>\<open>Run\<close> up to its first tick: the lock, the queue, the interrupted slots, the old claims.\<close>

definition start_queue :: "int \<Rightarrow> commitOut \<Rightarrow> int \<Rightarrow> commitOut \<Rightarrow> daemon \<Rightarrow> daemon \<times> string list" where
  "start_queue now1 out1 now2 out2 d =
     (case openQueue (dm_disk d) of
        None \<Rightarrow> (d, [])
      | Some q \<Rightarrow>
          let (q1, notices) = Interrupted now1 out1 q; (q2, removed) = TrimClaims now2 claimAge out2 q1
          in (d\<lparr>dm_queue := Some q2\<rparr>, notices))"

definition daemonLock :: string where "daemonLock = ''.daemon.lock''"

definition Run_start ::
  "host \<Rightarrow> (int \<Rightarrow> bool) \<Rightarrow> string \<Rightarrow> bool \<Rightarrow> int \<Rightarrow> commitOut \<Rightarrow> int \<Rightarrow> commitOut \<Rightarrow> daemon
     \<Rightarrow> (daemon \<times> string list) option" where
  "Run_start h alive stamp writes now1 out1 now2 out2 d =
     (let (file, ok) = tryLock (ho_pid h) alive stamp writes (map_of (dm_locks d) daemonLock);
          locks = (case file of Some l \<Rightarrow> AList.update daemonLock l (dm_locks d)
                              | None \<Rightarrow> AList.delete daemonLock (dm_locks d))
      in if ok then Some (start_queue now1 out1 now2 out2 (d\<lparr>dm_locks := locks\<rparr>)) else None)"

section \<open>The daemon as a system of steps\<close>

text \<open>
  A tick of one file, a process killed while the runner of that file works (the release and the
  later writes do not happen, the lock stays), a stop, and a start.
\<close>

definition killed_tick :: "host \<Rightarrow> tickIn \<Rightarrow> string \<Rightarrow> lockFile \<Rightarrow> daemon \<Rightarrow> daemon \<times> devent list" where
  "killed_tick h ti f l d =
     (let (d', evs) = tick_file h (ti\<lparr>ti_out2 := NotWritten, ti_writes := False\<rparr>) f d
      in (stopped (d'\<lparr>dm_locks := AList.update (runningLock f) l (dm_locks d)\<rparr>), evs))"

datatype dop =
  DTick host tickIn string
| DKilled host tickIn string lockFile
| DStart int commitOut int commitOut
| DStop

fun dexec :: "dop \<Rightarrow> daemon \<Rightarrow> daemon \<times> devent list" where
  "dexec (DTick h ti f) d = tick_file h ti f d"
| "dexec (DKilled h ti f l) d = killed_tick h ti f l d"
| "dexec (DStart now1 out1 now2 out2) d = (fst (start_queue now1 out1 now2 out2 (stopped d)), [])"
| "dexec DStop d = (stopped d, [])"

definition dstep :: "dop \<Rightarrow> daemon \<Rightarrow> daemon" where "dstep op d = fst (dexec op d)"

fun ran_key :: "devent list \<Rightarrow> string option" where
  "ran_key [] = None"
| "ran_key (Ran key f auto # evs) = Some key"
| "ran_key (Posted w k f x # evs) = ran_key evs"

definition dran :: "dop \<Rightarrow> daemon \<Rightarrow> string option" where "dran op d = ran_key (snd (dexec op d))"

text \<open>The clock of a step is not before \<open>t\<close>, and a start trims at most a claim age after it.\<close>

fun dmild :: "int \<Rightarrow> dop \<Rightarrow> bool" where
  "dmild t (DTick h ti f) = (t \<le> ti_claim ti \<and> t \<le> ti_release ti)"
| "dmild t (DKilled h ti f l) = (t \<le> ti_claim ti \<and> t \<le> ti_release ti)"
| "dmild t (DStart now1 out1 now2 out2) = (t \<le> now1 \<and> now2 \<le> t + claimAge)"
| "dmild t DStop = True"

definition dheld :: "int \<Rightarrow> string \<Rightarrow> daemon \<Rightarrow> bool" where
  "dheld t key d =
     (case dm_queue d of
        Some q \<Rightarrow> held_since t key q
      | None \<Rightarrow> (case dm_disk d of QFile v ts cs \<Rightarrow> claim_in t key ts cs | _ \<Rightarrow> False))"

section \<open>Lemmas\<close>

lemma held_open: "openQueue file = Some q \<Longrightarrow>
    held_since t key q = (case file of QFile v ts cs \<Rightarrow> claim_in t key ts cs | _ \<Rightarrow> False)"
  by (auto simp: openQueue_def held_since_def claim_in_def split: qfile.splits if_splits)

lemma held_the_queue: "the_queue d = Some q \<Longrightarrow> held_since t key q = dheld t key d"
  by (auto simp: the_queue_def dheld_def held_open split: option.splits)

lemma dheld_stopped: "dheld t key d \<Longrightarrow> dheld t key (stopped d)"
  by (auto simp: dheld_def stopped_def disk_of_def held_since_def split: option.splits)

lemma dheld_cong: "dm_queue d' = dm_queue d \<Longrightarrow> dm_disk d' = dm_disk d \<Longrightarrow> dheld t key d' = dheld t key d"
  by (simp add: dheld_def split: option.split)

lemma saveState_queue [simp]:
  "dm_queue (saveState ti f s d) = dm_queue d" "dm_disk (saveState ti f s d) = dm_disk d"
  by (simp_all add: saveState_def)

text \<open>When a schedule that is on gets to the claim of its slot.\<close>

definition reaches_claim :: "host \<Rightarrow> tickIn \<Rightarrow> schedule \<Rightarrow> string \<Rightarrow> daemon \<Rightarrow> int \<Rightarrow> bool" where
  "reaches_claim h ti sc f d slot \<longleftrightarrow>
     NextRunFor (ho_loadLocation h) (ho_local h) (Some sc) (ti_now ti - minute) = Some slot \<and>
     \<not> (snd (lock_check h ti f (dm_locks d)) \<and> overlapOf sc \<in> {''skip'', ''queue''}) \<and>
     (ti_now ti - minute < slot \<and> slot < ti_now ti + 5 * second \<or> catch_up h sc (map_of (dm_states d) f) (ti_now ti))"

lemma tick_sched_due:
  assumes "reaches_claim h ti sc f d slot"
  shows "tick_sched h ti sc f d =
    claim_and_run h ti sc f slot (d\<lparr>dm_locks := fst (lock_check h ti f (dm_locks d))\<rparr>)"
proof -
  let ?running = "snd (lock_check h ti f (dm_locks d))"
  have n: "NextRunFor (ho_loadLocation h) (ho_local h) (Some sc) (ti_now ti - minute) = Some slot"
    and "(?running \<and> overlapOf sc = ''skip'') = False" "(?running \<and> overlapOf sc = ''queue'') = False"
      "(\<not> in_window (ti_now ti) slot \<and> \<not> catch_up h sc (map_of (dm_states d) f) (ti_now ti)) = False"
    using assms by (auto simp: reaches_claim_def in_window_def)
  then show ?thesis by (simp only: tick_sched_def Let_def split_def option.case if_False n)
qed

lemma tick_sched_quiet:
  assumes "\<nexists>slot. reaches_claim h ti sc f d slot"
  shows "snd (tick_sched h ti sc f d) = []" and "dm_queue (fst (tick_sched h ti sc f d)) = dm_queue d"
    and "dm_disk (fst (tick_sched h ti sc f d)) = dm_disk d"
proof -
  have "snd (tick_sched h ti sc f d) = [] \<and> dm_queue (fst (tick_sched h ti sc f d)) = dm_queue d \<and>
    dm_disk (fst (tick_sched h ti sc f d)) = dm_disk d"
  proof (cases "NextRunFor (ho_loadLocation h) (ho_local h) (Some sc) (ti_now ti - minute)")
    case None
    then show ?thesis by (simp add: tick_sched_def)
  next
    case (Some slot)
    with assms have "\<not> reaches_claim h ti sc f d slot" by blast
    with Some show ?thesis by (auto simp: tick_sched_def reaches_claim_def in_window_def Let_def split_def)
  qed
  then show "snd (tick_sched h ti sc f d) = []" and "dm_queue (fst (tick_sched h ti sc f d)) = dm_queue d"
    and "dm_disk (fst (tick_sched h ti sc f d)) = dm_disk d" by auto
qed

text \<open>What a tick of a file may do to the queue.\<close>

lemma tick_file_cases:
  obtains (quiet) "snd (tick_file h ti f d) = []"
      "dm_queue (fst (tick_file h ti f d)) = dm_queue d" "dm_disk (fst (tick_file h ti f d)) = dm_disk d"
  | (claim) sc "next" d1 where "tick_file h ti f d = claim_and_run h ti sc f next d1"
      "dm_queue d1 = dm_queue d" "dm_disk d1 = dm_disk d"
      "NextRunFor (ho_loadLocation h) (ho_local h) (Some sc) (ti_now ti - minute) = Some next"
      "\<exists>pf. ho_load h f = Some pf \<and> p_schedule (pf_pipeline pf) = Some sc"
proof -
  let ?d1 = "d\<lparr>dm_locks := fst (lock_check h ti f (dm_locks d))\<rparr>"
  consider (off) "tick_file h ti f d = (d, [])"
    | (on) pf sc where "ho_load h f = Some pf" "p_schedule (pf_pipeline pf) = Some sc"
        "tick_file h ti f d = tick_sched h ti sc f d"
    unfolding tick_file_def
    by (cases "ho_load h f"; cases "p_schedule (pf_pipeline (the (ho_load h f)))";
        cases "IsEnabled (p_schedule (pf_pipeline (the (ho_load h f))))") auto
  then show thesis
  proof cases
    case off
    with quiet show thesis by simp
  next
    case (on pf sc)
    show thesis
    proof (cases "\<exists>slot. reaches_claim h ti sc f d slot")
      case True
      then obtain slot where r: "reaches_claim h ti sc f d slot" by blast
      then have "NextRunFor (ho_loadLocation h) (ho_local h) (Some sc) (ti_now ti - minute) = Some slot"
        by (simp add: reaches_claim_def)
      with on claim [of sc slot ?d1] tick_sched_due [OF r] show thesis by simp
    next
      case False
      with on quiet tick_sched_quiet show thesis by simp
    qed
  qed
qed

text \<open>A claim that is granted, and one that is not.\<close>

lemma claim_and_run_cases:
  obtains (no_queue) "the_queue d = None" "claim_and_run h ti sc f next d = (d, [])"
  | (refused) q where "the_queue d = Some q"
      "granted (OClaim (ti_claim ti) (ti_out1 ti) (slotKey f next) f) q = None"
      "claim_and_run h ti sc f next d =
         (d\<lparr>dm_queue := Some (qstep (OClaim (ti_claim ti) (ti_out1 ti) (slotKey f next) f) q)\<rparr>, [])"
  | (won) q where "the_queue d = Some q"
      "granted (OClaim (ti_claim ti) (ti_out1 ti) (slotKey f next) f) q = Some (slotKey f next)"
      "snd (claim_and_run h ti sc f next d) = snd (run_slot ti sc (slotKey f next) f)"
      "dm_queue (fst (claim_and_run h ti sc f next d)) =
         Some (qstep (ORelease (ti_release ti) (ti_out2 ti) (slotKey f next) (fst (run_slot ti sc (slotKey f next) f)))
           (qstep (OClaim (ti_claim ti) (ti_out1 ti) (slotKey f next) f) q))"
      "dm_disk (fst (claim_and_run h ti sc f next d)) = dm_disk d"
proof (cases "the_queue d")
  case None
  with no_queue show thesis by (simp add: claim_and_run_def)
next
  case (Some q)
  show thesis
  proof (cases "snd (Claim (ti_claim ti) (ti_out1 ti) (slotKey f next) f q) = Some True")
    case True
    with Some won show thesis by (simp add: claim_and_run_def Let_def split_def)
  next
    case False
    with Some refused show thesis by (simp add: claim_and_run_def Let_def split_def)
  qed
qed

lemma ran_key_run_slot:
  "ran_key (snd (run_slot ti sc key f)) = (if ti_runner ti = None then None else Some key)"
  by (auto simp: run_slot_def split: option.splits)

lemma tick_file_held:
  assumes "dheld t key d" and "t \<le> ti_claim ti" and "t \<le> ti_release ti"
  shows "dheld t key (fst (tick_file h ti f d))"
proof (cases rule: tick_file_cases [of h ti f d])
  case quiet
  with assms(1) show ?thesis using dheld_cong by blast
next
  case (claim sc "next" d1)
  have d1: "dheld t key d1" using assms(1) claim(2,3) dheld_cong by blast
  show ?thesis
  proof (cases rule: claim_and_run_cases [of d1 h ti sc f "next"])
    case no_queue
    with claim(1) d1 show ?thesis by simp
  next
    case (refused q)
    have "held_since t key (qstep (OClaim (ti_claim ti) (ti_out1 ti) (slotKey f next) f) q)"
      using refused(1) d1 held_the_queue assms(2) by (intro qstep_held) auto
    with refused(3) claim(1) show ?thesis by (simp add: dheld_def)
  next
    case (won q)
    have "held_since t key (qstep (ORelease (ti_release ti) (ti_out2 ti) (slotKey f next)
        (fst (run_slot ti sc (slotKey f next) f))) (qstep (OClaim (ti_claim ti) (ti_out1 ti) (slotKey f next) f) q))"
      using won(1) d1 held_the_queue assms(2,3) by (intro qstep_held) auto
    with won(4) claim(1) show ?thesis by (simp add: dheld_def)
  qed
qed

text \<open>A run was granted by the queue, so its key was free before and is held after.\<close>

lemma tick_file_ran:
  assumes "ran_key (snd (tick_file h ti f d)) = Some key"
  shows "\<not> dheld t key d"
    and "ti_claim ti \<le> ti_release ti \<Longrightarrow> dheld (ti_claim ti) key (fst (tick_file h ti f d))"
proof -
  have "\<not> dheld t key d \<and>
    (ti_claim ti \<le> ti_release ti \<longrightarrow> dheld (ti_claim ti) key (fst (tick_file h ti f d)))"
  proof (cases rule: tick_file_cases [of h ti f d])
    case quiet
    with assms show ?thesis by simp
  next
    case (claim sc "next" d1)
    show ?thesis
    proof (cases rule: claim_and_run_cases [of d1 h ti sc f "next"])
      case no_queue
      with claim(1) assms show ?thesis by simp
    next
      case (refused q)
      with claim(1) assms show ?thesis by simp
    next
      case (won q)
      have k: "key = slotKey f next"
        using assms won(3) claim(1) by (simp add: ran_key_run_slot split: if_splits)
      have "\<not> held_since t key q" using sq.grant_free won(2) k by blast
      then have "\<not> dheld t key d" using held_the_queue [OF won(1)] dheld_cong [OF claim(2,3)] by simp
      moreover have "ti_claim ti \<le> ti_release ti \<Longrightarrow> held_since (ti_claim ti) key
          (qstep (ORelease (ti_release ti) (ti_out2 ti) (slotKey f next)
            (fst (run_slot ti sc (slotKey f next) f))) (qstep (OClaim (ti_claim ti) (ti_out1 ti) (slotKey f next) f) q))"
        using qstep_held [OF granted_held [OF won(2)],
          of "ORelease (ti_release ti) (ti_out2 ti) (slotKey f next) (fst (run_slot ti sc (slotKey f next) f))"] k
        by simp
      ultimately show ?thesis using won(4) claim(1) by (simp add: dheld_def)
    qed
  qed
  then show "\<not> dheld t key d"
    and "ti_claim ti \<le> ti_release ti \<Longrightarrow> dheld (ti_claim ti) key (fst (tick_file h ti f d))" by auto
qed

lemma start_queue_held:
  assumes "dheld t key d" and "dm_queue d = None" and "t \<le> now1" and "now2 \<le> t + claimAge"
  shows "dheld t key (fst (start_queue now1 out1 now2 out2 d))"
proof (cases "openQueue (dm_disk d)")
  case None
  with assms show ?thesis by (simp add: start_queue_def)
next
  case (Some q)
  have "held_since t key q" using assms(1,2) held_open [OF Some] by (simp add: dheld_def)
  then have "held_since t key (qstep (OTrim now2 out2) (qstep (OInterrupted now1 out1) q))"
    using assms(3,4) by (intro qstep_held) auto
  with Some show ?thesis by (simp add: start_queue_def Let_def split_def dheld_def)
qed

lemma killed_tick_held:
  "dheld t key (fst (tick_file h (ti\<lparr>ti_out2 := NotWritten, ti_writes := False\<rparr>) f d)) \<Longrightarrow>
     dheld t key (fst (killed_tick h ti f l d))"
  unfolding killed_tick_def split_def Let_def fst_conv
  by (rule dheld_stopped, subst dheld_cong) simp_all

lemma killed_tick_events:
  "snd (killed_tick h ti f l d) = snd (tick_file h (ti\<lparr>ti_out2 := NotWritten, ti_writes := False\<rparr>) f d)"
  by (simp add: killed_tick_def split_def Let_def)

lemma dstep_held: "dheld t key d \<Longrightarrow> dmild t op \<Longrightarrow> dheld t key (dstep op d)"
proof (cases op)
  case (DKilled h ti f l)
  assume "dheld t key d" and "dmild t op"
  with DKilled show ?thesis
    using killed_tick_held [OF tick_file_held [of t key d "ti\<lparr>ti_out2 := NotWritten, ti_writes := False\<rparr>" h f]]
    by (simp add: dstep_def)
next
  case (DStart now1 out1 now2 out2)
  assume "dheld t key d" and "dmild t op"
  with DStart show ?thesis
    using start_queue_held [OF dheld_stopped, of t key d now1 now2] by (simp add: dstep_def stopped_def)
next
  case (DTick h ti f)
  assume "dheld t key d" and "dmild t op"
  with DTick show ?thesis by (simp add: dstep_def tick_file_held)
next
  case DStop
  assume "dheld t key d"
  with DStop show ?thesis by (simp add: dstep_def dheld_stopped)
qed

interpretation dq: claim_register dstep dran "dheld t" "dmild t" for t
proof unfold_locales
  show "\<not> dheld t k s" if "dran op s = Some k" for op s k
    using that by (cases op) (auto simp: dran_def killed_tick_events dest: tick_file_ran(1))
  show "dheld t k (dstep op s)" if "dheld t k s" "dmild t op" for k s op
    using dstep_held that by blast
qed

fun claim_time :: "dop \<Rightarrow> int" where
  "claim_time (DTick h ti f) = ti_claim ti"
| "claim_time (DKilled h ti f l) = ti_claim ti"
| "claim_time _ = 0"

lemma dran_held:
  assumes "dran op d = Some key" and "dmild (claim_time op) op"
  shows "dheld (claim_time op) key (dstep op d)"
proof (cases op)
  case (DTick h ti f)
  with assms tick_file_ran(2) [of h ti f d key] show ?thesis by (simp add: dran_def dstep_def)
next
  case (DKilled h ti f l)
  with assms tick_file_ran(2) [of h "ti\<lparr>ti_out2 := NotWritten, ti_writes := False\<rparr>" f d key]
  show ?thesis by (simp add: dran_def dstep_def killed_tick_events killed_tick_held)
qed (use assms in \<open>auto simp: dran_def\<close>)

text \<open>A tick is the sequence of the steps of its files.\<close>

lemma Tick_steps: "fst (Tick h fs d) = fold dstep (map (\<lambda>(ti, f). DTick h ti f) fs) d"
proof (induction fs arbitrary: d)
  case (Cons x fs)
  obtain ti f where "x = (ti, f)" by (cases x)
  then show ?case by (simp add: dstep_def split_def Let_def Cons.IH)
qed simp

text \<open>Exactly when a tick of a file starts a run.\<close>

lemma granted_iff:
  "granted (OClaim now out key job) q = Some k \<longleftrightarrow>
     k = key \<and> \<not> q_fault q \<and> key \<noteq> [] \<and> job \<noteq> [] \<and> map_of (q_claims q) key = None \<and> out = Written"
  by (auto simp: Claim_def commit_def Let_def split: commitOut.split)

lemma ran_claim_iff:
  "ran_key (snd (claim_and_run h ti sc f slot d)) = Some key \<longleftrightarrow>
     key = slotKey f slot \<and> ti_runner ti \<noteq> None \<and> (\<exists>q. the_queue d = Some q \<and>
       granted (OClaim (ti_claim ti) (ti_out1 ti) (slotKey f slot) f) q = Some (slotKey f slot))"
  by (cases rule: claim_and_run_cases [of d h ti sc f slot]) (auto simp: ran_key_run_slot)

lemma reaches_claim_unique: "reaches_claim h ti sc f d s \<Longrightarrow> reaches_claim h ti sc f d s' \<Longrightarrow> s = s'"
  by (simp add: reaches_claim_def)

lemma ran_sched_iff:
  "ran_key (snd (tick_sched h ti sc f d)) = Some key \<longleftrightarrow>
     (\<exists>slot. reaches_claim h ti sc f d slot \<and>
       ran_key (snd (claim_and_run h ti sc f slot (d\<lparr>dm_locks := fst (lock_check h ti f (dm_locks d))\<rparr>))) = Some key)"
proof (cases "\<exists>slot. reaches_claim h ti sc f d slot")
  case True
  then obtain slot where r: "reaches_claim h ti sc f d slot" by blast
  have "(\<exists>slot. reaches_claim h ti sc f d slot \<and> P slot) = P slot" for P
    using r reaches_claim_unique [OF r] by blast
  with tick_sched_due [OF r] show ?thesis by simp
next
  case False
  with tick_sched_quiet(1) [OF False] show ?thesis by auto
qed

lemma the_queue_locks [simp]: "the_queue (d\<lparr>dm_locks := ls\<rparr>) = the_queue d"
  by (simp add: the_queue_def split: option.split)

lemma dran_iff:
  "dran (DTick h ti f) d = Some key \<longleftrightarrow>
     (\<exists>pf sc slot q. ho_load h f = Some pf \<and> p_schedule (pf_pipeline pf) = Some sc \<and> IsEnabled (Some sc) \<and>
        reaches_claim h ti sc f d slot \<and> key = slotKey f slot \<and> the_queue d = Some q \<and>
        \<not> q_fault q \<and> f \<noteq> [] \<and> map_of (q_claims q) key = None \<and> ti_out1 ti = Written \<and> ti_runner ti \<noteq> None)"
proof (cases "ho_load h f")
  case None
  then show ?thesis by (simp add: dran_def tick_file_def)
next
  case (Some pf)
  note load = this
  have key: "slotKey f slot \<noteq> []" for slot by (simp add: slotKey_def)
  show ?thesis
  proof (cases "p_schedule (pf_pipeline pf)")
    case None
    with load show ?thesis by (simp add: dran_def tick_file_def)
  next
    case (Some sc)
    with load key show ?thesis
      by (cases "IsEnabled (Some sc)")
        (auto simp: dran_def tick_file_def ran_sched_iff ran_claim_iff granted_iff simp del: granted.simps)
  qed
qed

section \<open>A small instance\<close>

definition demo_sched :: schedule where
  "demo_sched = \<lparr>sc_cron = ''*/2 * * * *'', sc_timezone = [], sc_enabled = None, sc_overlap = [],
     sc_catchUp = True, sc_humanGate = [],
     sc_alerts = \<lparr>al_onWaiting = [], al_onFailure = [], al_webhook = []\<rparr>, sc_gateTimeout = 0,
     sc_onTimeout = []\<rparr>"

definition demo_host :: host where
  "demo_host = \<lparr>ho_load = (\<lambda>f. Some \<lparr>pf_formatVersion = [], pf_pipeline = zero_pipeline\<lparr>p_schedule := Some demo_sched\<rparr>\<rparr>),
     ho_loadLocation = (\<lambda>_. None), ho_local = demo_loc, ho_pid = 7\<rparr>"

definition demo_tick :: "int \<Rightarrow> tickIn" where
  "demo_tick now = \<lparr>ti_now = now, ti_claim = now, ti_release = now + 1, ti_out1 = Written, ti_out2 = Written,
     ti_writes = True, ti_alive = (\<lambda>_. True), ti_runner = Some (\<lambda>f auto. None),
     ti_exists = (\<lambda>_. None), ti_post = (\<lambda>_. NotSent)\<rparr>"

text \<open>The last run was at instant 0.\<close>

definition demo_daemon :: daemon where
  "demo_daemon = \<lparr>dm_queue = None, dm_disk = NoFile,
     dm_states = [(''f'', \<lparr>ss_pipeline = ''f'', ss_cron = ''*/2 * * * *'', ss_nextRun = None, ss_lastRun = Some 0,
       ss_enabled = True, ss_overlap = []\<rparr>)], dm_locks = [], dm_queued = []\<rparr>"

lemma demo_matches:
  "\<not> matches (demo_loc (3 * minute)) [''*/2'', ''*'', ''*'', ''*'', ''*'']"
  "matches (demo_loc (2 * minute)) [''*/2'', ''*'', ''*'', ''*'', ''*'']"
  "matches (demo_loc (4 * minute)) [''*/2'', ''*'', ''*'', ''*'', ''*'']"
  by code_simp+

lemma demo_next_minute: "next_minute (k * minute) = (k + 1) * minute"
  by (simp add: next_minute_def algebra_simps)

lemma demo_next:
  "Next demo_loc ''*/2 * * * *'' minute = Some (2 * minute)"
  "Next demo_loc ''*/2 * * * *'' (2 * minute) = Some (4 * minute)"
  using demo_next_minute [of 1] demo_next_minute [of 2] demo_matches
  by (auto simp: Next_def demo_parts search_Some maxSearch_def less_Suc_eq intro: exI [of _ 0] exI [of _ 1])

lemma demo_reaches: "reaches_claim demo_host (demo_tick (3 * minute)) demo_sched ''f'' demo_daemon (4 * minute)"
  using demo_next minute_pos
  by (simp add: reaches_claim_def NextRunFor_def demo_host_def demo_tick_def demo_sched_def demo_daemon_def
      lock_check_def catch_up_def runningLock_def)

lemma demo_ran: "dran (DTick demo_host (demo_tick (3 * minute)) ''f'') demo_daemon = Some (slotKey ''f'' (4 * minute))"
  unfolding dran_iff using demo_reaches
  by (intro exI [of _ "\<lparr>pf_formatVersion = [], pf_pipeline = zero_pipeline\<lparr>p_schedule := Some demo_sched\<rparr>\<rparr>"]
      exI [of _ demo_sched] exI [of _ "4 * minute"]
      exI [of _ "\<lparr>q_tasks = [], q_claims = [], q_fault = False, q_file = NoFile\<rparr>"])
    (simp add: demo_host_def demo_tick_def demo_daemon_def the_queue_def openQueue_def IsEnabled_def demo_sched_def)

section \<open>Properties\<close>

text \<open>
  C5. A slot of a schedule runs at most once: after a tick, even one whose process was killed
  during the run, started the run of a slot, no sequence of ticks, kills, stops and starts runs
  that slot again, whatever writes of the queue fail, as long as the clock does not go back
  before the claim and no start trims the queue later than 24 hours after it.
\<close>

theorem daemon_slot_once:
  assumes "dran op d = Some key" and "list_all (dmild (claim_time op)) (op # ops)"
  shows "dran op' (fold dstep ops (dstep op d)) \<noteq> Some key"
  using assms by (intro dq.never_granted_again [OF dran_held]) auto

text \<open>
  C18. A tick starts the run of a file exactly when its schedule is on, its next slot after the
  last minute is due or a missed one is caught up, no live run blocks it by the overlap rule,
  the queue can be opened and trusted, the slot was never claimed, the claim was written durably
  and there is a runner.
\<close>

theorem tick_runs_iff:
  "dran (DTick h ti f) d = Some key \<longleftrightarrow>
     (\<exists>pf sc slot q. ho_load h f = Some pf \<and> p_schedule (pf_pipeline pf) = Some sc \<and> IsEnabled (Some sc) \<and>
        reaches_claim h ti sc f d slot \<and> key = slotKey f slot \<and> the_queue d = Some q \<and>
        \<not> q_fault q \<and> f \<noteq> [] \<and> map_of (q_claims q) key = None \<and> ti_out1 ti = Written \<and> ti_runner ti \<noteq> None)"
  by (rule dran_iff)

text \<open>
  Catching up a missed slot uses up a future one: when a tick runs although its slot is not
  due, the key it claims is that of a slot at least five seconds in the future, and no later tick
  runs that slot when it is due.
\<close>

lemma catch_up_takes_future_slot:
  assumes "dran (DTick h ti f) d = Some key"
    and "ho_load h f = Some pf" and "p_schedule (pf_pipeline pf) = Some sc"
    and "NextRunFor (ho_loadLocation h) (ho_local h) (Some sc) (ti_now ti - minute) = Some slot"
    and "\<not> in_window (ti_now ti) slot"
    and "list_all (dmild (ti_claim ti)) (DTick h ti f # ops)"
  shows "key = slotKey f slot \<and> ti_now ti + 5 * second \<le> slot \<and>
    dran op' (fold dstep ops (dstep (DTick h ti f) d)) \<noteq> Some (slotKey f slot)"
proof -
  from assms(1) dran_iff [of h ti f d key] assms(2-4) have k: "key = slotKey f slot"
    by (auto simp: reaches_claim_def)
  moreover have "ti_now ti + 5 * second \<le> slot"
    using assms(5) NextRunFor_after [OF assms(4)] by (simp add: in_window_def)
  moreover have "dran op' (fold dstep ops (dstep (DTick h ti f) d)) \<noteq> Some key"
    using dq.never_granted_again [of "ti_claim ti" key "dstep (DTick h ti f) d" ops op']
      dran_held [OF assms(1)] assms(6) by simp
  ultimately show ?thesis by simp
qed

lemma daemon_slot_once_witness:
  "dran (DTick demo_host (demo_tick (4 * minute)) ''f'')
     (fold dstep [DStop, DStart (3 * minute + 2) NotWritten (5 * minute) Written]
       (dstep (DTick demo_host (demo_tick (3 * minute)) ''f'') demo_daemon)) \<noteq> Some (slotKey ''f'' (4 * minute))"
  by (rule daemon_slot_once [OF demo_ran])
    (simp add: demo_tick_def claimAge_def minute_def second_def)

end
