(* ===== verification/Port_Source.thy ===== *)
theory Port_Source
  imports Plugin_Contract "HOL-Library.Char_ord" "HOL-Library.List_Lexorder"
begin

text \<open>
  The sources of input ports as the validator sees them (internal/pipeline/validator.go): the
  order of formats, the type and format a path delivers, and the candidates it suggests.
\<close>

section \<open>Formats\<close>

definition formatRank :: "string \<Rightarrow> nat option" where
  "formatRank f =
     (if f = [] \<or> f = ''string'' then Some 0
      else if f = ''text'' \<or> f = ''file_ref'' then Some 1
      else if f = ''email'' then Some 2
      else if f = ''url'' then Some 3
      else if f = ''ip'' then Some 4 else None)"

definition formatsCompatible :: "string \<Rightarrow> string \<Rightarrow> bool" where
  "formatsCompatible producer consumer =
     (if consumer = [] \<or> producer = ''any'' then True
      else case (formatRank producer, formatRank consumer) of
        (Some p, Some c) \<Rightarrow> c \<le> p
      | _ \<Rightarrow> producer = consumer)"

text \<open>\<open>None\<close>: the format has no checker.\<close>

definition formatCheckers :: "string \<Rightarrow> (string \<Rightarrow> bool) option" where
  "formatCheckers f =
     (if f = ''email'' then Some emailRe
      else if f = ''url'' then Some (\<lambda>s. hasPrefix s ''http://'' \<or> hasPrefix s ''https://'')
      else if f = ''ip'' then Some (\<lambda>s. ParseIP s \<noteq> None)
      else if f = ''text'' then Some (\<lambda>s. True) else None)"

definition scalarMatchesFormat :: "json \<Rightarrow> string \<Rightarrow> bool" where
  "scalarMatchesFormat lit format =
     (case formatCheckers format of
        None \<Rightarrow> True
      | Some chk \<Rightarrow> (case lit of JStr s \<Rightarrow> chk s | _ \<Rightarrow> False))"

section \<open>Where a path leads\<close>

text \<open>The steps above, with their manifests.\<close>

type_synonym prior = "(string \<times> step \<times> manifest) list"

record srcInfo =
  si_type :: string
  si_format :: string
  si_step :: "step option"
  si_literal :: json

definition src_of :: "string \<Rightarrow> string \<Rightarrow> step option \<Rightarrow> srcInfo" where
  "src_of t f st = \<lparr>si_type = t, si_format = f, si_step = st, si_literal = JNull\<rparr>"

datatype srcErr = TooShort | NoInput | NotAbove | BadShape | NoOutput | BadRoot

definition itemKeyOf :: "string \<Rightarrow> string" where
  "itemKeyOf name = (if name = [] then ''item'' else name)"

definition resolve_input :: "string list \<Rightarrow> pipeline \<Rightarrow> step option \<Rightarrow> srcErr + srcInfo" where
  "resolve_input parts p st =
     (let key = parts ! 1 in
      if (case st of None \<Rightarrow> False
          | Some s \<Rightarrow> st_foreach s \<noteq> [] \<and> key = itemKeyOf (st_foreachItem s))
      then Inr (src_of ''string'' ''text'' None)
      else if key = itemKeyOf (p_foreachItem p) \<and> p_foreach p \<noteq> [] then
        (if length parts > 2 then Inr (src_of ''string'' ''text'' None)
         else Inr (src_of (p_itemType p) (p_itemFormat p) None))
      else case map_of (p_input p) key of
        None \<Rightarrow> Inl NoInput
      | Some v \<Rightarrow>
          if length parts > 2 then Inr (src_of [] [] None)
          else Inr \<lparr>si_type = KindOf v, si_format = [], si_step = None, si_literal = v\<rparr>)"

definition aggregate_of :: "prior \<Rightarrow> string \<Rightarrow> srcErr + srcInfo" where
  "aggregate_of prior sid =
     (case map_of prior (trimSuffix sid ''_all'') of
        None \<Rightarrow> Inl NotAbove
      | Some (st, m) \<Rightarrow> Inr (src_of ''array'' ''any'' (Some st)))"

definition resolve_steps :: "string list \<Rightarrow> prior \<Rightarrow> srcErr + srcInfo" where
  "resolve_steps parts prior =
     (if length parts = 2 \<and> hasSuffix (parts ! 1) ''_all'' then aggregate_of prior (parts ! 1)
      else if length parts < 3 then Inl BadShape
      else let sid = parts ! 1; field = parts ! 2 in
        if hasSuffix sid ''_all'' then aggregate_of prior sid
        else case map_of prior sid of
          None \<Rightarrow> Inl NotAbove
        | Some (st, m) \<Rightarrow>
            if IsBuiltin (st_plugin st) then Inr (src_of [] ''any'' (Some st))
            else case map_of (m_output m) field of
              Some port \<Rightarrow> Inr (src_of (po_type port) (po_format port) (Some st))
            | None \<Rightarrow>
                if hasSuffix field ''_all'' \<and> map_of (m_output m) (trimSuffix field ''_all'') \<noteq> None
                then Inr (src_of ''array'' ''any'' (Some st)) else Inl NoOutput)"

definition resolveSource :: "string \<Rightarrow> prior \<Rightarrow> pipeline \<Rightarrow> step option \<Rightarrow> srcErr + srcInfo" where
  "resolveSource path prior p st =
     (let parts = split_dot path in
      if length parts < 2 then Inl TooShort
      else if parts ! 0 = ''input'' then resolve_input parts p st
      else if parts ! 0 = ''steps'' then resolve_steps parts prior
      else Inl BadRoot)"

section \<open>Candidates\<close>

definition portNameList :: "(string \<times> port) list \<Rightarrow> string list" where
  "portNameList m = sort (map fst m)"

definition inputFieldList :: "pipeline \<Rightarrow> string list" where
  "inputFieldList p = sort (map (\<lambda>(k, v). ''input.'' @ k) (p_input p))"

definition port_fits :: "string \<Rightarrow> string \<Rightarrow> port \<Rightarrow> bool" where
  "port_fits wantType wantFormat p \<longleftrightarrow>
     \<not> (wantType \<noteq> [] \<and> po_type p \<noteq> [] \<and> po_type p \<noteq> wantType) \<and>
     \<not> (wantFormat \<noteq> [] \<and> \<not> formatsCompatible (po_format p) wantFormat)"

definition compatibleOutputs :: "prior \<Rightarrow> string \<Rightarrow> string \<Rightarrow> string list" where
  "compatibleOutputs prior wantType wantFormat =
     concat (map (\<lambda>i. case map_of prior i of
                        None \<Rightarrow> []
                      | Some (st, m) \<Rightarrow>
                          List.map_filter (\<lambda>pn. case map_of (m_output m) pn of
                              None \<Rightarrow> None
                            | Some p \<Rightarrow> if port_fits wantType wantFormat p
                                then Some (''steps.'' @ i @ ''.'' @ pn) else None)
                            (portNameList (m_output m)))
       (sort (map fst prior)))"

definition isContextRef :: "string \<Rightarrow> bool" where
  "isContextRef src \<longleftrightarrow> hasPrefix src ''input.'' \<or> hasPrefix src ''steps.''"

definition cut_dot :: "string \<Rightarrow> string" where
  "cut_dot s = takeWhile (\<lambda>c. c \<noteq> CHR ''.'') s"

definition staticInputKey :: "string \<Rightarrow> string option" where
  "staticInputKey srcPath =
     (if \<not> hasPrefix srcPath ''input.'' then None
      else let key = cut_dot (trimPrefix srcPath ''input.'') in if key = [] then None else Some key)"

definition looksLikeHostPath :: "string \<Rightarrow> bool" where
  "looksLikeHostPath s =
     (if s = [] \<or> containsAny s [CHR ''*'', CHR ''?'', CHR 0x0A] then False
      else let normalized = replaceChar backslash (CHR ''/'') s in
        if hasPrefix normalized ''/'' then True
        else if length s \<ge> 2 \<and> s ! 1 = CHR '':'' then True
        else List.member (split_on (CHR ''/'') normalized) ''..'')"

definition isEmptySourceValue :: "srcInfo \<Rightarrow> bool" where
  "isEmptySourceValue src =
     (case si_literal src of
        JStr s \<Rightarrow> trimSpace s = []
      | JArr xs \<Rightarrow> length xs = 0
      | JObj m \<Rightarrow> length m = 0
      | _ \<Rightarrow> False)"

section \<open>Property\<close>

definition known_formats :: "string list" where
  "known_formats = [[], ''text'', ''email'', ''url'', ''ip'', ''file_ref'']"

text \<open>Pairs of formats that are compatible by rank although the first does not imply the second.\<close>

definition leaky_formats :: "(string \<times> string) list" where
  "leaky_formats = [(''text'', ''file_ref''), (''url'', ''email''), (''ip'', ''email''), (''ip'', ''url'')]"

lemma FormatOK_empty:
  "\<not> FormatOK ''email'' []" "\<not> FormatOK ''url'' []" "\<not> FormatOK ''ip'' []" "\<not> FormatOK ''file_ref'' []"
  by code_simp+

lemma FormatOK_nonempty: "FormatOK f s \<Longrightarrow> f \<in> {''email'', ''url'', ''ip'', ''file_ref''} \<Longrightarrow> s \<noteq> []"
  by (cases s) (auto simp: FormatOK_empty)

lemma FormatOK_leaks:
  "FormatOK ''text'' [] \<and> \<not> FormatOK ''file_ref'' []"
  "FormatOK ''url'' ''http://x'' \<and> \<not> FormatOK ''email'' ''http://x''"
  "FormatOK ''ip'' ''1.2.3.4'' \<and> \<not> FormatOK ''email'' ''1.2.3.4''"
  "FormatOK ''ip'' ''1.2.3.4'' \<and> \<not> FormatOK ''url'' ''1.2.3.4''"
  by code_simp+

lemma FormatOK_free: "FormatOK [] s" "FormatOK ''text'' s"
  by (simp_all add: FormatOK_def)

lemma FormatOK_file: "FormatOK ''file_ref'' s \<longleftrightarrow> s \<noteq> []"
  by (simp add: FormatOK_def)

lemma compat_table:
  "\<forall>p \<in> set known_formats. \<forall>c \<in> set known_formats.
     formatsCompatible p c \<and> c \<noteq> [] \<and> p \<noteq> [] \<and> (p, c) \<notin> set leaky_formats \<longrightarrow>
     c = ''text'' \<or> c = p \<or> c = ''file_ref'' \<and> p \<in> set [''email'', ''url'', ''ip'']"
  by code_simp

text \<open>
  Format compatibility is sound except for four pairs: the validator lets a source of one
  known format feed a port of another only if every string of the first is accepted by the
  contract of the second, or the pair is one of text to file reference, URL to email, IP to
  email and IP to URL, which are all accepted and each let through a string the plugin contract
  refuses.
\<close>

lemma formatsCompatible_sound_except:
  assumes "p \<in> set known_formats" and "c \<in> set known_formats" and "c \<noteq> []"
    and "p \<noteq> []" and "formatsCompatible p c"
  shows "(\<forall>s. FormatOK p s \<longrightarrow> FormatOK c s) \<longleftrightarrow> (p, c) \<notin> set leaky_formats"
proof (cases "(p, c) \<in> set leaky_formats")
  case True
  with FormatOK_leaks show ?thesis by (auto simp: leaky_formats_def)
next
  case False
  with assms compat_table have "c = ''text'' \<or> c = p \<or> c = ''file_ref'' \<and> p \<in> set [''email'', ''url'', ''ip'']"
    by blast
  then have "FormatOK p s \<Longrightarrow> FormatOK c s" for s
    using FormatOK_nonempty [of p s] by (elim disjE conjE) (auto simp: FormatOK_free FormatOK_file)
  with False show ?thesis by blast
qed

end
