(* ===== verification/Cycle_Check.thy ===== *)
theory Cycle_Check
  imports Pipeline_Model
begin

text \<open>
  The cycle check of the validator (\<open>DetectCycle\<close> of internal/pipeline/validator.go): the
  dependencies it reads from the steps, and its depth first search with white, grey and black
  nodes. The maps it walks are lists in the order of the steps.
\<close>

section \<open>Dependencies\<close>

definition bind_dep :: "string \<Rightarrow> string option" where
  "bind_dep v =
     (if hasPrefix v ''steps.'' then
        (let parts = split_dot v in if length parts \<ge> 2 then Some (parts ! 1) else None)
      else None)"

definition form_dep :: "string \<Rightarrow> string option" where
  "form_dep v = map_option (\<lambda>i. trimSuffix i ''_all'') (bind_dep v)"

definition cycle_deps :: "step \<Rightarrow> string list" where
  "cycle_deps st =
     nub (List.map_filter bind_dep (map snd (st_bind st)) @
          List.map_filter (\<lambda>f. form_dep (ff_field f)) (st_form st))"

type_synonym adjacency = "(string \<times> string list) list"

text \<open>\<open>None\<close>: the step depends on itself.\<close>

fun add_deps :: "string list \<Rightarrow> string \<Rightarrow> string list \<Rightarrow> adjacency \<Rightarrow> adjacency option" where
  "add_deps nodes i [] adj = Some adj"
| "add_deps nodes i (dep # deps) adj =
     (if dep = i then None
      else add_deps nodes i deps (if List.member nodes dep then append_at dep i adj else adj))"

datatype cycle_report = SelfCycle string | PathCycle "string list"

fun cycle_adj :: "string list \<Rightarrow> step list \<Rightarrow> adjacency \<Rightarrow> cycle_report + adjacency" where
  "cycle_adj nodes [] adj = Inr adj"
| "cycle_adj nodes (st # sts) adj =
     (case add_deps nodes (st_id st) (cycle_deps st) adj of
        None \<Rightarrow> Inl (SelfCycle (st_id st))
      | Some adj' \<Rightarrow> cycle_adj nodes sts adj')"

section \<open>The search\<close>

text \<open>
  The lists of grey nodes (the stack, top last) and of black nodes. A call that runs out of fuel
  says so; \<open>dfs_spec\<close> shows that the number of nodes is enough.
\<close>

record colours =
  co_stack :: "string list"
  co_black :: "string list"

datatype dfs_out = Found "string list" | Clear colours | NoFuel

definition cycle_path :: "string list \<Rightarrow> string \<Rightarrow> string list" where
  "cycle_path stack v = dropWhile (\<lambda>n. n \<noteq> v) stack @ [v]"

fun dfs :: "(string \<Rightarrow> string list) \<Rightarrow> nat \<Rightarrow> string \<Rightarrow> colours \<Rightarrow> dfs_out"
and dfs_list :: "(string \<Rightarrow> string list) \<Rightarrow> nat \<Rightarrow> string list \<Rightarrow> colours \<Rightarrow> dfs_out" where
  "dfs adj 0 u c = NoFuel"
| "dfs adj (Suc k) u c =
     (case dfs_list adj k (adj u) (c\<lparr>co_stack := co_stack c @ [u]\<rparr>) of
        Clear c' \<Rightarrow> Clear \<lparr>co_stack = butlast (co_stack c'), co_black = u # co_black c'\<rparr>
      | r \<Rightarrow> r)"
| "dfs_list adj k [] c = Clear c"
| "dfs_list adj k (v # vs) c =
     (if List.member (co_black c) v then dfs_list adj k vs c
      else if List.member (co_stack c) v then Found (cycle_path (co_stack c) v)
      else case dfs adj k v c of Clear c' \<Rightarrow> dfs_list adj k vs c' | r \<Rightarrow> r)"

fun dfs_roots :: "(string \<Rightarrow> string list) \<Rightarrow> nat \<Rightarrow> string list \<Rightarrow> colours \<Rightarrow> dfs_out" where
  "dfs_roots adj k [] c = Clear c"
| "dfs_roots adj k (i # is) c =
     (if List.member (co_black c) i \<or> List.member (co_stack c) i then dfs_roots adj k is c
      else case dfs adj k i c of Clear c' \<Rightarrow> dfs_roots adj k is c' | r \<Rightarrow> r)"

definition DetectCycle :: "step list \<Rightarrow> cycle_report option" where
  "DetectCycle steps =
     (let nodes = nub (map st_id steps) in
      case cycle_adj nodes steps (map (\<lambda>n. (n, [])) nodes) of
        Inl r \<Rightarrow> Some r
      | Inr adj \<Rightarrow>
          (case dfs_roots (lookup_list adj) (length nodes) nodes \<lparr>co_stack = [], co_black = []\<rparr> of
             Found path \<Rightarrow> Some (PathCycle path)
           | _ \<Rightarrow> None))"

section \<open>What is a cycle\<close>

text \<open>\<open>(d, s)\<close>: step \<open>s\<close> reads from step \<open>d\<close> of the same pipeline.\<close>

definition reads_from :: "step list \<Rightarrow> (string \<times> string) set" where
  "reads_from steps =
     {(d, i). \<exists>st \<in> set steps. st_id st = i \<and> d \<in> set (cycle_deps st) \<and> d \<in> st_id ` set steps}"

text \<open>A closed walk along the relation, first node repeated at the end.\<close>

definition is_cycle :: "(string \<times> string) set \<Rightarrow> string list \<Rightarrow> bool" where
  "is_cycle R p \<longleftrightarrow> 2 \<le> length p \<and> hd p = last p \<and> successively (\<lambda>a b. (a, b) \<in> R) p"

lemma walk_trancl:
  "successively (\<lambda>a b. (a, b) \<in> R) p \<Longrightarrow> 2 \<le> length p \<Longrightarrow> (hd p, last p) \<in> R\<^sup>+"
proof (induction p rule: induct_list012)
  case (3 a b p)
  then show ?case by (cases p) (auto intro: trancl_into_trancl2)
qed auto

lemma is_cycle_trancl: "is_cycle R p \<Longrightarrow> \<not> acyclic R"
  using walk_trancl by (force simp: is_cycle_def acyclic_def)

section \<open>The search is right\<close>

definition edges :: "(string \<Rightarrow> string list) \<Rightarrow> (string \<times> string) set" where
  "edges adj = {(u, v). v \<in> set (adj u)}"

text \<open>The stack is a path; what is black is closed and on no cycle.\<close>

definition colour_inv :: "(string \<Rightarrow> string list) \<Rightarrow> colours \<Rightarrow> bool" where
  "colour_inv adj c \<longleftrightarrow> distinct (co_stack c) \<and> set (co_stack c) \<inter> set (co_black c) = {} \<and>
     successively (\<lambda>a b. (a, b) \<in> edges adj) (co_stack c) \<and>
     (\<forall>u \<in> set (co_black c). set (adj u) \<subseteq> set (co_black c) \<and> (u, u) \<notin> (edges adj)\<^sup>+)"

definition whites :: "string set \<Rightarrow> colours \<Rightarrow> nat" where
  "whites N c = card (N - set (co_stack c) - set (co_black c))"

lemma black_closed:
  assumes "colour_inv adj c" and "(u, v) \<in> (edges adj)\<^sup>*" and "u \<in> set (co_black c)"
  shows "v \<in> set (co_black c)"
  using assms(2,3) by (induction rule: rtrancl_induct) (use assms(1) in \<open>auto simp: colour_inv_def edges_def\<close>)

lemma cycle_path_is_cycle:
  assumes "colour_inv adj c" and "v \<in> set (co_stack c)" and "(last (co_stack c), v) \<in> edges adj"
  shows "is_cycle (edges adj) (cycle_path (co_stack c) v)"
proof -
  let ?d = "dropWhile (\<lambda>n. n \<noteq> v) (co_stack c)"
  have ne: "?d \<noteq> []" using assms(2) by (auto simp: dropWhile_eq_Nil_conv)
  then have hd: "hd ?d = v" using hd_dropWhile [OF ne] by simp
  have "co_stack c = takeWhile (\<lambda>n. n \<noteq> v) (co_stack c) @ ?d" by simp
  then have last: "last (co_stack c) = last ?d" and
    "successively (\<lambda>a b. (a, b) \<in> edges adj) ?d"
    using ne assms(1) by (metis last_appendR, metis colour_inv_def successively_append_iff)
  moreover have "(last ?d, v) \<in> edges adj" using last assms(3) by simp
  ultimately have "successively (\<lambda>a b. (a, b) \<in> edges adj) (?d @ [v])"
    by (simp only: successively_append_iff) simp
  with ne hd show ?thesis by (cases ?d) (auto simp: is_cycle_def cycle_path_def)
qed

lemma blacken_inv:
  assumes "colour_inv adj c'" and "co_stack c' = S @ [u]" and "set (adj u) \<subseteq> set (co_black c')"
  shows "colour_inv adj \<lparr>co_stack = butlast (co_stack c'), co_black = u # co_black c'\<rparr>"
proof -
  have u: "u \<notin> set (co_black c')" using assms(1,2) by (auto simp: colour_inv_def)
  have "(u, u) \<notin> (edges adj)\<^sup>+"
  proof
    assume "(u, u) \<in> (edges adj)\<^sup>+"
    then obtain v where v: "(u, v) \<in> edges adj" "(v, u) \<in> (edges adj)\<^sup>*" by (meson tranclD)
    then have "v \<in> set (co_black c')" using assms(3) by (auto simp: edges_def)
    with black_closed [OF assms(1) v(2)] u show False by blast
  qed
  with assms show ?thesis by (auto simp: colour_inv_def successively_append_iff)
qed

text \<open>What a search from a node, and from a list of successors of the top, achieves.\<close>

definition dfs_ok :: "(string \<Rightarrow> string list) \<Rightarrow> string set \<Rightarrow> colours \<Rightarrow> dfs_out \<Rightarrow> bool" where
  "dfs_ok adj new c r =
     (case r of
        Found p \<Rightarrow> is_cycle (edges adj) p
      | NoFuel \<Rightarrow> False
      | Clear c' \<Rightarrow> colour_inv adj c' \<and> co_stack c' = co_stack c \<and>
          set (co_black c) \<subseteq> set (co_black c') \<and> new \<subseteq> set (co_black c'))"

lemma whites_push:
  assumes "finite N" and "u \<in> N" and "u \<notin> set (co_stack c)" and "u \<notin> set (co_black c)"
    and "whites N c \<le> Suc k"
  shows "whites N (c\<lparr>co_stack := co_stack c @ [u]\<rparr>) \<le> k"
proof -
  let ?W = "N - set (co_stack c) - set (co_black c)"
  have "N - set (co_stack c @ [u]) - set (co_black c) = ?W - {u}" by auto
  moreover have "card (?W - {u}) < card ?W" using assms by (intro psubset_card_mono) auto
  ultimately show ?thesis using assms(5) by (simp add: whites_def)
qed

lemma whites_mono:
  "finite N \<Longrightarrow> co_stack c' = co_stack c \<Longrightarrow> set (co_black c) \<subseteq> set (co_black c') \<Longrightarrow> whites N c' \<le> whites N c"
  unfolding whites_def by (rule card_mono) auto

lemma dfs_spec:
  assumes N: "finite N"
  shows "\<forall>u \<in> N. set (adj u) \<subseteq> N \<Longrightarrow> u \<in> N \<Longrightarrow> colour_inv adj c \<Longrightarrow> u \<notin> set (co_stack c) \<Longrightarrow> u \<notin> set (co_black c) \<Longrightarrow>
      (co_stack c \<noteq> [] \<longrightarrow> (last (co_stack c), u) \<in> edges adj) \<Longrightarrow> whites N c \<le> k \<Longrightarrow>
      dfs_ok adj {u} c (dfs adj k u c)"
    and "\<forall>u \<in> N. set (adj u) \<subseteq> N \<Longrightarrow> set vs \<subseteq> N \<Longrightarrow> colour_inv adj c \<Longrightarrow> co_stack c \<noteq> [] \<Longrightarrow>
      (\<forall>v \<in> set vs. (last (co_stack c), v) \<in> edges adj) \<Longrightarrow> whites N c \<le> k \<Longrightarrow>
      dfs_ok adj (set vs) c (dfs_list adj k vs c)"
proof (induction adj k u c and adj k vs c rule: dfs_dfs_list.induct)
  case (1 adj u c)
  have "u \<in> N - set (co_stack c) - set (co_black c)" using 1 by auto
  then have "0 < whites N c" using N unfolding whites_def by (simp add: card_gt_0_iff) blast
  with 1 show ?case by simp
next
  case (2 adj k u c)
  let ?c = "c\<lparr>co_stack := co_stack c @ [u]\<rparr>"
  have inv: "colour_inv adj ?c"
    using 2 by (auto simp: colour_inv_def successively_append_iff)
  have sub: "set (adj u) \<subseteq> N" using 2 by blast
  have w: "whites N ?c \<le> k" using 2 whites_push [OF N, of u c k] by blast
  have r: "dfs_ok adj (set (adj u)) ?c (dfs_list adj k (adj u) ?c)"
    using sub inv w "2.prems"(1) by (intro "2.IH") (auto simp: edges_def)
  show ?case
  proof (cases "dfs_list adj k (adj u) ?c")
    case (Clear c')
    with r have "colour_inv adj c'" "co_stack c' = co_stack c @ [u]" "set (adj u) \<subseteq> set (co_black c')"
      "set (co_black c) \<subseteq> set (co_black c')" by (auto simp: dfs_ok_def)
    with blacken_inv [OF this(1-3)] Clear show ?thesis by (auto simp: dfs_ok_def)
  qed (use r in \<open>auto simp: dfs_ok_def\<close>)
next
  case (3 adj k c)
  then show ?case by (simp add: dfs_ok_def)
next
  case (4 adj k v vs c)
  show ?case
  proof (cases "List.member (co_black c) v")
    case True
    with 4 show ?thesis by (auto simp: dfs_ok_def split: dfs_out.splits)
  next
    case nb: False
    show ?thesis
    proof (cases "List.member (co_stack c) v")
      case True
      with nb 4 cycle_path_is_cycle [of adj c v] show ?thesis by (auto simp: dfs_ok_def)
    next
      case False
      then have r: "dfs_ok adj {v} c (dfs adj k v c)" using nb 4 by (intro "4.IH"(2)) auto
      show ?thesis
      proof (cases "dfs adj k v c")
        case (Clear c')
        with r have c': "colour_inv adj c'" "co_stack c' = co_stack c" "set (co_black c) \<subseteq> set (co_black c')"
          "v \<in> set (co_black c')" by (auto simp: dfs_ok_def)
        have "dfs_ok adj (set vs) c' (dfs_list adj k vs c')"
          using nb False Clear 4 c' whites_mono [OF N c'(2,3)] by (intro "4.IH"(3)) auto
        with nb False Clear c' show ?thesis by (auto simp: dfs_ok_def split: dfs_out.splits)
      qed (use r nb False in \<open>auto simp: dfs_ok_def\<close>)
    qed
  qed
qed

lemma dfs_roots_spec:
  assumes N: "finite N" "\<And>u. u \<in> N \<Longrightarrow> set (adj u) \<subseteq> N"
  shows "set is \<subseteq> N \<Longrightarrow> colour_inv adj c \<Longrightarrow> co_stack c = [] \<Longrightarrow> whites N c \<le> k \<Longrightarrow>
    dfs_ok adj (set is) c (dfs_roots adj k is c)"
proof (induction "is" arbitrary: c)
  case Nil
  then show ?case by (simp add: dfs_ok_def)
next
  case (Cons i "is")
  show ?case
  proof (cases "List.member (co_black c) i")
    case True
    with Cons.IH [of c] Cons.prems show ?thesis by (auto simp: dfs_ok_def split: dfs_out.splits)
  next
    case nb: False
    have r: "dfs_ok adj {i} c (dfs adj k i c)"
      using Cons.prems nb N(2) by (intro dfs_spec(1) [OF N(1)]) auto
    show ?thesis
    proof (cases "dfs adj k i c")
      case (Clear c')
      with r have c': "colour_inv adj c'" "co_stack c' = co_stack c" "set (co_black c) \<subseteq> set (co_black c')"
        "i \<in> set (co_black c')" by (auto simp: dfs_ok_def)
      have "dfs_ok adj (set is) c' (dfs_roots adj k is c')"
        using Cons.prems c' whites_mono [OF N(1) c'(2,3)] by (intro Cons.IH) auto
      with nb Clear c' Cons.prems(3) show ?thesis by (auto simp: dfs_ok_def split: dfs_out.splits)
    qed (use r nb Cons.prems(3) in \<open>auto simp: dfs_ok_def\<close>)
  qed
qed

section \<open>The edges it searches\<close>

lemma add_deps_None: "add_deps nodes i deps adj = None \<longleftrightarrow> i \<in> set deps"
  by (induction deps arbitrary: adj) auto

lemma add_deps_Some:
  "add_deps nodes i deps adj = Some adj' \<Longrightarrow>
     set (lookup_list adj' u) = set (lookup_list adj u) \<union> (if u \<in> set deps \<and> u \<in> set nodes then {i} else {})"
proof (induction deps arbitrary: adj)
  case (Cons dep deps)
  from Cons.prems have "add_deps nodes i deps (if List.member nodes dep then append_at dep i adj else adj) = Some adj'"
    by (simp split: if_splits)
  from Cons.IH [OF this] show ?case by auto
qed simp

lemma cycle_adj_spec:
  "case cycle_adj nodes sts adj of
     Inl r \<Rightarrow> (\<exists>st \<in> set sts. st_id st \<in> set (cycle_deps st) \<and> r = SelfCycle (st_id st))
   | Inr adj' \<Rightarrow> \<forall>u. set (lookup_list adj' u) =
       set (lookup_list adj u) \<union> {st_id st | st. st \<in> set sts \<and> u \<in> set (cycle_deps st) \<and> u \<in> set nodes}"
proof (induction sts arbitrary: adj)
  case (Cons st sts)
  show ?case
  proof (cases "add_deps nodes (st_id st) (cycle_deps st) adj")
    case None
    then have "st_id st \<in> set (cycle_deps st)" by (simp add: add_deps_None)
    with None show ?thesis by auto
  next
    case (Some adj1)
    have one: "set (lookup_list adj1 u) = set (lookup_list adj u) \<union>
        (if u \<in> set (cycle_deps st) \<and> u \<in> set nodes then {st_id st} else {})" for u
      by (rule add_deps_Some [OF Some])
    show ?thesis
    proof (cases "cycle_adj nodes sts adj1")
      case (Inl r)
      with Cons.IH [of adj1] Some show ?thesis by auto
    next
      case (Inr adj2)
      with Cons.IH [of adj1] have "set (lookup_list adj2 u) = set (lookup_list adj1 u) \<union>
        {st_id st | st. st \<in> set sts \<and> u \<in> set (cycle_deps st) \<and> u \<in> set nodes}" for u by simp
      with one Some Inr show ?thesis by auto
    qed
  qed
qed simp

lemma lookup_empty_lists [simp]: "lookup_list (map (\<lambda>n. (n, [])) ns) u = []"
  by (induction ns) (auto simp: lookup_list_def)

lemma DetectCycle_cases:
  "case DetectCycle steps of
     None \<Rightarrow> acyclic (reads_from steps)
   | Some (SelfCycle i) \<Rightarrow> (i, i) \<in> reads_from steps
   | Some (PathCycle p) \<Rightarrow> is_cycle (reads_from steps) p"
proof -
  define nodes where "nodes = nub (map st_id steps)"
  define out where "out = cycle_adj nodes steps (map (\<lambda>n. (n, [])) nodes)"
  note spec = cycle_adj_spec [where nodes = nodes and sts = steps and adj = "map (\<lambda>n. (n, [])) nodes", folded out_def]
  show ?thesis
  proof (cases out)
    case (Inl r)
    with spec obtain st where "st \<in> set steps" "st_id st \<in> set (cycle_deps st)" "r = SelfCycle (st_id st)" by auto
    with Inl show ?thesis
      by (auto simp: DetectCycle_def nodes_def [symmetric] out_def [symmetric] reads_from_def)
  next
    case (Inr adj)
    let ?adj = "lookup_list adj" and ?c = "\<lparr>co_stack = [], co_black = []\<rparr>"
    from Inr spec have e: "edges ?adj = reads_from steps"
      by (auto simp: edges_def reads_from_def nodes_def)
    have sub: "set (?adj u) \<subseteq> set nodes" for u
    proof
      fix v
      assume "v \<in> set (?adj u)"
      then have "(u, v) \<in> edges ?adj" by (simp add: edges_def)
      then show "v \<in> set nodes" by (auto simp: e reads_from_def nodes_def)
    qed
    have "dfs_ok ?adj (set nodes) ?c (dfs_roots ?adj (length nodes) nodes ?c)"
      using sub by (intro dfs_roots_spec [where N = "set nodes"])
        (auto simp: colour_inv_def whites_def card_length)
    moreover have "acyclic (reads_from steps)" if "colour_inv ?adj c'" "set nodes \<subseteq> set (co_black c')" for c'
    proof -
      have "(u, u) \<notin> (reads_from steps)\<^sup>+" for u
      proof
        assume u: "(u, u) \<in> (reads_from steps)\<^sup>+"
        then obtain v where "(u, v) \<in> reads_from steps" by (meson tranclD)
        then have "u \<in> set (co_black c')" using that(2) by (auto simp: reads_from_def nodes_def)
        with that(1) u show False by (auto simp: colour_inv_def e)
      qed
      then show ?thesis by (simp add: acyclic_def)
    qed
    ultimately show ?thesis using Inr
      by (auto simp: DetectCycle_def nodes_def [symmetric] out_def [symmetric] dfs_ok_def e Let_def
          split: dfs_out.splits)
  qed
qed

section \<open>Property\<close>

text \<open>
  C8. The cycle check is sound and complete: it reports nothing exactly when no step depends,
  directly or through others, on itself; a reported path is a real cycle of the dependencies
  it reads, and a reported self reference is one.
\<close>

theorem DetectCycle_correct:
  "(DetectCycle steps = None \<longleftrightarrow> acyclic (reads_from steps)) \<and>
   (case DetectCycle steps of
      None \<Rightarrow> True
    | Some (SelfCycle i) \<Rightarrow> (i, i) \<in> reads_from steps
    | Some (PathCycle p) \<Rightarrow> is_cycle (reads_from steps) p)"
  using DetectCycle_cases [of steps] is_cycle_trancl
  by (auto simp: acyclic_def split: option.splits cycle_report.splits)

end
