(* ===== verification/Validator.thy ===== *)
theory Validator
  imports Port_Source Cycle_Check Cron When_Cond
begin

text \<open>
  The validation of a pipeline (internal/pipeline/validate_issues.go, issue.go). An issue has its
  code, severity, step, port, path and machine readable fix; message and hint texts are left out.
  Each group of checks of \<open>ValidateIssues\<close> is a definition that returns the issues it adds, in
  the order of the code.
\<close>

section \<open>Issues\<close>

record fixOp =
  fx_op :: string
  fx_target :: string
  fx_cands :: "string list"

record issue =
  is_code :: string
  is_error :: bool
  is_step :: string
  is_port :: string
  is_path :: string
  is_fix :: "fixOp option"

definition verr :: "string \<Rightarrow> string \<Rightarrow> string \<Rightarrow> string \<Rightarrow> fixOp option \<Rightarrow> issue" where
  "verr code st port path fx =
     \<lparr>is_code = code, is_error = True, is_step = st, is_port = port, is_path = path, is_fix = fx\<rparr>"

definition vwarn :: "string \<Rightarrow> string \<Rightarrow> string \<Rightarrow> string \<Rightarrow> fixOp option \<Rightarrow> issue" where
  "vwarn code st port path fx =
     \<lparr>is_code = code, is_error = False, is_step = st, is_port = port, is_path = path, is_fix = fx\<rparr>"

definition fix_set :: "string \<Rightarrow> string list \<Rightarrow> fixOp option" where
  "fix_set target cands = Some \<lparr>fx_op = ''set'', fx_target = target, fx_cands = cands\<rparr>"

definition fix_bind :: "string \<Rightarrow> string list \<Rightarrow> fixOp option" where
  "fix_bind target cands = Some \<lparr>fx_op = ''bind'', fx_target = target, fx_cands = cands\<rparr>"

definition SplitIssues :: "issue list \<Rightarrow> issue list \<times> issue list" where
  "SplitIssues iss = (filter is_error iss, filter (\<lambda>i. \<not> is_error i) iss)"

definition FilterCode :: "issue list \<Rightarrow> string \<Rightarrow> issue list" where
  "FilterCode iss code = filter (\<lambda>i. is_code i = code) iss"

text \<open>The environment, the plugin engine, the zone database and \<open>url.Parse\<close> (the host).\<close>

record vworld =
  vw_env :: "string \<Rightarrow> string"
  vw_load :: "string \<Rightarrow> manifest option"
  vw_zone :: "string \<Rightarrow> bool"
  vw_url :: "string \<Rightarrow> string option"

definition only_if :: "bool \<Rightarrow> issue \<Rightarrow> issue list" where
  "only_if b i = (if b then [i] else [])"

section \<open>The pipeline\<close>

definition check_version :: "string \<Rightarrow> issue list" where
  "check_version v =
     (if v \<noteq> ''0.1'' \<and> v \<noteq> ''0.2'' then
        (if v \<noteq> [] then
           [vwarn ''E_FORMAT_VERSION'' [] [] ''format_version'' (fix_set ''format_version'' [''0.1'', ''0.2''])]
         else [vwarn ''W_FORMAT_VERSION_MISSING'' [] [] ''format_version'' (fix_set ''format_version'' [''0.2''])])
      else [])"

definition check_env :: "vworld \<Rightarrow> pipeline \<Rightarrow> issue list" where
  "check_env w p =
     concat (map (\<lambda>k. only_if (vw_env w k = []) (vwarn ''W_SECRETS_MISSING_ENV'' [] [] ''pipeline.secrets'' None))
       (p_secrets p))"

definition check_policies :: "pipeline \<Rightarrow> issue list" where
  "check_policies p =
     only_if (DetectCycle (p_steps p) \<noteq> None) (verr ''E_CYCLE'' [] [] ''pipeline.steps'' None) @
     only_if (p_gates p \<noteq> [] \<and> p_gates p \<noteq> ''human_only'' \<and> p_gates p \<noteq> ''any'')
       (verr ''E_GATES_VALUE'' [] [] ''pipeline.gates'' (fix_set ''pipeline.gates'' [''human_only'', ''any''])) @
     only_if (p_network p \<noteq> [] \<and> p_network p \<noteq> ''allow'' \<and> p_network p \<noteq> ''deny'')
       (verr ''E_NETWORK_VALUE'' [] [] ''pipeline.network'' (fix_set ''pipeline.network'' [''allow'', ''deny'']))"

definition isValidCron :: "string \<Rightarrow> bool" where
  "isValidCron cron =
     (let parts = Fields cron in
      if length parts \<noteq> 5 then False else list_all (list_all cron_char) parts)"

definition validateTimezone :: "vworld \<Rightarrow> string \<Rightarrow> bool" where
  "validateTimezone w tz \<longleftrightarrow> tz \<in> {''Local'', ''local'', ''UTC'', ''utc''} \<or> vw_zone w tz"

text \<open>\<open>validateAlerts\<close>: whether it returns no error.\<close>

definition notifier_ok :: "string \<Rightarrow> bool" where
  "notifier_ok v =
     (let trimmed = trimSpace v in
      if trimmed = [] then v = [] else \<not> containsAny trimmed [CHR '' '', CHR 0x09])"

definition validateAlerts :: "vworld \<Rightarrow> scheduleAlerts \<Rightarrow> bool" where
  "validateAlerts w a =
     (if al_webhook a \<noteq> [] \<and>
         (\<not> hasPrefix (al_webhook a) ''http://'' \<and> \<not> hasPrefix (al_webhook a) ''https://'' \<or>
          vw_url w (al_webhook a) = None \<or> vw_url w (al_webhook a) = Some [])
      then False
      else notifier_ok (al_onWaiting a) \<and> notifier_ok (al_onFailure a))"

definition check_schedule :: "vworld \<Rightarrow> schedule \<Rightarrow> issue list" where
  "check_schedule w s =
     (if trimSpace (sc_cron s) = [] then
        [verr ''E_SCHEDULE_CRON'' [] [] ''pipeline.schedule.cron''
           (fix_set ''pipeline.schedule.cron'' [''0 9 * * *'', ''0 * * * *'', ''*/5 * * * *''])]
      else only_if (\<not> isValidCron (sc_cron s))
        (verr ''E_SCHEDULE_CRON'' [] [] ''pipeline.schedule.cron''
           (fix_set ''pipeline.schedule.cron'' [''0 9 * * *'', ''0 * * * *'']))) @
     only_if (sc_timezone s \<noteq> [] \<and> \<not> validateTimezone w (sc_timezone s))
       (verr ''E_SCHEDULE_TIMEZONE'' [] [] ''pipeline.schedule.timezone''
          (fix_set ''pipeline.schedule.timezone'' [''Europe/Minsk'', ''UTC'', ''Local''])) @
     only_if (sc_overlap s \<noteq> [] \<and> sc_overlap s \<noteq> ''skip'' \<and> sc_overlap s \<noteq> ''queue'' \<and> sc_overlap s \<noteq> ''allow'')
       (verr ''E_SCHEDULE_OVERLAP'' [] [] ''pipeline.schedule.overlap''
          (fix_set ''pipeline.schedule.overlap'' [''skip'', ''queue'', ''allow''])) @
     only_if (sc_humanGate s \<noteq> [] \<and> sc_humanGate s \<noteq> ''autoApprove'' \<and> sc_humanGate s \<noteq> ''wait''
         \<and> sc_humanGate s \<noteq> ''auto_approve'')
       (verr ''E_SCHEDULE_HUMAN_GATE'' [] [] ''pipeline.schedule.human_gate''
          (fix_set ''pipeline.schedule.human_gate'' [''autoApprove'', ''wait''])) @
     only_if (\<not> validateAlerts w (sc_alerts s))
       (verr ''E_SCHEDULE_ALERTS'' [] [] ''pipeline.schedule.alerts''
          (fix_set ''pipeline.schedule.alerts.webhook'' [''https://example.com/hook''])) @
     only_if (sc_gateTimeout s < 0)
       (verr ''E_SCHEDULE_ALERTS'' [] [] ''pipeline.schedule.gate_timeout'' None) @
     only_if (sc_onTimeout s \<noteq> [] \<and> sc_onTimeout s \<noteq> ''abort'' \<and> sc_onTimeout s \<noteq> ''auto_approve'')
       (verr ''E_SCHEDULE_ALERTS'' [] [] ''pipeline.schedule.on_timeout''
          (fix_set ''pipeline.schedule.on_timeout'' [''abort'', ''auto_approve'']))"

text \<open>The elements of a literal \<open>foreach\<close> array against \<open>item_type\<close> and \<open>item_format\<close>.\<close>

definition check_item :: "pipeline \<Rightarrow> string \<Rightarrow> nat \<times> json \<Rightarrow> issue list" where
  "check_item p key = (\<lambda>(i, el).
     let path = ''input.'' @ key @ ''['' @ nat_digits i @ '']'' in
     if p_itemType p \<noteq> [] \<and> KindOf el \<noteq> p_itemType p then [vwarn ''W_FOREACH_ITEM_TYPE'' [] [] path None]
     else if p_itemFormat p = [] then []
     else (case el of
         JStr s \<Rightarrow> only_if (\<not> scalarMatchesFormat (JStr s) (p_itemFormat p))
           (vwarn ''W_FOREACH_ITEM_FORMAT'' [] [] path None)
       | _ \<Rightarrow> [vwarn ''W_FOREACH_ITEM_FORMAT'' [] [] path None]))"

definition check_foreach_input :: "pipeline \<Rightarrow> string \<Rightarrow> issue list" where
  "check_foreach_input p key =
     (case map_of (p_input p) key of
        None \<Rightarrow> [verr ''E_FOREACH_NOT_FOUND'' [] [] ''pipeline.foreach''
                   (fix_bind ''pipeline.foreach'' (inputFieldList p))]
      | Some v \<Rightarrow>
          (case v of
             JArr arr \<Rightarrow>
               if int (length arr) > MaxForeachItems
               then [verr ''E_FOREACH_LIMIT'' [] [] (''pipeline.input.'' @ key) None]
               else if p_itemType p \<noteq> [] \<or> p_itemFormat p \<noteq> []
               then concat (map (check_item p key) (enumerate 0 arr)) else []
           | _ \<Rightarrow> []))"

definition check_foreach :: "pipeline \<Rightarrow> issue list" where
  "check_foreach p =
     (if p_foreach p = [] then []
      else if hasPrefix (p_foreach p) ''input.''
      then check_foreach_input p (trimPrefix (p_foreach p) ''input.'')
      else if hasPrefix (p_foreach p) ''steps.'' then
        (let parts = split_dot (p_foreach p) in
         if length parts < 3 then [verr ''E_FOREACH_SHAPE'' [] [] ''pipeline.foreach'' None]
         else only_if (\<not> list_ex (\<lambda>st. st_id st = parts ! 1) (p_steps p))
           (verr ''E_FOREACH_NOT_FOUND'' [] [] ''pipeline.foreach'' None))
      else [verr ''E_FOREACH_PATH'' [] [] ''pipeline.foreach''
              (fix_bind ''pipeline.foreach'' (inputFieldList p))])"

section \<open>A step\<close>

definition at_step :: "step \<Rightarrow> string \<Rightarrow> string" where
  "at_step st rest = ''pipeline.steps.'' @ st_id st @ rest"

definition target :: "step \<Rightarrow> string \<Rightarrow> string" where
  "target st rest = ''steps.'' @ st_id st @ ''.'' @ rest"

definition is_path_ref :: "string \<Rightarrow> bool" where
  "is_path_ref s \<longleftrightarrow> hasPrefix s ''input.'' \<or> hasPrefix s ''steps.''"

text \<open>A \<open>steps.\<close> path must have three parts and lead to a step above.\<close>

definition check_steps_path :: "prior \<Rightarrow> string \<Rightarrow> issue \<Rightarrow> issue \<Rightarrow> issue list" where
  "check_steps_path prior path short missing =
     (let parts = split_dot path in
      if length parts < 3 then [short]
      else only_if (map_of prior (parts ! 1) = None) missing)"

definition check_when :: "prior \<Rightarrow> step \<Rightarrow> issue list" where
  "check_when prior st =
     (if \<not> IsSet (st_when st) then []
      else let w = st_when st; here = at_step st ''.when'' in
        only_if (w_op w \<notin> set WhenOps)
          (verr ''E_WHEN_OP'' (st_id st) [] here (fix_set (target st ''when.op'') WhenOps)) @
        (if \<not> is_path_ref (w_path w) then [verr ''E_WHEN_PATH'' (st_id st) [] here None]
         else if hasPrefix (w_path w) ''steps.''
         then check_steps_path prior (w_path w) (verr ''E_WHEN_PATH'' (st_id st) [] here None)
           (verr ''E_WHEN_FORWARD_REF'' (st_id st) [] here None)
         else []))"

definition check_step_foreach :: "pipeline \<Rightarrow> prior \<Rightarrow> step \<Rightarrow> issue list" where
  "check_step_foreach p prior st =
     (if st_foreach st = [] then []
      else let here = at_step st ''.foreach'' in
        (if \<not> is_path_ref (st_foreach st) then [verr ''E_STEP_FOREACH_PATH'' (st_id st) [] here None]
         else if hasPrefix (st_foreach st) ''steps.''
         then check_steps_path prior (st_foreach st) (verr ''E_STEP_FOREACH_SHAPE'' (st_id st) [] here None)
           (verr ''E_STEP_FOREACH_NOT_FOUND'' (st_id st) [] here None)
         else let key = trimPrefix (st_foreach st) ''input.'' in
           only_if (CHR ''.'' \<notin> set key \<and> map_of (p_input p) key = None)
             (verr ''E_STEP_FOREACH_NOT_FOUND'' (st_id st) [] here
                (fix_bind (target st ''foreach'') (inputFieldList p)))) @
        only_if (st_afterForeach st) (verr ''E_FOREACH_COMBO'' (st_id st) [] (at_step st []) None) @
        only_if (st_parallelGroup st \<noteq> []) (verr ''E_FOREACH_COMBO'' (st_id st) [] (at_step st []) None) @
        only_if (st_foreachItem st \<noteq> [] \<and> containsAny (st_foreachItem st) [CHR ''.'', CHR '' '', CHR 0x09, CHR 0x22, CHR 0x27])
          (verr ''E_FOREACH_ITEM_NAME'' (st_id st) [] (at_step st ''.foreach_item'') None) @
        only_if (IsHumanGate (st_plugin st)) (verr ''E_GATE_FOREACH'' (st_id st) [] (at_step st []) None))"

definition check_limits :: "step \<Rightarrow> issue list" where
  "check_limits st =
     only_if (st_parallelGroup st \<noteq> [] \<and> IsHumanGate (st_plugin st))
       (verr ''E_GATE_PARALLEL'' (st_id st) [] (at_step st []) None) @
     only_if (st_onError st \<notin> {'''', ''stop'', ''skip'', ''retry''})
       (verr ''E_ON_ERROR'' (st_id st) [] (at_step st ''.on_error'')
          (fix_set (target st ''on_error'') [''stop'', ''skip'', ''retry''])) @
     (case st_retry st of
        None \<Rightarrow> []
      | Some r \<Rightarrow>
          only_if (st_onError st = ''retry'' \<and> r_attempts r < 1)
            (verr ''E_RETRY_ATTEMPTS'' (st_id st) [] (at_step st ''.retry.attempts'') None) @
          only_if (st_onError st = ''retry'' \<and> r_attempts r > MaxRetryAttempts)
            (verr ''E_RETRY_LIMIT'' (st_id st) [] (at_step st ''.retry.attempts'')
               (fix_set (target st ''retry.attempts'') [''1'', ''3'', ''5'']))) @
     only_if (st_timeout st < 0 \<or> st_timeout st > MaxStepTimeout)
       (verr ''E_TIMEOUT_LIMIT'' (st_id st) [] (at_step st ''.timeout'') None) @
     only_if (st_approval st \<notin> {'''', ''human'', ''any''})
       (verr ''E_APPROVAL_VALUE'' (st_id st) [] (at_step st ''.approval'')
          (fix_set (target st ''approval'') [''human'', ''any'']))"

section \<open>Bindings and ports\<close>

definition check_bind_ports :: "manifest \<Rightarrow> step \<Rightarrow> issue list" where
  "check_bind_ports m st =
     concat (map (\<lambda>(b, src). only_if (map_of (m_input m) b = None)
         (verr ''E_BIND_UNKNOWN_PORT'' (st_id st) b (at_step st (''.bind.'' @ b))
            (fix_bind (target st b) (portNameList (m_input m))))) (st_bind st))"

definition check_bind_sources :: "step \<Rightarrow> issue list" where
  "check_bind_sources st =
     concat (map (\<lambda>(b, src). only_if (\<not> isContextRef src)
         (verr ''E_BIND_SOURCE_INVALID'' (st_id st) b (at_step st (''.bind.'' @ b)) None)) (st_bind st))"

definition warnHostPathInBind :: "pipeline \<Rightarrow> step \<Rightarrow> manifest \<Rightarrow> issue list" where
  "warnHostPathInBind p st m =
     (if m_filesystem m = ''readwrite'' then []
      else concat (map (\<lambda>(b, src).
        (case map_of (m_input m) b of
           None \<Rightarrow> []
         | Some port \<Rightarrow>
             (case staticInputKey (PortSource b port st) of
                None \<Rightarrow> []
              | Some key \<Rightarrow>
                  (case map_of (p_input p) key of
                     Some (JStr s) \<Rightarrow> only_if (looksLikeHostPath s)
                       (vwarn ''W_FILESYSTEM_HOST_PATH'' (st_id st) b (''pipeline.input.'' @ key) None)
                   | _ \<Rightarrow> [])))) (st_bind st)))"

definition check_network :: "pipeline \<Rightarrow> step \<Rightarrow> manifest \<Rightarrow> issue list" where
  "check_network p st m =
     (if length (m_network m) = 0 then []
      else if EffectiveNetwork p = ''deny'' then [verr ''E_NETWORK_DENIED'' (st_id st) [] (at_step st []) None]
      else if EffectiveNetwork p = ''allow'' \<and> NetworkHasStructuredDeclarations m
      then [verr ''E_NETWORK_NOT_ENFORCEABLE'' (st_id st) [] (at_step st []) None]
      else [vwarn ''W_NETWORK_DECLARED'' (st_id st) [] (at_step st []) None])"

definition unbound :: "prior \<Rightarrow> pipeline \<Rightarrow> step \<Rightarrow> string \<Rightarrow> port \<Rightarrow> issue" where
  "unbound prior p st name port =
     verr ''E_PORT_UNBOUND'' (st_id st) name (at_step st (''.bind.'' @ name))
       (fix_bind (target st name) (compatibleOutputs prior (po_type port) (po_format port) @ inputFieldList p))"

definition unresolved :: "prior \<Rightarrow> pipeline \<Rightarrow> step \<Rightarrow> string \<Rightarrow> port \<Rightarrow> string \<Rightarrow> issue" where
  "unresolved prior p st name port path =
     (if po_optional port then vwarn ''W_PORT_OPTIONAL_SOURCE'' (st_id st) name path None
      else verr ''E_PORT_SOURCE'' (st_id st) name path
        (fix_bind (target st name) (inputFieldList p @ compatibleOutputs prior (po_type port) (po_format port))))"

definition check_type :: "prior \<Rightarrow> step \<Rightarrow> string \<Rightarrow> port \<Rightarrow> string \<Rightarrow> srcInfo \<Rightarrow> issue list" where
  "check_type prior st name port path src =
     only_if (si_type src \<noteq> [] \<and> po_type port \<noteq> [] \<and> si_type src \<noteq> po_type port)
       (verr ''E_TYPE_MISMATCH'' (st_id st) name path
          (fix_bind (target st name) (compatibleOutputs prior (po_type port) (po_format port))))"

definition check_format :: "prior \<Rightarrow> step \<Rightarrow> string \<Rightarrow> port \<Rightarrow> string \<Rightarrow> srcInfo \<Rightarrow> issue list" where
  "check_format prior st name port path src =
     (case si_literal src of
        JStr s \<Rightarrow>
          if po_format port \<noteq> []
          then only_if (\<not> scalarMatchesFormat (JStr s) (po_format port))
            (verr ''E_FORMAT_INPUT'' (st_id st) name path None)
          else []
      | _ \<Rightarrow>
          only_if (\<not> formatsCompatible (si_format src) (po_format port))
            (verr ''E_FORMAT_MISMATCH'' (st_id st) name path
               (fix_bind (target st name) (compatibleOutputs prior (po_type port) (po_format port)))))"

text \<open>One input port of a plugin.\<close>

definition check_port :: "prior \<Rightarrow> pipeline \<Rightarrow> step \<Rightarrow> string \<times> port \<Rightarrow> issue list" where
  "check_port prior p st = (\<lambda>(name, port).
     let path = PortSource name port st in
     if path = [] then
       [if po_optional port
        then vwarn ''W_PORT_OPTIONAL_UNBOUND'' (st_id st) name (at_step st (''.bind.'' @ name)) None
        else unbound prior p st name port]
     else case resolveSource path prior p (Some st) of
       Inl e \<Rightarrow> [unresolved prior p st name port path]
     | Inr src \<Rightarrow>
         only_if (\<not> po_optional port \<and> isEmptySourceValue src)
           (vwarn ''W_PORT_EMPTY_SOURCE'' (st_id st) name path None) @
         check_type prior st name port path src @
         check_format prior st name port path src @
         (case si_step src of
            None \<Rightarrow> []
          | Some s \<Rightarrow> only_if (st_onError s = ''skip'' \<and> \<not> po_optional port)
              (verr ''E_OPTIONAL_REQUIRED'' (st_id st) name path
                 (fix_set (target st (name @ ''.optional'')) [''true'']))))"

text \<open>A port of the built-in text statistics: an unbound optional port is not reported.\<close>

definition check_stats_port :: "prior \<Rightarrow> pipeline \<Rightarrow> step \<Rightarrow> string \<times> port \<Rightarrow> issue list" where
  "check_stats_port prior p st = (\<lambda>(name, port).
     let path = PortSource name port st in
     if path = [] then (if po_optional port then [] else [unbound prior p st name port])
     else case resolveSource path prior p (Some st) of
       Inl e \<Rightarrow> [unresolved prior p st name port path]
     | Inr src \<Rightarrow> check_type prior st name port path src)"

section \<open>The three kinds of steps\<close>

definition form_collisions :: "step \<Rightarrow> issue list" where
  "form_collisions st =
     (let bns = map (\<lambda>f. Basename (ff_field f)) (st_form st) in
      concat (map (\<lambda>bn. only_if (count_list bns bn > 1)
        (vwarn ''W_GATE_FORM_COLLISION'' (st_id st) [] (at_step st ''.form'') None)) (nub bns)))"

definition check_form_field :: "prior \<Rightarrow> pipeline \<Rightarrow> step \<Rightarrow> formField \<Rightarrow> issue list" where
  "check_form_field prior p st f =
     (case resolveSource (ff_field f) prior p None of
        Inl e \<Rightarrow> [vwarn ''W_GATE_FORM_MISSING'' (st_id st) [] (ff_field f) None]
      | Inr src \<Rightarrow>
          (case si_step src of
             None \<Rightarrow> []
           | Some s \<Rightarrow> only_if (st_onError s = ''skip'')
               (vwarn ''W_GATE_FORM_SKIP'' (st_id st) [] (ff_field f) None)))"

definition check_gate :: "prior \<Rightarrow> pipeline \<Rightarrow> step \<Rightarrow> issue list" where
  "check_gate prior p st =
     only_if (length (st_bind st) > 0) (verr ''E_GATE_BIND'' (st_id st) [] (at_step st ''.bind'') None) @
     only_if (st_onReject st \<notin> {'''', ''stop'', ''continue''})
       (verr ''E_ON_REJECT'' (st_id st) [] (at_step st ''.on_reject'')
          (fix_set (target st ''on_reject'') [''stop'', ''continue''])) @
     concat (map (\<lambda>a. only_if (a \<noteq> ''accept'' \<and> a \<noteq> ''reject'')
       (verr ''E_GATE_ACTIONS'' (st_id st) [] (at_step st ''.actions'')
          (fix_set (target st ''actions'') [''accept'', ''reject'']))) (st_actions st)) @
     form_collisions st @
     concat (map (check_form_field prior p st) (st_form st))"

definition gate_manifest :: manifest where
  "gate_manifest = zero_manifest\<lparr>m_id := ''core/human_gate''\<rparr>"

definition out_port :: "string \<Rightarrow> string \<Rightarrow> port" where
  "out_port t f = \<lparr>po_from = [], po_type = t, po_format = f, po_optional = False\<rparr>"

definition stats_manifest :: manifest where
  "stats_manifest = zero_manifest\<lparr>m_id := ''core/text_stats'',
     m_input := [(''text'', \<lparr>po_from = ''input.text'', po_type = ''string'', po_format = ''text'', po_optional = True\<rparr>)],
     m_output := [(''lines'', out_port ''number'' []), (''words'', out_port ''number'' []),
       (''unique_words'', out_port ''number'' []), (''longest_word'', out_port ''string'' ''text'')]\<rparr>"

definition check_stats :: "prior \<Rightarrow> pipeline \<Rightarrow> step \<Rightarrow> issue list" where
  "check_stats prior p st =
     check_bind_ports stats_manifest st @ check_bind_sources st @
     concat (map (check_stats_port prior p st) (m_input stats_manifest))"

definition check_plugin :: "prior \<Rightarrow> pipeline \<Rightarrow> step \<Rightarrow> manifest \<Rightarrow> issue list" where
  "check_plugin prior p st m =
     check_bind_ports m st @ check_bind_sources st @ warnHostPathInBind p st m @ check_network p st m @
     concat (map (check_port prior p st) (m_input m))"

text \<open>
  One step with the ids seen and the steps above: its issues, and what the next step sees. A
  step without id, of an unknown built-in module or without manifest is not added.
\<close>

definition step_head :: "pipeline \<Rightarrow> prior \<Rightarrow> step \<Rightarrow> issue list" where
  "step_head p prior st = check_when prior st @ check_step_foreach p prior st @ check_limits st"

definition plugin_load_error :: "step \<Rightarrow> issue" where
  "plugin_load_error st = verr ''E_PLUGIN_LOAD'' (st_id st) [] (at_step st ''.plugin'') None"

text \<open>The issues of a step with an id, and the manifest under which later steps see it.\<close>

definition check_body :: "vworld \<Rightarrow> pipeline \<Rightarrow> step \<Rightarrow> prior \<Rightarrow> issue list \<times> manifest option" where
  "check_body w p st prior =
     (if \<not> IsBuiltin (st_plugin st) \<and> IsBuiltinNamespace (st_plugin st)
      then ([plugin_load_error st], None)
      else if IsHumanGate (st_plugin st)
      then (step_head p prior st @ check_gate prior p st, Some gate_manifest)
      else if st_plugin st = ''core/text_stats''
      then (step_head p prior st @ check_stats prior p st, Some stats_manifest)
      else case vw_load w (st_plugin st) of
        None \<Rightarrow> (step_head p prior st @ [plugin_load_error st], None)
      | Some m \<Rightarrow> (step_head p prior st @ check_plugin prior p st m, Some m))"

fun check_steps :: "vworld \<Rightarrow> pipeline \<Rightarrow> nat \<Rightarrow> step list \<Rightarrow> string list \<Rightarrow> prior \<Rightarrow> issue list \<times> prior" where
  "check_steps w p i [] seen prior = ([], prior)"
| "check_steps w p i (st # sts) seen prior =
     (if st_id st = [] then
        (let (rest, prior') = check_steps w p (i + 1) sts seen prior
         in (verr ''E_STEP_ID_EMPTY'' [] [] (''pipeline.steps['' @ nat_digits i @ '']'') None # rest, prior'))
      else
        (let (iss, mo) = check_body w p st prior;
             above = (case mo of None \<Rightarrow> prior | Some m \<Rightarrow> AList.update (st_id st) (st, m) prior);
             (rest, prior') = check_steps w p (i + 1) sts (st_id st # seen) above
         in (only_if (List.member seen (st_id st)) (verr ''E_STEP_ID_DUP'' (st_id st) [] (at_step st []) None) @
             iss @ rest, prior')))"

section \<open>Groups and secrets\<close>

fun check_group_order :: "nat \<Rightarrow> (string \<Rightarrow> nat option) \<Rightarrow> step list \<Rightarrow> issue list" where
  "check_group_order i lst [] = []"
| "check_group_order i lst (st # sts) =
     (let g = st_parallelGroup st in
      if g = [] then check_group_order (i + 1) lst sts
      else only_if (case lst g of None \<Rightarrow> False | Some l \<Rightarrow> i \<noteq> l + 1)
             (verr ''E_PARALLEL_SPLIT'' (st_id st) [] (at_step st ''.parallel_group'') None) @
           check_group_order (i + 1) (lst(g \<mapsto> i)) sts)"

definition check_groups :: "step list \<Rightarrow> issue list" where
  "check_groups sts =
     (let gs = filter (\<lambda>g. g \<noteq> []) (map st_parallelGroup sts) in
      check_group_order 0 (\<lambda>_. None) sts @
      concat (map (\<lambda>g. let n = count_list gs g; path = ''pipeline.parallel_group.'' @ g in
        only_if (n = 1) (vwarn ''W_PARALLEL_SINGLE'' [] [] path None) @
        only_if (int n > MaxParallelWidth) (verr ''E_PARALLEL_LIMIT'' [] [] path None)) (nub gs)))"

definition check_secrets :: "pipeline \<Rightarrow> prior \<Rightarrow> issue list" where
  "check_secrets p prior =
     (let used = nub (concat (map (\<lambda>(i, st, m). m_secrets m) prior));
          undeclared = sort (filter (\<lambda>s. \<not> List.member (p_secrets p) s) used)
      in concat (map (\<lambda>k. only_if (\<not> List.member used k)
           (vwarn ''W_SECRETS_UNUSED'' [] [] (''pipeline.secrets.'' @ k) None)) (p_secrets p)) @
         map (\<lambda>s. vwarn ''W_SECRETS_UNDECLARED'' [] [] ''pipeline.secrets''
           (Some \<lparr>fx_op = ''declare'', fx_target = ''pipeline.secrets'', fx_cands = undeclared\<rparr>)) undeclared)"

section \<open>The whole validation\<close>

definition ValidateIssues :: "vworld \<Rightarrow> pipelineFile \<Rightarrow> issue list" where
  "ValidateIssues w pf =
     (let p = pf_pipeline pf;
          (steps_iss, prior) = check_steps w p 0 (p_steps p) [] []
      in check_version (pf_formatVersion pf) @ check_env w p @ check_policies p @
         (case p_schedule p of None \<Rightarrow> [] | Some s \<Rightarrow> check_schedule w s) @
         check_foreach p @ steps_iss @ check_groups (p_steps p) @ check_secrets p prior)"

definition Validate :: "vworld \<Rightarrow> pipelineFile \<Rightarrow> issue list \<times> issue list" where
  "Validate w pf = SplitIssues (ValidateIssues w pf)"

text \<open>No issue blocks the run.\<close>

definition no_errors :: "issue list \<Rightarrow> bool" where
  "no_errors iss = list_all (\<lambda>i. \<not> is_error i) iss"

definition valid :: "vworld \<Rightarrow> pipelineFile \<Rightarrow> bool" where
  "valid w pf = no_errors (ValidateIssues w pf)"

end
