(* ===== verification/Valid_Run.thy ===== *)
theory Valid_Run
  imports Validator Run_Pipeline Parallel_Run
begin

text \<open>
  What a pipeline without validation errors guarantees to the engine that runs it: the static
  checks of internal/pipeline/validate_issues.go against internal/execution.
\<close>

section \<open>Reading off the absence of errors\<close>

named_theorems noerr \<open>the absence of errors in the parts of the validation\<close>

lemma no_errors_append [noerr]: "no_errors (a @ b) \<longleftrightarrow> no_errors a \<and> no_errors b"
  by (simp add: no_errors_def)

lemma no_errors_Nil [noerr]: "no_errors []" by (simp add: no_errors_def)

lemma no_errors_Cons [noerr]: "no_errors (i # iss) \<longleftrightarrow> \<not> is_error i \<and> no_errors iss"
  by (simp add: no_errors_def)

lemma no_errors_only_if [noerr]: "no_errors (only_if b i) \<longleftrightarrow> (b \<longrightarrow> \<not> is_error i)"
  by (simp add: no_errors_def only_if_def)

lemma no_errors_concat [noerr]: "no_errors (concat (map f xs)) \<longleftrightarrow> (\<forall>x \<in> set xs. no_errors (f x))"
  by (auto simp: no_errors_def list_all_iff)

lemma is_error_verr [noerr]: "is_error (verr c s p q f)" by (simp add: verr_def)

lemma is_error_vwarn [noerr]: "\<not> is_error (vwarn c s p q f)" by (simp add: vwarn_def)

lemma check_steps_empty [noerr]: "check_steps w p i [] seen prior = ([], prior)" by simp

lemma no_errors_check_steps_Cons:
  "no_errors (fst (check_steps w p i (st # sts) seen prior)) \<longleftrightarrow>
     st_id st \<noteq> [] \<and> st_id st \<notin> set seen \<and> no_errors (fst (check_body w p st prior)) \<and>
     no_errors (fst (check_steps w p (i + 1) sts (st_id st # seen)
       (case snd (check_body w p st prior) of None \<Rightarrow> prior | Some m \<Rightarrow> AList.update (st_id st) (st, m) prior)))"
  by (auto simp: noerr split_def Let_def)

text \<open>What the validation of a step in the middle of the list has checked.\<close>

lemma check_steps_at:
  assumes "no_errors (fst (check_steps w p i (pre @ st # post) seen prior))"
  obtains prior' where "st_id st \<noteq> []" and "st_id st \<notin> set seen \<union> st_id ` set pre"
    and "no_errors (fst (check_body w p st prior'))"
    and "\<And>k s m. map_of prior' k = Some (s, m) \<Longrightarrow> map_of prior k = Some (s, m) \<or> s \<in> set pre \<and> st_id s = k"
proof -
  have "\<exists>prior'. st_id st \<noteq> [] \<and> st_id st \<notin> set seen \<union> st_id ` set pre \<and>
    no_errors (fst (check_body w p st prior')) \<and>
    (\<forall>k s m. map_of prior' k = Some (s, m) \<longrightarrow> map_of prior k = Some (s, m) \<or> s \<in> set pre \<and> st_id s = k)"
    using assms
  proof (induction pre arbitrary: i seen prior)
    case Nil
    then show ?case by (auto simp del: check_steps.simps simp: no_errors_check_steps_Cons)
  next
    case (Cons x pre)
    let ?prior = "case snd (check_body w p x prior) of None \<Rightarrow> prior | Some m \<Rightarrow> AList.update (st_id x) (x, m) prior"
    from Cons.prems have "no_errors (fst (check_steps w p (i + 1) (pre @ st # post) (st_id x # seen) ?prior))"
      by (simp del: check_steps.simps add: no_errors_check_steps_Cons)
    from Cons.IH [OF this] obtain prior' where p': "st_id st \<noteq> []"
      "st_id st \<notin> set (st_id x # seen) \<union> st_id ` set pre" "no_errors (fst (check_body w p st prior'))"
      "\<forall>k s m. map_of prior' k = Some (s, m) \<longrightarrow> map_of ?prior k = Some (s, m) \<or> s \<in> set pre \<and> st_id s = k"
      by blast
    have "map_of ?prior k = Some (s, m) \<Longrightarrow> map_of prior k = Some (s, m) \<or> s = x \<and> st_id s = k" for k s m
      by (auto simp: AList.update_conv split: option.splits if_splits)
    then have "\<forall>k s m. map_of prior' k = Some (s, m) \<longrightarrow>
        map_of prior k = Some (s, m) \<or> s \<in> set (x # pre) \<and> st_id s = k"
      using p'(4) by (metis list.set_intros)
    with p'(1-3) show ?case by (intro exI [of _ prior']) auto
  qed
  with that show thesis by blast
qed

lemma valid_at:
  assumes "valid w pf" and "p_steps (pf_pipeline pf) = pre @ st # post"
  obtains prior where "st_id st \<noteq> []" and "st_id st \<notin> st_id ` set pre"
    and "no_errors (fst (check_body w (pf_pipeline pf) st prior))"
    and "\<And>k s m. map_of prior k = Some (s, m) \<Longrightarrow> s \<in> set pre \<and> st_id s = k"
proof -
  have "no_errors (fst (check_steps w (pf_pipeline pf) 0 (pre @ st # post) [] []))"
    using assms by (simp add: valid_def ValidateIssues_def Let_def split_def noerr del: check_steps.simps)
  from check_steps_at [OF this] obtain prior where "st_id st \<noteq> []" "st_id st \<notin> set [] \<union> st_id ` set pre"
    "no_errors (fst (check_body w (pf_pipeline pf) st prior))"
    "\<And>k s m. map_of prior k = Some (s, m) \<Longrightarrow> map_of [] k = Some (s, m) \<or> s \<in> set pre \<and> st_id s = k"
    by blast
  with that [of prior] show thesis by auto
qed

lemma valid_policies: "valid w pf \<Longrightarrow> no_errors (check_policies (pf_pipeline pf))"
  by (simp add: valid_def ValidateIssues_def Let_def split_def noerr)

lemma valid_groups: "valid w pf \<Longrightarrow> no_errors (check_groups (p_steps (pf_pipeline pf)))"
  by (simp add: valid_def ValidateIssues_def Let_def split_def noerr)

text \<open>What the body of a step was found to be.\<close>

lemma body_known: "no_errors (fst (check_body w p st prior)) \<Longrightarrow>
    IsBuiltin (st_plugin st) \<or> \<not> IsBuiltinNamespace (st_plugin st)"
  by (auto simp: check_body_def plugin_load_error_def noerr split: if_splits)

lemma body_head:
  "no_errors (fst (check_body w p st prior)) \<Longrightarrow> no_errors (step_head p prior st)"
  by (auto simp: check_body_def plugin_load_error_def noerr split: if_splits option.splits)

lemma stats_builtin: "IsBuiltin ''core/text_stats''" by code_simp

lemma gate_builtin: "IsHumanGate ref \<Longrightarrow> IsBuiltin ref"
  by (auto simp: IsHumanGate_def IsBuiltin_def split: option.splits)

lemma body_plugin:
  assumes "no_errors (fst (check_body w p st prior))" and "\<not> IsBuiltin (st_plugin st)"
  obtains m where "vw_load w (st_plugin st) = Some m" and "no_errors (check_plugin prior p st m)"
  using assms stats_builtin gate_builtin [of "st_plugin st"]
  by (auto simp: check_body_def plugin_load_error_def noerr split: if_splits option.splits)

lemma network_ok:
  assumes "no_errors (check_plugin prior p st m)" and "p_network p \<in> {'''', ''allow'', ''deny''}"
  shows "(EffectiveNetwork p = ''deny'' \<longrightarrow> m_network m = []) \<and>
    (EffectiveNetwork p = ''allow'' \<longrightarrow> \<not> NetworkHasStructuredDeclarations m)"
  using assms
  by (auto simp: check_plugin_def check_network_def noerr NetworkHasStructuredDeclarations_def split: if_splits)

section \<open>The checks at the start of a run\<close>

lemma check_deny_pass:
  "\<forall>st \<in> set sts. IsBuiltin (st_plugin st) \<or> \<not> IsBuiltinNamespace (st_plugin st) \<and>
     (\<forall>m. w_load w (st_plugin st) = Some m \<longrightarrow> m_network m = []) \<Longrightarrow> check_deny w sts = None"
  by (induction sts) (auto split: option.splits)

lemma check_allow_pass:
  "\<forall>st \<in> set sts. IsBuiltin (st_plugin st) \<or>
     (\<forall>m. w_load w (st_plugin st) = Some m \<longrightarrow> \<not> NetworkHasStructuredDeclarations m) \<Longrightarrow>
   check_allow w sts = None"
  by (induction sts) (auto split: option.splits)

lemma valid_network: "valid w pf \<Longrightarrow> p_network (pf_pipeline pf) \<in> {'''', ''allow'', ''deny''}"
  using valid_policies [of w pf] by (auto simp: check_policies_def noerr)

lemma valid_step_network:
  assumes v: "valid vw pf" and "st \<in> set (p_steps (pf_pipeline pf))" and nb: "\<not> IsBuiltin (st_plugin st)"
  obtains m where "vw_load vw (st_plugin st) = Some m" and "\<not> IsBuiltinNamespace (st_plugin st)"
    and "EffectiveNetwork (pf_pipeline pf) = ''deny'' \<longrightarrow> m_network m = []"
    and "EffectiveNetwork (pf_pipeline pf) = ''allow'' \<longrightarrow> \<not> NetworkHasStructuredDeclarations m"
proof -
  from assms(2) obtain pre post where split: "p_steps (pf_pipeline pf) = pre @ st # post"
    by (meson split_list)
  from valid_at [OF v split] obtain prior where b: "no_errors (fst (check_body vw (pf_pipeline pf) st prior))"
    by metis
  from body_plugin [OF b nb] obtain m where "vw_load vw (st_plugin st) = Some m"
    "no_errors (check_plugin prior (pf_pipeline pf) st m)" by blast
  with that [of m] body_known [OF b] nb network_ok valid_network [OF v] show thesis by blast
qed

section \<open>Ids and limits\<close>

lemma distinct_map_splits:
  "(\<And>pre x post. xs = pre @ x # post \<Longrightarrow> f x \<notin> f ` set pre) \<Longrightarrow> distinct (map f xs)"
proof (induction xs rule: rev_induct)
  case (snoc x xs)
  have "distinct (map f xs)"
    by (rule snoc.IH) (use snoc.prems in \<open>metis append.assoc append_Cons\<close>)
  with snoc.prems [of xs x "[]"] show ?case by auto
qed simp

definition step_limits :: "step \<Rightarrow> bool" where
  "step_limits st \<longleftrightarrow> 0 \<le> st_timeout st \<and> st_timeout st \<le> MaxStepTimeout \<and>
     st_onError st \<in> {'''', ''stop'', ''skip'', ''retry''} \<and>
     (case st_retry st of None \<Rightarrow> True
      | Some r \<Rightarrow> st_onError st = ''retry'' \<longrightarrow> 1 \<le> r_attempts r \<and> r_attempts r \<le> MaxRetryAttempts)"

lemma check_limits_ok: "no_errors (check_limits st) \<Longrightarrow> step_limits st"
  by (auto simp: check_limits_def step_limits_def noerr split: option.splits)

lemma valid_step_limits:
  assumes v: "valid vw pf" and "st \<in> set (p_steps (pf_pipeline pf))"
    and load: "IsBuiltin (st_plugin st) \<or> \<not> IsBuiltinNamespace (st_plugin st)"
  shows "step_limits st"
proof -
  from assms(2) obtain pre post where split: "p_steps (pf_pipeline pf) = pre @ st # post"
    by (meson split_list)
  from valid_at [OF v split] obtain prior where b: 
    "no_errors (fst (check_body vw (pf_pipeline pf) st prior))" by metis
  from body_head [OF b] show "step_limits st" by (simp add: step_head_def noerr check_limits_ok)
qed

section \<open>Parallel groups\<close>

abbreviation in_group :: "string \<Rightarrow> step \<Rightarrow> bool" where "in_group g x \<equiv> st_parallelGroup x = g"

lemma group_closed:
  "no_errors (check_group_order i lst sts) \<Longrightarrow> lst g = Some l \<Longrightarrow> l + 1 < i \<Longrightarrow> g \<noteq> [] \<Longrightarrow>
     filter (in_group g) sts = []"
proof (induction sts arbitrary: i lst)
  case (Cons x sts)
  show ?case
  proof (cases "st_parallelGroup x = []")
    case True
    with Cons show ?thesis by (simp add: Let_def)
  next
    case False
    have "st_parallelGroup x \<noteq> g" using Cons.prems by (auto simp: Let_def noerr)
    moreover have "no_errors (check_group_order (i + 1) (lst(st_parallelGroup x \<mapsto> i)) sts)"
      using Cons.prems(1) False by (simp add: Let_def noerr)
    from Cons.IH [OF this] Cons.prems(2-4) calculation have "filter (in_group g) sts = []" by simp
    ultimately show ?thesis by simp
  qed
qed simp

lemma group_open:
  "no_errors (check_group_order i lst sts) \<Longrightarrow> lst g = Some l \<Longrightarrow> i = l + 1 \<Longrightarrow> g \<noteq> [] \<Longrightarrow>
     filter (in_group g) sts = takeWhile (in_group g) sts"
proof (induction sts arbitrary: i l lst)
  case (Cons x sts)
  show ?case
  proof (cases "st_parallelGroup x = g")
    case True
    with Cons.prems have "no_errors (check_group_order (i + 1) (lst(g \<mapsto> i)) sts)"
      by (simp add: Let_def noerr)
    from Cons.IH [OF this _ _ Cons.prems(4), of i] True show ?thesis by simp
  next
    case False
    have "filter (in_group g) (x # sts) = []"
    proof (cases "st_parallelGroup x = []")
      case True
      with Cons.prems have "no_errors (check_group_order (i + 1) lst sts)" by (simp add: Let_def)
      from group_closed [OF this Cons.prems(2) _ Cons.prems(4)] Cons.prems(3) False show ?thesis by simp
    next
      case ne: False
      with Cons.prems have "no_errors (check_group_order (i + 1) (lst(st_parallelGroup x \<mapsto> i)) sts)"
        by (simp add: Let_def noerr)
      from group_closed [OF this, of g l] Cons.prems(2-4) False show ?thesis by simp
    qed
    with False show ?thesis by simp
  qed
qed simp

lemma group_order_drop:
  "no_errors (check_group_order i lst (xs @ ys)) \<Longrightarrow> \<exists>i' lst'. no_errors (check_group_order i' lst' ys)"
proof (induction xs arbitrary: i lst)
  case Nil
  then show ?case by auto
next
  case (Cons x xs)
  then show ?case by (cases "st_parallelGroup x = []") (auto simp: Let_def noerr)
qed

lemma segments_whole:
  "no_errors (check_group_order i lst sts) \<Longrightarrow> seg \<in> set (segmentSteps sts) \<Longrightarrow> sg_group seg \<noteq> [] \<Longrightarrow>
     sg_steps seg = filter (in_group (sg_group seg)) sts"
proof (induction sts arbitrary: i lst rule: segmentSteps.induct)
  case 1
  then show ?case by simp
next
  case (2 st sts)
  show ?case
  proof (cases "st_parallelGroup st = []")
    case True
    with "2.prems" have "no_errors (check_group_order (i + 1) lst sts)" "seg \<in> set (segmentSteps sts)"
      by (auto simp: Let_def)
    from "2.IH"(2) [OF refl _ this "2.prems"(3)] True "2.prems"(3) show ?thesis by auto
  next
    case False
    let ?g = "st_parallelGroup st"
    let ?rest = "dropWhile (in_group ?g) sts"
    have tail: "no_errors (check_group_order (i + 1) (lst(?g \<mapsto> i)) sts)"
      using "2.prems"(1) False by (simp add: Let_def noerr)
    have same: "filter (in_group ?g) sts = takeWhile (in_group ?g) sts"
      by (rule group_open [OF tail, of ?g i]) (use False in auto)
    from group_order_drop [of "i + 1" "lst(?g \<mapsto> i)" "takeWhile (in_group ?g) sts" ?rest] tail
    obtain i' lst' where rest: "no_errors (check_group_order i' lst' ?rest)" by auto
    from "2.prems"(2) False consider (hd) "sg_group seg = ?g" "sg_steps seg = st # takeWhile (in_group ?g) sts"
      | (tl) "seg \<in> set (segmentSteps ?rest)" by (auto simp: Let_def)
    then show ?thesis
    proof cases
      case hd
      with same show ?thesis by simp
    next
      case tl
      have eq: "sg_steps seg = filter (in_group (sg_group seg)) ?rest"
        using "2.IH"(1) [OF refl False refl rest tl "2.prems"(3)] .
      have tw: "filter (in_group ?g) (takeWhile (in_group ?g) sts) = takeWhile (in_group ?g) sts"
        by (rule filter_True) (blast dest: set_takeWhileD)
      have parts: "filter (in_group ?g) (takeWhile (in_group ?g) sts @ ?rest) =
          takeWhile (in_group ?g) sts @ filter (in_group ?g) ?rest"
        by (simp only: filter_append tw)
      from parts [unfolded takeWhile_dropWhile_id same] have "filter (in_group ?g) ?rest = []"
        by (rule append_self_conv [THEN iffD1, OF sym])
      with eq segmentSteps_shape [OF tl] have ne: "sg_group seg \<noteq> ?g"
        unfolding segment_ok_def by metis
      have "filter (in_group (sg_group seg)) (takeWhile (in_group ?g) sts) = []"
        using ne by (auto simp: filter_empty_conv dest: set_takeWhileD)
      then have "filter (in_group (sg_group seg)) sts = filter (in_group (sg_group seg)) ?rest"
        by (metis append_Nil filter_append takeWhile_dropWhile_id)
      with eq ne show ?thesis by auto
    qed
  qed
qed

lemma count_list_filter_map: "g \<noteq> [] \<Longrightarrow>
    count_list (filter (\<lambda>g. g \<noteq> []) (map st_parallelGroup sts)) g = length (filter (in_group g) sts)"
  by (induction sts) auto

lemma group_width:
  assumes "no_errors (check_groups sts)" and "g \<noteq> []"
  shows "int (length (filter (in_group g) sts)) \<le> MaxParallelWidth"
proof (cases "filter (in_group g) sts = []")
  case False
  then have "g \<in> set (filter (\<lambda>g. g \<noteq> []) (map st_parallelGroup sts))"
    using assms(2) by (auto simp: filter_empty_conv)
  with assms(1) count_list_filter_map [OF assms(2), of sts] show ?thesis
    by (force simp: check_groups_def Let_def noerr)
qed (simp add: MaxParallelWidth_def)

section \<open>Sources of ports\<close>

lemma resolve_steps_Inr:
  "resolve_steps parts prior = Inr src \<Longrightarrow> \<exists>s. si_step src = Some s \<and>
     ((\<exists>m. map_of prior (parts ! 1) = Some (s, m)) \<or>
      (\<exists>m. map_of prior (trimSuffix (parts ! 1) ''_all'') = Some (s, m)))"
  by (auto simp: resolve_steps_def aggregate_of_def src_of_def Let_def split: if_splits option.splits)

lemma resolve_input_Inr:
  "resolve_input parts p (Some st) = Inr src \<Longrightarrow> map_of (p_input p) (parts ! 1) \<noteq> None \<or>
     st_foreach st \<noteq> [] \<and> parts ! 1 = itemKeyOf (st_foreachItem st) \<or>
     p_foreach p \<noteq> [] \<and> parts ! 1 = itemKeyOf (p_foreachItem p)"
  by (auto simp: resolve_input_def Let_def split: if_splits option.splits)

lemma resolveSource_Inr:
  assumes "resolveSource path prior p (Some st) = Inr src"
  shows "split_dot path ! 0 = ''input'' \<and> resolve_input (split_dot path) p (Some st) = Inr src \<or>
    split_dot path ! 0 = ''steps'' \<and> resolve_steps (split_dot path) prior = Inr src"
  using assms by (auto simp: resolveSource_def Let_def split: if_splits)

lemma check_port_required:
  assumes "no_errors (check_port prior p st (name, port))" and "\<not> po_optional port"
  obtains src where "PortSource name port st \<noteq> []"
    and "resolveSource (PortSource name port st) prior p (Some st) = Inr src"
    and "\<And>s. si_step src = Some s \<Longrightarrow> st_onError s \<noteq> ''skip''"
  using assms
  by (auto simp: check_port_def Let_def noerr unbound_def unresolved_def split: if_splits sum.splits option.splits)

section \<open>A group with an inner dependency\<close>

definition sib_step :: "string \<Rightarrow> string \<Rightarrow> (string \<times> string) list \<Rightarrow> step" where
  "sib_step i plugin bind = zero_step\<lparr>st_id := i, st_plugin := plugin, st_parallelGroup := ''g'', st_bind := bind\<rparr>"

definition sib_file :: pipelineFile where
  "sib_file = \<lparr>pf_formatVersion = ''0.2'',
     pf_pipeline = zero_pipeline\<lparr>p_steps := [sib_step ''a'' ''pa'' [], sib_step ''b'' ''pb'' [(''x'', ''steps.a.o'')]]\<rparr>\<rparr>"

definition sib_in :: port where
  "sib_in = \<lparr>po_from = [], po_type = ''string'', po_format = [], po_optional = False\<rparr>"

definition sib_reader :: manifest where
  "sib_reader = zero_manifest\<lparr>m_id := ''pb'', m_input := [(''x'', sib_in)]\<rparr>"

definition sib_writer :: manifest where
  "sib_writer = zero_manifest\<lparr>m_id := ''pa'', m_output := [(''o'', out_port ''string'' [])]\<rparr>"

definition sib_world :: vworld where
  "sib_world = \<lparr>vw_env = (\<lambda>_. []),
     vw_load = (\<lambda>r. if r = ''pa'' then Some sib_writer else if r = ''pb'' then Some sib_reader else None),
     vw_zone = (\<lambda>_. True), vw_url = (\<lambda>_. None)\<rparr>"

lemma sib_valid: "valid sib_world sib_file"
  by code_simp

section \<open>Properties\<close>

text \<open>
  C6. Validation agrees with the start of a run: a pipeline that validates without errors is
  refused at the start, by the engine with the same plugins, only for missing secrets; the
  checks of the network policy and of the built-in modules never refuse it.
\<close>

theorem valid_pipeline_starts:
  assumes "valid vw pf" and "w_load w = vw_load vw"
  shows "preflight w env (pf_pipeline pf) =
    (if missingSecrets env (pf_pipeline pf) \<noteq> [] then Some (RCode ''secrets_missing'') else None)"
proof -
  let ?p = "pf_pipeline pf"
  have net: "p_network ?p \<in> {'''', ''allow'', ''deny''}" by (rule valid_network [OF assms(1)])
  have step: "IsBuiltin (st_plugin st) \<or> \<not> IsBuiltinNamespace (st_plugin st) \<and>
      (\<forall>m. w_load w (st_plugin st) = Some m \<longrightarrow>
        (EffectiveNetwork ?p = ''deny'' \<longrightarrow> m_network m = []) \<and>
        (EffectiveNetwork ?p = ''allow'' \<longrightarrow> \<not> NetworkHasStructuredDeclarations m))"
    if "st \<in> set (p_steps ?p)" for st
    using valid_step_network [OF assms(1) that] assms(2) by (metis option.inject)
  have "EffectiveNetwork ?p = ''deny'' \<Longrightarrow> check_deny w (p_steps ?p) = None"
    by (rule check_deny_pass) (use step in blast)
  moreover have "EffectiveNetwork ?p = ''allow'' \<Longrightarrow> check_allow w (p_steps ?p) = None"
    by (rule check_allow_pass) (use step in blast)
  ultimately show ?thesis using net by (auto simp: preflight_def)
qed

text \<open>
  The limits the engine relies on hold in a valid pipeline: ids are present and unique, every
  timeout and number of attempts is within its bounds, and every parallel group runs as one
  segment of all its steps, at most 32.
\<close>

lemma valid_pipeline_limits:
  assumes "valid vw pf"
  shows "distinct (map st_id (p_steps (pf_pipeline pf))) \<and> [] \<notin> set (map st_id (p_steps (pf_pipeline pf))) \<and>
    (\<forall>st \<in> set (p_steps (pf_pipeline pf)). step_limits st) \<and>
    (\<forall>seg \<in> set (segmentSteps (p_steps (pf_pipeline pf))). sg_group seg \<noteq> [] \<longrightarrow>
       sg_steps seg = filter (in_group (sg_group seg)) (p_steps (pf_pipeline pf)) \<and>
       int (length (sg_steps seg)) \<le> MaxParallelWidth)"
proof -
  let ?sts = "p_steps (pf_pipeline pf)"
  have d: "distinct (map st_id ?sts)"
    by (rule distinct_map_splits) (use valid_at [OF assms] in metis)
  have e: "st_id st \<noteq> []" "step_limits st" if "st \<in> set ?sts" for st
  proof -
    from that obtain pre post where split: "?sts = pre @ st # post" by (meson split_list)
    from valid_at [OF assms split] obtain prior where b: "st_id st \<noteq> []"
      "no_errors (fst (check_body vw (pf_pipeline pf) st prior))" by metis
    from b(1) show "st_id st \<noteq> []" .
    from valid_step_limits [OF assms that body_known [OF b(2)]] show "step_limits st" .
  qed
  have "sg_steps seg = filter (in_group (sg_group seg)) ?sts \<and> int (length (sg_steps seg)) \<le> MaxParallelWidth"
    if "seg \<in> set (segmentSteps ?sts)" "sg_group seg \<noteq> []" for seg
  proof -
    have "no_errors (check_group_order 0 (\<lambda>_. None) ?sts)"
      using valid_groups [OF assms] by (simp add: check_groups_def Let_def noerr)
    from segments_whole [OF this that] group_width [OF valid_groups [OF assms] that(2)]
    show ?thesis by simp
  qed
  moreover have "[] \<notin> set (map st_id ?sts)" using e(1) by force
  ultimately show ?thesis using d e(2) by blast
qed

text \<open>
  C7. What a required port reads is there by construction: in a valid pipeline the source of
  every required port of a plugin step is a field of the pipeline input or an item variable in
  scope, or a step above it in the list, one whose errors are not skipped.
\<close>

theorem valid_sources_above:
  assumes "valid vw pf" and "p_steps (pf_pipeline pf) = pre @ st # post"
    and "\<not> IsBuiltin (st_plugin st)" and "vw_load vw (st_plugin st) = Some m"
    and "(name, port) \<in> set (m_input m)" and "\<not> po_optional port"
    and "parts = split_dot (PortSource name port st)"
  shows "PortSource name port st \<noteq> [] \<and>
    (parts ! 0 = ''input'' \<and>
       (map_of (p_input (pf_pipeline pf)) (parts ! 1) \<noteq> None \<or>
        st_foreach st \<noteq> [] \<and> parts ! 1 = itemKeyOf (st_foreachItem st) \<or>
        p_foreach (pf_pipeline pf) \<noteq> [] \<and> parts ! 1 = itemKeyOf (p_foreachItem (pf_pipeline pf))) \<or>
     parts ! 0 = ''steps'' \<and>
       (\<exists>s \<in> set pre. st_id s \<in> {parts ! 1, trimSuffix (parts ! 1) ''_all''} \<and> st_onError s \<noteq> ''skip''))"
proof -
  from valid_at [OF assms(1,2)] obtain prior where
    b: "no_errors (fst (check_body vw (pf_pipeline pf) st prior))"
    and above: "\<And>k s m. map_of prior k = Some (s, m) \<Longrightarrow> s \<in> set pre \<and> st_id s = k" by metis
  from body_plugin [OF b assms(3)] assms(4) have "no_errors (check_plugin prior (pf_pipeline pf) st m)" by auto
  then have "no_errors (check_port prior (pf_pipeline pf) st (name, port))"
    using assms(5) by (auto simp: check_plugin_def noerr)
  from check_port_required [OF this assms(6)] obtain src where
    ne: "PortSource name port st \<noteq> []"
    and r: "resolveSource (PortSource name port st) prior (pf_pipeline pf) (Some st) = Inr src"
    and sk: "\<And>s. si_step src = Some s \<Longrightarrow> st_onError s \<noteq> ''skip''" by blast
  from resolveSource_Inr [OF r] consider (inp) "parts ! 0 = ''input''"
      "resolve_input parts (pf_pipeline pf) (Some st) = Inr src"
    | (stp) "parts ! 0 = ''steps''" "resolve_steps parts prior = Inr src" using assms(7) by blast
  then show ?thesis
  proof cases
    case inp
    with ne resolve_input_Inr [OF inp(2)] show ?thesis by blast
  next
    case stp
    with sk above ne resolve_steps_Inr [OF stp(2)] show ?thesis by blast
  qed
qed

text \<open>
  Validation does not see that a parallel group isolates its branches: there is a valid
  pipeline whose second step of a group requires the output of the first, both run as one
  parallel segment, and on every context that has no result of the first step, as the copies
  made before the group have none, the input of the second cannot be built.
\<close>

lemma sibling_read_validates:
  "valid sib_world sib_file \<and>
   segmentSteps (p_steps (pf_pipeline sib_file)) =
     [\<lparr>sg_parallel = True, sg_group = ''g'', sg_steps = p_steps (pf_pipeline sib_file)\<rparr>] \<and>
   (\<forall>ctx s. map_of ctx ''steps'' = Some (JObj s) \<and> map_of s ''a'' = None \<longrightarrow>
      buildInput sib_reader (p_steps (pf_pipeline sib_file) ! 1) ctx = Inl (PathNotFound ''x''))"
proof -
  have "segmentSteps (p_steps (pf_pipeline sib_file)) =
     [\<lparr>sg_parallel = True, sg_group = ''g'', sg_steps = p_steps (pf_pipeline sib_file)\<rparr>]"
    by (simp add: sib_file_def sib_step_def Let_def)
  moreover have "buildInput sib_reader (p_steps (pf_pipeline sib_file) ! 1) ctx = Inl (PathNotFound ''x'')"
    if "map_of ctx ''steps'' = Some (JObj s)" "map_of s ''a'' = None" for ctx s
  proof -
    have "Get ''steps.a.o'' ctx = None" using Get_steps [of "''a''" ctx s "''o''"] that by simp
    then show ?thesis
      by (simp add: buildInput_def sib_reader_def sib_in_def sib_file_def sib_step_def PortSource_def)
  qed
  ultimately show ?thesis using sib_valid by blast
qed

lemma sib_plugin: "\<not> IsBuiltin ''pb''" by code_simp

definition sib_env :: runEnv where
  "sib_env = \<lparr>re_getenv = (\<lambda>_. []), re_identity = None\<rparr>"

definition sib_run :: world where
  "sib_run = demo_world\<lparr>w_load := vw_load sib_world\<rparr>"

lemma valid_sources_above_witness:
  "st_id (sib_step ''a'' ''pa'' []) = ''a'' \<and> PortSource ''x'' sib_in (sib_step ''b'' ''pb'' [(''x'', ''steps.a.o'')]) \<noteq> []"
  using valid_sources_above [OF sib_valid, of "[sib_step ''a'' ''pa'' []]" "sib_step ''b'' ''pb'' [(''x'', ''steps.a.o'')]" "[]"
      sib_reader "''x''" sib_in "split_dot (PortSource ''x'' sib_in (sib_step ''b'' ''pb'' [(''x'', ''steps.a.o'')]))"]
  by (simp add: sib_file_def sib_step_def sib_world_def sib_reader_def sib_in_def sib_plugin)

lemma valid_pipeline_starts_witness: "preflight sib_run sib_env (pf_pipeline sib_file) = None"
  using valid_pipeline_starts [OF sib_valid, of sib_run sib_env]
  by (simp add: sib_run_def missingSecrets_def sib_file_def zero_pipeline_def)

end
