(* ===== verification/Go_Path.thy ===== *)
theory Go_Path
  imports Fid_Prelude
begin

text \<open>
  Paths of Go's filepath package on a Unix host, on the elements of a path: \<open>Clean\<close>, \<open>Join\<close>,
  \<open>Rel\<close>, and the test by which the program tells that a relative path leaves its root.
\<close>

section \<open>Paths\<close>

text \<open>\<open>filepath.Clean\<close> on the elements of a path, the result reversed; \<open>rooted\<close> for a leading slash.\<close>

fun clean_elems :: "bool \<Rightarrow> string list \<Rightarrow> string list \<Rightarrow> string list" where
  "clean_elems rooted out [] = out"
| "clean_elems rooted out (e # es) =
     (if e = [] \<or> e = ''.'' then clean_elems rooted out es
      else if e = ''..'' then
        (case out of
           [] \<Rightarrow> if rooted then clean_elems rooted [] es else clean_elems rooted [''..''] es
         | o1 # os \<Rightarrow> if o1 = ''..'' then clean_elems rooted (''..'' # out) es else clean_elems rooted os es)
      else clean_elems rooted (e # out) es)"

definition elems :: "string \<Rightarrow> string list" where
  "elems path = rev (clean_elems (hasPrefix path ''/'') [] (split_on (CHR ''/'') path))"

definition Clean :: "string \<Rightarrow> string" where
  "Clean path =
     (if hasPrefix path ''/'' then CHR ''/'' # join ''/'' (elems path)
      else if elems path = [] then ''.'' else join ''/'' (elems path))"

text \<open>\<open>filepath.Rel\<close> for two absolute paths: the elements of the way from one to the other.\<close>

fun rel_elems :: "string list \<Rightarrow> string list \<Rightarrow> string list" where
  "rel_elems (b # bs) (t # ts) =
     (if b = t then rel_elems bs ts else replicate (length (b # bs)) ''..'' @ (t # ts))"
| "rel_elems bs ts = replicate (length bs) ''..'' @ ts"

definition Rel :: "string \<Rightarrow> string \<Rightarrow> string" where
  "Rel base targ =
     (let r = rel_elems (elems base) (elems targ) in if r = [] then ''.'' else join ''/'' r)"

definition Join :: "string \<Rightarrow> string \<Rightarrow> string" where
  "Join a b = Clean (if a = [] then b else if b = [] then a else a @ ''/'' @ b)"

definition leaves :: "string \<Rightarrow> bool" where
  "leaves rel \<longleftrightarrow> rel = ''..'' \<or> hasPrefix rel ''../''"

text \<open>\<open>filepath.Base\<close>, and the absolute path with given elements.\<close>

definition Base :: "string \<Rightarrow> string" where
  "Base path =
     (if path = [] then ''.''
      else let t = rev (dropWhile (\<lambda>c. c = CHR ''/'') (rev path)) in
        if t = [] then ''/'' else last (split_on (CHR ''/'') t))"

definition path_of :: "string list \<Rightarrow> string" where
  "path_of es = CHR ''/'' # join ''/'' es"

section \<open>Lemmas\<close>

lemma clean_elems_append: "clean_elems r out (xs @ ys) = clean_elems r (clean_elems r out xs) ys"
  by (induction r out xs rule: clean_elems.induct) (auto split: list.splits)

lemma clean_keeps_up: "''..'' \<in> set out \<Longrightarrow> ''..'' \<in> set (clean_elems False out es)"
  by (induction "False" out es rule: clean_elems.induct) (auto split: list.splits)

lemma clean_up_last:
  "(''..'' \<in> set out \<longrightarrow> last out = ''..'') \<Longrightarrow> ''..'' \<in> set (clean_elems False out es) \<Longrightarrow>
     last (clean_elems False out es) = ''..''"
  by (induction "False" out es rule: clean_elems.induct) (auto split: list.splits if_splits)

lemma clean_rooted_no_up: "''..'' \<notin> set out \<Longrightarrow> ''..'' \<notin> set (clean_elems True out es)"
  by (induction "True" out es rule: clean_elems.induct) (auto split: list.splits)

text \<open>A relative path that never climbs does the same below any directory.\<close>

lemma clean_below:
  "''..'' \<notin> set out \<Longrightarrow> ''..'' \<notin> set (clean_elems False out es) \<Longrightarrow>
     clean_elems True (out @ B) es = clean_elems False out es @ B"
proof (induction "False" out es rule: clean_elems.induct)
  case (2 out e es)
  then show ?case using clean_keeps_up [of "[''..'']" es] by (auto split: list.splits)
qed simp

lemma split_on_append_gen: "split_on c (a @ c # b) = split_on c a @ split_on c b"
  by (induction a) (auto split: list.split)

lemma leaves_join: "leaves (join ''/'' (''..'' # r))"
  by (cases r) (auto simp: leaves_def hasPrefix_def)

lemma hd_replicate_ne: "hd (replicate n x) \<noteq> x \<Longrightarrow> n = 0"
  by (cases n) auto

lemma rel_elems_prefix: "rel_elems b t = r \<Longrightarrow> r = [] \<or> hd r \<noteq> ''..'' \<Longrightarrow> \<exists>rest. t = b @ rest"
by (induction b t arbitrary: r rule: rel_elems.induct) (auto split: if_splits dest: hd_replicate_ne)

lemma Rel_inside:
  assumes "\<not> leaves (Rel b t)"
  shows "\<exists>rest. elems t = elems b @ rest"
proof -
  let ?r = "rel_elems (elems b) (elems t)"
  have "?r = [] \<or> hd ?r \<noteq> ''..''"
    using assms leaves_join [of "tl ?r"] by (cases ?r) (auto simp: Rel_def Let_def)
  then show ?thesis using rel_elems_prefix by blast
qed

text \<open>An element of a clean absolute path.\<close>

definition proper :: "string \<Rightarrow> bool" where
  "proper e \<longleftrightarrow> e \<noteq> [] \<and> e \<noteq> ''.'' \<and> e \<noteq> ''..'' \<and> CHR ''/'' \<notin> set e"

lemma clean_proper:
  "list_all proper out \<Longrightarrow> list_all (\<lambda>e. CHR ''/'' \<notin> set e) es \<Longrightarrow> list_all proper (clean_elems True out es)"
  by (induction "True" out es rule: clean_elems.induct) (auto simp: proper_def split: list.splits)

lemma clean_proper_id: "list_all proper es \<Longrightarrow> clean_elems r out es = rev es @ out"
  by (induction r out es rule: clean_elems.induct) (auto simp: proper_def)

lemma elems_proper: "hasPrefix p ''/'' \<Longrightarrow> list_all proper (elems p)"
  using clean_proper [of "[]" "split_on (CHR ''/'') p"] split_on_parts_no_sep [of _ "CHR ''/''" p]
  by (auto simp: elems_def list_all_iff)

lemma Clean_path_of: "hasPrefix p ''/'' \<Longrightarrow> Clean p = path_of (elems p)"
  by (simp add: Clean_def path_of_def)

lemma split_join_proper: "list_all proper es \<Longrightarrow> es \<noteq> [] \<Longrightarrow> split_on (CHR ''/'') (join ''/'' es) = es"
  by (intro split_on_join) (auto simp: proper_def list_all_iff)

lemma elems_path_of: "list_all proper es \<Longrightarrow> elems (path_of es) = es"
proof (cases "es = []")
  case False
  assume p: "list_all proper es"
  have "split_on (CHR ''/'') (path_of es) = [] # es"
    using split_join_proper [OF p False] by (simp add: path_of_def split: list.split)
  with p show ?thesis by (simp add: elems_def path_of_def hasPrefix_def clean_proper_id)
qed (simp add: elems_def path_of_def hasPrefix_def)

lemma elems_Clean: "hasPrefix p ''/'' \<Longrightarrow> elems (Clean p) = elems p"
  by (simp add: Clean_path_of elems_path_of elems_proper)

lemma elems_append_proper:
  assumes "hasPrefix p ''/''" and "proper e"
  shows "elems (p @ ''/'' @ e) = elems p @ [e]"
proof -
  have "split_on (CHR ''/'') e = [e]" using assms(2) by (intro split_on_no_sep) (auto simp: proper_def)
  then have "split_on (CHR ''/'') (p @ ''/'' @ e) = split_on (CHR ''/'') p @ [e]"
    using split_on_append_gen [of "CHR ''/''" p e] by simp
  moreover have "hasPrefix (p @ ''/'' @ e) ''/''" using assms(1) by (auto simp: hasPrefix_iff)
  ultimately show ?thesis using assms by (auto simp: elems_def clean_elems_append proper_def)
qed

lemma Join_proper:
  assumes "hasPrefix p ''/''" and "proper e"
  shows "Join p e = path_of (elems p @ [e]) \<and> elems (Join p e) = elems p @ [e]"
proof -
  have pre: "hasPrefix (p @ ''/'' @ e) ''/''" "p \<noteq> []" "e \<noteq> []"
    using assms by (auto simp: hasPrefix_iff proper_def)
  then show ?thesis using elems_append_proper [OF assms] elems_Clean [OF pre(1)] Clean_path_of [OF pre(1)]
    by (simp add: Join_def)
qed

end
