(* ===== verification/Manifest_Check.thy ===== *)
theory Manifest_Check
  imports Go_Path Plugin_Contract Cron
begin

text \<open>
  The check of a plugin manifest (\<open>ValidateManifest\<close> and what it calls in
  internal/pipeline/validator.go). The regular expressions are written out as matchers; paths
  are those of a Unix host. The file system answers through \<open>fileWorld\<close>.
\<close>

section \<open>Patterns\<close>

definition is_lower :: "char \<Rightarrow> bool" where
  "is_lower c \<longleftrightarrow> 97 \<le> (of_char c :: nat) \<and> (of_char c :: nat) \<le> 122"

definition is_upper :: "char \<Rightarrow> bool" where
  "is_upper c \<longleftrightarrow> 65 \<le> (of_char c :: nat) \<and> (of_char c :: nat) \<le> 90"

definition is_alnum :: "char \<Rightarrow> bool" where
  "is_alnum c \<longleftrightarrow> is_lower c \<or> is_upper c \<or> is_digit c"

definition head_tail :: "(char \<Rightarrow> bool) \<Rightarrow> (char \<Rightarrow> bool) \<Rightarrow> string \<Rightarrow> bool" where
  "head_tail h t s = (case s of [] \<Rightarrow> False | c # cs \<Rightarrow> h c \<and> list_all t cs)"

definition manifestIDPattern :: "string \<Rightarrow> bool" where
  "manifestIDPattern = head_tail is_lower (\<lambda>c. is_lower c \<or> is_digit c \<or> c = CHR ''_'' \<or> c = CHR ''-'')"

definition manifestNamePattern :: "string \<Rightarrow> bool" where
  "manifestNamePattern = head_tail is_lower (\<lambda>c. is_lower c \<or> is_digit c \<or> c = CHR ''_'')"

definition environmentNamePattern :: "string \<Rightarrow> bool" where
  "environmentNamePattern = head_tail (\<lambda>c. is_lower c \<or> is_upper c \<or> c = CHR ''_'')
     (\<lambda>c. is_alnum c \<or> c = CHR ''_'')"

definition manifestHostPattern :: "string \<Rightarrow> bool" where
  "manifestHostPattern s \<longleftrightarrow> s \<noteq> [] \<and> is_alnum (hd s) \<and> is_alnum (last s) \<and>
     list_all (\<lambda>c. is_alnum c \<or> c = CHR ''.'' \<or> c = CHR ''-'') s"

definition manifestRequirementPattern :: "string \<Rightarrow> bool" where
  "manifestRequirementPattern s =
     (let name = takeWhile (\<lambda>c. c \<noteq> CHR ''='') s; rest = dropWhile (\<lambda>c. c \<noteq> CHR ''='') s in
      head_tail is_alnum (\<lambda>c. is_alnum c \<or> c \<in> {CHR ''_'', CHR ''.'', CHR ''-''}) name \<and>
      hasPrefix rest ''=='' \<and>
      head_tail is_alnum (\<lambda>c. is_alnum c \<or> c \<in> {CHR ''_'', CHR ''.'', CHR ''+'', CHR ''-''}) (drop 2 rest))"

text \<open>A number without leading zero at the start, and what follows it.\<close>

definition semver_num :: "string \<Rightarrow> string option" where
  "semver_num s =
     (let d = takeWhile is_digit s in
      if d \<noteq> [] \<and> (d = ''0'' \<or> hd d \<noteq> CHR ''0'') then Some (dropWhile is_digit s) else None)"

definition semver_dot :: "string \<Rightarrow> string option" where
  "semver_dot s = (case s of [] \<Rightarrow> None | c # r \<Rightarrow> if c = CHR ''.'' then Some r else None)"

definition semver_tail :: "string \<Rightarrow> bool" where
  "semver_tail r =
     (let cls = (\<lambda>c. is_alnum c \<or> c = CHR ''.'' \<or> c = CHR ''-'') in
      case r of
        [] \<Rightarrow> True
      | c # x \<Rightarrow>
          if c = CHR ''-'' then
            takeWhile cls x \<noteq> [] \<and>
            (case dropWhile cls x of [] \<Rightarrow> True
             | d # y \<Rightarrow> d = CHR ''+'' \<and> y \<noteq> [] \<and> list_all cls y)
          else c = CHR ''+'' \<and> x \<noteq> [] \<and> list_all cls x)"

definition semver :: "string \<Rightarrow> bool" where
  "semver s =
     (case Option.bind (Option.bind (Option.bind (Option.bind (semver_num s) semver_dot) semver_num) semver_dot)
             semver_num of
        None \<Rightarrow> False
      | Some r \<Rightarrow> semver_tail r)"

definition manifestVersionPattern :: "string \<Rightarrow> bool" where
  "manifestVersionPattern s \<longleftrightarrow>
     semver s \<or> hasPrefix s ''0.'' \<and> drop 2 s \<noteq> [] \<and> list_all is_digit (drop 2 s)"

definition upper_char :: "char \<Rightarrow> char" where
  "upper_char c = (if is_lower c then char_of ((of_char c :: nat) - 32) else c)"

definition toggle_words :: "string list" where
  "toggle_words = [''MOCK'', ''FAKE'', ''STUB'', ''DUMMY'', ''SIMULATE'', ''SIM'']"

text \<open>\<open>IsTestToggleName\<close>, on names of ASCII letters as they reach it.\<close>

definition IsTestToggleName :: "string \<Rightarrow> bool" where
  "IsTestToggleName name =
     (let s = map upper_char (trimSpace name) in
      List.member toggle_words s \<or> List.member toggle_words (trimPrefix s ''LLM_'') \<or>
      list_ex (hasSuffix s) [''_MOCK'', ''_FAKE'', ''_STUB'', ''_TESTMODE'', ''_TEST_MODE''])"

section \<open>Paths\<close>

definition drive_prefix :: "string \<Rightarrow> bool" where
  "drive_prefix s = (case s of a # b # c # r \<Rightarrow> (is_lower a \<or> is_upper a) \<and> b = CHR '':'' \<and> c = CHR ''/'' | _ \<Rightarrow> False)"

definition safeManifestEntry :: "string \<Rightarrow> bool" where
  "safeManifestEntry entry =
     (if entry = [] \<or> CHR 0x00 \<in> set entry then False
      else
        let normalized = replaceChar backslash (CHR ''/'') entry in
        if hasPrefix normalized ''/'' \<or> drive_prefix normalized then False
        else let clean = Clean normalized in
          clean \<noteq> ''.'' \<and> clean \<noteq> ''..'' \<and> \<not> hasPrefix clean ''../'')"

datatype fileKind = NotThere | StatError | Directory | RegularFile

record fileWorld =
  fw_abs :: "string \<Rightarrow> string option"
  fw_stat :: "string \<Rightarrow> fileKind"
  fw_real :: "string \<Rightarrow> string option"
  fw_lock :: "string \<Rightarrow> string option"

datatype entryErr = EntryIO | EntryEscapes | EntryMissing | EntryIsDir | SymlinkEscapes

definition validateManifestEntryFile :: "fileWorld \<Rightarrow> string \<Rightarrow> string \<Rightarrow> entryErr option" where
  "validateManifestEntryFile fw dir entry =
     (case fw_abs fw dir of
        None \<Rightarrow> Some EntryIO
      | Some rootAbs \<Rightarrow>
          let candidate = Join rootAbs entry in
          if leaves (Rel rootAbs candidate) then Some EntryEscapes
          else case fw_stat fw candidate of
            NotThere \<Rightarrow> Some EntryMissing
          | StatError \<Rightarrow> Some EntryMissing
          | Directory \<Rightarrow> Some EntryIsDir
          | RegularFile \<Rightarrow>
              (case (fw_real fw rootAbs, fw_real fw candidate) of
                 (Some rootReal, Some candidateReal) \<Rightarrow>
                   if leaves (Rel rootReal candidateReal) then Some SymlinkEscapes else None
               | _ \<Rightarrow> Some EntryIO))"

section \<open>Versions\<close>

definition cut_at :: "char \<Rightarrow> string \<Rightarrow> string" where
  "cut_at c s = takeWhile (\<lambda>x. x \<noteq> c) s"

fun parse_parts :: "string list \<Rightarrow> int list option" where
  "parse_parts [] = Some []"
| "parse_parts (p # ps) =
     (let (n, ok) = Atoi p in
      if \<not> ok \<or> n < 0 then None else map_option (\<lambda>ns. n # ns) (parse_parts ps))"

definition parseManifestVersion :: "string \<Rightarrow> int list option" where
  "parseManifestVersion value =
     (let parts = split_dot (cut_at (CHR ''-'') (cut_at (CHR ''+'') (trimSpace value)));
          parts = (if length parts = 2 then parts @ [''0''] else parts)
      in if length parts \<noteq> 3 then None else parse_parts parts)"

fun compareManifestVersions :: "int list \<Rightarrow> int list \<Rightarrow> int" where
  "compareManifestVersions (a # as) (b # bs) =
     (if a < b then -1 else if a > b then 1 else compareManifestVersions as bs)"
| "compareManifestVersions _ _ = 0"

definition term_op :: "string \<Rightarrow> string \<times> string" where
  "term_op t =
     (case find (hasPrefix t) [''>='', ''<='', ''>'', ''<'', ''=''] of
        None \<Rightarrow> (''='', t)
      | Some op \<Rightarrow> (op, trimSpace (trimPrefix t op)))"

definition op_holds :: "string \<Rightarrow> int \<Rightarrow> bool" where
  "op_holds op c =
     (if op = ''>='' then 0 \<le> c else if op = ''>'' then 0 < c
      else if op = ''<='' then c \<le> 0 else if op = ''<'' then c < 0 else c = 0)"

definition platformAPICompatible :: "string \<Rightarrow> bool" where
  "platformAPICompatible spec0 =
     (case parseManifestVersion (PlatformAPI @ ''.0'') of
        None \<Rightarrow> False
      | Some current \<Rightarrow>
          let spec = trimSpace spec0 in
          if hasPrefix spec ''^'' then
            (case parseManifestVersion (trimPrefix spec ''^'') of
               None \<Rightarrow> False
             | Some required \<Rightarrow>
                 if required ! 0 = 0 then current ! 0 = 0 \<and> current ! 1 = required ! 1
                 else current ! 0 = required ! 0)
          else
            let terms = Fields spec in
            terms \<noteq> [] \<and>
            list_all (\<lambda>t. let (op, v) = term_op t in
              case parseManifestVersion v of
                None \<Rightarrow> False
              | Some required \<Rightarrow> op_holds op (compareManifestVersions current required)) terms)"

section \<open>Ports, hosts, requirements\<close>

definition manifestPortTypes :: "string list" where
  "manifestPortTypes = [''string'', ''number'', ''boolean'', ''array'', ''object'']"

definition manifestFormats :: "string list" where
  "manifestFormats = [''text'', ''email'', ''url'', ''ip'', ''file_ref'']"

datatype problem =
  BadId | BadVersion | BadAPI | BadRuntime | BadEntry | EntryFile entryErr | EntryStat
| EmptyRequirement nat | BadRequirement nat | NoLock | UndeclaredPin string | MissingPin string
| PortName string string | PortNoType string string | PortType string string
| PortFormat string string | FormatNotString string string | PortFrom string string
| BadFilesystem | BadSandbox | UntrustedSecrets | SecretName nat | SecretRepeated nat
| SecretToggle nat | NoOutputs | NetPort nat | NetBoth nat | NetHost nat | NetDuplicate nat

definition validManifestSource :: "string \<Rightarrow> bool" where
  "validManifestSource source =
     (let parts = split_dot source in
      (length parts \<ge> 2 \<and> parts ! 0 = ''input'' \<or> length parts \<ge> 3 \<and> parts ! 0 = ''steps'') \<and>
      [] \<notin> set parts)"

definition trimChars :: "string \<Rightarrow> string \<Rightarrow> string" where
  "trimChars cutset s =
     rev (dropWhile (\<lambda>c. c \<in> set cutset) (rev (dropWhile (\<lambda>c. c \<in> set cutset) s)))"

definition validManifestHost :: "string \<Rightarrow> bool" where
  "validManifestHost host =
     (if host = [] \<or> host = ''*'' \<or>
         containsAny host [CHR ''/'', backslash, CHR ''?'', CHR ''#'', CHR ''@'', CHR '' '', CHR 0x09, CHR 0x0D, CHR 0x0A]
      then False
      else ParseIP (trimChars ''[]'' host) \<noteq> None \<or> manifestHostPattern host)"

definition port_problems :: "string \<Rightarrow> string \<times> port \<Rightarrow> problem list" where
  "port_problems kind = (\<lambda>(name, port).
     (if \<not> manifestNamePattern name then [PortName kind name] else []) @
     (if po_type port = [] then [PortNoType kind name]
      else if \<not> List.member manifestPortTypes (po_type port) then [PortType kind name] else []) @
     (if po_format port \<noteq> [] then
        (if \<not> List.member manifestFormats (po_format port) then [PortFormat kind name] else []) @
        (if po_type port \<noteq> ''string'' then [FormatNotString kind name] else [])
      else []) @
     (if po_from port \<noteq> [] \<and> \<not> validManifestSource (po_from port) then [PortFrom kind name] else []))"

definition validateManifestPorts :: "string \<Rightarrow> (string \<times> port) list \<Rightarrow> problem list" where
  "validateManifestPorts kind ports = concat (map (port_problems kind) ports)"

definition lock_lines :: "string \<Rightarrow> string list" where
  "lock_lines raw =
     filter (\<lambda>l. l \<noteq> [] \<and> \<not> hasPrefix l ''#'')
       (map (\<lambda>l. trimSpace (trimSuffix l [CHR 0x0D])) (split_on (CHR 0x0A) raw))"

definition validateManifestRequirements :: "fileWorld \<Rightarrow> string \<Rightarrow> string list \<Rightarrow> problem option" where
  "validateManifestRequirements fw dir reqs =
     (case fw_lock fw dir of
        None \<Rightarrow> Some NoLock
      | Some raw \<Rightarrow>
          (case find (\<lambda>l. \<not> List.member reqs l) (lock_lines raw) of
             Some l \<Rightarrow> Some (UndeclaredPin l)
           | None \<Rightarrow> map_option MissingPin (find (\<lambda>r. \<not> List.member (lock_lines raw) r) (nub reqs))))"

section \<open>The manifest\<close>

definition id_problems :: "manifest \<Rightarrow> problem list" where
  "id_problems m =
     (if \<not> manifestIDPattern (m_id m) then [BadId] else []) @
     (if \<not> manifestVersionPattern (m_version m) then [BadVersion] else []) @
     (if m_platformAPI m = [] \<or> \<not> platformAPICompatible (m_platformAPI m) then [BadAPI] else []) @
     (if m_rtType m \<noteq> ''python'' \<and> m_rtType m \<noteq> ''binary'' then [BadRuntime] else [])"

definition entry_problems :: "fileWorld \<Rightarrow> manifest \<Rightarrow> problem list" where
  "entry_problems fw m =
     (if \<not> safeManifestEntry (m_entry m) then [BadEntry]
      else if m_dir m \<noteq> [] then
        (case fw_stat fw (Join (m_dir m) (m_entry m)) of
           NotThere \<Rightarrow> []
         | StatError \<Rightarrow> [EntryStat]
         | _ \<Rightarrow> (case validateManifestEntryFile fw (m_dir m) (m_entry m) of
                 None \<Rightarrow> [] | Some e \<Rightarrow> [EntryFile e]))
      else [])"

fun requirement_problems :: "nat \<Rightarrow> string list \<Rightarrow> problem list" where
  "requirement_problems i [] = []"
| "requirement_problems i (r # rs) =
     (if trimSpace r = [] then [EmptyRequirement i]
      else if \<not> manifestRequirementPattern r then [BadRequirement i] else []) @
     requirement_problems (i + 1) rs"

definition requires_problems :: "fileWorld \<Rightarrow> manifest \<Rightarrow> problem list" where
  "requires_problems fw m =
     requirement_problems 0 (m_requires m) @
     (if length (m_requires m) > 0 \<and> m_dir m \<noteq> [] then
        (case validateManifestRequirements fw (m_dir m) (m_requires m) of None \<Rightarrow> [] | Some e \<Rightarrow> [e])
      else [])"

fun secret_problems :: "nat \<Rightarrow> string list \<Rightarrow> string list \<Rightarrow> problem list" where
  "secret_problems i seen [] = []"
| "secret_problems i seen (s # ss) =
     (if \<not> environmentNamePattern s then [SecretName i]
      else if List.member seen s then [SecretRepeated i]
      else if IsTestToggleName s then [SecretToggle i] else []) @
     secret_problems (i + 1) (s # seen) ss"

definition net_key :: "networkPermission \<Rightarrow> string" where
  "net_key np = np_host np @ '':'' @ itoa (np_port np) @ '':'' @ (if np_anyHost np then ''true'' else ''false'')"

fun network_problems :: "nat \<Rightarrow> string list \<Rightarrow> networkPermission list \<Rightarrow> problem list" where
  "network_problems i seen [] = []"
| "network_problems i seen (np # nps) =
     (if np_port np < 0 \<or> np_port np > 65535 then [NetPort i] else []) @
     (if np_anyHost np then (if np_host np \<noteq> [] then [NetBoth i] else [])
      else if \<not> validManifestHost (np_host np) then [NetHost i] else []) @
     (if List.member seen (net_key np) then [NetDuplicate i] else []) @
     network_problems (i + 1) (net_key np # seen) nps"

definition policy_problems :: "manifest \<Rightarrow> problem list" where
  "policy_problems m =
     (if m_filesystem m \<noteq> [] \<and> \<not> List.member [''none'', ''read'', ''workspace'', ''write'', ''readwrite''] (m_filesystem m)
      then [BadFilesystem] else []) @
     (if \<not> List.member [[], ''trusted'', ''untrusted''] (m_sandbox m) then [BadSandbox] else []) @
     (if m_sandbox m = ''untrusted'' \<and> length (m_secrets m) > 0 then [UntrustedSecrets] else [])"

definition ValidateManifest :: "fileWorld \<Rightarrow> manifest \<Rightarrow> problem list" where
  "ValidateManifest fw m =
     id_problems m @ entry_problems fw m @ requires_problems fw m @
     validateManifestPorts ''input'' (m_input m) @ validateManifestPorts ''output'' (m_output m) @
     policy_problems m @ secret_problems 0 [] (m_secrets m) @ network_problems 0 [] (m_network m)"

text \<open>\<open>ValidatePluginDir\<close> of a manifest that could be decoded.\<close>

definition ValidatePluginDir :: "fileWorld \<Rightarrow> string \<Rightarrow> manifest \<Rightarrow> problem list list" where
  "ValidatePluginDir fw dir m0 =
     (let m = m0\<lparr>m_dir := dir\<rparr>; ps = ValidateManifest fw m in
      (if ps \<noteq> [] then [ps] else []) @
      (if length (m_output m) = 0 then [[NoOutputs]] else []) @
      (if safeManifestEntry (m_entry m) then
         (case validateManifestEntryFile fw dir (m_entry m) of None \<Rightarrow> [] | Some e \<Rightarrow> [[EntryFile e]])
       else []))"

section \<open>Lemmas: the entry\<close>

lemma safe_entry_no_up:
  assumes "safeManifestEntry entry" and "backslash \<notin> set entry"
  shows "''..'' \<notin> set (elems entry) \<and> elems entry \<noteq> [] \<and> \<not> hasPrefix entry ''/''"
proof -
  have same: "replaceChar backslash (CHR ''/'') entry = entry"
    unfolding replaceChar_def by (rule map_idI) (use assms(2) in auto)
  have np: "\<not> hasPrefix entry ''/''" and c: "Clean entry \<noteq> ''.''" "Clean entry \<noteq> ''..''" "\<not> hasPrefix (Clean entry) ''../''"
    using assms(1) same by (auto simp: safeManifestEntry_def Let_def split: if_splits)
  have ne: "elems entry \<noteq> []" using c(1) np by (auto simp: Clean_def)
  then have cl: "Clean entry = join ''/'' (elems entry)" using np by (simp add: Clean_def)
  have "''..'' \<notin> set (elems entry)"
  proof
    assume "''..'' \<in> set (elems entry)"
    then have "last (clean_elems False [] (split_on (CHR ''/'') entry)) = ''..''"
      using np by (intro clean_up_last) (auto simp: elems_def)
    then have "hd (elems entry) = ''..''" using np ne by (simp add: elems_def hd_rev)
    with leaves_join [of "tl (elems entry)"] ne have "leaves (Clean entry)" by (cases "elems entry") (simp_all add: cl)
    with c show False by (simp add: leaves_def)
  qed
  with ne np show ?thesis by blast
qed

section \<open>Lemmas: manifests\<close>

lemma secret_problems_Nil:
  "secret_problems i seen ss = [] \<longleftrightarrow>
     (\<forall>s \<in> set ss. environmentNamePattern s \<and> \<not> IsTestToggleName s \<and> s \<notin> set seen) \<and> distinct ss"
  by (induction ss arbitrary: i seen) auto

lemma net_port_range: "network_problems i seen nps = [] \<Longrightarrow> np \<in> set nps \<Longrightarrow>
    0 \<le> np_port np \<and> np_port np \<le> 65535 \<and>
    (if np_anyHost np then np_host np = [] else validManifestHost (np_host np))"
  by (induction nps arbitrary: i seen) (auto split: if_splits)

definition port_declared :: "string \<times> port \<Rightarrow> bool" where
  "port_declared np \<longleftrightarrow> manifestNamePattern (fst np) \<and> po_type (snd np) \<in> set manifestPortTypes \<and>
     (po_format (snd np) \<noteq> [] \<longrightarrow> po_format (snd np) \<in> set manifestFormats \<and> po_type (snd np) = ''string'') \<and>
     (po_from (snd np) \<noteq> [] \<longrightarrow> validManifestSource (po_from (snd np)))"

lemma port_problems_Nil: "port_problems kind np = [] \<Longrightarrow> port_declared np"
  by (cases np) (auto simp: port_problems_def port_declared_def split: if_splits)

lemma ports_Nil: "validateManifestPorts kind ports = [] \<Longrightarrow> np \<in> set ports \<Longrightarrow> port_declared np"
  by (auto simp: validateManifestPorts_def dest!: port_problems_Nil)

section \<open>Lemmas: versions\<close>

text \<open>Text without white space bytes and without the lead bytes of Unicode white space.\<close>

definition plain :: "string \<Rightarrow> bool" where
  "plain s \<longleftrightarrow> list_all (\<lambda>c. 33 \<le> (of_char c :: nat) \<and> (of_char c :: nat) < 128) s"

lemma spaces_not_plain: "p \<in> set spaces \<Longrightarrow> p \<noteq> [] \<and> \<not> plain [hd p] \<and> \<not> plain [last p]"
  by (auto simp: spaces_def plain_def)

lemma plain_no_space: "plain s \<Longrightarrow> p \<in> set spaces \<Longrightarrow> \<not> hasPrefix s p"
  using spaces_not_plain [of p] by (cases p) (auto simp: hasPrefix_iff plain_def)

lemma plain_rev: "plain (rev s) = plain s"
  by (simp add: plain_def)

lemma strip_plain: "plain s \<Longrightarrow> strip_with spaces s = s"
  by (rule strip_with_id) (use plain_no_space in blast)

lemma strip_plain_rev:
  assumes "plain s"
  shows "strip_with (map rev spaces) (rev s) = rev s"
proof (rule strip_with_id, intro ballI impI)
  fix p
  assume "p \<in> set (map rev spaces)"
  then obtain q where q: "p = rev q" "q \<in> set spaces" by auto
  from spaces_not_plain [OF q(2)] have "q \<noteq> []" "\<not> plain [last q]" by auto
  then have "\<not> plain [hd p]" "p \<noteq> []" using q(1) by (simp_all add: hd_rev)
  then show "\<not> hasPrefix (rev s) p"
    using plain_rev [of s] assms by (cases p) (auto simp: hasPrefix_iff plain_def)
qed

lemma trimSpace_plain [simp]: "plain s \<Longrightarrow> trimSpace s = s"
  by (simp add: trimSpace_def strip_plain strip_plain_rev)

lemma fields_acc_plain: "plain s \<Longrightarrow> fields_acc cur s = (if cur @ s = [] then [] else [cur @ s])"
proof (induction s arbitrary: cur)
  case (Cons c s)
  have "find (hasPrefix (c # s)) spaces = None"
    using plain_no_space [OF Cons.prems] by (auto simp: find_None_iff)
  moreover have "plain s" using Cons.prems by (simp add: plain_def)
  ultimately show ?case using Cons.IH [of "cur @ [c]"] by simp
qed simp

lemma Fields_plain: "plain s \<Longrightarrow> s \<noteq> [] \<Longrightarrow> Fields s = [s]"
  by (simp add: Fields_def fields_acc_plain)

definition show_version :: "nat \<Rightarrow> nat \<Rightarrow> nat \<Rightarrow> string" where
  "show_version a b c = nat_digits a @ ''.'' @ nat_digits b @ ''.'' @ nat_digits c"

lemma plain_digits: "plain (nat_digits n)"
  using nat_digits_range [of _ n] by (force simp: plain_def list_all_iff)

lemma plain_version: "plain (show_version a b c)"
  using plain_digits [of a] plain_digits [of b] plain_digits [of c] by (simp add: show_version_def plain_def)

lemma digit_ne: "c \<in> set (nat_digits n) \<Longrightarrow> c \<noteq> CHR ''.'' \<and> c \<noteq> CHR ''+'' \<and> c \<noteq> CHR ''-'' \<and>
    c \<noteq> CHR ''='' \<and> c \<noteq> CHR ''<'' \<and> c \<noteq> CHR ''>'' \<and> c \<noteq> CHR ''^''"
  using nat_digits_range [of c n] by auto

lemma cut_at_id: "c \<notin> set s \<Longrightarrow> cut_at c s = s"
  unfolding cut_at_def by (subst takeWhile_eq_all_conv) auto

lemma parse_show_version:
  assumes "int a < 2 ^ 63" and "int b < 2 ^ 63" and "int c < 2 ^ 63"
  shows "parseManifestVersion (show_version a b c) = Some [int a, int b, int c]"
proof -
  let ?s = "show_version a b c"
  have "CHR ''+'' \<notin> set ?s" "CHR ''-'' \<notin> set ?s" using digit_ne by (auto simp: show_version_def)
  then have cut: "cut_at (CHR ''-'') (cut_at (CHR ''+'') (trimSpace ?s)) = ?s"
    by (simp add: cut_at_id plain_version)
  have nd: "CHR ''.'' \<notin> set (nat_digits n)" for n using digit_ne by blast
  have "split_dot ?s = [nat_digits a, nat_digits b, nat_digits c]"
    by (simp add: show_version_def split_on_append_gen split_on_no_sep nd)
  with assms show ?thesis
    by (simp add: parseManifestVersion_def cut Let_def Atoi_nat_digits)
qed

lemma show_version_head: "\<exists>d r. show_version a b c = d # r \<and> d \<notin> {CHR ''<'', CHR ''>'', CHR ''='', CHR ''^''}"
proof -
  obtain d r where "nat_digits a = d # r" using nat_digits_nonempty by (cases "nat_digits a") auto
  with digit_ne [of d a] show ?thesis by (auto simp: show_version_def)
qed

lemma term_op_show:
  assumes "op \<in> set [''>='', ''<='', ''>'', ''<'', ''='']"
  shows "term_op (op @ show_version a b c) = (op, show_version a b c)"
proof -
  obtain d r where v: "show_version a b c = d # r" "d \<notin> {CHR ''<'', CHR ''>'', CHR ''='', CHR ''^''}"
    using show_version_head by blast
  have p: "plain (d # r)" using plain_version [of a b c] v(1) by simp
  show ?thesis using assms v(2) p
    by (auto simp: term_op_def v(1) hasPrefix_def trimPrefix_def)
qed

section \<open>Properties\<close>

text \<open>
  C9. The entry of a plugin stays below its directory: an accepted entry without backslashes,
  joined to an absolute directory, leads to a path that extends the elements of the directory;
  and when the entry file was checked, so does the real path behind its symbolic links.
\<close>

theorem entry_stays_inside:
  assumes "safeManifestEntry entry" and "backslash \<notin> set entry" and "hasPrefix dir ''/''"
  shows "(\<exists>rest. rest \<noteq> [] \<and> ''..'' \<notin> set rest \<and> elems (dir @ ''/'' @ entry) = elems dir @ rest) \<and>
    (\<forall>fw. validateManifestEntryFile fw dir entry = None \<longrightarrow>
       (\<exists>dirAbs r c rest. fw_abs fw dir = Some dirAbs \<and> fw_real fw dirAbs = Some r \<and>
          fw_real fw (Join dirAbs entry) = Some c \<and> elems c = elems r @ rest))"
proof -
  have s: "''..'' \<notin> set (elems entry)" "elems entry \<noteq> []" "\<not> hasPrefix entry ''/''"
    using safe_entry_no_up [OF assms(1,2)] by auto
  have "clean_elems True [] (split_on (CHR ''/'') dir @ split_on (CHR ''/'') entry) =
      clean_elems False [] (split_on (CHR ''/'') entry) @ clean_elems True [] (split_on (CHR ''/'') dir)"
    using clean_below [of "[]" "split_on (CHR ''/'') entry" "clean_elems True [] (split_on (CHR ''/'') dir)"] s
    by (simp add: clean_elems_append elems_def)
  moreover have "hasPrefix (dir @ ''/'' @ entry) ''/''" using assms(3) by (auto simp: hasPrefix_iff)
  ultimately have "elems (dir @ ''/'' @ entry) = elems dir @ elems entry"
    using assms(3) s(3) by (simp add: elems_def split_on_append_gen)
  moreover have "\<exists>dirAbs r c rest. fw_abs fw dir = Some dirAbs \<and> fw_real fw dirAbs = Some r \<and>
      fw_real fw (Join dirAbs entry) = Some c \<and> elems c = elems r @ rest"
    if "validateManifestEntryFile fw dir entry = None" for fw
    using that Rel_inside
    by (auto simp: validateManifestEntryFile_def Let_def split: option.splits if_splits fileKind.splits)
  ultimately show ?thesis using s by blast
qed

text \<open>
  A manifest without problems keeps what the rest of the engine assumes: its entry is safe,
  an untrusted plugin declares no secrets, its secrets are distinct names of environment
  variables and no test toggle, its ports are typed with known formats on strings only, and
  its network ports and hosts are well formed.
\<close>

lemma valid_manifest_facts:
  assumes "ValidateManifest fw m = []"
  shows "safeManifestEntry (m_entry m) \<and> m_rtType m \<in> {''python'', ''binary''} \<and>
    (m_sandbox m = ''untrusted'' \<longrightarrow> m_secrets m = []) \<and>
    distinct (m_secrets m) \<and>
    (\<forall>s \<in> set (m_secrets m). environmentNamePattern s \<and> \<not> IsTestToggleName s) \<and>
    (\<forall>np \<in> set (m_input m) \<union> set (m_output m). port_declared np) \<and>
    (\<forall>np \<in> set (m_network m). 0 \<le> np_port np \<and> np_port np \<le> 65535 \<and>
       (if np_anyHost np then np_host np = [] else validManifestHost (np_host np)))"
proof -
  from assms have parts: "id_problems m = []" "entry_problems fw m = []" "policy_problems m = []"
    "validateManifestPorts ''input'' (m_input m) = []" "validateManifestPorts ''output'' (m_output m) = []"
    "secret_problems 0 [] (m_secrets m) = []" "network_problems 0 [] (m_network m) = []"
    by (simp_all add: ValidateManifest_def)
  from parts(1) have "m_rtType m \<in> {''python'', ''binary''}" by (auto simp: id_problems_def split: if_splits)
  moreover from parts(2) have "safeManifestEntry (m_entry m)" by (auto simp: entry_problems_def split: if_splits)
  moreover from parts(3) have "m_sandbox m = ''untrusted'' \<longrightarrow> m_secrets m = []"
    by (auto simp: policy_problems_def split: if_splits)
  moreover have "\<forall>np \<in> set (m_input m) \<union> set (m_output m). port_declared np"
    using ports_Nil [OF parts(4)] ports_Nil [OF parts(5)] by blast
  moreover have "\<forall>np \<in> set (m_network m). 0 \<le> np_port np \<and> np_port np \<le> 65535 \<and>
       (if np_anyHost np then np_host np = [] else validManifestHost (np_host np))"
    using net_port_range [OF parts(7)] by blast
  ultimately show ?thesis using parts(6) unfolding secret_problems_Nil by blast
qed

text \<open>
  The constraint on the platform version means what it says: an operator followed by a
  version written in decimal holds exactly when the comparison of the current API version,
  0.1.0, with that version does; a caret accepts the same major version, and below 1.0 the same
  minor version.
\<close>

lemma platformAPI_constraint:
  assumes "int a < 2 ^ 63" and "int b < 2 ^ 63" and "int c < 2 ^ 63"
    and "op \<in> set [''>='', ''<='', ''>'', ''<'', ''='']"
  shows "platformAPICompatible (op @ show_version a b c) =
      op_holds op (compareManifestVersions [0, 1, 0] [int a, int b, int c]) \<and>
    platformAPICompatible (''^'' @ show_version a b c) = (a = 0 \<and> b = 1)"
proof -
  have cur: "parseManifestVersion (PlatformAPI @ ''.0'') = Some [0, 1, 0]" by code_simp
  note p = parse_show_version [OF assms(1-3)]
  obtain d r where v: "show_version a b c = d # r" "d \<notin> {CHR ''<'', CHR ''>'', CHR ''='', CHR ''^''}"
    using show_version_head by blast
  have pl: "plain (op @ show_version a b c)"
    using assms(4) plain_version [of a b c] by (auto simp: plain_def)
  have nc: "\<not> hasPrefix (op @ show_version a b c) ''^''" using assms(4) by (auto simp: hasPrefix_def)
  have "Fields (op @ show_version a b c) = [op @ show_version a b c]"
    using pl v(1) by (intro Fields_plain) auto
  then have one: "platformAPICompatible (op @ show_version a b c) =
      op_holds op (compareManifestVersions [0, 1, 0] [int a, int b, int c])"
    using pl nc term_op_show [OF assms(4)] p by (simp add: platformAPICompatible_def cur Let_def)
  have "plain (''^'' @ show_version a b c)" using plain_version [of a b c] by (simp add: plain_def)
  then have "platformAPICompatible (''^'' @ show_version a b c) = (a = 0 \<and> b = 1)"
    using p trimPrefix_append [of "''^''" "show_version a b c"] hasPrefix_append [of "''^''" "show_version a b c"]
    by (auto simp: platformAPICompatible_def cur Let_def)
  with one show ?thesis by blast
qed

text \<open>
  The check of the entry path and its use disagree about backslashes on a Unix host: there
  is an entry that is accepted, because backslashes count as separators in the check, and that
  leads out of the plugin directory when it is joined, because there they do not.
\<close>

lemma entry_backslash_escapes:
  "safeManifestEntry (''a'' @ [backslash] @ ''b/../../x'') \<and>
   leaves (Rel ''/p'' (Join ''/p'' (''a'' @ [backslash] @ ''b/../../x'')))"
  by code_simp

definition demo_manifest :: manifest where
  "demo_manifest = zero_manifest\<lparr>m_id := ''demo'', m_version := ''1.2.0'', m_platformAPI := ''>=0.1'',
     m_rtType := ''python'', m_entry := ''src/main.py'', m_secrets := [''KEY''], m_sandbox := ''trusted''\<rparr>"

definition demo_files :: fileWorld where
  "demo_files = \<lparr>fw_abs = Some, fw_stat = (\<lambda>_. RegularFile), fw_real = Some, fw_lock = (\<lambda>_. None)\<rparr>"

lemma entry_stays_inside_witness:
  "\<exists>rest. rest \<noteq> [] \<and> ''..'' \<notin> set rest \<and> elems (''/p'' @ ''/'' @ ''src/main.py'') = elems ''/p'' @ rest"
proof -
  have "safeManifestEntry ''src/main.py''" by code_simp
  from entry_stays_inside [OF this, of "''/p''"] show ?thesis by (simp add: hasPrefix_def)
qed

end
