(* ===== verification/Journal_Reader.thy ===== *)
theory Journal_Reader
  imports Run_Resume
begin

text \<open>
  Reading a journal within a budget (internal/journal/reader.go). A file is the list of lines the
  scanner delivers, its size and whether the scanner ends with an error; decoding a line is a
  parameter. The window of raw lines is kept as the code has it, with its dead head and its
  compaction; \<open>live\<close> is what it holds.
\<close>

section \<open>The window of lines\<close>

record rawLine =
  rl_line :: nat
  rl_data :: string

record lineWindow =
  lw_items :: "rawLine list"
  lw_head :: nat
  lw_bytes :: int
  lw_maxBytes :: int
  lw_maxEvents :: int

definition no_line :: rawLine where "no_line = \<lparr>rl_line = 0, rl_data = []\<rparr>"

definition newLineWindow :: "int \<Rightarrow> int \<Rightarrow> lineWindow" where
  "newLineWindow maxBytes maxEvents =
     \<lparr>lw_items = [], lw_head = 0, lw_bytes = 0, lw_maxBytes = maxBytes, lw_maxEvents = maxEvents\<rparr>"

definition lw_len :: "lineWindow \<Rightarrow> int" where
  "lw_len w = int (length (lw_items w)) - int (lw_head w)"

definition full :: "lineWindow \<Rightarrow> bool" where
  "full w =
     (if lw_maxEvents w > 0 \<and> lw_len w \<ge> lw_maxEvents w then True
      else lw_maxBytes w > 0 \<and> lw_bytes w \<ge> lw_maxBytes w)"

definition line_bytes :: "rawLine \<Rightarrow> int" where
  "line_bytes l = int (length (rl_data l))"

definition compact :: "lineWindow \<Rightarrow> lineWindow" where
  "compact w =
     (if lw_head w > 64 \<and> lw_head w * 2 \<ge> length (lw_items w)
      then w\<lparr>lw_items := drop (lw_head w) (lw_items w), lw_head := 0\<rparr> else w)"

definition dropOldest :: "lineWindow \<Rightarrow> lineWindow" where
  "dropOldest w =
     (if lw_head w \<ge> length (lw_items w) then w
      else compact (w\<lparr>lw_bytes := lw_bytes w - line_bytes (lw_items w ! lw_head w),
                      lw_items := (lw_items w)[lw_head w := no_line],
                      lw_head := lw_head w + 1\<rparr>))"

lemma dropOldest_len [simp]: "lw_len (dropOldest w) = (if lw_len w > 0 then lw_len w - 1 else lw_len w)"
  by (auto simp: dropOldest_def compact_def lw_len_def)

lemma dropOldest_limits [simp]:
  "lw_maxBytes (dropOldest w) = lw_maxBytes w" "lw_maxEvents (dropOldest w) = lw_maxEvents w"
  by (simp_all add: dropOldest_def compact_def)

text \<open>The two loops of \<open>push\<close>.\<close>

function drop_events :: "lineWindow \<Rightarrow> lineWindow" where
  "drop_events w =
     (if lw_maxEvents w > 0 \<and> lw_len w \<ge> lw_maxEvents w then drop_events (dropOldest w) else w)"
  by auto
termination by (relation "measure (\<lambda>w. nat (lw_len w))") auto

function drop_bytes :: "int \<Rightarrow> lineWindow \<Rightarrow> lineWindow" where
  "drop_bytes n w =
     (if lw_maxBytes w > 0 \<and> lw_len w > 0 \<and> lw_bytes w + n > lw_maxBytes w
      then drop_bytes n (dropOldest w) else w)"
  by auto
termination by (relation "measure (\<lambda>(n, w). nat (lw_len w))") auto

definition push :: "nat \<Rightarrow> string \<Rightarrow> lineWindow \<Rightarrow> lineWindow" where
  "push line data w =
     (let w' = drop_bytes (int (length data)) (drop_events w)
      in w'\<lparr>lw_items := lw_items w' @ [\<lparr>rl_line = line, rl_data = data\<rparr>],
            lw_bytes := lw_bytes w' + int (length data)\<rparr>)"

text \<open>\<open>decode\<close>: the events kept and their bytes, or the number of the line that is not JSON.\<close>

definition decodeEvent :: "(string \<Rightarrow> obj option) \<Rightarrow> string \<Rightarrow> nat \<Rightarrow> nat + obj" where
  "decodeEvent dec raw line = (case dec raw of None \<Rightarrow> Inl line | Some e \<Rightarrow> Inr e)"

fun decode_window :: "(string \<Rightarrow> obj option) \<Rightarrow> rawLine list \<Rightarrow> nat + (obj list \<times> int)" where
  "decode_window dec [] = Inr ([], 0)"
| "decode_window dec (l # ls) =
     (case decodeEvent dec (rl_data l) (rl_line l) of
        Inl n \<Rightarrow> Inl n
      | Inr e \<Rightarrow>
          (case decode_window dec ls of
             Inl n \<Rightarrow> Inl n
           | Inr (es, k) \<Rightarrow> Inr (e # es, line_bytes l + k)))"

definition decode :: "(string \<Rightarrow> obj option) \<Rightarrow> lineWindow \<Rightarrow> nat + (obj list \<times> int)" where
  "decode dec w = decode_window dec (drop (lw_head w) (lw_items w))"

section \<open>Reading\<close>

record jfile =
  jf_lines :: "string list"
  jf_err :: bool
  jf_size :: int

record readLimits =
  li_maxBytes :: int
  li_maxEvents :: int
  li_tail :: bool

record readResult =
  rr_events :: "obj list"
  rr_first :: int
  rr_next :: int
  rr_total :: int
  rr_bytes :: int
  rr_truncated :: bool

datatype readErr = NoFile | ScanError | BadLine nat

definition DefaultReadLimits :: readLimits where
  "DefaultReadLimits = \<lparr>li_maxBytes = 64 * 2 ^ 20, li_maxEvents = 20000, li_tail = True\<rparr>"

definition blank :: "string \<Rightarrow> bool" where
  "blank raw \<longleftrightarrow> trimSpace raw = []"

fun read_all :: "(string \<Rightarrow> obj option) \<Rightarrow> int \<Rightarrow> nat \<Rightarrow> int \<Rightarrow> string list \<Rightarrow> nat + (obj list \<times> int \<times> int)" where
  "read_all dec since line idx [] = Inr ([], 0, idx)"
| "read_all dec since line idx (raw # ls) =
     (if blank raw then read_all dec since (line + 1) idx ls
      else if idx < since then read_all dec since (line + 1) (idx + 1) ls
      else case decodeEvent dec raw (line + 1) of
        Inl n \<Rightarrow> Inl n
      | Inr e \<Rightarrow>
          (case read_all dec since (line + 1) (idx + 1) ls of
             Inl n \<Rightarrow> Inl n
           | Inr (es, k, n) \<Rightarrow> Inr (e # es, int (length raw) + k, n)))"

definition readAllEvents :: "(string \<Rightarrow> obj option) \<Rightarrow> jfile \<Rightarrow> int \<Rightarrow> readErr + readResult" where
  "readAllEvents dec f since =
     (case read_all dec since 0 0 (jf_lines f) of
        Inl n \<Rightarrow> Inl (BadLine n)
      | Inr (es, k, idx) \<Rightarrow>
          if jf_err f then Inl ScanError
          else Inr \<lparr>rr_events = es, rr_first = idx - int (length es), rr_next = idx, rr_total = idx,
                    rr_bytes = k, rr_truncated = False\<rparr>)"

text \<open>
  The loop of \<open>readEventWindow\<close>: the window, the number of events, the bytes scanned, and the
  lines the scanner has not delivered when the loop breaks off.
\<close>

record scanState =
  ss_line :: nat
  ss_idx :: int
  ss_scanned :: int
  ss_window :: lineWindow

fun scan_window :: "int \<Rightarrow> bool \<Rightarrow> scanState \<Rightarrow> string list \<Rightarrow> scanState \<times> string list option" where
  "scan_window since tail s [] = (s, None)"
| "scan_window since tail s (raw # ls) =
     (let s1 = s\<lparr>ss_line := ss_line s + 1, ss_scanned := ss_scanned s + int (length raw) + 1\<rparr> in
      if blank raw then scan_window since tail s1 ls
      else if ss_idx s1 < since then scan_window since tail (s1\<lparr>ss_idx := ss_idx s1 + 1\<rparr>) ls
      else if \<not> tail \<and> full (ss_window s1) then (s1, Some ls)
      else scan_window since tail
        (s1\<lparr>ss_window := push (ss_line s1) raw (ss_window s1), ss_idx := ss_idx s1 + 1\<rparr>) ls)"

definition moreEventsAfter :: "string list \<Rightarrow> int \<Rightarrow> int \<Rightarrow> bool" where
  "moreEventsAfter rest scanned fsize =
     (if scanned \<ge> fsize then False else list_ex (\<lambda>raw. \<not> blank raw) rest)"

definition scan_start :: "readLimits \<Rightarrow> scanState" where
  "scan_start li = \<lparr>ss_line = 0, ss_idx = 0, ss_scanned = 0,
     ss_window = newLineWindow (li_maxBytes li) (li_maxEvents li)\<rparr>"

definition readEventWindow :: "(string \<Rightarrow> obj option) \<Rightarrow> jfile \<Rightarrow> int \<Rightarrow> readLimits \<Rightarrow> readErr + readResult" where
  "readEventWindow dec f since li =
     (let (s, rest) = scan_window since (li_tail li) (scan_start li) (jf_lines f) in
      if rest = None \<and> jf_err f then Inl ScanError
      else
        let more = (\<not> li_tail li \<and> full (ss_window s) \<and>
          moreEventsAfter (case rest of None \<Rightarrow> [] | Some ls \<Rightarrow> ls) (ss_scanned s) (jf_size f)) in
        case decode dec (ss_window s) of
          Inl n \<Rightarrow> Inl (BadLine n)
        | Inr (events, kept) \<Rightarrow>
            let n = int (length events); idx = ss_idx s in
            if li_tail li
            then Inr \<lparr>rr_events = events, rr_first = idx - n, rr_next = idx, rr_total = idx,
                      rr_bytes = kept, rr_truncated = (idx - n > 0)\<rparr>
            else let since' = min since idx in
              Inr \<lparr>rr_events = events, rr_first = since', rr_next = since' + n, rr_total = idx,
                   rr_bytes = kept, rr_truncated = more\<rparr>)"

definition EventsBounded :: "(string \<Rightarrow> obj option) \<Rightarrow> jfile option \<Rightarrow> int \<Rightarrow> readLimits \<Rightarrow> readErr + readResult" where
  "EventsBounded dec fo since li =
     (case fo of
        None \<Rightarrow> Inl NoFile
      | Some f \<Rightarrow>
          let since' = max 0 since in
          if li_maxBytes li \<le> 0 \<and> li_maxEvents li \<le> 0 then readAllEvents dec f since'
          else readEventWindow dec f since' li)"

definition Reader_Events :: "(string \<Rightarrow> obj option) \<Rightarrow> jfile option \<Rightarrow> readErr + obj list" where
  "Reader_Events dec fo =
     (case EventsBounded dec fo 0 \<lparr>li_maxBytes = 0, li_maxEvents = 0, li_tail = False\<rparr> of
        Inl e \<Rightarrow> Inl e | Inr r \<Rightarrow> Inr (rr_events r))"

section \<open>What the window holds\<close>

declare drop_events.simps [simp del] drop_bytes.simps [simp del]

definition live :: "lineWindow \<Rightarrow> rawLine list" where
  "live w = drop (lw_head w) (lw_items w)"

definition bytes_of :: "rawLine list \<Rightarrow> int" where
  "bytes_of ls = sum_list (map line_bytes ls)"

definition window_inv :: "lineWindow \<Rightarrow> bool" where
  "window_inv w \<longleftrightarrow> lw_head w \<le> length (lw_items w) \<and> lw_bytes w = bytes_of (live w)"

lemma bytes_of_simps [simp]:
  "bytes_of [] = 0" "bytes_of (l # ls) = line_bytes l + bytes_of ls"
  "bytes_of (xs @ ys) = bytes_of xs + bytes_of ys"
  by (simp_all add: bytes_of_def)

lemma line_bytes_nonneg [simp]: "0 \<le> line_bytes l"
  by (simp add: line_bytes_def)

lemma bytes_of_nonneg [simp]: "0 \<le> bytes_of ls"
  by (induction ls) (auto intro: add_nonneg_nonneg)

lemma lw_len_live: "window_inv w \<Longrightarrow> lw_len w = int (length (live w))"
  by (simp add: window_inv_def lw_len_def live_def)

text \<open>The longest suffix with a property: the reference definition of the window.\<close>

fun longest :: "('a list \<Rightarrow> bool) \<Rightarrow> 'a list \<Rightarrow> 'a list" where
  "longest P [] = []"
| "longest P (l # ls) = (if P (l # ls) then l # ls else longest P ls)"

lemma longest_longest:
  "(\<And>ls. Q ls \<Longrightarrow> P ls) \<Longrightarrow> longest Q (longest P ls) = longest Q ls"
  by (induction ls) auto

lemma longest_narrow:
  "(\<And>l ls. P (l # ls) \<Longrightarrow> P ls) \<Longrightarrow> longest Q (longest P ls) = longest (\<lambda>ls. P ls \<and> Q ls) ls"
proof (induction ls)
  case (Cons l ls)
  have "P ls \<Longrightarrow> longest Q ls = longest (\<lambda>ls. P ls \<and> Q ls) ls" for ls
    by (induction ls) (use Cons.prems in auto)
  then show ?case using Cons by (metis longest.simps(2))
qed simp

lemma longest_snoc: "longest P (ls @ [x]) = (if P [x] then longest (\<lambda>s. P (s @ [x])) ls @ [x] else longest P (ls @ [x]))"
  by (induction ls) auto

lemma longest_suffix: "\<exists>pre. ls = pre @ longest P ls"
proof (induction ls)
  case (Cons l ls)
  then show ?case by (metis append.left_neutral append_Cons longest.simps(2))
qed simp

lemma longest_P: "P [] \<Longrightarrow> P (longest P ls)"
  by (induction ls) auto

text \<open>What the limits allow: as many events, and as many bytes, unless it is a single line.\<close>

definition window_fits :: "int \<Rightarrow> int \<Rightarrow> rawLine list \<Rightarrow> bool" where
  "window_fits mb me ls \<longleftrightarrow> (me > 0 \<longrightarrow> int (length ls) \<le> me) \<and> (mb > 0 \<and> length ls > 1 \<longrightarrow> bytes_of ls \<le> mb)"

lemma dropOldest_live:
  assumes "window_inv w" and "lw_len w > 0"
  shows "window_inv (dropOldest w) \<and> live (dropOldest w) = tl (live w)"
proof -
  have h: "lw_head w < length (lw_items w)" using assms(2) by (simp add: lw_len_def)
  then have "live w = lw_items w ! lw_head w # drop (Suc (lw_head w)) (lw_items w)"
    by (simp add: live_def Cons_nth_drop_Suc)
  with h assms(1) show ?thesis
    by (auto simp: dropOldest_def compact_def window_inv_def live_def drop_update_cancel)
qed

lemma drop_events_live:
  "window_inv w \<Longrightarrow> window_inv (drop_events w) \<and> lw_maxBytes (drop_events w) = lw_maxBytes w \<and>
     lw_maxEvents (drop_events w) = lw_maxEvents w \<and>
     live (drop_events w) = longest (\<lambda>ls. lw_maxEvents w > 0 \<longrightarrow> int (length ls) < lw_maxEvents w) (live w)"
proof (induction w rule: drop_events.induct)
  case (1 w)
  show ?case
  proof (cases "lw_maxEvents w > 0 \<and> lw_len w \<ge> lw_maxEvents w")
    case True
    with 1(2) dropOldest_live [of w] have d: "window_inv (dropOldest w)" "live (dropOldest w) = tl (live w)" by auto
    have "live w \<noteq> []" using True lw_len_live [OF 1(2)] by auto
    then obtain l ls where l: "live w = l # ls" by (cases "live w") auto
    have "\<not> int (length (live w)) < lw_maxEvents w" using True lw_len_live [OF 1(2)] by simp
    with 1(1) [OF True d(1)] True d(2) l show ?thesis by (simp add: drop_events.simps [of w])
  next
    case False
    then show ?thesis using lw_len_live [OF 1(2)] 1(2) by (cases "live w") (auto simp: drop_events.simps [of w])
  qed
qed

lemma drop_bytes_live:
  "window_inv w \<Longrightarrow> window_inv (drop_bytes n w) \<and> lw_maxBytes (drop_bytes n w) = lw_maxBytes w \<and>
     lw_maxEvents (drop_bytes n w) = lw_maxEvents w \<and>
     live (drop_bytes n w) = longest (\<lambda>ls. lw_maxBytes w > 0 \<and> ls \<noteq> [] \<longrightarrow> bytes_of ls + n \<le> lw_maxBytes w) (live w)"
proof (induction n w rule: drop_bytes.induct)
  case (1 n w)
  show ?case
  proof (cases "lw_maxBytes w > 0 \<and> lw_len w > 0 \<and> lw_bytes w + n > lw_maxBytes w")
    case True
    with 1(2) dropOldest_live [of w] have d: "window_inv (dropOldest w)" "live (dropOldest w) = tl (live w)" by auto
    have "live w \<noteq> []" using True lw_len_live [OF 1(2)] by auto
    then obtain l ls where l: "live w = l # ls" by (cases "live w") auto
    have "\<not> bytes_of (live w) + n \<le> lw_maxBytes w" using True 1(2) by (simp add: window_inv_def)
    with 1(1) [OF True d(1)] True d(2) l show ?thesis by (simp add: drop_bytes.simps [of n w])
  next
    case False
    then show ?thesis using lw_len_live [OF 1(2)] 1(2)
      by (cases "live w") (auto simp: drop_bytes.simps [of n w] window_inv_def)
  qed
qed

lemma push_live:
  assumes "window_inv w" and "live w = longest (window_fits (lw_maxBytes w) (lw_maxEvents w)) ls"
  shows "window_inv (push n data w) \<and> lw_maxBytes (push n data w) = lw_maxBytes w \<and>
    lw_maxEvents (push n data w) = lw_maxEvents w \<and>
    live (push n data w) = longest (window_fits (lw_maxBytes w) (lw_maxEvents w)) (ls @ [\<lparr>rl_line = n, rl_data = data\<rparr>])"
proof -
  let ?x = "\<lparr>rl_line = n, rl_data = data\<rparr>" and ?me = "lw_maxEvents w" and ?mb = "lw_maxBytes w"
  let ?w = "drop_bytes (int (length data)) (drop_events w)"
  let ?P = "\<lambda>ls::rawLine list. ?me > 0 \<longrightarrow> int (length ls) < ?me"
  let ?Q = "\<lambda>ls. ?mb > 0 \<and> ls \<noteq> [] \<longrightarrow> bytes_of ls + int (length data) \<le> ?mb"
  have e: "window_inv (drop_events w)" "lw_maxBytes (drop_events w) = ?mb" "lw_maxEvents (drop_events w) = ?me"
    "live (drop_events w) = longest ?P (live w)" using drop_events_live [OF assms(1)] by auto
  have b: "window_inv ?w" "lw_maxBytes ?w = ?mb" "lw_maxEvents ?w = ?me"
    "live ?w = longest ?Q (longest ?P (live w))" using drop_bytes_live [OF e(1), of "int (length data)"] e by auto
  have room: "(?P ls \<and> ?Q ls) = window_fits ?mb ?me (ls @ [?x])" for ls
    by (auto simp: window_fits_def line_bytes_def)
  have "live ?w = longest (\<lambda>s. ?P s \<and> ?Q s) (live w)"
    unfolding b(4) by (rule longest_narrow) auto
  also have "\<dots> = longest (\<lambda>s. window_fits ?mb ?me (s @ [?x])) (longest (window_fits ?mb ?me) ls)"
    unfolding room assms(2) ..
  also have "\<dots> = longest (\<lambda>s. window_fits ?mb ?me (s @ [?x])) ls"
    by (rule longest_longest) (auto simp: window_fits_def line_bytes_def split: if_splits)
  finally have l: "live ?w = longest (\<lambda>s. window_fits ?mb ?me (s @ [?x])) ls" .
  have "window_fits ?mb ?me [?x]" by (auto simp: window_fits_def)
  with l b(1-3) show ?thesis
    by (subst longest_snoc) (auto simp: push_def Let_def window_inv_def live_def line_bytes_def)
qed

section \<open>The events of a file\<close>

fun number :: "nat \<Rightarrow> string list \<Rightarrow> rawLine list" where
  "number n [] = []"
| "number n (raw # ls) =
     (if blank raw then number (n + 1) ls else \<lparr>rl_line = n + 1, rl_data = raw\<rparr> # number (n + 1) ls)"

abbreviation all_lines :: "jfile \<Rightarrow> rawLine list" where
  "all_lines f \<equiv> number 0 (jf_lines f)"

lemma nat_diff_Suc: "since > idx \<Longrightarrow> nat (since - idx) = Suc (nat (since - idx - 1))" for since idx :: int
  by simp

lemma read_all_eq:
  "read_all dec since n idx ls =
     (case decode_window dec (drop (nat (since - idx)) (number n ls)) of
        Inl e \<Rightarrow> Inl e
      | Inr (es, k) \<Rightarrow> Inr (es, k, idx + int (length (number n ls))))"
proof (induction ls arbitrary: n idx)
  case (Cons raw ls)
  show ?case
  proof (cases "idx < since")
    case True
    have "nat (since - (idx + 1)) = nat (since - idx - 1)" by simp
    then show ?thesis using Cons [of "n + 1" idx] Cons [of "n + 1" "idx + 1"] True
      by (auto simp: nat_diff_Suc split: sum.splits)
  next
    case False
    then show ?thesis using Cons [of "n + 1" idx] Cons [of "n + 1" "idx + 1"]
      by (auto simp: line_bytes_def split: sum.splits)
  qed
qed simp

lemma decode_window_length: "decode_window dec ls = Inr (es, k) \<Longrightarrow> length es = length ls \<and> k = bytes_of ls"
  by (induction ls arbitrary: es k) (auto split: sum.splits)

text \<open>The tail: the window is the longest suffix of the lines from \<open>since\<close> on that fits.\<close>

lemma scan_tail:
  assumes "window_inv (ss_window s)"
    and "live (ss_window s) = longest (window_fits (lw_maxBytes (ss_window s)) (lw_maxEvents (ss_window s))) old"
    and "old = [] \<or> since \<le> ss_idx s"
  shows "\<exists>s'. scan_window since True s ls = (s', None) \<and>
    window_inv (ss_window s') \<and>
    live (ss_window s') = longest (window_fits (lw_maxBytes (ss_window s)) (lw_maxEvents (ss_window s)))
      (old @ drop (nat (since - ss_idx s)) (number (ss_line s) ls)) \<and>
    ss_idx s' = ss_idx s + int (length (number (ss_line s) ls))"
  using assms
proof (induction ls arbitrary: s old)
  case (Cons raw ls)
  let ?s1 = "s\<lparr>ss_line := ss_line s + 1, ss_scanned := ss_scanned s + int (length raw) + 1\<rparr>"
  consider "blank raw" | "\<not> blank raw" "ss_idx s < since" | "\<not> blank raw" "since \<le> ss_idx s" by linarith
  then show ?case
  proof cases
    case 1
    with Cons.IH [of ?s1 old] Cons.prems show ?thesis by simp
  next
    case 2
    have "nat (since - (ss_idx s + 1)) = nat (since - ss_idx s - 1)" by simp
    with 2 Cons.IH [of "?s1\<lparr>ss_idx := ss_idx s + 1\<rparr>" old] Cons.prems show ?thesis
      by (auto simp: nat_diff_Suc)
  next
    case 3
    let ?w = "push (ss_line s + 1) raw (ss_window s)"
    from push_live [OF Cons.prems(1,2), of "ss_line s + 1" raw]
    have w: "window_inv ?w" "lw_maxBytes ?w = lw_maxBytes (ss_window s)" "lw_maxEvents ?w = lw_maxEvents (ss_window s)"
      "live ?w = longest (window_fits (lw_maxBytes (ss_window s)) (lw_maxEvents (ss_window s)))
        (old @ [\<lparr>rl_line = ss_line s + 1, rl_data = raw\<rparr>])" by auto
    from Cons.IH [of "?s1\<lparr>ss_window := ?w, ss_idx := ss_idx s + 1\<rparr>" "old @ [\<lparr>rl_line = ss_line s + 1, rl_data = raw\<rparr>]"]
      w 3 show ?thesis by (simp add: algebra_simps)
  qed
qed simp

lemma window_inv_new: "window_inv (newLineWindow mb me)" "live (newLineWindow mb me) = []"
  by (simp_all add: window_inv_def live_def newLineWindow_def)

text \<open>The head without a byte limit: the first lines from \<open>since\<close> on, as many as fit.\<close>

lemma full_events:
  "window_inv w \<Longrightarrow> lw_maxBytes w \<le> 0 \<Longrightarrow> lw_maxEvents w > 0 \<Longrightarrow>
     full w \<longleftrightarrow> int (length (live w)) \<ge> lw_maxEvents w"
  by (auto simp: full_def lw_len_live)

lemma push_not_full:
  assumes "window_inv w" and "lw_maxBytes w \<le> 0" and "lw_maxEvents w > 0" and "\<not> full w"
  shows "window_inv (push n raw w) \<and> lw_maxBytes (push n raw w) = lw_maxBytes w \<and>
    lw_maxEvents (push n raw w) = lw_maxEvents w \<and> live (push n raw w) = live w @ [\<lparr>rl_line = n, rl_data = raw\<rparr>]"
proof -
  have window_fits: "window_fits (lw_maxBytes w) (lw_maxEvents w) (live w @ [x])" for x
    using assms full_events [OF assms(1-3)] by (auto simp: window_fits_def)
  have "longest P xs = xs" if "P xs" for P and xs :: "rawLine list" using that by (cases xs) auto
  then have "live w = longest (window_fits (lw_maxBytes w) (lw_maxEvents w)) (live w)"
    "longest (window_fits (lw_maxBytes w) (lw_maxEvents w)) (live w @ [x]) = live w @ [x]" for x
    using assms full_events [OF assms(1-3)] window_fits by (auto simp: window_fits_def)
  with push_live [OF assms(1), of "live w" n raw] show ?thesis by simp
qed

definition cost :: "string list \<Rightarrow> int" where
  "cost ls = sum_list (map (\<lambda>raw. int (length raw) + 1) ls)"

lemma cost_simps [simp]: "cost [] = 0" "cost (raw # ls) = int (length raw) + 1 + cost ls"
  by (simp_all add: cost_def)

lemma cost_nonneg [simp]: "0 \<le> cost ls"
  by (induction ls) auto

lemma number_empty_iff: "number n ls = [] \<longleftrightarrow> \<not> list_ex (\<lambda>raw. \<not> blank raw) ls"
  by (induction ls arbitrary: n) auto

lemma blank_empty [simp]: "blank []"
  unfolding blank_def by code_simp

lemma cost_nonblank: "list_ex (\<lambda>raw. \<not> blank raw) ls \<Longrightarrow> 2 \<le> cost ls"
proof (induction ls)
  case (Cons raw ls)
  then show ?case using cost_nonneg [of ls] by (cases raw) auto
qed simp

text \<open>
  What the loop leaves: \<open>room\<close> further events are taken; when it breaks off, one more event has
  been consumed and the rest holds the others.
\<close>

lemma scan_head:
  assumes "window_inv (ss_window s)" and "lw_maxBytes (ss_window s) \<le> 0"
    and "lw_maxEvents (ss_window s) = m" and "m > 0" and "int (length (live (ss_window s))) \<le> m"
    and "live (ss_window s) = [] \<or> since \<le> ss_idx s"
    and "skip = nat (since - ss_idx s)" and "room = nat (m - int (length (live (ss_window s))))"
    and "scan_window since False s ls = (s', rest)"
  shows "(window_inv (ss_window s') \<and> lw_maxBytes (ss_window s') \<le> 0 \<and> lw_maxEvents (ss_window s') = m) \<and>
    live (ss_window s') = live (ss_window s) @ take room (drop skip (number (ss_line s) ls)) \<and>
    ss_idx s' = ss_idx s + int (min (length (number (ss_line s) ls)) (skip + room)) \<and>
    (case rest of
       None \<Rightarrow> length (number (ss_line s) ls) \<le> skip + room
     | Some r \<Rightarrow> (list_ex (\<lambda>raw. \<not> blank raw) r \<longleftrightarrow> length (number (ss_line s) ls) > skip + room + 1) \<and>
         skip + room < length (number (ss_line s) ls) \<and>
         ss_scanned s' + cost r = ss_scanned s + cost ls)"
  using assms
proof (induction ls arbitrary: s skip room)
  case (Cons raw ls)
  let ?s1 = "s\<lparr>ss_line := ss_line s + 1, ss_scanned := ss_scanned s + int (length raw) + 1\<rparr>"
  note p = Cons.prems
  consider "blank raw" | "\<not> blank raw" "ss_idx s < since" | "\<not> blank raw" "since \<le> ss_idx s" "full (ss_window s)"
    | "\<not> blank raw" "since \<le> ss_idx s" "\<not> full (ss_window s)" by linarith
  then show ?case
  proof cases
    case 1
    with p(9) have "scan_window since False ?s1 ls = (s', rest)" by (simp add: Let_def)
    with 1 Cons.IH [of ?s1 skip room] p(1-8) show ?thesis by (cases rest) auto
  next
    case 2
    with p(9) have e: "scan_window since False (?s1\<lparr>ss_idx := ss_idx s + 1\<rparr>) ls = (s', rest)"
      by (simp add: Let_def)
    from 2 p(7) obtain k where k: "skip = Suc k" "k = nat (since - (ss_idx s + 1))"
      by (cases skip) auto
    have i: "ss_idx s + int (min (length (number (Suc (ss_line s)) ls)) (k + room)) + 1 =
      ss_idx s + int (min (Suc (length (number (Suc (ss_line s)) ls))) (Suc k + room))" by simp
    from e 2 Cons.IH [of "?s1\<lparr>ss_idx := ss_idx s + 1\<rparr>" k room] p(1-6,8) k(2) i show ?thesis
      unfolding k(1) by (cases rest) (auto simp: algebra_simps)
  next
    case 3
    from 3 p full_events [OF p(1,2)] have z: "room = 0" "skip = 0" by auto
    have "(length (number (Suc (ss_line s)) ls) > 0) = list_ex (\<lambda>raw. \<not> blank raw) ls"
      using number_empty_iff [of "Suc (ss_line s)" ls] by auto
    with 3 p z show ?thesis by (auto simp: Let_def)
  next
    case 4
    let ?w = "push (ss_line s + 1) raw (ss_window s)"
    have w: "window_inv ?w" "lw_maxBytes ?w \<le> 0" "lw_maxEvents ?w = m"
      "live ?w = live (ss_window s) @ [\<lparr>rl_line = ss_line s + 1, rl_data = raw\<rparr>]"
      using push_not_full [OF p(1,2) _ 4(3), of "ss_line s + 1" raw] p by auto
    have len: "int (length (live (ss_window s))) < m" using 4(3) full_events [OF p(1,2)] p by auto
    then obtain k where k: "room = Suc k" "k = nat (m - (int (length (live (ss_window s))) + 1))"
      using p(8) by (cases room) auto
    have z: "skip = 0" using 4 p(7) by simp
    from p(9) 4 have e: "scan_window since False (?s1\<lparr>ss_window := ?w, ss_idx := ss_idx s + 1\<rparr>) ls = (s', rest)"
      by (simp add: Let_def)
    let ?s2 = "?s1\<lparr>ss_window := ?w, ss_idx := ss_idx s + 1\<rparr>" and ?n = "number (Suc (ss_line s)) ls"
    have k2: "k = nat (m - int (length (live (ss_window ?s2))))" using w k(2) by simp
    have pre: "int (length (live (ss_window ?s2))) \<le> m" "live (ss_window ?s2) = [] \<or> since \<le> ss_idx ?s2"
      "0 = nat (since - ss_idx ?s2)" using w len 4 by simp_all
    from Cons.IH [OF _ _ _ p(4) pre k2 e] w
    have ih: "(window_inv (ss_window s') \<and> lw_maxBytes (ss_window s') \<le> 0 \<and> lw_maxEvents (ss_window s') = m) \<and>
      live (ss_window s') = live ?w @ take k ?n \<and>
      ss_idx s' = ss_idx s + 1 + int (min (length ?n) k) \<and>
      (case rest of
         None \<Rightarrow> length ?n \<le> k
       | Some r \<Rightarrow> (list_ex (\<lambda>raw. \<not> blank raw) r \<longleftrightarrow> length ?n > k + 1) \<and> k < length ?n \<and>
           ss_scanned s' + cost r = ss_scanned s + int (length raw) + 1 + cost ls)"
      by (cases rest) simp_all
    show ?thesis using ih 4(1) w(4) unfolding k(1) z by (cases rest) (auto simp: algebra_simps)
  qed
qed auto

definition window_result :: "nat + (obj list \<times> int) \<Rightarrow> (int \<Rightarrow> int) \<Rightarrow> (int \<Rightarrow> int) \<Rightarrow> int \<Rightarrow> (int \<Rightarrow> bool) \<Rightarrow> readErr + readResult" where
  "window_result d first nxt n trunc =
     (case d of
        Inl e \<Rightarrow> Inl (BadLine e)
      | Inr (es, k) \<Rightarrow> let c = int (length es) in
          Inr \<lparr>rr_events = es, rr_first = first c, rr_next = nxt c, rr_total = n, rr_bytes = k,
               rr_truncated = trunc c\<rparr>)"

lemma sum_case_cong_len:
  "(\<And>es k. decode_window dec ls = Inr (es, k) \<Longrightarrow> f (es, k) = g (es, k)) \<Longrightarrow>
   (case decode_window dec ls of Inl e \<Rightarrow> h e | Inr p \<Rightarrow> f p) =
   (case decode_window dec ls of Inl e \<Rightarrow> h e | Inr p \<Rightarrow> g p)"
  by (auto split: sum.splits)

text \<open>
  C32. A bounded read of the tail is exact: the events are the decoded lines of the longest suffix
  of the journal that keeps both limits (a single last line may exceed the bytes), their position
  is counted over the whole journal, and nothing is decoded outside the window.
\<close>

theorem tail_is_longest_suffix:
  assumes "li_tail li" and "li_maxBytes li > 0 \<or> li_maxEvents li > 0" and "\<not> jf_err f"
  shows "EventsBounded dec (Some f) since li =
    (let n = int (length (all_lines f)) in
     window_result
       (decode_window dec (longest (window_fits (li_maxBytes li) (li_maxEvents li)) (drop (nat since) (all_lines f))))
       (\<lambda>c. n - c) (\<lambda>c. n) n (\<lambda>c. c < n))"
proof -
  let ?s = "scan_start li"
  have s: "window_inv (ss_window ?s)" "live (ss_window ?s) = longest (window_fits (lw_maxBytes (ss_window ?s)) (lw_maxEvents (ss_window ?s))) []"
    "lw_maxBytes (ss_window ?s) = li_maxBytes li" "lw_maxEvents (ss_window ?s) = li_maxEvents li"
    "ss_idx ?s = 0" "ss_line ?s = 0"
    using window_inv_new by (auto simp: scan_start_def newLineWindow_def)
  have n: "nat (max 0 since) = nat since" by (simp add: max_def)
  from scan_tail [OF s(1,2), of "max 0 since" "jf_lines f"] s(3-6) n obtain s' where
    r: "scan_window (max 0 since) True ?s (jf_lines f) = (s', None)"
    "live (ss_window s') = longest (window_fits (li_maxBytes li) (li_maxEvents li)) (drop (nat since) (all_lines f))"
    "ss_idx s' = int (length (all_lines f))" by auto
  from assms have b: "EventsBounded dec (Some f) since li = readEventWindow dec f (max 0 since) li"
    by (auto simp: EventsBounded_def)
  show ?thesis unfolding b readEventWindow_def decode_def
    using r assms(1,3)
    by (auto simp: live_def window_result_def Let_def split: sum.split)
qed

text \<open>
  A page of the head, limited by a number of events, starts at its cursor and takes exactly the
  events that follow, and the next cursor is the first event it leaves out. It reports the journal
  as continuing only when at least two further events are there: one that is left is not seen.
\<close>

lemma head_page_exact:
  assumes "\<not> li_tail li" and "li_maxBytes li \<le> 0" and "li_maxEvents li = int m" and "m > 0"
    and "\<not> jf_err f" and "cost (jf_lines f) \<le> jf_size f + 1"
  shows "EventsBounded dec (Some f) since li =
    (let n = int (length (all_lines f)); start = min (max 0 since) n in
     window_result (decode_window dec (take m (drop (nat since) (all_lines f))))
       (\<lambda>c. start) (\<lambda>c. start + c) (min n (max 0 since + int m)) (\<lambda>c. n > max 0 since + int m + 1))"
proof -
  let ?s = "scan_start li" and ?all = "all_lines f"
  obtain s' rest where r: "scan_window (max 0 since) False ?s (jf_lines f) = (s', rest)"
    by (cases "scan_window (max 0 since) False ?s (jf_lines f)") auto
  have s: "window_inv (ss_window ?s)" "live (ss_window ?s) = []" "lw_maxBytes (ss_window ?s) \<le> 0"
    "lw_maxEvents (ss_window ?s) = int m" "ss_idx ?s = 0" "ss_line ?s = 0" "ss_scanned ?s = 0"
    using window_inv_new assms by (auto simp: scan_start_def newLineWindow_def)
  have z: "nat since = nat (max 0 since - ss_idx ?s)" "m = nat (int m - int (length (live (ss_window ?s))))"
    using s by (auto simp: max_def)
  from scan_head [OF s(1,3,4) _ _ _ z r] s(2,5,6,7) assms(4)
  have h: "window_inv (ss_window s')" "lw_maxBytes (ss_window s') \<le> 0" "lw_maxEvents (ss_window s') = int m"
    "live (ss_window s') = take m (drop (nat since) ?all)"
    "ss_idx s' = int (min (length ?all) (nat since + m))"
    and c: "case rest of None \<Rightarrow> length ?all \<le> nat since + m
      | Some r \<Rightarrow> (list_ex (\<lambda>raw. \<not> blank raw) r \<longleftrightarrow> length ?all > nat since + m + 1) \<and>
          nat since + m < length ?all \<and> ss_scanned s' + cost r = cost (jf_lines f)"
    by (auto cong: option.case_cong)
  have full: "full (ss_window s') \<longleftrightarrow> int (length (take m (drop (nat since) ?all))) \<ge> int m"
    using full_events [OF h(1,2)] h(3,4) assms(4) by simp
  have more: "full (ss_window s') \<and> moreEventsAfter (case rest of None \<Rightarrow> [] | Some ls \<Rightarrow> ls) (ss_scanned s') (jf_size f)
      \<longleftrightarrow> length ?all > nat since + m + 1"
  proof (cases rest)
    case (Some r)
    with c cost_nonblank [of r] assms(6) show ?thesis
      unfolding full by (auto simp: moreEventsAfter_def)
  qed (use c in \<open>simp add: moreEventsAfter_def\<close>)
  have i: "(length ?all > nat since + m + 1) = (int (length ?all) > max 0 since + int m + 1)"
    "int (min (length ?all) (nat since + m)) = min (int (length ?all)) (max 0 since + int m)" by linarith+
  have start: "min (max 0 since) (min (int (length ?all)) (max 0 since + int m)) = min (max 0 since) (int (length ?all))"
    by simp
  have b: "EventsBounded dec (Some f) since li = readEventWindow dec f (max 0 since) li"
    using assms by (auto simp: EventsBounded_def)
  have e: "\<not> (rest = None \<and> jf_err f)" using assms(5) by simp
  have d: "decode dec (ss_window s') = decode_window dec (take m (drop (nat since) ?all))"
    using h(4) by (simp add: decode_def live_def)
  have t: "li_tail li = False" using assms(1) by simp
  have m2: "(full (ss_window s') \<and> moreEventsAfter (case rest of None \<Rightarrow> [] | Some ls \<Rightarrow> ls) (ss_scanned s') (jf_size f))
      = (int (length ?all) > max 0 since + int m + 1)" unfolding more i ..
  show ?thesis
    unfolding b readEventWindow_def t r Let_def prod.case if_not_P [OF e] d h(5) i start window_result_def
    using m2 by (simp split: sum.split)
qed

text \<open>A client that polls the pages of the journal along the cursor \<open>next\<close>.\<close>

definition pages_of :: "nat \<Rightarrow> readLimits" where
  "pages_of m = \<lparr>li_maxBytes = 0, li_maxEvents = int m, li_tail = False\<rparr>"

fun poll :: "(string \<Rightarrow> obj option) \<Rightarrow> jfile \<Rightarrow> nat \<Rightarrow> nat \<Rightarrow> int \<Rightarrow> obj list" where
  "poll dec f m 0 since = []"
| "poll dec f m (Suc k) since =
     (case EventsBounded dec (Some f) since (pages_of m) of
        Inl e \<Rightarrow> []
      | Inr r \<Rightarrow> rr_events r @ poll dec f m k (rr_next r))"

definition event_at :: "(string \<Rightarrow> obj option) \<Rightarrow> rawLine \<Rightarrow> obj" where
  "event_at dec l = the (dec (rl_data l))"

lemma decode_all:
  "\<forall>l \<in> set ls. dec (rl_data l) \<noteq> None \<Longrightarrow>
     decode_window dec ls = Inr (map (event_at dec) ls, bytes_of ls)"
  by (induction ls) (force simp: decodeEvent_def event_at_def)+

lemma poll_page:
  assumes "\<forall>l \<in> set (all_lines f). dec (rl_data l) \<noteq> None"
    and "m > 0" and "\<not> jf_err f" and "cost (jf_lines f) \<le> jf_size f + 1" and "i \<le> length (all_lines f)"
  shows "poll dec f m (Suc k) (int i) =
    map (event_at dec) (take m (drop i (all_lines f))) @
    poll dec f m k (int (min (i + m) (length (all_lines f))))"
proof -
  have l: "\<forall>l \<in> set (take m (drop i (all_lines f))). dec (rl_data l) \<noteq> None"
    using assms(1) by (meson in_set_dropD in_set_takeD)
  have n: "int i + int (length (take m (drop i (all_lines f)))) = int (min (i + m) (length (all_lines f)))"
    using assms(5) by auto
  from head_page_exact [of "pages_of m" m f dec "int i"] assms(2-5) decode_all [OF l] n
  show ?thesis
    by (simp add: pages_of_def window_result_def Let_def max_def min_def)
qed

lemma take_page: "drop i xs = take m (drop i xs) @ drop (min (i + m) (length xs)) xs"
proof (cases "i + m \<le> length xs")
  case True
  then have "drop (min (i + m) (length xs)) xs = drop m (drop i xs)" by (simp add: add.commute)
  then show ?thesis by (simp only: append_take_drop_id)
qed simp


lemma push_window:
  assumes "window_inv w" and "lw_maxBytes w = mb" and "lw_maxEvents w = me"
    and "live w = longest (window_fits mb me) ls"
  shows "window_inv (push n data w) \<and> lw_maxBytes (push n data w) = mb \<and> lw_maxEvents (push n data w) = me \<and>
    live (push n data w) = longest (window_fits mb me) (ls @ [\<lparr>rl_line = n, rl_data = data\<rparr>])"
  using push_live [OF assms(1), of ls n data] assms by simp

text \<open>
  A page of the head limited by bytes is wrong: when the next event does not fit, the oldest
  one is dropped from the page, although the page still says that it starts at the cursor. Of two
  events that fit one by one but not together, the client gets the second one under the position
  of the first, is told to continue with the second, and that nothing is left out.
\<close>

lemma head_bytes_drop_first:
  assumes "\<not> blank x" and "\<not> blank y" and "int (length x) < mb" and "int (length y) < mb"
    and "mb < int (length x) + int (length y)" and "me \<le> 0 \<or> me > 2" and "dec y = Some e"
  shows "EventsBounded dec (Some \<lparr>jf_lines = [x, y], jf_err = False, jf_size = n\<rparr>) 0
      \<lparr>li_maxBytes = mb, li_maxEvents = me, li_tail = False\<rparr> =
    Inr \<lparr>rr_events = [e], rr_first = 0, rr_next = 1, rr_total = 2, rr_bytes = int (length y),
         rr_truncated = False\<rparr>"
proof -
  let ?w0 = "newLineWindow mb me" and ?X = "\<lparr>rl_line = 1, rl_data = x\<rparr>" and ?Y = "\<lparr>rl_line = 2, rl_data = y\<rparr>"
  let ?w1 = "push 1 x ?w0" and ?w2 = "push 2 y (push 1 x ?w0)"
  have mb: "mb > 0" using assms(3) by linarith
  have l0: "live ?w0 = longest (window_fits mb me) []" "lw_maxBytes ?w0 = mb" "lw_maxEvents ?w0 = me"
    using window_inv_new by (auto simp: newLineWindow_def)
  have "window_fits mb me [?X]" "\<not> window_fits mb me [?X, ?Y]" "window_fits mb me [?Y]"
    using assms(3-6) mb by (auto simp: window_fits_def line_bytes_def)
  with push_window [OF window_inv_new(1) l0(2,3,1), of 1 x]
  have w1: "window_inv ?w1" "lw_maxBytes ?w1 = mb" "lw_maxEvents ?w1 = me" "live ?w1 = [?X]"
    and l1: "live ?w1 = longest (window_fits mb me) [?X]" and f: "\<not> window_fits mb me [?X, ?Y]" "window_fits mb me [?Y]"
    by auto
  with push_window [OF w1(1-3) l1, of 2 y] f
  have w2: "window_inv ?w2" "lw_maxBytes ?w2 = mb" "lw_maxEvents ?w2 = me" "live ?w2 = [?Y]" by auto
  have nf: "\<not> full ?w0" "\<not> full ?w1" "\<not> full ?w2"
    using window_inv_new w1 w2 assms(3-6) mb lw_len_live [OF window_inv_new(1), of mb me] lw_len_live [OF w1(1)] lw_len_live [OF w2(1)]
    by (auto simp: full_def window_inv_def l0 line_bytes_def)
  have d: "decode dec ?w2 = Inr ([e], int (length y))"
    using w2(4) assms(7) by (simp add: decode_def live_def decodeEvent_def line_bytes_def)
  show ?thesis
    using assms(1,2) mb nf d
    by (simp add: EventsBounded_def readEventWindow_def scan_start_def Let_def numeral_2_eq_2)
qed

section \<open>Streaming over the meta data\<close>

record eventMeta =
  em_type :: string
  em_status :: string
  em_itemIndex :: "json option"

record scanResult =
  sr_total :: int
  sr_bytes :: int
  sr_truncated :: bool

datatype metaErr = MetaNoFile | MetaScan | MetaBadLine nat | MetaStop

definition metaScanByteBudget :: int where "metaScanByteBudget = 256 * 2 ^ 20"

text \<open>The callback returns its new state and whether it failed.\<close>

fun scan_meta :: "(string \<Rightarrow> eventMeta option) \<Rightarrow> (eventMeta \<Rightarrow> 'a \<Rightarrow> 'a \<times> bool) \<Rightarrow> int \<Rightarrow> nat \<Rightarrow> scanResult \<Rightarrow> 'a \<Rightarrow> string list \<Rightarrow> 'a \<times> scanResult \<times> metaErr option" where
  "scan_meta dm fn budget line res a [] = (a, res, None)"
| "scan_meta dm fn budget line res a (raw # ls) =
     (let res1 = res\<lparr>sr_bytes := sr_bytes res + int (length raw) + 1\<rparr> in
      if sr_bytes res1 > budget then (a, res1\<lparr>sr_truncated := True\<rparr>, None)
      else if blank raw then scan_meta dm fn budget (line + 1) res1 a ls
      else case dm raw of
        None \<Rightarrow> (a, res1, Some (MetaBadLine (line + 1)))
      | Some meta \<Rightarrow>
          let res2 = res1\<lparr>sr_total := sr_total res1 + 1\<rparr>; (a1, failed) = fn meta a in
          if failed then (a1, res2, Some MetaStop)
          else scan_meta dm fn budget (line + 1) res2 a1 ls)"

definition zero_scan :: scanResult where
  "zero_scan = \<lparr>sr_total = 0, sr_bytes = 0, sr_truncated = False\<rparr>"

definition ScanMeta :: "(string \<Rightarrow> eventMeta option) \<Rightarrow> (eventMeta \<Rightarrow> 'a \<Rightarrow> 'a \<times> bool) \<Rightarrow> jfile option \<Rightarrow> 'a \<Rightarrow> 'a \<times> scanResult \<times> metaErr option" where
  "ScanMeta dm fn fo a =
     (case fo of
        None \<Rightarrow> (a, zero_scan, Some MetaNoFile)
      | Some f \<Rightarrow>
          (case scan_meta dm fn metaScanByteBudget 0 zero_scan a (jf_lines f) of
             (a1, res, Some e) \<Rightarrow> (a1, res, Some e)
           | (a1, res, None) \<Rightarrow>
               (a1, res, if jf_err f \<and> \<not> sr_truncated res then Some MetaScan else None)))"

text \<open>\<open>FilesystemStore.MaxItemIndex\<close> (store.go): \<open>Inl\<close> is an error, a missing file is no item.\<close>

definition max_index :: "eventMeta \<Rightarrow> int \<Rightarrow> int \<times> bool" where
  "max_index meta maxIdx =
     (if em_type meta \<noteq> ''item_end'' then (maxIdx, False)
      else if em_status meta \<noteq> [] \<and> em_status meta \<noteq> ''ok'' then (maxIdx, False)
      else case em_itemIndex meta of
        None \<Rightarrow> (maxIdx, False)
      | Some v \<Rightarrow>
          (case ParseItemIndex v of
             Some i \<Rightarrow> (if int i > maxIdx then (int i, False) else (maxIdx, False))
           | None \<Rightarrow> (maxIdx, False)))"

definition MaxItemIndex :: "(string \<Rightarrow> eventMeta option) \<Rightarrow> jfile option \<Rightarrow> metaErr + int" where
  "MaxItemIndex dm fo =
     (case ScanMeta dm max_index fo (-1) of
        (i, res, None) \<Rightarrow> Inr i
      | (i, res, Some e) \<Rightarrow> if e = MetaNoFile then Inr (-1) else Inl e)"

text \<open>The index of an item that ended well.\<close>

definition done_index :: "eventMeta \<Rightarrow> nat option" where
  "done_index m =
     (if em_type m = ''item_end'' \<and> (em_status m = [] \<or> em_status m = ''ok'')
      then Option.bind (em_itemIndex m) ParseItemIndex else None)"

definition done_indices :: "eventMeta list \<Rightarrow> int set" where
  "done_indices ms = int ` {i. Some i \<in> done_index ` set ms}"

lemma done_indices_Nil [simp]: "done_indices [] = {}"
  by (simp add: done_indices_def)

lemma done_indices_Cons:
  "done_indices (m # ms) = (case done_index m of None \<Rightarrow> {} | Some i \<Rightarrow> {int i}) \<union> done_indices ms"
  by (auto simp: done_indices_def split: option.splits)

lemma finite_done_indices [simp]: "finite (done_indices ms)"
  by (induction ms) (auto simp: done_indices_Cons split: option.splits)

lemma max_index_step:
  "max_index m i = ((case done_index m of None \<Rightarrow> i | Some k \<Rightarrow> max i (int k)), False)"
  by (auto simp: max_index_def done_index_def split: option.splits)

lemma scan_max:
  assumes "sr_bytes res + cost ls \<le> budget" and "\<forall>l \<in> set ls. blank l \<or> dm l \<noteq> None"
  shows "\<exists>i' res'. scan_meta dm max_index budget n res i ls = (i', res', None) \<and>
    insert i (done_indices (map (\<lambda>l. the (dm l)) (filter (\<lambda>l. \<not> blank l) ls))) \<subseteq> {..i'} \<and>
    i' \<in> insert i (done_indices (map (\<lambda>l. the (dm l)) (filter (\<lambda>l. \<not> blank l) ls))) \<and>
    sr_truncated res' = sr_truncated res"
  using assms
proof (induction ls arbitrary: n res i)
  case Nil
  then show ?case by (auto simp: done_indices_def)
next
  case (Cons l ls)
  let ?res1 = "res\<lparr>sr_bytes := sr_bytes res + int (length l) + 1\<rparr>"
  have b: "sr_bytes ?res1 + cost ls \<le> budget" "\<not> sr_bytes ?res1 > budget"
  proof -
    have "0 \<le> cost ls" "sr_bytes res + (int (length l) + 1 + cost ls) \<le> budget"
      "sr_bytes ?res1 = sr_bytes res + int (length l) + 1" using Cons.prems(1) by simp_all
    then show "sr_bytes ?res1 + cost ls \<le> budget" "\<not> sr_bytes ?res1 > budget" by linarith+
  qed
  show ?case
  proof (cases "blank l")
    case True
    with Cons.IH [OF b(1), of "n + 1" i] Cons.prems(2) b(2) show ?thesis by simp
  next
    case False
    with Cons.prems(2) obtain m where m: "dm l = Some m" by auto
    define j where "j = fst (max_index m i)"
    then have j: "max_index m i = (j, False)" "insert i (done_indices [m]) \<subseteq> {..j}" "j \<in> insert i (done_indices [m])"
      by (auto simp: max_index_step done_indices_Cons max_def split: option.splits)
    let ?res2 = "?res1\<lparr>sr_total := sr_total ?res1 + 1\<rparr>" and ?D = "done_indices (map (\<lambda>l. the (dm l)) (filter (\<lambda>l. \<not> blank l) ls))"
    from Cons.IH [of ?res2 "n + 1" j] b(1) Cons.prems(2) obtain i' res' where r:
      "scan_meta dm max_index budget (n + 1) ?res2 j ls = (i', res', None)"
      "insert j ?D \<subseteq> {..i'}" "i' \<in> insert j ?D" "sr_truncated res' = sr_truncated res" by auto
    have "scan_meta dm max_index budget n res i (l # ls) = (i', res', None)"
      using False m j(1) b(2) r(1) by (simp add: Let_def)
    moreover have "insert i (done_indices [m] \<union> ?D) \<subseteq> {..i'}" "i' \<in> insert i (done_indices [m] \<union> ?D)"
      using j(2,3) r(2,3) by auto
    ultimately show ?thesis using False m r(4) by (simp add: done_indices_Cons [of m])
  qed
qed

text \<open>
  The highest finished item is found: for a journal of decodable lines within the byte budget
  of the scan, the answer is the greatest index of an item that ended well, and -1 when there is
  none or no journal.
\<close>

lemma MaxItemIndex_is_max:
  assumes "cost (jf_lines f) \<le> metaScanByteBudget" and "\<forall>l \<in> set (jf_lines f). blank l \<or> dm l \<noteq> None"
    and "\<not> jf_err f"
  shows "MaxItemIndex dm None = Inr (-1) \<and>
    MaxItemIndex dm (Some f) =
      Inr (Max (insert (-1) (done_indices (map (\<lambda>l. the (dm l)) (filter (\<lambda>l. \<not> blank l) (jf_lines f))))))"
proof -
  from scan_max [of zero_scan "jf_lines f" metaScanByteBudget dm 0 "-1"] assms(1,2)
  obtain i res where "scan_meta dm max_index metaScanByteBudget 0 zero_scan (-1) (jf_lines f) = (i, res, None)"
    "insert (-1) (done_indices (map (\<lambda>l. the (dm l)) (filter (\<lambda>l. \<not> blank l) (jf_lines f)))) \<subseteq> {..i}"
    "i \<in> insert (-1) (done_indices (map (\<lambda>l. the (dm l)) (filter (\<lambda>l. \<not> blank l) (jf_lines f))))"
    by (auto simp: zero_scan_def)
  moreover from this have "Max (insert (-1) (done_indices (map (\<lambda>l. the (dm l)) (filter (\<lambda>l. \<not> blank l) (jf_lines f))))) = i"
    by (intro Max_eqI) auto
  ultimately show ?thesis using assms(3) by (simp add: MaxItemIndex_def ScanMeta_def)
qed

section \<open>Witnesses\<close>

definition demo_file :: jfile where
  "demo_file = \<lparr>jf_lines = [''a'', '' '', ''b'', ''c''], jf_err = False, jf_size = 10\<rparr>"

definition demo_dec :: "string \<Rightarrow> obj option" where
  "demo_dec raw = Some [(raw, JNull)]"

definition demo_meta :: "string \<Rightarrow> eventMeta option" where
  "demo_meta raw = Some \<lparr>em_type = ''item_end'', em_status = ''ok'', em_itemIndex = Some (JInt (int (length raw)))\<rparr>"

lemma demo_lines: "all_lines demo_file =
    [\<lparr>rl_line = 1, rl_data = ''a''\<rparr>, \<lparr>rl_line = 3, rl_data = ''b''\<rparr>, \<lparr>rl_line = 4, rl_data = ''c''\<rparr>]"
  by code_simp

lemma demo_cost: "cost (jf_lines demo_file) \<le> jf_size demo_file + 1" "\<not> jf_err demo_file"
  "cost (jf_lines demo_file) \<le> metaScanByteBudget"
  by (simp_all add: demo_file_def metaScanByteBudget_def)

lemma tail_is_longest_suffix_witness:
  "EventsBounded demo_dec (Some demo_file) 0 \<lparr>li_maxBytes = 2, li_maxEvents = 0, li_tail = True\<rparr> =
     Inr \<lparr>rr_events = [[(''b'', JNull)], [(''c'', JNull)]], rr_first = 1, rr_next = 3, rr_total = 3,
          rr_bytes = 2, rr_truncated = True\<rparr>"
  by (subst tail_is_longest_suffix)
    (simp_all add: demo_cost demo_lines window_result_def window_fits_def line_bytes_def decodeEvent_def demo_dec_def)

lemma head_page_exact_witness:
  "EventsBounded demo_dec (Some demo_file) 0 (pages_of 2) =
     Inr \<lparr>rr_events = [[(''a'', JNull)], [(''b'', JNull)]], rr_first = 0, rr_next = 2, rr_total = 2,
          rr_bytes = 2, rr_truncated = False\<rparr>"
  using head_page_exact [of "pages_of 2" 2 demo_file demo_dec 0]
  by (simp add: demo_cost demo_lines window_result_def line_bytes_def decodeEvent_def demo_dec_def pages_of_def)


end
