(* ===== verification/Run_Store.thy ===== *)
theory Run_Store
  imports Journal_Reader Go_Path "HOL-Library.Multiset" "HOL-Library.Char_ord" "HOL-Library.List_Lexorder" "HOL-Library.Word"
begin

text \<open>
  The stores of runs and their pruning (internal/journal/store.go, prune.go). The file system is
  an argument for what only it knows (symbolic links, failing writes and removals); the run
  directories, their artifacts and the index file runs.db are the state \<open>store\<close>.
\<close>

section \<open>The directory of a run\<close>

definition id_char :: "char \<Rightarrow> bool" where
  "id_char c =
     (let r = (of_char c :: nat);
          between = (\<lambda>lo hi. of_char lo \<le> r \<and> r \<le> of_char hi)
      in between (CHR ''a'') (CHR ''z'') \<or> between (CHR ''A'') (CHR ''Z'') \<or>
         between (CHR ''0'') (CHR ''9'') \<or> c \<in> {CHR ''_'', CHR ''-''})"

definition ValidateRunID :: "string \<Rightarrow> bool" where
  "ValidateRunID runID \<longleftrightarrow> \<not> (runID = [] \<or> length runID > 160) \<and> list_all id_char runID"

datatype linkKind = NoEntry | SymLink | OtherEntry | LstatError
datatype realPath = Real string | RealMissing | RealError

record pathWorld =
  pw_abs :: "string \<Rightarrow> string option"
  pw_lstat :: "string \<Rightarrow> linkKind"
  pw_real :: "string \<Rightarrow> realPath"

text \<open>
  \<open>resolveJournalPath\<close> walks up from a clean absolute path, here its elements reversed, to the
  first part that exists, and appends the others to what that resolves to.
\<close>

fun resolve_up :: "pathWorld \<Rightarrow> string list \<Rightarrow> string list \<Rightarrow> string option" where
  "resolve_up pw [] suffix =
     (case pw_real pw ''/'' of Real r \<Rightarrow> Some (Clean (foldl Join r suffix)) | _ \<Rightarrow> None)"
| "resolve_up pw (e # es) suffix =
     (case pw_real pw (path_of (rev (e # es))) of
        Real r \<Rightarrow> Some (Clean (foldl Join r suffix))
      | RealError \<Rightarrow> None
      | RealMissing \<Rightarrow> resolve_up pw es (e # suffix))"

definition resolveJournalPath :: "pathWorld \<Rightarrow> string \<Rightarrow> string option" where
  "resolveJournalPath pw path =
     (case pw_abs pw path of None \<Rightarrow> None | Some p \<Rightarrow> resolve_up pw (rev (elems p)) [])"

datatype dirErr = UnsafeId | DirIO | DirIsLink | DirEscapes

definition SafeRunDir :: "pathWorld \<Rightarrow> string \<Rightarrow> string \<Rightarrow> dirErr + string" where
  "SafeRunDir pw baseDir runID =
     (if \<not> ValidateRunID runID then Inl UnsafeId
      else case pw_abs pw baseDir of
        None \<Rightarrow> Inl DirIO
      | Some rootDir \<Rightarrow>
          let dir = Join rootDir runID in
          if leaves (Rel rootDir dir) then Inl UnsafeId
          else case resolveJournalPath pw rootDir of
            None \<Rightarrow> Inl DirIO
          | Some rootReal \<Rightarrow>
              (case pw_lstat pw dir of
                 SymLink \<Rightarrow> Inl DirIsLink
               | LstatError \<Rightarrow> Inl DirIO
               | _ \<Rightarrow>
                   (case resolveJournalPath pw dir of
                      None \<Rightarrow> Inl DirIO
                    | Some r \<Rightarrow> if leaves (Rel rootReal r) then Inl DirEscapes else Inr dir)))"

section \<open>The stores\<close>

datatype ctxFile = CtxMissing | CtxBroken | CtxData obj

record runInfo =
  ri_mtime :: int
  ri_size :: int
  ri_journal :: "jfile option"
  ri_context :: ctxFile
  ri_artifacts :: "(string \<times> string) list"

record dbEvent =
  de_run :: string
  de_type :: string
  de_data :: obj
  de_itemIndex :: "int option"

record dbArtifact =
  da_id :: int
  da_run :: string
  da_name :: string
  da_path :: string

record dbFile =
  db_runs :: "string list"
  db_events :: "dbEvent list"
  db_artifacts :: "dbArtifact list"

datatype dbState = DbMissing | DbUnreadable | DbData dbFile

text \<open>
  Where the store is, what it holds. The operations return the new state and the error; the
  modification times are those of the file system and enter only the pruning.
\<close>

record store =
  so_paths :: pathWorld
  so_base :: string
  so_runs :: "(string \<times> runInfo) list"
  so_db :: dbState

datatype storeErr = DirErr dirErr | StoreIO | JournalExists | BadContext | BadIndex | NoArtifact | RemoveFailed "string list"

definition runDir :: "store \<Rightarrow> string \<Rightarrow> dirErr + string" where
  "runDir s runID = SafeRunDir (so_paths s) (so_base s) runID"

text \<open>The journal of a new run; \<open>ok\<close> says whether the directory and file could be opened.\<close>

definition fresh_run :: "int \<Rightarrow> runInfo" where
  "fresh_run now = \<lparr>ri_mtime = now, ri_size = 0, ri_journal = Some \<lparr>jf_lines = [], jf_err = False, jf_size = 0\<rparr>,
     ri_context = CtxMissing, ri_artifacts = []\<rparr>"

definition open_run :: "int \<Rightarrow> runInfo option \<Rightarrow> runInfo" where
  "open_run now ro =
     (case ro of
        None \<Rightarrow> fresh_run now
      | Some r \<Rightarrow> (case ri_journal r of Some j \<Rightarrow> r | None \<Rightarrow> r\<lparr>ri_journal := ri_journal (fresh_run now)\<rparr>))"

definition put_run :: "string \<Rightarrow> runInfo \<Rightarrow> store \<Rightarrow> store" where
  "put_run runID r s = s\<lparr>so_runs := AList.update runID r (so_runs s)\<rparr>"

definition fs_Create :: "bool \<Rightarrow> int \<Rightarrow> store \<Rightarrow> string \<Rightarrow> store \<times> storeErr option" where
  "fs_Create ok now s runID =
     (case runDir s runID of
        Inl e \<Rightarrow> (s, Some (DirErr e))
      | Inr dir \<Rightarrow>
          if \<not> ok then (s, Some StoreIO)
          else if Option.bind (map_of (so_runs s) runID) ri_journal \<noteq> None then (s, Some JournalExists)
          else (put_run runID (open_run now (map_of (so_runs s) runID)) s, None))"

definition fs_OpenAppend :: "bool \<Rightarrow> int \<Rightarrow> store \<Rightarrow> string \<Rightarrow> store \<times> storeErr option" where
  "fs_OpenAppend ok now s runID =
     (case runDir s runID of
        Inl e \<Rightarrow> (s, Some (DirErr e))
      | Inr dir \<Rightarrow>
          if \<not> ok then (s, Some StoreIO)
          else (put_run runID (open_run now (map_of (so_runs s) runID)) s, None))"

text \<open>An artifact is a file of the base name; a base name that is a directory cannot be written.\<close>

definition is_dir_name :: "string \<Rightarrow> bool" where
  "is_dir_name name \<longleftrightarrow> name \<in> {''.'', ''..'', ''/''}"

definition fs_SaveArtifact :: "bool \<Rightarrow> int \<Rightarrow> store \<Rightarrow> string \<Rightarrow> string \<Rightarrow> string \<Rightarrow> store \<times> storeErr option" where
  "fs_SaveArtifact ok now s runID name data =
     (case runDir s runID of
        Inl e \<Rightarrow> (s, Some (DirErr e))
      | Inr dir \<Rightarrow>
          if \<not> ok \<or> is_dir_name (Base name) then (s, Some StoreIO)
          else
            let r = (case map_of (so_runs s) runID of Some r \<Rightarrow> r | None \<Rightarrow> (fresh_run now)\<lparr>ri_journal := None\<rparr>)
            in (put_run runID (r\<lparr>ri_artifacts := AList.update (Base name) data (ri_artifacts r)\<rparr>) s, None))"

definition LoadContext :: "store \<Rightarrow> string \<Rightarrow> storeErr + obj" where
  "LoadContext s runID =
     (case runDir s runID of
        Inl e \<Rightarrow> Inl (DirErr e)
      | Inr dir \<Rightarrow>
          (case map_option ri_context (map_of (so_runs s) runID) of
             Some (CtxData d) \<Rightarrow> Inr d
           | Some CtxBroken \<Rightarrow> Inl BadContext
           | _ \<Rightarrow> Inl StoreIO))"

definition fs_MaxItemIndex :: "(string \<Rightarrow> eventMeta option) \<Rightarrow> store \<Rightarrow> string \<Rightarrow> storeErr + int" where
  "fs_MaxItemIndex dm s runID =
     (case runDir s runID of
        Inl e \<Rightarrow> Inl (DirErr e)
      | Inr dir \<Rightarrow>
          (case MaxItemIndex dm (Option.bind (map_of (so_runs s) runID) ri_journal) of
             Inl e \<Rightarrow> Inl StoreIO | Inr i \<Rightarrow> Inr i))"

definition fs_ListArtifacts :: "store \<Rightarrow> string \<Rightarrow> storeErr + string list" where
  "fs_ListArtifacts s runID =
     (case runDir s runID of
        Inl e \<Rightarrow> Inl (DirErr e)
      | Inr dir \<Rightarrow>
          Inr (case map_of (so_runs s) runID of None \<Rightarrow> [] | Some r \<Rightarrow> sort (map fst (ri_artifacts r))))"

definition LoadArtifact :: "store \<Rightarrow> string \<Rightarrow> string \<Rightarrow> storeErr + string" where
  "LoadArtifact s runID name =
     (case runDir s runID of
        Inl e \<Rightarrow> Inl (DirErr e)
      | Inr dir \<Rightarrow>
          (case Option.bind (map_of (so_runs s) runID) (\<lambda>r. map_of (ri_artifacts r) (Base name)) of
             None \<Rightarrow> Inl NoArtifact | Some d \<Rightarrow> Inr d))"

definition fs_ListRuns :: "store \<Rightarrow> string list" where
  "fs_ListRuns s = sort (map fst (so_runs s))"

section \<open>The index\<close>

definition empty_db :: dbFile where
  "empty_db = \<lparr>db_runs = [], db_events = [], db_artifacts = []\<rparr>"

definition loadDB :: "store \<Rightarrow> storeErr + dbFile" where
  "loadDB s = (case so_db s of DbMissing \<Rightarrow> Inr empty_db | DbUnreadable \<Rightarrow> Inl BadIndex | DbData db \<Rightarrow> Inr db)"

text \<open>\<open>saveDB\<close>: \<open>ok\<close> says whether the write succeeded.\<close>

definition saveDB :: "bool \<Rightarrow> dbFile \<Rightarrow> store \<Rightarrow> store \<times> storeErr option" where
  "saveDB ok db s = (if ok then (s\<lparr>so_db := DbData db\<rparr>, None) else (s, Some StoreIO))"

definition ensureRun :: "bool \<Rightarrow> store \<Rightarrow> string \<Rightarrow> store \<times> storeErr option" where
  "ensureRun okdb s runID =
     (case loadDB s of
        Inl e \<Rightarrow> (s, Some e)
      | Inr db \<Rightarrow>
          if List.member (db_runs db) runID then (s, None)
          else saveDB okdb (db\<lparr>db_runs := db_runs db @ [runID]\<rparr>) s)"

definition js_Create :: "bool \<Rightarrow> bool \<Rightarrow> int \<Rightarrow> store \<Rightarrow> string \<Rightarrow> store \<times> storeErr option" where
  "js_Create ok okdb now s runID =
     (case fs_Create ok now s runID of (s1, Some e) \<Rightarrow> (s1, Some e) | (s1, None) \<Rightarrow> ensureRun okdb s1 runID)"

definition js_OpenAppend :: "bool \<Rightarrow> bool \<Rightarrow> int \<Rightarrow> store \<Rightarrow> string \<Rightarrow> store \<times> storeErr option" where
  "js_OpenAppend ok okdb now s runID =
     (case fs_OpenAppend ok now s runID of (s1, Some e) \<Rightarrow> (s1, Some e) | (s1, None) \<Rightarrow> ensureRun okdb s1 runID)"

definition js_SaveArtifact :: "bool \<Rightarrow> bool \<Rightarrow> int \<Rightarrow> store \<Rightarrow> string \<Rightarrow> string \<Rightarrow> string \<Rightarrow> store \<times> storeErr option" where
  "js_SaveArtifact ok okdb now s runID name data =
     (case fs_SaveArtifact ok now s runID name data of
        (s1, Some e) \<Rightarrow> (s1, Some e)
      | (s1, None) \<Rightarrow>
          (case loadDB s1 of
             Inl e \<Rightarrow> (s1, Some e)
           | Inr db \<Rightarrow>
               (case runDir s1 runID of
                  Inl e \<Rightarrow> (s1, Some (DirErr e))
                | Inr dir \<Rightarrow>
                    saveDB okdb (db\<lparr>db_artifacts := db_artifacts db @
                      [\<lparr>da_id = int (length (db_artifacts db)) + 1, da_run = runID, da_name = Base name,
                        da_path = Join (Join dir ''artifacts'') (Base name)\<rparr>]\<rparr>) s1)))"

text \<open>The fallback of \<open>MaxItemIndex\<close> for a run without journal file: the events of the index.\<close>

definition db_event_index :: "string \<Rightarrow> dbEvent \<Rightarrow> int \<Rightarrow> int" where
  "db_event_index runID e maxIdx =
     (if de_run e \<noteq> runID \<or> de_type e \<noteq> ''item_end'' then maxIdx
      else if (case map_of (de_data e) ''status'' of Some (JStr st) \<Rightarrow> st \<noteq> ''ok'' | _ \<Rightarrow> False) then maxIdx
      else case de_itemIndex e of
        Some i \<Rightarrow>
          if i > maxIdx then i
          else (case Option.bind (map_of (de_data e) ''item_index'') ParseItemIndex of
             Some k \<Rightarrow> if int k > maxIdx then int k else maxIdx | None \<Rightarrow> maxIdx)
      | None \<Rightarrow> (case Option.bind (map_of (de_data e) ''item_index'') ParseItemIndex of
             Some k \<Rightarrow> if int k > maxIdx then int k else maxIdx | None \<Rightarrow> maxIdx))"

definition js_MaxItemIndex :: "(string \<Rightarrow> eventMeta option) \<Rightarrow> store \<Rightarrow> string \<Rightarrow> storeErr + int" where
  "js_MaxItemIndex dm s runID =
     (case runDir s runID of
        Inl e \<Rightarrow> Inl (DirErr e)
      | Inr dir \<Rightarrow>
          if Option.bind (map_of (so_runs s) runID) ri_journal \<noteq> None then fs_MaxItemIndex dm s runID
          else case loadDB s of
            Inl e \<Rightarrow> Inl e
          | Inr db \<Rightarrow> Inr (fold (db_event_index runID) (db_events db) (-1)))"

definition js_ListArtifacts :: "store \<Rightarrow> string \<Rightarrow> storeErr + string list" where
  "js_ListArtifacts s runID =
     (case loadDB s of
        Inl e \<Rightarrow> fs_ListArtifacts s runID
      | Inr db \<Rightarrow>
          let out = map da_name (filter (\<lambda>a. da_run a = runID) (db_artifacts db)) in
          if length out = 0 then fs_ListArtifacts s runID else Inr out)"

definition js_ListRuns :: "store \<Rightarrow> string list" where
  "js_ListRuns s =
     (case loadDB s of
        Inl e \<Rightarrow> fs_ListRuns s
      | Inr db \<Rightarrow> if length (db_runs db) = 0 then fs_ListRuns s else db_runs db)"

section \<open>Pruning\<close>

record prunePolicy =
  pp_keepLast :: int
  pp_keepDays :: int
  pp_dryRun :: bool

definition policy_empty :: "prunePolicy \<Rightarrow> bool" where
  "policy_empty p \<longleftrightarrow> pp_keepLast p \<le> 0 \<and> pp_keepDays p \<le> 0"

record pruneResult =
  pr_removed :: "string list"
  pr_kept :: int
  pr_freed :: int

record runEntry =
  en_id :: string
  en_mtime :: int
  en_size :: int

text \<open>\<open>-time.Duration(KeepDays) * 24 * time.Hour\<close> in 64 bits, nanoseconds.\<close>

definition day_delta :: "int \<Rightarrow> int" where
  "day_delta days = sint (- (word_of_int days :: 64 word) * 24 * 3600000000000)"

definition entry_of :: "store \<Rightarrow> string \<Rightarrow> runEntry option" where
  "entry_of s i =
     (case runDir s i of
        Inl e \<Rightarrow> None
      | Inr dir \<Rightarrow> map_option (\<lambda>r. \<lparr>en_id = i, en_mtime = ri_mtime r, en_size = ri_size r\<rparr>) (map_of (so_runs s) i))"

definition prune_entries :: "store \<Rightarrow> runEntry list" where
  "prune_entries s = List.map_filter (entry_of s) (fs_ListRuns s)"

definition doomed :: "prunePolicy \<Rightarrow> int \<Rightarrow> nat \<Rightarrow> runEntry \<Rightarrow> bool" where
  "doomed p now i e \<longleftrightarrow>
     pp_keepLast p > 0 \<and> int i \<ge> pp_keepLast p \<or>
     pp_keepDays p > 0 \<and> en_mtime e < now + day_delta (pp_keepDays p)"

text \<open>The loop of removals: the ids removed, the bytes freed, the ids that could not be removed.\<close>

fun prune_loop :: "bool \<Rightarrow> (string \<Rightarrow> bool) \<Rightarrow> runEntry list \<Rightarrow> store \<Rightarrow> string list \<times> int \<times> string list \<times> store" where
  "prune_loop dry rm [] s = ([], 0, [], s)"
| "prune_loop dry rm (e # es) s =
     (if dry then
        (let (gone, freed, fails, s') = prune_loop dry rm es s in (en_id e # gone, en_size e + freed, fails, s'))
      else if rm (en_id e) then
        (let (gone, freed, fails, s') = prune_loop dry rm es (s\<lparr>so_runs := AList.delete (en_id e) (so_runs s)\<rparr>)
         in (en_id e # gone, en_size e + freed, fails, s'))
      else
        (let (gone, freed, fails, s') = prune_loop dry rm es s in (gone, freed, en_id e # fails, s')))"

definition no_prune :: pruneResult where
  "no_prune = \<lparr>pr_removed = [], pr_kept = 0, pr_freed = 0\<rparr>"

text \<open>
  \<open>FilesystemStore.Prune\<close>. \<open>srt\<close> is the sort by descending modification time; \<open>sort.Slice\<close>
  leaves the order of equal times open. \<open>rm\<close> tells which removals succeed.
\<close>

definition fs_Prune :: "(runEntry list \<Rightarrow> runEntry list) \<Rightarrow> (string \<Rightarrow> bool) \<Rightarrow> prunePolicy \<Rightarrow> int \<Rightarrow> store \<Rightarrow> store \<times> pruneResult \<times> storeErr option" where
  "fs_Prune srt rm p now s =
     (if policy_empty p then (s, no_prune, None)
      else
        let entries = srt (prune_entries s);
            victims = map snd (filter (\<lambda>(i, e). doomed p now i e) (enumerate 0 entries));
            (gone, freed, fails, s') = prune_loop (pp_dryRun p) rm victims s
        in (s', \<lparr>pr_removed = gone, pr_kept = int (length entries) - int (length gone), pr_freed = freed\<rparr>,
            if fails \<noteq> [] then Some (RemoveFailed fails) else None))"

definition forget :: "string list \<Rightarrow> dbFile \<Rightarrow> dbFile" where
  "forget gone db =
     \<lparr>db_runs = filter (\<lambda>r. \<not> List.member gone r) (db_runs db),
      db_events = filter (\<lambda>e. \<not> List.member gone (de_run e)) (db_events db),
      db_artifacts = filter (\<lambda>a. \<not> List.member gone (da_run a)) (db_artifacts db)\<rparr>"

definition js_Prune :: "bool \<Rightarrow> (runEntry list \<Rightarrow> runEntry list) \<Rightarrow> (string \<Rightarrow> bool) \<Rightarrow> prunePolicy \<Rightarrow> int \<Rightarrow> store \<Rightarrow> store \<times> pruneResult \<times> storeErr option" where
  "js_Prune okdb srt rm p now s =
     (case fs_Prune srt rm p now s of
        (s1, res, Some e) \<Rightarrow> (s1, res, Some e)
      | (s1, res, None) \<Rightarrow>
          if pp_dryRun p \<or> length (pr_removed res) = 0 then (s1, res, None)
          else case loadDB s1 of
            Inl e \<Rightarrow> (s1, res, Some e)
          | Inr db \<Rightarrow>
              (case saveDB okdb (forget (pr_removed res) db) s1 of (s2, err) \<Rightarrow> (s2, res, err)))"

section \<open>The directory stays inside\<close>

lemma id_char_not_sep: "id_char c \<Longrightarrow> c \<noteq> CHR ''/'' \<and> c \<noteq> CHR ''.''"
  by (auto simp: id_char_def)

lemma valid_id_proper: "ValidateRunID i \<Longrightarrow> proper i"
  using id_char_not_sep by (fastforce simp: ValidateRunID_def proper_def list_all_iff)

lemma resolve_up_abs: "resolve_up pw es suffix = Some p \<Longrightarrow> \<exists>q. p = Clean q"
  by (induction pw es suffix rule: resolve_up.induct) (auto split: realPath.splits)


section \<open>Pruning\<close>

lemma put_run_fields [simp]:
  "so_paths (put_run i r s) = so_paths s" "so_base (put_run i r s) = so_base s" "so_db (put_run i r s) = so_db s"
  "so_runs (put_run i r s) = AList.update i r (so_runs s)"
  by (simp_all add: put_run_def)

lemma runDir_cong: "so_paths s' = so_paths s \<Longrightarrow> so_base s' = so_base s \<Longrightarrow> runDir s' i = runDir s i"
  by (simp add: runDir_def)

lemma delete_filter: "AList.delete k xs = filter (\<lambda>p. fst p \<noteq> k) xs"
  by (auto simp: AList.delete_eq intro!: filter_cong)

lemma prune_loop_spec:
  "prune_loop dry rm es s = (gone, freed, fails, s') \<Longrightarrow>
     gone = map en_id (filter (\<lambda>e. dry \<or> rm (en_id e)) es) \<and>
     fails = map en_id (filter (\<lambda>e. \<not> dry \<and> \<not> rm (en_id e)) es) \<and>
     freed = sum_list (map en_size (filter (\<lambda>e. dry \<or> rm (en_id e)) es)) \<and>
     s' = s\<lparr>so_runs := (if dry then so_runs s else filter (\<lambda>p. fst p \<notin> set gone) (so_runs s))\<rparr>"
proof (induction dry rm es s arbitrary: gone freed fails s' rule: prune_loop.induct)
  case (1 dry rm s)
  then show ?case by auto
next
  case (2 dry rm e es s)
  show ?case
  proof (cases dry)
    case True
    with 2 show ?thesis by (auto split: prod.splits)
  next
    case False
    show ?thesis
    proof (cases "rm (en_id e)")
      case True
      with \<open>\<not> dry\<close> 2(2)[OF _ True] 2(4) show ?thesis
        by (auto simp: delete_filter split: prod.splits intro!: filter_cong)
    next
      case f: False
      with \<open>\<not> dry\<close> 2(3)[OF _ f] 2(4) show ?thesis by (auto split: prod.splits)
    qed
  qed
qed

text \<open>In a list sorted by descending time, what stands before an entry is at least as new.\<close>

lemma newer_before:
  assumes "sorted (map (\<lambda>e. - en_mtime e) es)" and "k < length es"
  shows "length (filter (\<lambda>x. en_mtime x > en_mtime (es ! k)) es) \<le> k"
    and "k < length (filter (\<lambda>x. en_mtime x \<ge> en_mtime (es ! k)) es)"
proof -
  have srt: "en_mtime (es ! a) \<ge> en_mtime (es ! b)" if "a \<le> b" "b < length es" for a b
    using sorted_nth_mono [OF assms(1), of a b] that by simp
  have "{a. a < length es \<and> en_mtime (es ! a) > en_mtime (es ! k)} \<subseteq> {..<k}"
    using srt by (auto simp: not_less [symmetric])
  then show "length (filter (\<lambda>x. en_mtime x > en_mtime (es ! k)) es) \<le> k"
    using card_mono [of "{..<k}"] by (simp add: length_filter_conv_card)
  have "{..k} \<subseteq> {a. a < length es \<and> en_mtime (es ! a) \<ge> en_mtime (es ! k)}"
    using srt assms(2) by auto
  then have "card {..k} \<le> card {a. a < length es \<and> en_mtime (es ! a) \<ge> en_mtime (es ! k)}"
    by (intro card_mono) auto
  then show "k < length (filter (\<lambda>x. en_mtime x \<ge> en_mtime (es ! k)) es)"
    by (simp add: length_filter_conv_card)
qed

lemma map_filter_mem: "set (List.map_filter f xs) = {y. \<exists>x \<in> set xs. f x = Some y}"
  by (induction xs) (auto simp: map_filter_simps split: option.splits)

lemma distinct_map_filter:
  "distinct xs \<Longrightarrow> (\<And>x y. f x = Some y \<Longrightarrow> g y = x) \<Longrightarrow> distinct (map g (List.map_filter f xs))"
proof (induction xs)
  case (Cons x xs)
  then show ?case by (cases "f x") (auto simp: map_filter_simps map_filter_mem)
qed (simp add: map_filter_simps)

lemma entry_of_Some:
  "entry_of s i = Some e \<longleftrightarrow> en_id e = i \<and> (\<exists>r dir. map_of (so_runs s) i = Some r \<and> runDir s i = Inr dir \<and>
     en_mtime e = ri_mtime r \<and> en_size e = ri_size r)"
  by (cases e; cases "runDir s i"; cases "map_of (so_runs s) i") (auto simp: entry_of_def)

lemma prune_entries_set:
  assumes "distinct (map fst (so_runs s))"
  shows "e \<in> set (prune_entries s) \<longleftrightarrow>
    (\<exists>r dir. map_of (so_runs s) (en_id e) = Some r \<and> runDir s (en_id e) = Inr dir \<and>
       en_mtime e = ri_mtime r \<and> en_size e = ri_size r)"
    and "distinct (map en_id (prune_entries s))"
proof -
  have ids: "set (fs_ListRuns s) = fst ` set (so_runs s)" "distinct (fs_ListRuns s)"
    using assms by (simp_all add: fs_ListRuns_def)
  have "map_of (so_runs s) i = Some r \<Longrightarrow> i \<in> set (fs_ListRuns s)" for i r
    unfolding ids(1) by (force dest: map_of_SomeD)
  then show "e \<in> set (prune_entries s) \<longleftrightarrow>
    (\<exists>r dir. map_of (so_runs s) (en_id e) = Some r \<and> runDir s (en_id e) = Inr dir \<and>
       en_mtime e = ri_mtime r \<and> en_size e = ri_size r)"
    unfolding prune_entries_def map_filter_mem by (auto simp: entry_of_Some)
  show "distinct (map en_id (prune_entries s))"
    unfolding prune_entries_def by (rule distinct_map_filter [OF ids(2)]) (simp add: entry_of_Some)
qed

text \<open>What \<open>sort.Slice\<close> is relied on for.\<close>

definition newest_first :: "(runEntry list \<Rightarrow> runEntry list) \<Rightarrow> bool" where
  "newest_first srt \<longleftrightarrow> (\<forall>es. mset (srt es) = mset es \<and> sorted (map (\<lambda>e. - en_mtime e) (srt es)))"

text \<open>The runs that compete: those with a safe directory.\<close>

definition newer_runs :: "store \<Rightarrow> (int \<Rightarrow> bool) \<Rightarrow> nat" where
  "newer_runs s P = length (filter (\<lambda>e. P (en_mtime e)) (prune_entries s))"

lemma newer_runs_sorted: "newest_first srt \<Longrightarrow> newer_runs s P = length (filter (\<lambda>e. P (en_mtime e)) (srt (prune_entries s)))"
  unfolding newer_runs_def newest_first_def by (metis mset_filter size_mset)

lemma day_delta_small:
  assumes "0 \<le> d" and "d \<le> 106751"
  shows "day_delta d = - (d * 86400000000000)"
proof -
  have "day_delta d = sint (word_of_int (- d * 24 * 3600000000000) :: 64 word)"
    by (simp add: day_delta_def)
  also have "- d * 24 * 3600000000000 = - (d * 86400000000000)" by simp
  also have "sint (word_of_int (- (d * 86400000000000)) :: 64 word) = - (d * 86400000000000)"
    unfolding int_word_sint using assms by simp
  finally show ?thesis .
qed

lemma victims_mem:
  "x \<in> set (map snd (filter (\<lambda>(i, e). Q i e) (enumerate 0 es))) \<longleftrightarrow> (\<exists>k < length es. x = es ! k \<and> Q k (es ! k))"
  by (force simp: in_set_enumerate_eq set_zip)

text \<open>
  Pruning removes exactly what the policy allows: a removed run is older than the days kept,
  or at least as many runs as are kept are as new as it; a run of a removable directory that stays
  is neither too old nor has it as many strictly newer ones; everything else of the store is
  unchanged, a dry run and an empty policy change nothing, and the counts add up.
\<close>

lemma prune_respects_policy:
  assumes "newest_first srt" and "distinct (map fst (so_runs s))"
    and "0 \<le> pp_keepDays p" and "pp_keepDays p \<le> 106751"
    and "fs_Prune srt rm p now s = (s', res, err)"
  shows "s' = s\<lparr>so_runs := (if pp_dryRun p then so_runs s
           else filter (\<lambda>q. fst q \<notin> set (pr_removed res)) (so_runs s))\<rparr> \<and>
    (\<forall>i r dir. map_of (so_runs s) i = Some r \<and> runDir s i = Inr dir \<longrightarrow>
       (let old = (pp_keepDays p > 0 \<and> ri_mtime r < now - pp_keepDays p * 86400000000000);
            crowd = (\<lambda>n. pp_keepLast p > 0 \<and> int n \<ge> pp_keepLast p) in
        if i \<in> set (pr_removed res)
        then (pp_dryRun p \<or> rm i) \<and> (old \<or> crowd (newer_runs s (\<lambda>t. t \<ge> ri_mtime r) - 1))
        else \<not> pp_dryRun p \<and> \<not> rm i \<or> \<not> old \<and> \<not> crowd (newer_runs s (\<lambda>t. t > ri_mtime r)))) \<and>
    (\<forall>i \<in> set (pr_removed res). \<exists>r dir. map_of (so_runs s) i = Some r \<and> runDir s i = Inr dir) \<and>
    (policy_empty p \<longrightarrow> s' = s \<and> res = no_prune \<and> err = None)"
proof (cases "policy_empty p")
  case True
  have nop: "filter (\<lambda>q. True) (so_runs s) = so_runs s" by simp
  from True assms(5) have e: "s' = s" "res = no_prune" "err = None" by (auto simp: fs_Prune_def)
  have "\<not> pp_keepLast p > 0" "\<not> pp_keepDays p > 0" using True by (auto simp: policy_empty_def)
  with e nop show ?thesis by (simp add: no_prune_def Let_def)
next
  case False
  let ?es = "srt (prune_entries s)" and ?Q = "doomed p now"
  let ?vs = "map snd (filter (\<lambda>(i, e). ?Q i e) (enumerate 0 ?es))"
  obtain gone freed fails s1 where l: "prune_loop (pp_dryRun p) rm ?vs s = (gone, freed, fails, s1)"
    by (metis prod_cases4)
  from False assms(5) l have res: "s' = s1" "pr_removed res = gone"
    by (auto simp: fs_Prune_def Let_def)
  note sp = prune_loop_spec [OF l]
  have es: "set ?es = set (prune_entries s)" "sorted (map (\<lambda>e. - en_mtime e) ?es)"
    using assms(1) unfolding newest_first_def by (auto dest: mset_eq_setD)
  note ent = prune_entries_set [OF assms(2)]
  have gone: "i \<in> set gone \<longleftrightarrow> (\<exists>k < length ?es. i = en_id (?es ! k) \<and> ?Q k (?es ! k)) \<and> (pp_dryRun p \<or> rm i)" for i
    using sp victims_mem [of _ ?Q ?es] by (auto simp: image_iff)
  have dist: "distinct (map en_id ?es)"
    using ent(2) assms(1) unfolding newest_first_def by (metis mset_eq_imp_distinct_iff mset_map)
  have D: "day_delta (pp_keepDays p) = - (pp_keepDays p * 86400000000000)"
    by (rule day_delta_small [OF assms(3,4)])
  have one: "(let old = (pp_keepDays p > 0 \<and> ri_mtime r < now - pp_keepDays p * 86400000000000);
            crowd = (\<lambda>n. pp_keepLast p > 0 \<and> int n \<ge> pp_keepLast p) in
        if i \<in> set gone
        then (pp_dryRun p \<or> rm i) \<and> (old \<or> crowd (newer_runs s (\<lambda>t. t \<ge> ri_mtime r) - 1))
        else \<not> pp_dryRun p \<and> \<not> rm i \<or> \<not> old \<and> \<not> crowd (newer_runs s (\<lambda>t. t > ri_mtime r)))"
    if r: "map_of (so_runs s) i = Some r" "runDir s i = Inr dir" for i r dir
  proof -
    have "\<lparr>en_id = i, en_mtime = ri_mtime r, en_size = ri_size r\<rparr> \<in> set ?es"
      unfolding es(1) ent(1) using r by simp
    then obtain k where k: "k < length ?es" "?es ! k = \<lparr>en_id = i, en_mtime = ri_mtime r, en_size = ri_size r\<rparr>"
      by (auto simp: in_set_conv_nth)
    have uniq: "k' = k" if "k' < length ?es" "en_id (?es ! k') = i" for k'
    proof -
      have "map en_id ?es ! k' = map en_id ?es ! k" using that k by simp
      then show ?thesis using nth_eq_iff_index_eq [OF dist] that(1) k(1) by simp
    qed
    have g: "i \<in> set gone \<longleftrightarrow> ?Q k (?es ! k) \<and> (pp_dryRun p \<or> rm i)"
    proof
      assume "i \<in> set gone"
      then obtain k' where "k' < length ?es" "i = en_id (?es ! k')" "?Q k' (?es ! k')" "pp_dryRun p \<or> rm i"
        unfolding gone by blast
      with uniq [of k'] show "?Q k (?es ! k) \<and> (pp_dryRun p \<or> rm i)" by simp
    next
      assume "?Q k (?es ! k) \<and> (pp_dryRun p \<or> rm i)"
      moreover have "i = en_id (?es ! k)" using k(2) by simp
      ultimately show "i \<in> set gone" unfolding gone using k(1) by blast
    qed
    from newer_before [OF es(2) k(1)] k(2)
    have n: "newer_runs s (\<lambda>t. t > ri_mtime r) \<le> k" "k < newer_runs s (\<lambda>t. t \<ge> ri_mtime r)"
      unfolding newer_runs_sorted [OF assms(1)] by simp_all
    have q: "?Q k (?es ! k) \<longleftrightarrow> pp_keepLast p > 0 \<and> int k \<ge> pp_keepLast p \<or>
        pp_keepDays p > 0 \<and> ri_mtime r < now - pp_keepDays p * 86400000000000"
      using k(2) by (simp add: doomed_def D)
    show ?thesis
    proof (cases "pp_dryRun p \<or> rm i")
      case True
      then show ?thesis unfolding g q Let_def using n by (cases "pp_keepLast p > 0") auto
    next
      case False
      then show ?thesis unfolding g q Let_def by simp
    qed
  qed
  have mem: "\<exists>r dir. map_of (so_runs s) i = Some r \<and> runDir s i = Inr dir" if "i \<in> set gone" for i
    using that ent(1) es(1) unfolding gone by (metis nth_mem)
  show ?thesis unfolding res using sp one mem False by blast
qed

text \<open>
  The number of days overflows: from 106752 days on the duration of 64 bits changes its sign,
  the limit lies in the future, and every run there is counts as too old and is removed.
\<close>

lemma keep_days_overflow:
  assumes "106752 \<le> pp_keepDays p" and "pp_keepDays p \<le> 213503" and "\<not> pp_dryRun p"
    and "newest_first srt" and "distinct (map fst (so_runs s))"
    and "\<forall>(i, r) \<in> set (so_runs s). ri_mtime r \<le> now"
    and "fs_Prune srt (\<lambda>i. True) p now s = (s', res, err)"
  shows "(\<forall>i r dir. map_of (so_runs s) i = Some r \<and> runDir s i = Inr dir \<longrightarrow> i \<in> set (pr_removed res)) \<and> err = None"
proof -
  have "day_delta (pp_keepDays p) = sint (word_of_int (- pp_keepDays p * 24 * 3600000000000) :: 64 word)"
    by (simp add: day_delta_def)
  also have "\<dots> = 2 ^ 64 - pp_keepDays p * 86400000000000"
  proof -
    have "(- pp_keepDays p * 24 * 3600000000000 + 2 ^ 63) mod 2 ^ 64 =
        (- pp_keepDays p * 24 * 3600000000000 + 2 ^ 63 + 2 ^ 64) mod (2 ^ 64 :: int)"
      by (rule mod_add_self2 [symmetric])
    also have "\<dots> = - pp_keepDays p * 24 * 3600000000000 + 2 ^ 63 + 2 ^ 64"
      using assms(1,2) by (intro mod_pos_pos_trivial) simp_all
    finally show ?thesis unfolding int_word_sint by simp
  qed
  finally have D: "day_delta (pp_keepDays p) > 0" using assms(2) by simp
  have ne: "\<not> policy_empty p" using assms(1) by (simp add: policy_empty_def)
  let ?es = "srt (prune_entries s)" and ?Q = "doomed p now"
  let ?vs = "map snd (filter (\<lambda>(i, e). ?Q i e) (enumerate 0 ?es))"
  obtain gone freed fails s1 where l: "prune_loop (pp_dryRun p) (\<lambda>i. True) ?vs s = (gone, freed, fails, s1)"
    by (metis prod_cases4)
  from ne assms(7) l have res: "pr_removed res = gone" "err = (if fails \<noteq> [] then Some (RemoveFailed fails) else None)"
    by (auto simp: fs_Prune_def Let_def)
  note sp = prune_loop_spec [OF l]
  have "i \<in> set gone" if r: "map_of (so_runs s) i = Some r" "runDir s i = Inr dir" for i r dir
  proof -
    let ?e = "\<lparr>en_id = i, en_mtime = ri_mtime r, en_size = ri_size r\<rparr>"
    have "?e \<in> set (prune_entries s)" using r prune_entries_set(1) [OF assms(5)] by simp
    moreover have "set ?es = set (prune_entries s)" using assms(4) by (auto simp: newest_first_def dest: mset_eq_setD)
    ultimately have "?e \<in> set ?es" by simp
    then obtain k where k: "k < length ?es" "?es ! k = ?e" by (auto simp: in_set_conv_nth)
    have "ri_mtime r \<le> now" using assms(6) map_of_SomeD [OF r(1)] by auto
    with D assms(1) have "?Q k ?e" by (simp add: doomed_def)
    with k have "?e \<in> set ?vs" unfolding victims_mem by metis
    with sp show ?thesis by force
  qed
  moreover have "fails = []" using sp assms(3) by simp
  ultimately show ?thesis using res by auto
qed

section \<open>The index\<close>

lemma prune_index_runs: "fs_Prune srt rm p now s = (s', res, err) \<Longrightarrow>
    so_db s' = so_db s \<and> so_paths s' = so_paths s \<and> so_base s' = so_base s \<and>
    (pp_dryRun p \<or> so_runs s' = filter (\<lambda>q. fst q \<notin> set (pr_removed res)) (so_runs s))"
proof (cases "policy_empty p")
  case False
  assume f: "fs_Prune srt rm p now s = (s', res, err)"
  let ?vs = "map snd (filter (\<lambda>(i, e). doomed p now i e) (enumerate 0 (srt (prune_entries s))))"
  obtain gone freed fails s1 where l: "prune_loop (pp_dryRun p) rm ?vs s = (gone, freed, fails, s1)"
    by (metis prod_cases4)
  from False f l have "s' = s1" "pr_removed res = gone" by (auto simp: fs_Prune_def Let_def)
  with prune_loop_spec [OF l] show ?thesis by simp
next
  case True
  assume "fs_Prune srt rm p now s = (s', res, err)"
  with True show ?thesis by (auto simp: fs_Prune_def no_prune_def)
qed

text \<open>
  The index follows the pruning, unless a removal fails: after a pruning without error the
  lists of runs and artifacts show no removed run, and for every other run they are as before;
  but when one directory cannot be removed the index is not touched, so the runs that were
  removed stay in it.
\<close>

lemma prune_keeps_index:
  assumes "js_Prune okdb srt rm p now s = (s', res, err)" and "\<not> pp_dryRun p" and "so_db s = DbData db"
  shows "(err = None \<longrightarrow>
      so_db s' = DbData (forget (pr_removed res) db) \<and>
      (\<forall>i \<in> set (pr_removed res). i \<notin> set (js_ListRuns s') \<and>
         (js_ListArtifacts s' i = Inr [] \<or> (\<exists>e. js_ListArtifacts s' i = Inl e))) \<and>
      (\<forall>i. i \<notin> set (pr_removed res) \<longrightarrow> js_ListArtifacts s' i = js_ListArtifacts s i)) \<and>
    (\<forall>fails. err = Some (RemoveFailed fails) \<longrightarrow> so_db s' = so_db s)"
proof -
  obtain s1 res1 e1 where f: "fs_Prune srt rm p now s = (s1, res1, e1)" by (metis prod_cases3)
  from prune_index_runs [OF f] assms(2)
  have s1: "so_db s1 = so_db s" "so_paths s1 = so_paths s" "so_base s1 = so_base s"
    "so_runs s1 = filter (\<lambda>q. fst q \<notin> set (pr_removed res1)) (so_runs s)" by auto
  have id: "forget [] db = db" by (simp add: forget_def)
  have fails: "so_db s' = so_db s" if "err = Some (RemoveFailed fails)" for fails
    using assms f s1 that
    by (cases e1) (auto simp: js_Prune_def loadDB_def saveDB_def split: if_splits prod.splits)
  have ok: "res = res1 \<and> so_db s' = DbData (forget (pr_removed res) db) \<and> so_runs s' = so_runs s1 \<and>
      so_paths s' = so_paths s \<and> so_base s' = so_base s" if "err = None"
    using assms f s1 id that
    by (cases e1) (auto simp: js_Prune_def loadDB_def saveDB_def split: if_splits)
  have gone: "map_of (filter (\<lambda>q. fst q \<notin> S) xs) i = (if i \<in> S then None else map_of xs i)" for S xs and i :: string
    by (induction xs) auto
  have "i \<notin> set (js_ListRuns s') \<and> (js_ListArtifacts s' i = Inr [] \<or> (\<exists>e. js_ListArtifacts s' i = Inl e))"
    if "err = None" "i \<in> set (pr_removed res)" for i
    using ok [OF that(1)] that(2) s1(4)
    by (cases "runDir s' i")
      (auto simp: js_ListRuns_def js_ListArtifacts_def loadDB_def forget_def fs_ListRuns_def fs_ListArtifacts_def
        gone filter_empty_conv Let_def)
  moreover have "js_ListArtifacts s' i = js_ListArtifacts s i" if "err = None" "i \<notin> set (pr_removed res)" for i
  proof -
    have f: "filter (\<lambda>a. da_run a = i) (filter (\<lambda>a. \<not> List.member (pr_removed res) (da_run a)) as) =
        filter (\<lambda>a. da_run a = i) as" for as
      unfolding filter_filter by (rule filter_cong [OF refl]) (use that(2) in auto)
    have m: "map_of (so_runs s') i = map_of (so_runs s) i" using ok [OF that(1)] that(2) s1(4) by (simp add: gone)
    have r: "runDir s' i = runDir s i" using ok [OF that(1)] by (simp add: runDir_def)
    have l: "loadDB s' = Inr (forget (pr_removed res) db)" "loadDB s = Inr db"
      "db_artifacts (forget (pr_removed res) db) = filter (\<lambda>a. \<not> List.member (pr_removed res) (da_run a)) (db_artifacts db)"
      using ok [OF that(1)] assms(3) by (simp_all add: loadDB_def forget_def)
    show ?thesis unfolding js_ListArtifacts_def fs_ListArtifacts_def l sum.case f m r ..
  qed
  ultimately show ?thesis using ok fails by blast
qed

text \<open>
  An artifact that was saved can be loaded again under its base name and is listed for its
  run, and no other artifact of any run is changed by it.
\<close>

lemma artifact_roundtrip:
  assumes "js_SaveArtifact ok okdb now s i name data = (s', None)"
  shows "LoadArtifact s' i name = Inr data \<and>
    (\<exists>l. js_ListArtifacts s' i = Inr l \<and> Base name \<in> set l) \<and>
    (\<forall>i' name'. (i' \<noteq> i \<or> Base name' \<noteq> Base name) \<longrightarrow> LoadArtifact s' i' name' = LoadArtifact s i' name')"
proof -
  from assms obtain s1 db dir where a: "fs_SaveArtifact ok now s i name data = (s1, None)" "loadDB s1 = Inr db"
    "runDir s1 i = Inr dir"
    and b: "saveDB okdb (db\<lparr>db_artifacts := db_artifacts db @
                      [\<lparr>da_id = int (length (db_artifacts db)) + 1, da_run = i, da_name = Base name,
                        da_path = Join (Join dir ''artifacts'') (Base name)\<rparr>]\<rparr>) s1 = (s', None)"
    by (auto simp: js_SaveArtifact_def split: prod.splits option.splits sum.splits)
  let ?r = "case map_of (so_runs s) i of Some r \<Rightarrow> r | None \<Rightarrow> (fresh_run now)\<lparr>ri_journal := None\<rparr>"
  from a(1) have s1: "s1 = put_run i (?r\<lparr>ri_artifacts := AList.update (Base name) data (ri_artifacts ?r)\<rparr>) s"
    by (auto simp: fs_SaveArtifact_def Let_def split: sum.splits if_splits)
  from b have s': "so_runs s' = so_runs s1" "so_paths s' = so_paths s1" "so_base s' = so_base s1"
    "so_db s' = DbData (db\<lparr>db_artifacts := db_artifacts db @
       [\<lparr>da_id = int (length (db_artifacts db)) + 1, da_run = i, da_name = Base name,
         da_path = Join (Join dir ''artifacts'') (Base name)\<rparr>]\<rparr>)"
    by (auto simp: saveDB_def split: if_splits)
  have rd: "runDir s' j = runDir s j" for j using s' s1 by (simp add: runDir_def)
  from a(3) have d: "runDir s i = Inr dir" using s1 by (simp add: runDir_def)
  have own: "map_of (so_runs s') i = Some (?r\<lparr>ri_artifacts := AList.update (Base name) data (ri_artifacts ?r)\<rparr>)"
    using s'(1) s1 by (simp add: map_of_upd_alist)
  have old: "Option.bind (map_of (so_runs s) i) (\<lambda>r. map_of (ri_artifacts r) n) = map_of (ri_artifacts ?r) n" for n
    by (cases "map_of (so_runs s) i") (simp_all add: fresh_run_def)
  have "LoadArtifact s' i name = Inr data" using own d by (simp add: LoadArtifact_def rd map_of_upd_alist)
  moreover have "js_ListArtifacts s' i = Inr (map da_name (filter (\<lambda>a. da_run a = i) (db_artifacts db)) @ [Base name])"
    using s'(4) by (simp add: js_ListArtifacts_def loadDB_def Let_def)
  moreover have "LoadArtifact s' j n = LoadArtifact s j n" if "j \<noteq> i \<or> Base n \<noteq> Base name" for j n
  proof (cases "j = i")
    case True
    with that own d old show ?thesis by (simp add: LoadArtifact_def rd map_of_upd_alist)
  next
    case False
    then have "map_of (so_runs s') j = map_of (so_runs s) j" using s'(1) s1 by (simp add: map_of_upd_alist)
    then show ?thesis by (cases "runDir s j") (simp_all add: LoadArtifact_def rd)
  qed
  ultimately show ?thesis by auto
qed

section \<open>Witnesses\<close>

definition demo_paths :: pathWorld where
  "demo_paths = \<lparr>pw_abs = (\<lambda>p. Some (''/r'')), pw_lstat = (\<lambda>p. OtherEntry), pw_real = (\<lambda>p. Real p)\<rparr>"

definition demo_store :: store where
  "demo_store = \<lparr>so_paths = demo_paths\<lparr>pw_abs := (\<lambda>p. Some (if p = ''runs'' then ''/r'' else p))\<rparr>, so_base = ''runs'',
     so_runs = [(''new'', fresh_run 90), (''old'', fresh_run 10)],
     so_db = DbData \<lparr>db_runs = [''old'', ''new''], db_events = [], db_artifacts = []\<rparr>\<rparr>"

definition by_time :: "runEntry list \<Rightarrow> runEntry list" where
  "by_time = sort_key (\<lambda>e. - en_mtime e)"

lemma newest_first_by_time: "newest_first by_time"
  by (simp add: newest_first_def by_time_def)

lemma demo_runs: "distinct (map fst (so_runs demo_store))" "\<forall>(i, r) \<in> set (so_runs demo_store). ri_mtime r \<le> 100"
  by (simp_all add: demo_store_def fresh_run_def)

lemma demo_dir: "runDir demo_store ''old'' = Inr ''/r/old''" "runDir demo_store ''new'' = Inr ''/r/new''"
  by code_simp+

definition keep_one :: prunePolicy where
  "keep_one = \<lparr>pp_keepLast = 1, pp_keepDays = 0, pp_dryRun = False\<rparr>"

lemma demo_pruned: "fst (snd (fs_Prune by_time (\<lambda>i. True) keep_one 100 demo_store)) =
    \<lparr>pr_removed = [''old''], pr_kept = 1, pr_freed = 0\<rparr>"
  by code_simp


end
