(* ===== verification/Gate_Channel.thy ===== *)
theory Gate_Channel
  imports Gate_Service
begin

text \<open>
  The channel between a gate and the outside (internal/gate/channel.go) with the atomic steps of
  the goroutines that use it, and the deadline around it (internal/gate/timeout.go). A mailbox
  with one slot is the specification the interleaved steps refine.
\<close>

section \<open>The goroutines\<close>

datatype signal = Dec decision | Eof

text \<open>
  Where a goroutine is: before the load of the state in \<open>SendDecision\<close> or \<open>Close\<close>, between load
  and compare-and-swap, between that and the send to the channel; or blocked in
  \<open>WaitDecision\<close>, or between the receive and the store that reopens the channel.
\<close>

datatype pc = Idle | Trying signal | Loaded signal | Won signal | Waiting | Got decision

record chan =
  ch_state :: nat
  ch_buf :: "signal list"
  ch_pc :: "nat \<Rightarrow> pc"

definition NewChannelUI :: chan where
  "NewChannelUI = \<lparr>ch_state = 0, ch_buf = [], ch_pc = (\<lambda>t. Idle)\<rparr>"

definition goto_pc :: "nat \<Rightarrow> pc \<Rightarrow> chan \<Rightarrow> chan" where
  "goto_pc t p c = c\<lparr>ch_pc := (ch_pc c)(t := p)\<rparr>"

datatype event = Tau | Put signal | Refused signal | Take signal | Reopen

inductive cstep :: "chan \<Rightarrow> event \<Rightarrow> chan \<Rightarrow> bool" where
  call: "ch_pc c t = Idle \<Longrightarrow> cstep c Tau (goto_pc t (Trying s) c)"
| load_taken: "ch_pc c t = Trying s \<Longrightarrow> ch_state c = 1 \<Longrightarrow> cstep c (Refused s) (goto_pc t Idle c)"
| load_free: "ch_pc c t = Trying s \<Longrightarrow> ch_state c \<noteq> 1 \<Longrightarrow> cstep c Tau (goto_pc t (Loaded s) c)"
| cas_ok: "ch_pc c t = Loaded s \<Longrightarrow> ch_state c = 0 \<Longrightarrow> cstep c (Put s) (goto_pc t (Won s) (c\<lparr>ch_state := 1\<rparr>))"
| cas_fail: "ch_pc c t = Loaded s \<Longrightarrow> ch_state c \<noteq> 0 \<Longrightarrow> cstep c Tau (goto_pc t (Trying s) c)"
| send: "ch_pc c t = Won s \<Longrightarrow> length (ch_buf c) < 1 \<Longrightarrow> cstep c Tau (goto_pc t Idle (c\<lparr>ch_buf := ch_buf c @ [s]\<rparr>))"
| wait: "ch_pc c t = Idle \<Longrightarrow> cstep c Tau (goto_pc t Waiting c)"
| receive_eof: "ch_pc c t = Waiting \<Longrightarrow> ch_buf c = Eof # b \<Longrightarrow> cstep c (Take Eof) (goto_pc t Idle (c\<lparr>ch_buf := b\<rparr>))"
| receive: "ch_pc c t = Waiting \<Longrightarrow> ch_buf c = Dec d # b \<Longrightarrow> cstep c (Take (Dec d)) (goto_pc t (Got d) (c\<lparr>ch_buf := b\<rparr>))"
| reopen: "ch_pc c t = Got d \<Longrightarrow> cstep c Reopen (goto_pc t Idle (c\<lparr>ch_state := 0\<rparr>))"

inductive_cases cstep_cases: "cstep c e c'"

inductive creach :: "event list \<Rightarrow> chan \<Rightarrow> bool" where
  new: "creach [] NewChannelUI"
| more: "creach tr c \<Longrightarrow> cstep c e c' \<Longrightarrow> creach (tr @ [e]) c'"

section \<open>The mailbox\<close>

datatype mailbox = Free | Full signal | Taken | Closed

text \<open>One slot: a signal is put when it is free, refused otherwise; the end stays.\<close>

inductive mstep :: "mailbox \<Rightarrow> event \<Rightarrow> mailbox \<Rightarrow> bool" where
  "mstep m Tau m"
| "mstep Free (Put s) (Full s)"
| "m \<noteq> Free \<Longrightarrow> mstep m (Refused s) m"
| "mstep (Full (Dec d)) (Take (Dec d)) Taken"
| "mstep (Full Eof) (Take Eof) Closed"
| "mstep Taken Reopen Free"

inductive_simps mstep_simps:
  "mstep m Tau m'" "mstep m (Put s) m'" "mstep m (Refused s) m'" "mstep m (Take s) m'" "mstep m Reopen m'"

inductive mreach :: "event list \<Rightarrow> mailbox \<Rightarrow> bool" where
  mnew: "mreach [] Free"
| mmore: "mreach tr m \<Longrightarrow> mstep m e m' \<Longrightarrow> mreach (tr @ [e]) m'"

section \<open>Refinement\<close>

text \<open>Who holds the one permission the state word stands for.\<close>

datatype owner = Nobody | Sender nat signal | Queue signal | Receiver nat decision | Over

definition quiet :: "pc \<Rightarrow> bool" where
  "quiet p \<longleftrightarrow> (case p of Won s \<Rightarrow> False | Got d \<Rightarrow> False | _ \<Rightarrow> True)"

fun owns :: "chan \<Rightarrow> owner \<Rightarrow> bool" where
  "owns c Nobody \<longleftrightarrow> ch_state c = 0 \<and> ch_buf c = [] \<and> (\<forall>t. quiet (ch_pc c t))"
| "owns c (Sender t s) \<longleftrightarrow> ch_state c = 1 \<and> ch_buf c = [] \<and> ch_pc c t = Won s \<and> (\<forall>u. u \<noteq> t \<longrightarrow> quiet (ch_pc c u))"
| "owns c (Queue s) \<longleftrightarrow> ch_state c = 1 \<and> ch_buf c = [s] \<and> (\<forall>t. quiet (ch_pc c t))"
| "owns c (Receiver t d) \<longleftrightarrow> ch_state c = 1 \<and> ch_buf c = [] \<and> ch_pc c t = Got d \<and> (\<forall>u. u \<noteq> t \<longrightarrow> quiet (ch_pc c u))"
| "owns c Over \<longleftrightarrow> ch_state c = 1 \<and> ch_buf c = [] \<and> (\<forall>t. quiet (ch_pc c t))"

fun mailbox_of :: "owner \<Rightarrow> mailbox" where
  "mailbox_of Nobody = Free"
| "mailbox_of (Sender t s) = Full s"
| "mailbox_of (Queue s) = Full s"
| "mailbox_of (Receiver t d) = Taken"
| "mailbox_of Over = Closed"

lemma quiet_simps [simp]:
  "quiet Idle" "quiet (Trying s)" "quiet (Loaded s)" "\<not> quiet (Won s)" "quiet Waiting" "\<not> quiet (Got d)"
  by (simp_all add: quiet_def)

lemma goto_pc_simps [simp]:
  "ch_state (goto_pc t p c) = ch_state c" "ch_buf (goto_pc t p c) = ch_buf c" "ch_pc (goto_pc t p c) = (ch_pc c)(t := p)"
  by (simp_all add: goto_pc_def)

text \<open>A step of a quiet goroutine to a quiet place leaves the owner.\<close>

lemma owns_quiet:
  assumes "owns c w" and "quiet (ch_pc c t)" and "quiet p"
  shows "owns (goto_pc t p c) w"
  using assms by (cases w) auto

lemma owns_won: "owns c w \<Longrightarrow> ch_pc c t = Won s \<Longrightarrow> w = Sender t s"
  by (cases w) (auto dest!: spec [of _ t])

lemma owns_got: "owns c w \<Longrightarrow> ch_pc c t = Got d \<Longrightarrow> w = Receiver t d"
  by (cases w) (auto dest!: spec [of _ t])

lemma mstep_tau: "mstep m Tau m" by (rule mstep.intros)

lemma step_refines:
  assumes "cstep c e c'" and "owns c w"
  shows "\<exists>w'. owns c' w' \<and> mstep (mailbox_of w) e (mailbox_of w')"
  using assms
proof (cases rule: cstep.cases)
  case (call t s)
  with owns_quiet [OF assms(2), of t "Trying s"] mstep_tau show ?thesis by auto
next
  case (load_taken t s)
  with owns_quiet [OF assms(2), of t Idle] assms(2) show ?thesis
    by (cases w) (auto intro!: exI [of _ w] mstep.intros)
next
  case (load_free t s)
  with owns_quiet [OF assms(2), of t "Loaded s"] mstep_tau show ?thesis by auto
next
  case (cas_ok t s)
  with assms(2) have "w = Nobody" by (cases w) auto
  with cas_ok assms(2) show ?thesis by (intro exI [of _ "Sender t s"]) (auto intro: mstep.intros)
next
  case (cas_fail t s)
  with owns_quiet [OF assms(2), of t "Trying s"] mstep_tau show ?thesis by auto
next
  case (send t s)
  with assms(2) have "w = Sender t s" by (simp add: owns_won)
  with send assms(2) show ?thesis by (intro exI [of _ "Queue s"]) (auto intro: mstep.intros)
next
  case (wait t)
  with owns_quiet [OF assms(2), of t Waiting] mstep_tau show ?thesis by auto
next
  case (receive_eof t b)
  with assms(2) have "w = Queue Eof" by (cases w) auto
  with receive_eof assms(2) show ?thesis by (intro exI [of _ Over]) (auto intro: mstep.intros)
next
  case (receive t d b)
  with assms(2) have "w = Queue (Dec d)" by (cases w) auto
  with receive assms(2) show ?thesis by (intro exI [of _ "Receiver t d"]) (auto intro: mstep.intros)
next
  case (reopen t d)
  with assms(2) have "w = Receiver t d" by (simp add: owns_got)
  with reopen assms(2) show ?thesis by (intro exI [of _ Nobody]) (auto intro: mstep.intros)
qed

lemma creach_owner: "creach tr c \<Longrightarrow> \<exists>w. owns c w \<and> mreach tr (mailbox_of w)"
proof (induction rule: creach.induct)
  case new
  then show ?case by (intro exI [of _ Nobody]) (auto simp: NewChannelUI_def intro: mreach.intros)
next
  case (more tr c e c')
  then obtain w where w: "owns c w" "mreach tr (mailbox_of w)" by blast
  with step_refines [OF more(2)] show ?case by (blast intro: mmore)
qed

text \<open>What was put and what was taken.\<close>

definition puts :: "event list \<Rightarrow> signal list" where
  "puts tr = List.map_filter (\<lambda>e. case e of Put s \<Rightarrow> Some s | _ \<Rightarrow> None) tr"

definition takes :: "event list \<Rightarrow> signal list" where
  "takes tr = List.map_filter (\<lambda>e. case e of Take s \<Rightarrow> Some s | _ \<Rightarrow> None) tr"

lemma puts_snoc [simp]: "puts (tr @ [e]) = puts tr @ (case e of Put s \<Rightarrow> [s] | _ \<Rightarrow> [])"
  by (auto simp: puts_def map_filter_def split: event.split)

lemma takes_snoc [simp]: "takes (tr @ [e]) = takes tr @ (case e of Take s \<Rightarrow> [s] | _ \<Rightarrow> [])"
  by (auto simp: takes_def map_filter_def split: event.split)

definition pending :: "mailbox \<Rightarrow> signal list" where
  "pending m = (case m of Full s \<Rightarrow> [s] | _ \<Rightarrow> [])"

lemma mreach_fifo:
  "mreach tr m \<Longrightarrow> puts tr = takes tr @ pending m \<and> Eof \<notin> set (butlast (puts tr)) \<and>
     (m \<in> {Free, Taken} \<longrightarrow> Eof \<notin> set (puts tr))"
proof (induction rule: mreach.induct)
  case mnew
  then show ?case by (simp add: puts_def takes_def pending_def map_filter_def)
next
  case (mmore tr m e m')
  from mmore(2) mmore(3) show ?case
    by (cases rule: mstep.cases) (auto simp: pending_def)
qed

text \<open>
  C22. The interleaved steps of any number of goroutines refine a mailbox with one slot: every
  execution is one of the mailbox, decisions are taken in the order in which they were accepted,
  at most one is pending, none is accepted after the end, and a goroutine that won the
  compare-and-swap always finds room in the channel, so no sender ever blocks.
\<close>

theorem channel_refines_mailbox:
  assumes "creach tr c"
  shows "(\<exists>m. mreach tr m \<and> puts tr = takes tr @ pending m) \<and>
    Eof \<notin> set (butlast (puts tr)) \<and> length (ch_buf c) \<le> 1 \<and>
    (\<forall>t s. ch_pc c t = Won s \<longrightarrow> ch_buf c = [])"
proof -
  from creach_owner [OF assms] obtain w where w: "owns c w" "mreach tr (mailbox_of w)" by blast
  have "length (ch_buf c) \<le> 1" using w(1) by (cases w) auto
  moreover have "ch_buf c = []" if "ch_pc c t = Won s" for t s
    using owns_won [OF w(1) that] w(1) by simp
  ultimately show ?thesis using mreach_fifo [OF w(2)] w(2) by blast
qed

definition demo_decision :: decision where
  "demo_decision = \<lparr>d_action = ''accept'', d_edits = [], d_source = [], d_session = []\<rparr>"

lemma channel_refines_mailbox_witness: "Eof \<notin> set (butlast (puts [Tau, Tau, Put (Dec demo_decision)]))"
proof -
  let ?s = "Dec demo_decision" and ?c = NewChannelUI
  have "creach ([] @ [Tau]) (goto_pc 0 (Trying ?s) ?c)"
    by (rule creach.more [OF creach.new]) (intro cstep.call, simp add: NewChannelUI_def)
  then have "creach (([] @ [Tau]) @ [Tau]) (goto_pc 0 (Loaded ?s) (goto_pc 0 (Trying ?s) ?c))"
    by (rule creach.more) (intro cstep.load_free, simp_all add: NewChannelUI_def)
  then have "creach ((([] @ [Tau]) @ [Tau]) @ [Put ?s])
      (goto_pc 0 (Won ?s) ((goto_pc 0 (Loaded ?s) (goto_pc 0 (Trying ?s) ?c))\<lparr>ch_state := 1\<rparr>))"
    by (rule creach.more) (intro cstep.cas_ok, simp_all add: NewChannelUI_def)
  from channel_refines_mailbox [OF this] show ?thesis by simp
qed

section \<open>The deadline\<close>

datatype waitErr = ErrClosed | ErrGateTimeout

text \<open>
  What the inner input will do after the wait began: answer after some time, or never. The
  result of the wait under the deadline, \<open>None\<close> when it never returns, and whether it closed the
  inner input. When the answer and the deadline come together \<open>select\<close> may take either.
\<close>

type_synonym arrival = "(int \<times> (waitErr + decision)) option"

definition TimeoutAutoApprove :: string where "TimeoutAutoApprove = ''auto_approve''"
definition TimeoutAbort :: string where "TimeoutAbort = ''abort''"

definition timeout_approval :: decision where
  "timeout_approval = \<lparr>d_action = ''approve'', d_edits = [], d_source = ''gate-timeout'', d_session = []\<rparr>"

definition TimeoutUI_WaitDecision ::
  "bool \<Rightarrow> int \<Rightarrow> string \<Rightarrow> arrival option \<Rightarrow> (waitErr + decision) option \<times> bool" where
  "TimeoutUI_WaitDecision tie timeout onTimeout inner =
     (case inner of
        None \<Rightarrow> (Some (Inl ErrClosed), False)
      | Some arr \<Rightarrow>
          if timeout \<le> 0 then (map_option snd arr, False)
          else if (case arr of
                  Some (t, r) \<Rightarrow> t < timeout \<or> t = timeout \<and> tie
                | None \<Rightarrow> False) then (map_option snd arr, False)
          else if onTimeout = TimeoutAutoApprove then (Some (Inr timeout_approval), True)
          else (Some (Inl ErrGateTimeout), True))"

lemma deadline_answer:
  "0 < timeout \<Longrightarrow> t < timeout \<Longrightarrow>
     TimeoutUI_WaitDecision tie timeout p (Some (Some (t, r))) = (Some r, False)"
  by (simp add: TimeoutUI_WaitDecision_def)

lemma deadline_missed:
  assumes "0 < timeout" and "\<forall>t r. a = Some (t, r) \<longrightarrow> timeout < t"
  shows "TimeoutUI_WaitDecision tie timeout p (Some a) =
    (Some (if p = TimeoutAutoApprove then Inr timeout_approval else Inl ErrGateTimeout), True)"
  using assms by (cases a) (force simp: TimeoutUI_WaitDecision_def)+

text \<open>The service reads the answer and treats every error alike.\<close>

definition answered :: "(waitErr + decision) option \<times> bool \<Rightarrow> decision option" where
  "answered r = (case r of (Some (Inr d), _) \<Rightarrow> Some d | _ \<Rightarrow> None)"

lemma approve_unmatched: "find (equalFold (d_action timeout_approval)) (gateActions as) = None"
proof -
  have "\<not> equalFold (d_action timeout_approval) a" if "a \<in> {''accept'', ''reject''}" for a
    using that by (auto simp: timeout_approval_def equalFold_def toLower_def lower_char_def)
  then show ?thesis using gateActions_range [of as] by (auto simp: find_None_iff)
qed

lemma wait_all_unmatched:
  assumes "\<And>n. gi_decision gi n = Some d" and "find (equalFold (d_action d)) actions = None" and "0 < k"
  shows "\<exists>s'. wait_action io gi st actions att k lst s = (s', WNone (Some d)) \<and>
    gs_ctx s' = gs_ctx s \<and> gs_in s' = gs_in s + k"
  using assms(3)
proof (induction k arbitrary: att lst s)
  case (Suc k)
  let ?s = "s\<lparr>gs_in := gs_in s + 1, gs_j := emit io ''gate_retry''
    [(''step'', JStr (st_id st)), (''attempt'', JInt (int att + 1))] (gs_j s)\<rparr>"
  have step: "wait_action io gi st actions att (Suc k) lst s = wait_action io gi st actions (att + 1) k (Some d) ?s"
    by (simp add: assms(1,2) Let_def)
  show ?case
  proof (cases k)
    case 0
    then show ?thesis unfolding step by simp
  next
    case Suc
    with Suc.IH [of "att + 1" "Some d" ?s] show ?thesis unfolding step by auto
  qed
qed simp

text \<open>
  A gate nobody answers. With a deadline and the policy \<open>auto_approve\<close> the wait answers
  approve, which is never one of the actions accept and reject of a gate: after five deadlines the
  gate is stopped as unrecognised and the item aborted, with the context as it was. So the policy
  does not approve; and a timeout under the policy abort is recorded like a closed input.
\<close>

lemma auto_approve_never_passes:
  assumes "0 < timeout"
    and "\<And>n. gi_decision gi n = answered (TimeoutUI_WaitDecision tie timeout p (Some None))"
  shows "snd (runStructured io gi st s) = ''abort_item'' \<and>
    gs_ctx (fst (runStructured io gi st s)) = gs_ctx s \<and>
    gs_in (fst (runStructured io gi st s)) = gs_in s + (if p = TimeoutAutoApprove then 5 else 1)"
proof (cases "p = TimeoutAutoApprove")
  case True
  with assms have d: "gi_decision gi n = Some timeout_approval" for n
    by (simp add: deadline_missed answered_def)
  show ?thesis
  proof -
    let ?s0 = "s\<lparr>gs_j := emit io ''gate_wait''
       [(''step'', JStr (st_id st)), (''form'', JArr (form_view gi (gs_ctx s) (st_form st))),
        (''actions'', JArr (map JStr (gateActions (st_actions st))))] (gs_j s)\<rparr>"
    from wait_all_unmatched [OF d approve_unmatched, of 5 io st "st_actions st" 0 None ?s0]
    obtain s' where "wait_action io gi st (gateActions (st_actions st)) 0 5 None ?s0 =
        (s', WNone (Some timeout_approval))" "gs_ctx s' = gs_ctx s" "gs_in s' = gs_in s + 5" by auto
    with True show ?thesis by (simp add: runStructured_def Let_def gate_event_def)
  qed
next
  case False
  with assms have "gi_decision gi n = None" for n by (simp add: deadline_missed answered_def)
  with False show ?thesis
    by (simp add: runStructured_def Let_def gate_event_def numeral_eq_Suc)
qed

definition late_gi :: gateIO where
  "late_gi = demo_gi\<lparr>gi_decision := (\<lambda>n. Some timeout_approval)\<rparr>"

end
