(* ===== verification/Gate_Link.thy ===== *)
theory Gate_Link
  imports Gate_Channel
begin

text \<open>
  Signed approval links (internal/gate/link.go): the token is the base64 of the payload and of its
  HMAC. HMAC-SHA256, the JSON codec of a link, the key file and the random source are parameters;
  base64 and \<open>url.QueryEscape\<close> are those of the Go library.
\<close>

section \<open>encoding/base64\<close>

definition b64_alphabet :: string where
  "b64_alphabet = ''ABCDEFGHIJKLMNOPQRSTUVWXYZabcdefghijklmnopqrstuvwxyz0123456789-_''"

definition b64_digit :: "nat \<Rightarrow> char" where
  "b64_digit n = b64_alphabet ! n"

definition b64_value :: "char \<Rightarrow> nat option" where
  "b64_value c = find (\<lambda>n. b64_digit n = c) [0..<64]"

fun b64_groups :: "nat list \<Rightarrow> nat list" where
  "b64_groups [] = []"
| "b64_groups [a] = [a div 4, a mod 4 * 16]"
| "b64_groups [a, b] = [a div 4, a mod 4 * 16 + b div 16, b mod 16 * 4]"
| "b64_groups (a # b # c # r) =
     a div 4 # (a mod 4 * 16 + b div 16) # (b mod 16 * 4 + c div 64) # c mod 64 # b64_groups r"

text \<open>Without padding; bits beyond the last byte are ignored.\<close>

fun b64_bytes :: "nat list \<Rightarrow> nat list option" where
  "b64_bytes [] = Some []"
| "b64_bytes [x] = None"
| "b64_bytes [x, y] = Some [x * 4 + y div 16]"
| "b64_bytes [x, y, z] = Some [x * 4 + y div 16, y mod 16 * 16 + z div 4]"
| "b64_bytes (x # y # z # w # r) =
     map_option (\<lambda>bs. (x * 4 + y div 16) # (y mod 16 * 16 + z div 4) # (z mod 4 * 64 + w) # bs) (b64_bytes r)"

definition b64_encode :: "string \<Rightarrow> string" where
  "b64_encode s = map b64_digit (b64_groups (map of_char s))"

text \<open>The decoder skips the line ends and refuses every other byte outside the alphabet.\<close>

definition line_end :: "char \<Rightarrow> bool" where
  "line_end c \<longleftrightarrow> c = CHR 0x0A \<or> c = CHR 0x0D"

fun all_some :: "'a option list \<Rightarrow> 'a list option" where
  "all_some [] = Some []"
| "all_some (None # xs) = None"
| "all_some (Some x # xs) = map_option ((#) x) (all_some xs)"

definition b64_decode :: "string \<Rightarrow> string option" where
  "b64_decode s =
     Option.bind (all_some (map b64_value (filter (\<lambda>c. \<not> line_end c) s)))
       (\<lambda>ns. map_option (map char_of) (b64_bytes ns))"

lemma digit_table: "list_all (\<lambda>n. b64_value (b64_digit n) = Some n \<and> \<not> line_end (b64_digit n) \<and>
    b64_digit n \<noteq> CHR ''.'') [0..<64]"
  by code_simp

lemma digit_facts:
  assumes "n < 64"
  shows "b64_value (b64_digit n) = Some n" "\<not> line_end (b64_digit n)" "b64_digit n \<noteq> CHR ''.''"
  using digit_table assms by (auto simp: list_all_iff)

lemma groups_range: "list_all (\<lambda>a. a < 256) bs \<Longrightarrow> list_all (\<lambda>n. n < 64) (b64_groups bs)"
  by (induction bs rule: b64_groups.induct) auto

lemma bytes_groups: "list_all (\<lambda>a. a < 256) bs \<Longrightarrow> b64_bytes (b64_groups bs) = Some bs"
  by (induction bs rule: b64_groups.induct) auto

lemma all_some_map: "all_some (map Some xs) = Some xs"
  by (induction xs) auto

lemma char_bytes: "list_all (\<lambda>a. a < 256) (map of_char (s :: string) :: nat list)"
  by (induction s) auto

lemma encode_chars: "c \<in> set (b64_encode s) \<Longrightarrow> \<not> line_end c \<and> c \<noteq> CHR ''.''"
  using groups_range [OF char_bytes [of s]] digit_facts
  by (auto simp: b64_encode_def list_all_iff)

lemma decode_encode: "b64_decode (b64_encode s) = Some s"
proof -
  let ?ns = "b64_groups (map of_char s)"
  have r: "list_all (\<lambda>n. n < 64) ?ns" by (rule groups_range [OF char_bytes])
  have "filter (\<lambda>c. \<not> line_end c) (b64_encode s) = b64_encode s"
    using encode_chars by (auto simp: filter_id_conv)
  moreover have "map b64_value (b64_encode s) = map Some ?ns"
    using r digit_facts(1) by (auto simp: b64_encode_def list_all_iff)
  ultimately show ?thesis
    by (simp add: b64_decode_def all_some_map bytes_groups [OF char_bytes] comp_def del: map_map)
       (simp add: comp_def)
qed

lemma decode_newline: "line_end c \<Longrightarrow> b64_decode (s @ [c]) = b64_decode s"
  by (simp add: b64_decode_def)

section \<open>Links and signers\<close>

text \<open>Times are nanoseconds since Go's zero time; 0 is the time \<open>IsZero\<close> recognises.\<close>

record link =
  l_run :: string
  l_step :: string
  l_base :: string
  l_expires :: int

record signing =
  sg_mac :: "string \<Rightarrow> string \<Rightarrow> string"
  sg_marshal :: "link \<Rightarrow> string option"
  sg_unmarshal :: "string \<Rightarrow> link option"

datatype linkErr = NoKey | NoRun | NoBase | NoMarshal | NoRandom | KeyCorrupt | KeyUnreadable | KeyUnwritable
  | ErrLinkBadSignature | ErrLinkExpired | ErrLinkMalformed
  | ErrApproveUnknownGate | ErrApproveUsed | ErrApproveBadAction

text \<open>The key; a missing \<open>*Signer\<close> is \<open>None\<close>.\<close>

type_synonym signer = "string option"

definition no_key :: "signer \<Rightarrow> bool" where
  "no_key k \<longleftrightarrow> k = None \<or> k = Some []"

definition Sign :: "signing \<Rightarrow> signer \<Rightarrow> link \<Rightarrow> linkErr + string" where
  "Sign sg k l =
     (if no_key k then Inl NoKey
      else if l_run l = [] then Inl NoRun
      else case sg_marshal sg l of
        None \<Rightarrow> Inl NoMarshal
      | Some payload \<Rightarrow>
          Inr (b64_encode payload @ ''.'' @ b64_encode (sg_mac sg (the k) payload)))"

text \<open>\<open>splitToken\<close>: at the last dot.\<close>

fun splitToken :: "string \<Rightarrow> (string \<times> string) option" where
  "splitToken [] = None"
| "splitToken (c # cs) =
     (case splitToken cs of
        Some (a, b) \<Rightarrow> Some (c # a, b)
      | None \<Rightarrow> if c = CHR ''.'' then Some ([], cs) else None)"

definition Verify :: "signing \<Rightarrow> signer \<Rightarrow> string \<Rightarrow> int \<Rightarrow> linkErr + link" where
  "Verify sg k token now =
     (if no_key k then Inl NoKey
      else case splitToken token of
        None \<Rightarrow> Inl ErrLinkMalformed
      | Some (p, q) \<Rightarrow>
         (case b64_decode p of
            None \<Rightarrow> Inl ErrLinkMalformed
          | Some payload \<Rightarrow>
             (case b64_decode q of
                None \<Rightarrow> Inl ErrLinkMalformed
              | Some sig \<Rightarrow>
                  if sig \<noteq> sg_mac sg (the k) payload then Inl ErrLinkBadSignature
                  else case sg_unmarshal sg payload of
                    None \<Rightarrow> Inl ErrLinkMalformed
                  | Some l \<Rightarrow>
                      if l_expires l = 0 then Inl ErrLinkMalformed
                      else if l_expires l < now then Inl ErrLinkExpired
                      else Inr l)))"

definition second :: int where "second = 1000000000"
definition hour :: int where "hour = 3600 * second"

definition clean_base :: "string \<Rightarrow> string" where
  "clean_base base = trimRightChar CHR ''/'' (trimSpace base)"

text \<open>\<open>url.QueryEscape\<close> is the parameter \<open>esc\<close>.\<close>

definition link_url :: "(string \<Rightarrow> string) \<Rightarrow> string \<Rightarrow> string \<Rightarrow> string" where
  "link_url esc base token = base @ ''/approve?t='' @ esc token"

definition SignLink ::
  "signing \<Rightarrow> (string \<Rightarrow> string) \<Rightarrow> signer \<Rightarrow> int \<Rightarrow> string \<Rightarrow> string \<Rightarrow> string \<Rightarrow> int \<Rightarrow> linkErr + string" where
  "SignLink sg esc k now base run stp ttl =
     (if k = None then Inl NoKey
      else if run = [] \<or> stp = [] then Inl NoRun
      else let base' = clean_base base in
        if base' = [] then Inl NoBase
        else case Sign sg k \<lparr>l_run = run, l_step = stp, l_base = base',
               l_expires = now + (if ttl \<le> 0 then hour else ttl)\<rparr> of
          Inl e \<Rightarrow> Inl e
        | Inr token \<Rightarrow> Inr (link_url esc base' token))"

text \<open>
  \<open>LoadSigner\<close>: the key file as \<open>os.ReadFile\<close> finds it, the 32 random bytes, whether the file can
  be written; the signer and the file afterwards.
\<close>

datatype keyFile = KeyContent string | KeyAbsent | KeyBroken

definition LoadSigner ::
  "string \<Rightarrow> string option \<Rightarrow> bool \<Rightarrow> keyFile \<Rightarrow> (linkErr + string) \<times> keyFile" where
  "LoadSigner path fresh writable f =
     (if path = [] then (Inl KeyUnreadable, f)
      else case f of
        KeyContent raw \<Rightarrow>
          (case b64_decode raw of
             None \<Rightarrow> (Inl KeyCorrupt, f)
           | Some key \<Rightarrow> (if length key < 32 then Inl KeyCorrupt else Inr key, f))
      | KeyBroken \<Rightarrow> (Inl KeyUnreadable, f)
      | KeyAbsent \<Rightarrow>
          (case fresh of
             None \<Rightarrow> (Inl NoRandom, f)
           | Some key \<Rightarrow>
               if writable then (Inr key, KeyContent (b64_encode key)) else (Inl KeyUnwritable, f)))"

section \<open>Lemmas\<close>

lemma splitToken_no_dot: "CHR ''.'' \<notin> set s \<Longrightarrow> splitToken s = None"
  by (induction s) auto

lemma splitToken_last: "CHR ''.'' \<notin> set q \<Longrightarrow> splitToken (p @ CHR ''.'' # q) = Some (p, q)"
  by (induction p) (auto simp: splitToken_no_dot)

lemma splitToken_Some: "splitToken s = Some (p, q) \<Longrightarrow> s = p @ CHR ''.'' # q \<and> CHR ''.'' \<notin> set q"
proof (induction s arbitrary: p q)
  case (Cons c cs)
  then show ?case
  proof (cases "splitToken cs")
    case None
    have "CHR ''.'' \<notin> set cs"
    proof
      assume "CHR ''.'' \<in> set cs"
      then obtain a b where "cs = a @ CHR ''.'' # b" "CHR ''.'' \<notin> set b"
        by (meson split_list_last)
      then show False using None splitToken_last by simp
    qed
    with Cons None show ?thesis by (auto split: if_splits)
  qed fastforce
qed simp

lemma splitToken_snoc: "splitToken s = Some (p, q) \<Longrightarrow> c \<noteq> CHR ''.'' \<Longrightarrow> splitToken (s @ [c]) = Some (p, q @ [c])"
  using splitToken_Some [of s p q] splitToken_last [of "q @ [c]" p] by auto

text \<open>A byte the decoder skips, appended to a token, changes nothing for \<open>Verify\<close>.\<close>

lemma Verify_newline: "line_end c \<Longrightarrow> splitToken token \<noteq> None \<Longrightarrow> Verify sg k (token @ [c]) now = Verify sg k token now"
proof -
  assume c: "line_end c" and "splitToken token \<noteq> None"
  then obtain p q where s: "splitToken token = Some (p, q)" by auto
  from c have "c \<noteq> CHR ''.''" by (auto simp: line_end_def)
  from splitToken_snoc [OF s this] s c show ?thesis
    by (simp add: Verify_def decode_newline cong: option.case_cong)
qed

text \<open>What a token that verifies carries: the code of the payload under the key.\<close>

lemma Verify_Inr:
  assumes "Verify sg k token now = Inr l"
  obtains p q payload where "splitToken token = Some (p, q)" "b64_decode p = Some payload"
    "b64_decode q = Some (sg_mac sg (the k) payload)" "sg_unmarshal sg payload = Some l"
    "now \<le> l_expires l" "l_expires l \<noteq> 0" "\<not> no_key k"
  using assms by (auto simp: Verify_def split: if_splits option.splits prod.splits)

lemma Verify_Sign:
  assumes "Sign sg k l = Inr token" and "sg_marshal sg l = Some payload"
  shows "Verify sg k' token now =
    (if no_key k' then Inl NoKey
     else if sg_mac sg (the k) payload \<noteq> sg_mac sg (the k') payload then Inl ErrLinkBadSignature
     else case sg_unmarshal sg payload of
       None \<Rightarrow> Inl ErrLinkMalformed
     | Some l' \<Rightarrow> if l_expires l' = 0 then Inl ErrLinkMalformed
         else if l_expires l' < now then Inl ErrLinkExpired else Inr l')"
proof -
  from assms have t: "token = b64_encode payload @ CHR ''.'' # b64_encode (sg_mac sg (the k) payload)"
    by (auto simp: Sign_def split: if_splits)
  have "splitToken token = Some (b64_encode payload, b64_encode (sg_mac sg (the k) payload))"
    unfolding t using encode_chars by (intro splitToken_last) auto
  then show ?thesis by (simp add: Verify_def decode_encode)
qed

section \<open>Properties\<close>

text \<open>
  A link survives a restart. A key the daemon created is the one read back from its file, and
  the token of a signed link verifies under it, giving the run and the step it was issued for,
  until its deadline passes and no longer; the deadline is an hour when none is given. The JSON
  codec has to give back the link that was marshalled.
\<close>

lemma link_survives_restart:
  assumes "path \<noteq> []" and "32 \<le> length key" and "0 \<le> now"
    and "LoadSigner path (Some key) True KeyAbsent = (Inr k, f)"
    and "SignLink sg esc (Some k) now base run stp ttl = Inr url"
    and "sg_marshal sg \<lparr>l_run = run, l_step = stp, l_base = clean_base base,
           l_expires = now + (if ttl \<le> 0 then hour else ttl)\<rparr> = Some payload"
    and "sg_unmarshal sg payload = Some \<lparr>l_run = run, l_step = stp, l_base = clean_base base,
           l_expires = now + (if ttl \<le> 0 then hour else ttl)\<rparr>"
  shows "\<exists>token. url = link_url esc (clean_base base) token \<and>
    LoadSigner path fresh w f = (Inr k, f) \<and>
    (\<forall>t. Verify sg (Some k) token t =
      (if t \<le> now + (if ttl \<le> 0 then hour else ttl)
       then Inr \<lparr>l_run = run, l_step = stp, l_base = clean_base base,
              l_expires = now + (if ttl \<le> 0 then hour else ttl)\<rparr>
       else Inl ErrLinkExpired))"
proof -
  let ?l = "\<lparr>l_run = run, l_step = stp, l_base = clean_base base,
     l_expires = now + (if ttl \<le> 0 then hour else ttl)\<rparr>"
  from assms(1,4) have k: "k = key" "f = KeyContent (b64_encode key)" by (auto simp: LoadSigner_def)
  from assms(5) obtain token where t: "Sign sg (Some k) ?l = Inr token"
    "url = link_url esc (clean_base base) token"
    by (auto simp: SignLink_def Let_def split: if_splits sum.splits)
  have "\<not> no_key (Some k)" using assms(2) k by (auto simp: no_key_def)
  moreover have "l_expires ?l \<noteq> 0" using assms(3) by (auto simp: hour_def second_def)
  ultimately show ?thesis
    using t(2) k assms(1,2,7) Verify_Sign [OF t(1) assms(6), of "Some k"]
    by (auto simp: LoadSigner_def decode_encode)
qed

definition demo_link :: link where
  "demo_link = \<lparr>l_run = ''r1'', l_step = ''ok'', l_base = ''http://h'', l_expires = 5 + hour\<rparr>"

definition demo_signing :: signing where
  "demo_signing = \<lparr>sg_mac = (\<lambda>k p. k @ p), sg_marshal = (\<lambda>l. Some (l_run l)),
     sg_unmarshal = (\<lambda>p. Some (demo_link\<lparr>l_run := p\<rparr>))\<rparr>"

definition demo_key :: string where
  "demo_key = replicate 32 CHR ''k''"

lemma clean_demo: "clean_base ''http://h/'' = ''http://h''" by code_simp

end
