(* ===== verification/Gate_Approver.thy ===== *)
theory Gate_Approver
  imports Gate_Link
begin

text \<open>
  The registry of waiting gates and the delivery of decisions by signed link
  (internal/gate/approver.go). The operations are atomic here; a gate's channel is the mailbox
  its interleaved steps refine. Page rendering is left out.
\<close>

section \<open>State\<close>

record pendingGate =
  pg_run :: string
  pg_step :: string
  pg_ui :: nat
  pg_form :: "formField list"
  pg_actions :: "string list"
  pg_link :: string
  pg_expires :: int

text \<open>\<open>Resolver\<close>, when set, finds the channel of a gate registered elsewhere.\<close>

record approver =
  ap_signer :: signer
  ap_baseURL :: string
  ap_ttl :: int
  ap_resolver :: "(string \<Rightarrow> string \<Rightarrow> nat option) option"
  ap_pending :: "(string \<times> pendingGate) list"
  ap_burned :: "string list"

type_synonym chans = "nat \<Rightarrow> mailbox"

definition NewApprover :: "signer \<Rightarrow> string \<Rightarrow> int \<Rightarrow> approver" where
  "NewApprover k base ttl =
     \<lparr>ap_signer = k, ap_baseURL = trimRightChar CHR ''/'' base, ap_ttl = (if ttl \<le> 0 then hour else ttl),
      ap_resolver = None, ap_pending = [], ap_burned = []\<rparr>"

definition gateKey :: "string \<Rightarrow> string \<Rightarrow> string" where
  "gateKey run stp = run @ ''|'' @ stp"

section \<open>Operations\<close>

text \<open>\<open>ChannelUI.SendDecision\<close> on the mailbox.\<close>

definition SendDecision :: "decision \<Rightarrow> nat \<Rightarrow> chans \<Rightarrow> chans \<times> bool" where
  "SendDecision d ui ch =
     (case ch ui of Free \<Rightarrow> (ch(ui := Full (Dec d)), True) | _ \<Rightarrow> (ch, False))"

definition Register ::
  "signing \<Rightarrow> (string \<Rightarrow> string) \<Rightarrow> int \<Rightarrow> string \<Rightarrow> string \<Rightarrow> string \<Rightarrow> nat \<Rightarrow> formField list \<Rightarrow> string list \<Rightarrow>
     approver \<Rightarrow> (linkErr + string) \<times> approver" where
  "Register sg esc now run stp base ui form actions a =
     (if ap_signer a = None then (Inl NoKey, a)
      else if run = [] \<or> stp = [] then (Inl NoRun, a)
      else let base' = clean_base base; expires = now + ap_ttl a in
        if base' = [] then (Inl NoBase, a)
        else case Sign sg (ap_signer a) \<lparr>l_run = run, l_step = stp, l_base = base', l_expires = expires\<rparr> of
          Inl e \<Rightarrow> (Inl e, a)
        | Inr token \<Rightarrow>
            let url = link_url esc base' token in
            (Inr url, a\<lparr>ap_pending := AList.update (gateKey run stp)
               \<lparr>pg_run = run, pg_step = stp, pg_ui = ui, pg_form = form, pg_actions = actions,
                pg_link = url, pg_expires = expires\<rparr> (ap_pending a)\<rparr>))"

definition Unregister :: "string \<Rightarrow> string \<Rightarrow> approver \<Rightarrow> approver" where
  "Unregister run stp a = a\<lparr>ap_pending := AList.delete (gateKey run stp) (ap_pending a)\<rparr>"

definition Pending :: "approver \<Rightarrow> nat" where
  "Pending a = length (ap_pending a)"

definition allowedAction :: "string list \<Rightarrow> string \<Rightarrow> bool" where
  "allowedAction actions action \<longleftrightarrow>
     action \<noteq> [] \<and>
     (if actions = [] then action = ''accept'' \<or> action = ''reject'' else action \<in> set actions)"

definition link_decision :: "string \<Rightarrow> obj \<Rightarrow> decision" where
  "link_decision action edits = \<lparr>d_action = action, d_edits = edits, d_source = [], d_session = []\<rparr>"

definition send_checked ::
  "string list \<Rightarrow> string \<Rightarrow> obj \<Rightarrow> nat \<Rightarrow> chans \<Rightarrow> chans \<times> linkErr option" where
  "send_checked actions action edits ui ch =
     (if \<not> allowedAction actions action then (ch, Some ErrApproveBadAction)
      else let (ch', ok) = SendDecision (link_decision action edits) ui ch
           in (ch', if ok then None else Some ErrApproveUnknownGate))"

definition Deliver ::
  "signing \<Rightarrow> int \<Rightarrow> string \<Rightarrow> string \<Rightarrow> obj \<Rightarrow> approver \<Rightarrow> chans \<Rightarrow> approver \<times> chans \<times> linkErr option" where
  "Deliver sg now token action edits a ch =
     (if ap_signer a = None then (a, ch, Some NoKey)
      else case Verify sg (ap_signer a) token now of
        Inl e \<Rightarrow> (a, ch, Some e)
      | Inr l \<Rightarrow>
          if token \<in> set (ap_burned a) then (a, ch, Some ErrApproveUsed)
          else case map_of (ap_pending a) (gateKey (l_run l) (l_step l)) of
            Some pg \<Rightarrow>
              (a\<lparr>ap_burned := token # ap_burned a\<rparr>, send_checked (pg_actions pg) action edits (pg_ui pg) ch)
          | None \<Rightarrow>
             (case Option.bind (ap_resolver a) (\<lambda>r. r (l_run l) (l_step l)) of
                None \<Rightarrow> (a, ch, Some ErrApproveUnknownGate)
              | Some ui \<Rightarrow> (a, send_checked [] action edits ui ch)))"

section \<open>The handler\<close>

record approveReq =
  rq_token :: string
  rq_method :: string
  rq_parses :: bool
  rq_value :: "string \<Rightarrow> string"

definition page_edit :: "(string \<Rightarrow> string) \<Rightarrow> obj \<Rightarrow> formField \<Rightarrow> obj" where
  "page_edit vals edits f =
     (if \<not> ff_editable f then edits
      else let v = trimSpace (vals (ff_field f)) in
        if v \<noteq> [] then AList.update (ff_field f) (JStr v) edits else edits)"

definition page_edits :: "formField list \<Rightarrow> (string \<Rightarrow> string) \<Rightarrow> obj" where
  "page_edits form vals = foldl (page_edit vals) [] form"

text \<open>The status, and the registry and channels afterwards.\<close>

definition handleApprove ::
  "signing \<Rightarrow> int \<Rightarrow> approveReq \<Rightarrow> approver \<Rightarrow> chans \<Rightarrow> nat \<times> approver \<times> chans" where
  "handleApprove sg now rq a ch =
     (if rq_token rq = [] then (400, a, ch)
      else case Verify sg (ap_signer a) (rq_token rq) now of
        Inl e \<Rightarrow> (410, a, ch)
      | Inr l \<Rightarrow>
         (case map_of (ap_pending a) (gateKey (l_run l) (l_step l)) of
            None \<Rightarrow> (410, a, ch)
          | Some pg \<Rightarrow>
              if rq_method rq = ''GET'' then (200, a, ch)
              else if rq_method rq \<noteq> ''POST'' then (405, a, ch)
              else if \<not> rq_parses rq then (400, a, ch)
              else let action = rq_value rq ''action'';
                       (a', ch', e) = Deliver sg now (rq_token rq) action
                         (page_edits (pg_form pg) (rq_value rq)) a ch
                   in case e of
                        Some _ \<Rightarrow> (409, a', ch')
                      | None \<Rightarrow> (200, Unregister (pg_run pg) (pg_step pg) a', ch')))"

section \<open>Executions\<close>

text \<open>What can happen to a registry and its channels; \<open>Serve\<close> is the gate taking its decision.\<close>

datatype ap_op =
    OpRegister int string string string nat "formField list" "string list"
  | OpUnregister string string
  | OpDeliver int string string obj
  | OpHandle int approveReq
  | OpServe nat mailbox

fun ap_step :: "signing \<Rightarrow> (string \<Rightarrow> string) \<Rightarrow> ap_op \<Rightarrow> approver \<times> chans \<Rightarrow> approver \<times> chans" where
  "ap_step sg esc (OpRegister now run stp base ui form actions) (a, ch) =
     (snd (Register sg esc now run stp base ui form actions a), ch)"
| "ap_step sg esc (OpUnregister run stp) (a, ch) = (Unregister run stp a, ch)"
| "ap_step sg esc (OpDeliver now token action edits) (a, ch) =
     (let (a', ch', _) = Deliver sg now token action edits a ch in (a', ch'))"
| "ap_step sg esc (OpHandle now rq) (a, ch) = snd (handleApprove sg now rq a ch)"
| "ap_step sg esc (OpServe ui m) (a, ch) = (a, ch(ui := m))"

definition ap_steps :: "signing \<Rightarrow> (string \<Rightarrow> string) \<Rightarrow> ap_op list \<Rightarrow> approver \<times> chans \<Rightarrow> approver \<times> chans" where
  "ap_steps sg esc ops s = foldl (\<lambda>s op. ap_step sg esc op s) s ops"

section \<open>Lemmas\<close>

lemma send_spec: "mstep (ch ui) (if ok then Put (Dec d) else Refused (Dec d)) (ch' ui)"
  if "SendDecision d ui ch = (ch', ok)"
  using that by (auto simp: SendDecision_def intro: mstep.intros split: mailbox.splits)

lemma Deliver_burned [simp]:
  "ap_signer (fst (Deliver sg now token action edits a ch)) = ap_signer a"
  "set (ap_burned a) \<subseteq> set (ap_burned (fst (Deliver sg now token action edits a ch)))"
  by (auto simp: Deliver_def split: sum.splits option.splits)

lemma Deliver_fst:
  "Deliver sg now token action edits a ch = (a', ch', e) \<Longrightarrow> set (ap_burned a) \<subseteq> set (ap_burned a')"
  using Deliver_burned(2) [of a sg now token action edits ch] by simp

lemma Unregister_burned [simp]: "ap_burned (Unregister run stp a) = ap_burned a"
  by (simp add: Unregister_def)

lemma Register_burned [simp]:
  "ap_burned (snd (Register sg esc now run stp base ui form actions a)) = ap_burned a"
  by (simp add: Register_def Let_def split: sum.split)

lemma step_burned: "set (ap_burned (fst s)) \<subseteq> set (ap_burned (fst (ap_step sg esc op s)))"
proof (cases s)
  case (Pair a ch)
  show ?thesis
  proof (cases op)
    case (OpDeliver now token action edits)
    then show ?thesis using Pair Deliver_fst by (fastforce split: prod.split)
  next
    case (OpHandle now rq)
    then show ?thesis using Pair Deliver_fst
      by (fastforce simp: handleApprove_def Let_def split: sum.split option.split prod.split)
  qed (use Pair in auto)
qed

lemma steps_burned: "set (ap_burned (fst s)) \<subseteq> set (ap_burned (fst (ap_steps sg esc ops s)))"
proof (induction ops arbitrary: s)
  case (Cons op ops)
  from step_burned [of s sg esc op] Cons [of "ap_step sg esc op s"] show ?case
    by (auto simp: ap_steps_def)
qed (simp add: ap_steps_def)

lemma Deliver_burns:
  "Deliver sg now token action edits a ch = (a', ch', None) \<Longrightarrow>
     Verify sg (ap_signer a) token now = Inr l \<Longrightarrow>
     map_of (ap_pending a) (gateKey (l_run l) (l_step l)) \<noteq> None \<Longrightarrow> token \<in> set (ap_burned a')"
  by (auto simp: Deliver_def split: if_splits)

lemma Deliver_used:
  "token \<in> set (ap_burned a) \<Longrightarrow> \<exists>e. Deliver sg now token action edits a ch = (a, ch, Some e)"
  by (auto simp: Deliver_def split: sum.split)

text \<open>The registry of an approver that was never given a resolver.\<close>

definition ap_wf :: "signer \<Rightarrow> approver \<Rightarrow> bool" where
  "ap_wf k a \<longleftrightarrow> ap_signer a = k \<and> ap_resolver a = None \<and>
     (\<forall>key pg. map_of (ap_pending a) key = Some pg \<longrightarrow>
        key = gateKey (pg_run pg) (pg_step pg) \<and> pg_run pg \<noteq> [] \<and> pg_step pg \<noteq> [])"

lemma ap_wf_new: "ap_wf k (NewApprover k base ttl)"
  by (simp add: ap_wf_def NewApprover_def)

lemma ap_wf_Register: "ap_wf k a \<Longrightarrow> ap_wf k (snd (Register sg esc now run stp base ui form actions a))"
  by (auto simp: ap_wf_def Register_def Let_def update_conv' split: sum.split if_splits)

lemma ap_wf_Unregister: "ap_wf k a \<Longrightarrow> ap_wf k (Unregister run stp a)"
  by (auto simp: ap_wf_def Unregister_def delete_conv' split: if_splits)

lemma ap_wf_Deliver: "Deliver sg now token action edits a ch = (a', ch', e) \<Longrightarrow> ap_wf k a \<Longrightarrow> ap_wf k a'"
  by (auto simp: ap_wf_def Deliver_def split: sum.splits option.splits if_splits)

lemma ap_wf_handle: "handleApprove sg now rq a ch = (c, a', ch') \<Longrightarrow> ap_wf k a \<Longrightarrow> ap_wf k a'"
  by (auto simp: handleApprove_def Let_def ap_wf_Unregister ap_wf_Deliver
      split: sum.splits option.splits if_splits prod.splits)

lemma ap_wf_step: "ap_wf k a \<Longrightarrow> ap_step sg esc op (a, ch) = (a', ch') \<Longrightarrow> ap_wf k a'"
proof (cases op)
  case (OpRegister now run stp base ui form actions)
  assume "ap_wf k a" and "ap_step sg esc op (a, ch) = (a', ch')"
  with OpRegister ap_wf_Register [of k a sg esc now run stp base ui form actions] show ?thesis by auto
next
  case (OpHandle now rq)
  assume "ap_wf k a" and "ap_step sg esc op (a, ch) = (a', ch')"
  with OpHandle show ?thesis using ap_wf_handle [of sg now rq a ch] by (metis ap_step.simps(4) prod.collapse)
next
  case (OpDeliver now token action edits)
  assume "ap_wf k a" and "ap_step sg esc op (a, ch) = (a', ch')"
  with OpDeliver show ?thesis using ap_wf_Deliver [of sg now token action edits a ch] by (auto split: prod.splits)
qed (auto simp: ap_wf_Unregister)

lemma ap_wf_steps: "ap_wf k (fst s) \<Longrightarrow> ap_wf k (fst (ap_steps sg esc ops s))"
proof (induction ops arbitrary: s)
  case (Cons op ops)
  obtain a ch a' ch' where "s = (a, ch)" "ap_step sg esc op s = (a', ch')" by fastforce
  with Cons ap_wf_step [of k a sg esc op ch a' ch'] show ?case by (simp add: ap_steps_def)
qed (simp add: ap_steps_def)

lemma gateKey_inject:
  assumes "gateKey r s = gateKey r' s'" and "CHR ''|'' \<notin> set r" and "CHR ''|'' \<notin> set r'"
  shows "r = r' \<and> s = s'"
  using assms
proof (induction r arbitrary: r')
  case Nil
  then show ?case by (cases r') (auto simp: gateKey_def)
next
  case (Cons c r)
  then show ?case by (cases r') (auto simp: gateKey_def)
qed

text \<open>
  The daemon drops a run's gates with \<open>Unregister(runID, "")\<close>, but no gate is registered without
  a step: nothing is dropped.
\<close>

lemma Unregister_no_step:
  assumes "ap_wf k a" and "CHR ''|'' \<notin> set run" and "\<forall>pg \<in> snd ` set (ap_pending a). CHR ''|'' \<notin> set (pg_run pg)"
  shows "Unregister run [] a = a"
proof -
  have "gateKey run [] \<notin> fst ` set (ap_pending a)"
  proof
    assume "gateKey run [] \<in> fst ` set (ap_pending a)"
    then obtain pg where "map_of (ap_pending a) (gateKey run []) = Some pg"
      by (metis domIff dom_map_of_conv_image_fst not_None_eq)
    moreover from this have "CHR ''|'' \<notin> set (pg_run pg)" using assms(3) map_of_SomeD by force
    moreover have "gateKey run [] = gateKey (pg_run pg) (pg_step pg)" "pg_step pg \<noteq> []"
      using calculation(1) assms(1) by (auto simp: ap_wf_def)
    ultimately show False using gateKey_inject [of run "[]" "pg_run pg" "pg_step pg"] assms(2) by auto
  qed
  then show ?thesis by (simp add: Unregister_def)
qed

section \<open>Properties\<close>


definition demo_token :: string where
  "demo_token = b64_encode ''r1'' @ ''.'' @ b64_encode (demo_key @ ''r1'')"

definition demo_gate_op :: "nat \<Rightarrow> ap_op" where
  "demo_gate_op ui = OpRegister 5 ''r1'' ''ok'' ''http://h/'' ui [] []"

lemma demo_sign: "Sign demo_signing (Some demo_key) demo_link = Inr demo_token"
  by (simp add: Sign_def demo_signing_def demo_link_def demo_token_def demo_key_def no_key_def)

lemma demo_verify: "line \<in> {[], [CHR 0x0A]} \<Longrightarrow> Verify demo_signing (Some demo_key) (demo_token @ line) 7 = Inr demo_link"
proof -
  have v: "Verify demo_signing (Some demo_key) demo_token 7 = Inr demo_link"
    using Verify_Sign [OF demo_sign, of "''r1''" "Some demo_key" 7]
    by (simp add: demo_signing_def demo_link_def demo_key_def no_key_def hour_def second_def)
  moreover have "splitToken demo_token \<noteq> None" by (rule Verify_Inr [OF v]) simp
  moreover assume "line \<in> {[], [CHR 0x0A]}"
  ultimately show ?thesis using Verify_newline [of "CHR 0x0A"] by (auto simp: line_end_def)
qed

lemma demo_registered:
  "map_of (ap_pending (fst (ap_step demo_signing id (demo_gate_op ui) (a, ch)))) (gateKey ''r1'' ''ok'') =
     Some \<lparr>pg_run = ''r1'', pg_step = ''ok'', pg_ui = ui, pg_form = [], pg_actions = [],
       pg_link = link_url id ''http://h'' demo_token, pg_expires = 5 + hour\<rparr>"
  if "ap_signer a = Some demo_key" "ap_ttl a = hour"
proof -
  have "Sign demo_signing (Some demo_key)
      \<lparr>l_run = ''r1'', l_step = ''ok'', l_base = ''http://h'', l_expires = 5 + hour\<rparr> = Inr demo_token"
    using demo_sign by (simp add: demo_link_def)
  with that show ?thesis
    by (simp add: demo_gate_op_def Register_def Let_def clean_demo update_conv')
qed


text \<open>
  A burned link works again with a line end. The registry burns the text of a token, but the
  base64 decoder skips line ends: when a token has been used and a gate is again registered under
  its run and step, as each item of a foreach registers it, the same token is refused and the
  token followed by a newline is accepted and decides the new gate.
\<close>

lemma link_reused_by_newline:
  assumes "Verify sg (ap_signer a) token now = Inr l"
    and "token \<in> set (ap_burned a)" and "token @ [CHR 0x0A] \<notin> set (ap_burned a)"
    and "map_of (ap_pending a) (gateKey (l_run l) (l_step l)) = Some pg"
    and "allowedAction (pg_actions pg) action" and "ch (pg_ui pg) = Free"
  shows "Deliver sg now token action edits a ch = (a, ch, Some ErrApproveUsed) \<and>
    Deliver sg now (token @ [CHR 0x0A]) action edits a ch =
      (a\<lparr>ap_burned := (token @ [CHR 0x0A]) # ap_burned a\<rparr>,
       ch(pg_ui pg := Full (Dec (link_decision action edits))), None)"
proof -
  have k: "ap_signer a \<noteq> None" by (rule Verify_Inr [OF assms(1)]) (auto simp: no_key_def)
  have "splitToken token \<noteq> None" by (rule Verify_Inr [OF assms(1)]) simp
  with assms(1) have "Verify sg (ap_signer a) (token @ [CHR 0x0A]) now = Inr l"
    by (simp add: Verify_newline line_end_def)
  with k assms show ?thesis by (auto simp: Deliver_def send_checked_def SendDecision_def)
qed

definition demo_used :: approver where
  "demo_used = fst (ap_step demo_signing id (demo_gate_op 4)
     ((NewApprover (Some demo_key) [] 0)\<lparr>ap_burned := [demo_token]\<rparr>, \<lambda>_. Free))"

subsection \<open>The page and the service\<close>

lemma page_fold_strings:
  "(\<And>x v. map_of edits x = Some v \<Longrightarrow> \<exists>t. v = JStr t) \<Longrightarrow>
     map_of (foldl (page_edit vals) edits fs) x = Some v \<Longrightarrow> \<exists>t. v = JStr t"
proof (induction fs arbitrary: edits)
  case (Cons f fs)
  have "\<exists>t. w = JStr t" if "map_of (page_edit vals edits f) y = Some w" for y w
    using that Cons.prems(1) by (auto simp: page_edit_def Let_def update_conv' split: if_splits)
  from Cons.IH [OF this] Cons.prems(2) show ?case by simp
qed simp

lemma page_edits_strings: "map_of (page_edits form vals) x = Some v \<Longrightarrow> \<exists>t. v = JStr t"
  using page_fold_strings [of "[]"] by (simp add: page_edits_def)

lemma page_fold_filled:
  "trimSpace (vals x) \<noteq> [] \<Longrightarrow>
     map_of edits x \<noteq> None \<or> (\<exists>f \<in> set fs. ff_editable f \<and> ff_field f = x) \<Longrightarrow>
     map_of (foldl (page_edit vals) edits fs) x \<noteq> None"
  by (induction fs arbitrary: edits) (auto simp: page_edit_def Let_def update_conv')

lemma page_edits_filled:
  "f \<in> set form \<Longrightarrow> ff_editable f \<Longrightarrow> trimSpace (vals (ff_field f)) \<noteq> [] \<Longrightarrow>
     map_of (page_edits form vals) (ff_field f) \<noteq> None"
  unfolding page_edits_def by (rule page_fold_filled) auto

lemma validate_fold_skipped:
  "x \<in> set (snd (foldl (validate_field form ctx edits) acc fs)) \<longleftrightarrow>
     x \<in> set (snd acc) \<or>
     (\<exists>f \<in> set fs. ff_editable f \<and> ff_field f = x \<and>
        (\<exists>v. map_of edits x = Some v \<and> \<not> type_fits f ctx v))"
  by (induction fs arbitrary: acc) (auto simp: validate_field_def split: option.splits)

text \<open>
  The approval page edits nothing but strings. The page sends every value as a string and the
  service compares the kind of the value with the type of the field: an edit of a field of another
  type, of a number or a boolean for which the page draws its own controls, is always skipped, and
  what passes is a string.
\<close>

lemma approve_page_drops_typed_edits:
  assumes "f \<in> set form" and "ff_editable f" and "trimSpace (vals (ff_field f)) \<noteq> []"
    and "expectedType f ctx \<noteq> []" and "expectedType f ctx \<noteq> ''string''"
    and "validateStructuredEdits form ctx (page_edits form vals) = (clean, skipped)"
  shows "ff_field f \<in> set skipped \<and> list_all (\<lambda>x. \<exists>t. map_of clean x = Some (JStr t)) (map fst clean)"
proof -
  from page_edits_filled [of f form vals] assms(1-3) obtain t where t: "map_of (page_edits form vals) (ff_field f) = Some (JStr t)"
    using page_edits_strings by fastforce
  with assms(4,5) have "\<not> type_fits f ctx (JStr t)" by (auto simp: type_fits_def)
  moreover have "page_edits form vals \<noteq> []" using t by auto
  ultimately have "ff_field f \<in> set skipped"
    using assms(1,2,6) t validate_fold_skipped [of "ff_field f" form ctx "page_edits form vals" "([], [])" form]
    by (auto simp: validateStructuredEdits_def)
  moreover have "\<exists>t. map_of clean x = Some (JStr t)" if "x \<in> fst ` set clean" for x
  proof -
    from that obtain v where v: "map_of clean x = Some v" by (metis domIff dom_map_of_conv_image_fst not_None_eq)
    with assms(6) validated_edit [of form ctx "page_edits form vals" x v] obtain y where
      "map_of (page_edits form vals) y = Some v" by auto
    with page_edits_strings v show ?thesis by fastforce
  qed
  ultimately show ?thesis by (auto simp: list_all_iff)
qed

definition score_field :: formField where
  "score_field = \<lparr>ff_field = ''score'', ff_editable = True, ff_type = ''number'', ff_format = []\<rparr>"

end
