(* ===== verification/Go_Net.thy ===== *)
theory Go_Net
  imports Plugin_Contract "HOL-Library.Word"
begin

unbundle bit_operations_syntax

text \<open>
  Package net of the Go library, as far as the sources use it: the classes of addresses, host and
  port of an address, and the integers \<open>fmt.Sscanf\<close> reads.
\<close>

section \<open>net.IP\<close>

text \<open>An address is 4 or 16 bytes, \<open>[]\<close> is nil.\<close>

type_synonym ip = "8 word list"

definition v4_prefix :: ip where
  "v4_prefix = replicate 10 0 @ [0xFF, 0xFF]"

definition To4 :: "ip \<Rightarrow> ip option" where
  "To4 i =
     (if length i = 4 then Some i
      else if length i = 16 \<and> take 12 i = v4_prefix then Some (drop 12 i)
      else None)"

definition IsUnspecified :: "ip \<Rightarrow> bool" where
  "IsUnspecified i \<longleftrightarrow> To4 i = Some [0, 0, 0, 0] \<or> i = replicate 16 0"

definition IsLoopback :: "ip \<Rightarrow> bool" where
  "IsLoopback i \<longleftrightarrow> (case To4 i of Some v \<Rightarrow> v ! 0 = 127 | None \<Rightarrow> i = replicate 15 0 @ [1])"

definition IsPrivate :: "ip \<Rightarrow> bool" where
  "IsPrivate i \<longleftrightarrow>
     (case To4 i of
        Some v \<Rightarrow> v ! 0 = 10 \<or> v ! 0 = 172 \<and> v ! 1 AND 0xF0 = 16 \<or> v ! 0 = 192 \<and> v ! 1 = 168
      | None \<Rightarrow> length i = 16 \<and> i ! 0 AND 0xFE = 0xFC)"

definition IsMulticast :: "ip \<Rightarrow> bool" where
  "IsMulticast i \<longleftrightarrow>
     (case To4 i of Some v \<Rightarrow> v ! 0 AND 0xF0 = 0xE0 | None \<Rightarrow> length i = 16 \<and> i ! 0 = 0xFF)"

definition IsInterfaceLocalMulticast :: "ip \<Rightarrow> bool" where
  "IsInterfaceLocalMulticast i \<longleftrightarrow> length i = 16 \<and> i ! 0 = 0xFF \<and> i ! 1 AND 0x0F = 1"

definition IsLinkLocalMulticast :: "ip \<Rightarrow> bool" where
  "IsLinkLocalMulticast i \<longleftrightarrow>
     (case To4 i of
        Some v \<Rightarrow> v ! 0 = 224 \<and> v ! 1 = 0 \<and> v ! 2 = 0
      | None \<Rightarrow> length i = 16 \<and> i ! 0 = 0xFF \<and> i ! 1 AND 0x0F = 2)"

definition IsLinkLocalUnicast :: "ip \<Rightarrow> bool" where
  "IsLinkLocalUnicast i \<longleftrightarrow>
     (case To4 i of
        Some v \<Rightarrow> v ! 0 = 169 \<and> v ! 1 = 254
      | None \<Rightarrow> length i = 16 \<and> i ! 0 = 0xFE \<and> i ! 1 AND 0xC0 = 0x80)"

section \<open>Host and port\<close>

text \<open>\<open>net.SplitHostPort\<close>; \<open>None\<close> is its error.\<close>

fun split_last :: "char \<Rightarrow> string \<Rightarrow> (string \<times> string) option" where
  "split_last c [] = None"
| "split_last c (x # xs) =
     (case split_last c xs of
        Some (a, b) \<Rightarrow> Some (x # a, b)
      | None \<Rightarrow> if x = c then Some ([], xs) else None)"

definition SplitHostPort :: "string \<Rightarrow> (string \<times> string) option" where
  "SplitHostPort hp =
     (case split_last CHR '':'' hp of
        None \<Rightarrow> None
      | Some (h, p) \<Rightarrow>
          if h \<noteq> [] \<and> hd h = CHR ''['' then
            (let inner = takeWhile (\<lambda>c. c \<noteq> CHR '']'') (tl h) in
             if h = CHR ''['' # inner @ '']'' \<and> CHR ''['' \<notin> set inner \<and>
                CHR ''['' \<notin> set p \<and> CHR '']'' \<notin> set p
             then Some (inner, p) else None)
          else if CHR '':'' \<in> set h \<or> CHR ''['' \<in> set hp \<or> CHR '']'' \<in> set hp then None
          else Some (h, p))"

text \<open>\<open>net.JoinHostPort\<close>: a host with a colon is bracketed.\<close>

definition JoinHostPort :: "string \<Rightarrow> string \<Rightarrow> string" where
  "JoinHostPort host port =
     (if CHR '':'' \<in> set host then ''['' @ host @ '']:'' @ port else host @ '':'' @ port)"

section \<open>fmt.Sscanf with %d\<close>

text \<open>
  Blanks but no newline, a sign, digits; what follows is ignored. \<open>None\<close> without digits and beyond
  64 bits.
\<close>

definition is_digit :: "char \<Rightarrow> bool" where
  "is_digit c \<longleftrightarrow> (of_char c :: nat) \<ge> 48 \<and> (of_char c :: nat) \<le> 57"

definition digits_value :: "string \<Rightarrow> int" where
  "digits_value ds = foldl (\<lambda>n c. n * 10 + (of_char c - 48)) 0 ds"

definition scan_int :: "string \<Rightarrow> int option" where
  "scan_int s =
     (let p = strip_with (filter (\<lambda>b. b \<noteq> [CHR 0x0A]) spaces) s;
          neg = (p \<noteq> [] \<and> hd p = CHR ''-'');
          body = (if p \<noteq> [] \<and> hd p \<in> {CHR ''-'', CHR ''+''} then tl p else p);
          ds = takeWhile is_digit body;
          n = (if neg then - digits_value ds else digits_value ds)
      in if ds = [] \<or> n > 2 ^ 63 - 1 \<or> n < - (2 ^ 63) then None else Some n)"

section \<open>Lemmas\<close>

lemma split_last_None: "split_last c s = None \<longleftrightarrow> c \<notin> set s"
  by (induction s) (auto split: option.split)

lemma split_last_append: "c \<notin> set b \<Longrightarrow> split_last c (a @ c # b) = Some (a, b)"
  by (induction a) (use split_last_None [of c b] in auto)

lemma split_last_Some: "split_last c s = Some (a, b) \<Longrightarrow> s = a @ c # b \<and> c \<notin> set b"
proof (induction s arbitrary: a)
  case (Cons x xs)
  then show ?case by (cases "split_last c xs") (auto simp: split_last_None split: if_splits)
qed simp

lemma SplitHostPort_Some:
  assumes "SplitHostPort hp = Some (h, p)"
  shows "CHR '':'' \<notin> set p" and "{CHR ''['', CHR '']''} \<inter> set h = {}" and "{CHR ''['', CHR '']''} \<inter> set p = {}"
proof -
  from assms obtain g where g: "split_last CHR '':'' hp = Some (g, p)"
    by (auto simp: SplitHostPort_def Let_def split: option.splits prod.splits if_splits)
  note hp = split_last_Some [OF g]
  from hp show "CHR '':'' \<notin> set p" by simp
  have "CHR '']'' \<notin> set (takeWhile (\<lambda>c. c \<noteq> CHR '']'') (tl g))" by (auto dest: set_takeWhileD)
  with assms g hp show "{CHR ''['', CHR '']''} \<inter> set h = {}" "{CHR ''['', CHR '']''} \<inter> set p = {}"
    by (auto simp: SplitHostPort_def Let_def split: if_splits)
qed

text \<open>What was split can be joined and split again.\<close>

lemma Split_Join:
  assumes "CHR '':'' \<notin> set p" and "{CHR ''['', CHR '']''} \<inter> set h = {}" and "{CHR ''['', CHR '']''} \<inter> set p = {}"
  shows "SplitHostPort (JoinHostPort h p) = Some (h, p)"
proof (cases "CHR '':'' \<in> set h")
  case True
  have s: "split_last CHR '':'' (''['' @ h @ '']:'' @ p) = Some (''['' @ h @ '']'', p)"
    using split_last_append [OF assms(1), of "''['' @ h @ '']''"] by simp
  have "takeWhile (\<lambda>c. c \<noteq> CHR '']'') (h @ '']'') = h" using assms(2) by (subst takeWhile_append2) auto
  with True s assms show ?thesis by (auto simp: JoinHostPort_def SplitHostPort_def Let_def)
next
  case False
  then have s: "split_last CHR '':'' (h @ '':'' @ p) = Some (h, p)"
    using split_last_append [OF assms(1), of h] by simp
  have "h = [] \<or> hd h \<noteq> CHR ''[''" using assms(2) by (cases h) auto
  with False s assms show ?thesis by (auto simp: JoinHostPort_def SplitHostPort_def Let_def)
qed

end
