(* ===== verification/Plugin_Egress.thy ===== *)
theory Plugin_Egress
  imports Go_Net
begin

unbundle bit_operations_syntax

text \<open>
  The egress filter of an isolated plugin with network permissions (internal/plugin/egress.go):
  forbidden addresses, declared hosts, the decisions of the proxy on a CONNECT and on a forwarded
  request, and the connections it owns. Name resolution, dialling and the peers are parameters.
\<close>

section \<open>What is forbidden\<close>

definition denyNetwork :: "ip \<Rightarrow> bool" where
  "denyNetwork i =
     (if i = [] then True
      else if IsUnspecified i \<or> IsLoopback i \<or> IsLinkLocalUnicast i \<or> IsLinkLocalMulticast i \<or>
              IsInterfaceLocalMulticast i \<or> IsMulticast i then True
      else if IsPrivate i then True
      else case To4 i of
        Some v \<Rightarrow> v ! 0 = 100 \<and> v ! 1 AND 0xC0 = 64
      | None \<Rightarrow> length i = 16 \<and> i ! 0 AND 0xFE = 0xFC)"

section \<open>What is declared\<close>

definition matchHost :: "string \<Rightarrow> string \<Rightarrow> bool" where
  "matchHost pattern host =
     (if pattern = [] then False
      else if pattern = ''*'' \<or> pattern = host then True
      else if hasPrefix pattern ''*.'' then
        hasSuffix host (drop 1 pattern) \<and> length host > length (drop 1 pattern)
      else False)"

definition hostAllowed :: "networkPermission list \<Rightarrow> string \<Rightarrow> int \<Rightarrow> bool" where
  "hostAllowed allow host port =
     (let h = toLower (trimSuffix host ''.'') in
      list_ex (\<lambda>np. \<not> (np_port np > 0 \<and> np_port np \<noteq> port) \<and>
        (np_anyHost np \<or> matchHost (toLower (np_host np)) h)) allow)"

section \<open>Destinations\<close>

definition scan_port :: "string \<Rightarrow> int" where
  "scan_port p = (case scan_int p of None \<Rightarrow> 0 | Some n \<Rightarrow> n)"

definition splitHostPort :: "string \<Rightarrow> string \<times> int" where
  "splitHostPort hp = (case SplitHostPort hp of None \<Rightarrow> (hp, 0) | Some (h, p) \<Rightarrow> (h, scan_port p))"

definition resolveChecked :: "(string \<Rightarrow> ip list option) \<Rightarrow> string \<Rightarrow> ip option" where
  "resolveChecked lookup host =
     (case lookup host of
        None \<Rightarrow> None
      | Some ips \<Rightarrow> if ips = [] \<or> list_ex denyNetwork ips then None else Some (hd ips))"

section \<open>The proxy\<close>

text \<open>
  The connections \<open>track\<close> keeps, and beside them those the process holds open, by number. What a
  CONNECT needs from outside: resolution, whether the response can be hijacked and the client's
  connection, the upstream connection, whether the client still reads.
\<close>

record egress =
  eg_allow :: "networkPermission list"
  eg_closed :: bool
  eg_conns :: "nat set"
  eg_open :: "nat set"

record net =
  nt_lookup :: "string \<Rightarrow> ip list option"
  nt_hijacker :: bool
  nt_hijack :: "nat option"
  nt_dial :: "ip \<Rightarrow> int \<Rightarrow> nat option"
  nt_write :: bool

definition tlsPorts :: "int set" where "tlsPorts = {443, 8443}"

definition newEgress :: "networkPermission list \<Rightarrow> egress" where
  "newEgress allow = \<lparr>eg_allow = allow, eg_closed = False, eg_conns = {}, eg_open = {}\<rparr>"

definition close_conn :: "nat \<Rightarrow> egress \<Rightarrow> egress" where
  "close_conn c e = e\<lparr>eg_open := eg_open e - {c}\<rparr>"

definition open_conn :: "nat \<Rightarrow> egress \<Rightarrow> egress" where
  "open_conn c e = e\<lparr>eg_open := insert c (eg_open e)\<rparr>"

definition track :: "nat \<Rightarrow> egress \<Rightarrow> egress" where
  "track c e = (if eg_closed e then close_conn c e else e\<lparr>eg_conns := insert c (eg_conns e)\<rparr>)"

definition untrack :: "nat \<Rightarrow> egress \<Rightarrow> egress" where
  "untrack c e = e\<lparr>eg_conns := eg_conns e - {c}\<rparr>"

definition egress_stop :: "egress \<Rightarrow> egress" where
  "egress_stop e =
     (if eg_closed e then e
      else e\<lparr>eg_closed := True, eg_open := eg_open e - eg_conns e\<rparr>)"

datatype connectRes =
    CRefused nat
  | CNoHijack
  | CBadGateway
  | CBroken
  | CTunnel nat nat ip int

text \<open>A tunnel that stands is returned with the state during \<open>relay\<close>; \<open>relay_done\<close> follows it.\<close>

definition handleConnect :: "net \<Rightarrow> string \<Rightarrow> egress \<Rightarrow> connectRes \<times> egress" where
  "handleConnect w rhost e =
     (let (host, port0) = splitHostPort rhost; port = (if port0 = 0 then 443 else port0) in
      if port \<notin> tlsPorts then (CRefused 403, e)
      else if \<not> hostAllowed (eg_allow e) host port then (CRefused 403, e)
      else case resolveChecked (nt_lookup w) host of
        None \<Rightarrow> (CRefused 403, e)
      | Some i \<Rightarrow>
          if \<not> nt_hijacker w then (CRefused 500, e)
          else case nt_hijack w of
            None \<Rightarrow> (CNoHijack, e)
          | Some client \<Rightarrow>
              let e1 = track client (open_conn client e) in
              case nt_dial w i port of
                None \<Rightarrow> (CBadGateway, untrack client (close_conn client e1))
              | Some up \<Rightarrow>
                  let e2 = track up (open_conn up e1) in
                  if \<not> (nt_write w \<and> client \<in> eg_open e2)
                  then (CBroken, untrack client (untrack up (close_conn up e2)))
                  else (CTunnel client up i port, e2))"

definition relay_done :: "nat \<Rightarrow> nat \<Rightarrow> egress \<Rightarrow> egress" where
  "relay_done client up e = untrack client (untrack up e)"

text \<open>A forwarded request: \<open>Inl\<close> the status of a refusal, \<open>Inr\<close> what is sent, and where.\<close>

record fwdReq =
  fr_method :: string
  fr_host :: string
  fr_path :: string
  fr_query :: string
  fr_header :: "(string \<times> string) list"

record outReq =
  or_ip :: ip
  or_port :: int
  or_method :: string
  or_path :: string
  or_query :: string
  or_host :: string
  or_header :: "(string \<times> string) list"

definition handleForward :: "net \<Rightarrow> fwdReq \<Rightarrow> egress \<Rightarrow> nat + outReq" where
  "handleForward w r e =
     (let (host, port0) = splitHostPort (fr_host r); port = (if port0 = 0 then 80 else port0) in
      if \<not> hostAllowed (eg_allow e) host port then Inl 403
      else case resolveChecked (nt_lookup w) host of
        None \<Rightarrow> Inl 403
      | Some i \<Rightarrow> Inr \<lparr>or_ip = i, or_port = port, or_method = fr_method r, or_path = [], or_query = [],
                      or_host = fr_host r, or_header = fr_header r\<rparr>)"

section \<open>Address blocks\<close>

text \<open>CIDR: the first \<open>n\<close> bits of the address are those of the base.\<close>

definition byte_mask :: "nat \<Rightarrow> 8 word" where
  "byte_mask n = NOT (mask (8 - n))"

fun in_block :: "nat \<Rightarrow> ip \<Rightarrow> ip \<Rightarrow> bool" where
  "in_block n [] [] \<longleftrightarrow> True"
| "in_block n (b # bs) (x # xs) \<longleftrightarrow>
     x AND byte_mask (min 8 n) = b AND byte_mask (min 8 n) \<and> in_block (n - 8) bs xs"
| "in_block n _ _ \<longleftrightarrow> False"

definition v4_blocks :: "(ip \<times> nat) list" where
  "v4_blocks =
     [([0, 0, 0, 0], 32), ([10, 0, 0, 0], 8), ([100, 64, 0, 0], 10), ([127, 0, 0, 0], 8),
      ([169, 254, 0, 0], 16), ([172, 16, 0, 0], 12), ([192, 168, 0, 0], 16), ([224, 0, 0, 0], 4)]"

definition v6_blocks :: "(ip \<times> nat) list" where
  "v6_blocks =
     [(replicate 16 0, 128), (replicate 15 0 @ [1], 128), (0xFC # replicate 15 0, 7),
      (0xFE # 0x80 # replicate 14 0, 10), (0xFF # replicate 15 0, 8)]"

definition forbidden :: "ip \<Rightarrow> bool" where
  "forbidden i =
     (case To4 i of
        Some v \<Rightarrow> list_ex (\<lambda>(b, n). in_block n b v) v4_blocks
      | None \<Rightarrow> list_ex (\<lambda>(b, n). in_block n b i) v6_blocks)"

lemma byte_masks:
  "byte_mask 0 = 0" "byte_mask 8 = - 1" "byte_mask 4 = 0xF0" "byte_mask 7 = 0xFE" "byte_mask 2 = 0xC0"
  by (simp_all add: byte_mask_def mask_eq_exp_minus_1)

lemma in_block_0: "in_block 0 bs xs \<longleftrightarrow> length bs = length xs"
  by (induction "0 :: nat" bs xs rule: in_block.induct) (auto simp: byte_masks)

lemma To4_length: "To4 i = Some v \<Longrightarrow> length v = 4"
  by (auto simp: To4_def split: if_splits)

lemma To4_16: "To4 i = Some v \<Longrightarrow> length i = 16 \<Longrightarrow> i ! 0 = 0"
proof -
  assume "To4 i = Some v" and "length i = 16"
  then have "take 12 i = v4_prefix" by (simp add: To4_def split: if_splits)
  then have "take 12 i ! 0 = v4_prefix ! 0" by simp
  then show ?thesis by (simp add: v4_prefix_def numeral_eq_Suc)
qed

lemma v4_bytes:
  assumes "To4 i = Some v"
  obtains a b c d where "v = [a, b, c, d]"
  using To4_length [OF assms] by (auto simp: length_Suc_conv numeral_eq_Suc)

lemma v4_block_bytes:
  "in_block 32 [0, 0, 0, 0] [a, b, c, d] \<longleftrightarrow> a = 0 \<and> b = 0 \<and> c = 0 \<and> d = 0"
  "in_block 8 [k, 0, 0, 0] [a, b, c, d] \<longleftrightarrow> a = k"
  "in_block 10 [100, 64, 0, 0] [a, b, c, d] \<longleftrightarrow> a = 100 \<and> b AND 0xC0 = 64"
  "in_block 16 [k, m, 0, 0] [a, b, c, d] \<longleftrightarrow> a = k \<and> b = m"
  "in_block 12 [172, 16, 0, 0] [a, b, c, d] \<longleftrightarrow> a = 172 \<and> b AND 0xF0 = 16"
  "in_block 4 [224, 0, 0, 0] [a, b, c, d] \<longleftrightarrow> a AND 0xF0 = 0xE0"
  by (simp_all add: byte_masks)

lemma deny_v4:
  assumes "To4 i = Some [a, b, c, d]"
  shows "denyNetwork i \<longleftrightarrow> list_ex (\<lambda>(bs, n). in_block n bs [a, b, c, d]) v4_blocks"
proof -
  have "last v4_prefix \<noteq> 0" and l: "last (replicate 12 (0 :: 8 word)) = 0"
    by (simp_all add: v4_prefix_def)
  then have "replicate 12 0 \<noteq> v4_prefix" by metis
  with assms have "i \<noteq> replicate 16 0" by (auto simp: To4_def)
  moreover have "i \<noteq> []" using assms by (auto simp: To4_def)
  moreover have "\<not> IsInterfaceLocalMulticast i"
    using To4_16 [OF assms] by (auto simp: IsInterfaceLocalMulticast_def)
  ultimately have n: "i = [] \<longleftrightarrow> False" "IsInterfaceLocalMulticast i \<longleftrightarrow> False"
    and u: "IsUnspecified i \<longleftrightarrow> a = 0 \<and> b = 0 \<and> c = 0 \<and> d = 0"
    by (simp_all add: IsUnspecified_def assms)
  have m: "IsLoopback i \<longleftrightarrow> a = 127" "IsLinkLocalUnicast i \<longleftrightarrow> a = 169 \<and> b = 254"
    "IsLinkLocalMulticast i \<longleftrightarrow> a = 224 \<and> b = 0 \<and> c = 0" "IsMulticast i \<longleftrightarrow> a AND 0xF0 = 0xE0"
    "IsPrivate i \<longleftrightarrow> a = 10 \<or> a = 172 \<and> b AND 0xF0 = 16 \<or> a = 192 \<and> b = 168"
    by (simp_all add: IsLoopback_def IsPrivate_def
        IsMulticast_def IsLinkLocalMulticast_def IsLinkLocalUnicast_def assms)
  have "(if P then True else Q) \<longleftrightarrow> P \<or> Q" for P Q by simp
  moreover have "(a = 224 \<and> b = 0 \<and> c = 0) \<or> a AND 0xF0 = 0xE0 \<or> Q \<longleftrightarrow> a AND 0xF0 = 0xE0 \<or> Q" for Q
    by auto
  ultimately have "denyNetwork i \<longleftrightarrow>
      (a = 0 \<and> b = 0 \<and> c = 0 \<and> d = 0) \<or> a = 127 \<or> (a = 169 \<and> b = 254) \<or> a AND 0xF0 = 0xE0 \<or>
      (a = 10 \<or> a = 172 \<and> b AND 0xF0 = 16 \<or> a = 192 \<and> b = 168) \<or> (a = 100 \<and> b AND 0xC0 = 64)"
    by (simp only: denyNetwork_def n u m assms option.case nth_Cons_0 nth_Cons_Suc One_nat_def simp_thms disj_assoc)
  then show ?thesis
    by (simp only: v4_blocks_def list_ex_Nil_iff list_ex_Cons_iff v4_block_bytes case_prod_conv simp_thms disj_ac)
qed

lemma v6_block_bytes:
  assumes "length i = 16"
  shows "in_block 7 (0xFC # replicate 15 0) i \<longleftrightarrow> i ! 0 AND 0xFE = 0xFC"
    and "in_block 10 (0xFE # 0x80 # replicate 14 0) i \<longleftrightarrow> i ! 0 = 0xFE \<and> i ! 1 AND 0xC0 = 0x80"
    and "in_block 8 (0xFF # replicate 15 0) i \<longleftrightarrow> i ! 0 = 0xFF"
proof -
  from assms obtain a b r where i: "i = a # b # r" "length r = 14"
    by (auto simp: length_Suc_conv numeral_eq_Suc)
  then show "in_block 7 (0xFC # replicate 15 0) i \<longleftrightarrow> i ! 0 AND 0xFE = 0xFC"
    "in_block 10 (0xFE # 0x80 # replicate 14 0) i \<longleftrightarrow> i ! 0 = 0xFE \<and> i ! 1 AND 0xC0 = 0x80"
    "in_block 8 (0xFF # replicate 15 0) i \<longleftrightarrow> i ! 0 = 0xFF"
    by (simp_all add: byte_masks in_block_0)
qed

lemma in_block_all: "8 * length bs \<le> n \<Longrightarrow> in_block n bs xs \<longleftrightarrow> xs = bs"
  by (induction n bs xs rule: in_block.induct) (auto simp: byte_masks)

lemma deny_v6:
  assumes "To4 i = None" and "length i = 16"
  shows "denyNetwork i \<longleftrightarrow> list_ex (\<lambda>(bs, n). in_block n bs i) v6_blocks"
proof -
  have "i \<noteq> []" using assms(2) by auto
  then have "denyNetwork i \<longleftrightarrow>
      i = replicate 16 0 \<or> i = replicate 15 0 @ [1] \<or> (i ! 0 = 0xFE \<and> i ! 1 AND 0xC0 = 0x80) \<or>
      (i ! 0 = 0xFF \<and> i ! 1 AND 0x0F = 2) \<or> (i ! 0 = 0xFF \<and> i ! 1 AND 0x0F = 1) \<or> i ! 0 = 0xFF \<or>
      i ! 0 AND 0xFE = 0xFC"
    by (simp add: denyNetwork_def IsUnspecified_def IsLoopback_def IsPrivate_def
        IsMulticast_def IsLinkLocalMulticast_def IsLinkLocalUnicast_def IsInterfaceLocalMulticast_def assms)
  moreover have "in_block 128 bs i \<longleftrightarrow> i = bs" if "length bs = 16" for bs
    by (rule in_block_all) (simp add: that)
  ultimately show ?thesis
    by (simp only: v6_blocks_def list_ex_Nil_iff list_ex_Cons_iff v6_block_bytes [OF assms(2)] case_prod_conv
        length_replicate length_append list.size) auto
qed

lemma deny_iff: "length i \<in> {4, 16} \<Longrightarrow> denyNetwork i \<longleftrightarrow> forbidden i"
proof (cases "To4 i")
  case None
  moreover assume "length i \<in> {4, 16}"
  ultimately have "length i = 16" by (auto simp: To4_def)
  with None deny_v6 show ?thesis by (simp add: forbidden_def)
next
  case (Some v)
  then obtain a b c d where "v = [a, b, c, d]" by (rule v4_bytes)
  with Some deny_v4 show ?thesis by (simp add: forbidden_def)
qed

section \<open>Properties\<close>

text \<open>What a pattern of a permission matches, hosts being in lower case.\<close>

definition host_matches :: "string \<Rightarrow> string \<Rightarrow> bool" where
  "host_matches pat h \<longleftrightarrow> pat \<noteq> [] \<and>
     (pat = ''*'' \<or> h = pat \<or> (\<exists>dom sub. pat = ''*.'' @ dom \<and> sub \<noteq> [] \<and> h = sub @ ''.'' @ dom))"

lemma matchHost_iff: "matchHost pat h \<longleftrightarrow> host_matches pat h"
proof -
  have "hasSuffix h (CHR ''.'' # d) \<and> length h > length (CHR ''.'' # d) \<longleftrightarrow>
      (\<exists>sub. sub \<noteq> [] \<and> h = sub @ ''.'' @ d)" for d
    by (auto simp: hasSuffix_iff)
  note suf = this
  show ?thesis
  proof (cases "\<exists>d. pat = ''*.'' @ d")
    case True
    then obtain d where "pat = ''*.'' @ d" ..
    with suf [of d] show ?thesis by (auto simp: matchHost_def host_matches_def hasPrefix_def)
  next
    case False
    then show ?thesis by (auto simp: matchHost_def host_matches_def hasPrefix_iff)
  qed
qed

lemma hostAllowed_iff:
  "hostAllowed allow host port \<longleftrightarrow>
     (\<exists>np \<in> set allow. (np_port np > 0 \<longrightarrow> np_port np = port) \<and>
        (np_anyHost np \<or> host_matches (toLower (np_host np)) (toLower (trimSuffix host ''.''))))"
  by (auto simp: hostAllowed_def list_ex_iff matchHost_iff)

lemma resolveChecked_Some:
  assumes "resolveChecked lookup host = Some i"
  obtains rest where "lookup host = Some (i # rest)" "\<forall>a \<in> set (i # rest). \<not> denyNetwork a"
proof -
  from assms obtain ips where "lookup host = Some ips" "ips \<noteq> []" "\<not> list_ex denyNetwork ips" "i = hd ips"
    by (auto simp: resolveChecked_def split: option.splits if_splits)
  then show thesis by (intro that [of "tl ips"]) (auto simp: list_ex_iff)
qed

text \<open>
  C25. An isolated plugin reaches declared hosts only. A tunnel the proxy opens leads to a TLS port
  and to an address the name resolved to, none of whose addresses is in a private, loopback,
  link-local, shared or multicast block, and the host and port match a declared permission; what
  it forwards goes to such an address and host too.
\<close>

theorem egress_confined:
  assumes "list_all (\<lambda>a. length a \<in> {4, 16}) (case nt_lookup w host of Some ips \<Rightarrow> ips | None \<Rightarrow> [])"
    and "host = fst (splitHostPort rhost)"
    and "handleConnect w rhost e = (CTunnel client up i port, e') \<or>
         (\<exists>out. handleForward w r e = Inr out \<and> fr_host r = rhost \<and> i = or_ip out \<and> port = or_port out)"
  shows "(\<exists>ips. nt_lookup w host = Some ips \<and> i \<in> set ips \<and> list_all (\<lambda>a. \<not> forbidden a) ips) \<and>
    (\<exists>np \<in> set (eg_allow e). (np_port np \<le> 0 \<or> np_port np = port) \<and>
       (np_anyHost np \<or> host_matches (toLower (np_host np)) (toLower (trimSuffix host ''.'')))) \<and>
    (handleConnect w rhost e = (CTunnel client up i port, e') \<longrightarrow> port \<in> {443, 8443})"
proof -
  have f: "resolveChecked (nt_lookup w) host = Some i \<and> hostAllowed (eg_allow e) host port"
    using assms(2,3)
    by (auto simp: handleConnect_def handleForward_def Let_def split: prod.splits if_splits option.splits)
  then obtain rest where ips: "nt_lookup w host = Some (i # rest)" "\<forall>a \<in> set (i # rest). \<not> denyNetwork a"
    by (auto elim: resolveChecked_Some)
  moreover from ips assms(1) deny_iff have "list_all (\<lambda>a. \<not> forbidden a) (i # rest)"
    by (auto simp: list_all_iff)
  moreover have "handleConnect w rhost e = (CTunnel client up i port, e') \<Longrightarrow> port \<in> {443, 8443}"
    by (auto simp: handleConnect_def tlsPorts_def Let_def split: prod.splits if_splits option.splits)
  moreover have "\<exists>np \<in> set (eg_allow e). (np_port np \<le> 0 \<or> np_port np = port) \<and>
       (np_anyHost np \<or> host_matches (toLower (np_host np)) (toLower (trimSuffix host ''.'')))"
    using f unfolding hostAllowed_iff by force
  ultimately show ?thesis by (metis list.set_intros(1))
qed

definition demo_net :: net where
  "demo_net = \<lparr>nt_lookup = (\<lambda>h. Some [[93, 184, 216, 34]]), nt_hijacker = True, nt_hijack = Some 1,
     nt_dial = (\<lambda>i p. Some 2), nt_write = True\<rparr>"

definition demo_egress :: egress where
  "demo_egress = newEgress [\<lparr>np_host = ''*.b'', np_port = 443, np_anyHost = False\<rparr>]"

lemma demo_tunnel:
  "handleConnect demo_net ''a.b:443'' demo_egress =
     (CTunnel 1 2 [93, 184, 216, 34] 443, demo_egress\<lparr>eg_conns := {1, 2}, eg_open := {1, 2}\<rparr>)"
proof -
  have "splitHostPort ''a.b:443'' = (''a.b'', 443)" by code_simp
  moreover have "hostAllowed [\<lparr>np_host = ''*.b'', np_port = 443, np_anyHost = False\<rparr>] ''a.b'' 443" by code_simp
  moreover have "\<not> denyNetwork [93, 184, 216, 34]" by code_simp
  ultimately show ?thesis
    by (simp add: handleConnect_def demo_net_def demo_egress_def newEgress_def tlsPorts_def
        resolveChecked_def track_def open_conn_def insert_commute)
qed

lemma egress_confined_witness: "host_matches ''*.b'' ''a.b'' \<and> \<not> forbidden [93, 184, 216, 34]"
proof -
  have "fst (splitHostPort ''a.b:443'') = ''a.b''" "toLower (trimSuffix ''a.b'' ''.'') = ''a.b''"
    "toLower ''*.b'' = ''*.b''" by code_simp+
  note h = this
  have "list_all (\<lambda>a. length a \<in> {4, 16}) (case nt_lookup demo_net ''a.b'' of Some ips \<Rightarrow> ips | None \<Rightarrow> [])"
    by (simp add: demo_net_def)
  from egress_confined [OF this h(1) [symmetric] disjI1 [OF demo_tunnel]] show ?thesis
    by (simp add: h demo_net_def demo_egress_def newEgress_def)
qed

text \<open>
  A finished tunnel outlives the proxy. While a tunnel is relayed both its connections are
  tracked and stopping the proxy closes them; but the handler forgets them when the relay returns,
  which it does without closing either, so that afterwards stopping the proxy leaves both open.
\<close>

lemma finished_tunnel_stays_open:
  assumes "handleConnect w rhost e = (CTunnel client up i port, e')"
  shows "{client, up} \<subseteq> eg_conns e' \<and> {client, up} \<inter> eg_open (egress_stop e') = {} \<and>
    {client, up} \<subseteq> eg_open (egress_stop (relay_done client up e'))"
proof -
  have e: "client \<in> eg_open e'" "e' = track up (open_conn up (track client (open_conn client e)))"
    using assms by (simp_all add: handleConnect_def Let_def split: prod.splits if_splits option.splits)
  then have "\<not> eg_closed e" by (auto simp: track_def open_conn_def close_conn_def split: if_splits)
  with e show ?thesis
    by (auto simp: track_def open_conn_def egress_stop_def relay_done_def untrack_def split: if_splits)
qed

text \<open>The path and the query of a forwarded request are lost.\<close>

lemma forward_ignores_path:
  "handleForward w (r\<lparr>fr_path := p, fr_query := q\<rparr>) e = handleForward w r e"
  by (simp add: handleForward_def cong: option.case_cong prod.case_cong if_cong)

text \<open>A pattern with a leading dot matches no host but itself.\<close>

lemma leading_dot_inert: "host_matches (CHR ''.'' # d) h \<Longrightarrow> h = CHR ''.'' # d"
  by (auto simp: host_matches_def)

end
