(* ===== verification/Planner.thy ===== *)
theory Planner
  imports Validator Run_Pipeline Exec_Graph Cycle_Check
begin

text \<open>
  The plan shown before a run (internal/pipeline/planner.go): the verdict of the validator and a
  graph of steps with their phases and their dependencies. The bindings of a step are a list here;
  the code walks them as a map, in any order.
\<close>

record dagNode =
  dn_id :: string
  dn_plugin :: string
  dn_phase :: string
  dn_bind :: "(string \<times> string) list"
  dn_afterForeach :: bool
  dn_when :: string
  dn_foreach :: string
  dn_group :: string

record dagEdge =
  de_from :: string
  de_to :: string
  de_via :: string

record plan =
  pn_steps :: "step list"
  pn_warnings :: "issue list"
  pn_errors :: "issue list"
  pn_nodes :: "dagNode list"
  pn_edges :: "dagEdge list"

text \<open>\<open>When.String\<close>; the format \<open>%v\<close> of a value is the parameter \<open>sh\<close>.\<close>

definition When_String :: "(json \<Rightarrow> string) \<Rightarrow> whenCond \<Rightarrow> string" where
  "When_String sh w =
     (if w_op w \<in> {''truthy'', ''exists'', ''missing''} then w_path w @ '' ('' @ w_op w @ '')''
      else w_path w @ '' '' @ w_op w @ '' '' @ sh (w_value w))"

text \<open>The steps up to the source of the foreach; all of them when there is no such step.\<close>

fun ids_upto :: "string \<Rightarrow> step list \<Rightarrow> string list" where
  "ids_upto i [] = []"
| "ids_upto i (st # sts) = (if st_id st = i then [st_id st] else st_id st # ids_upto i sts)"

definition preSteps :: "pipeline \<Rightarrow> string list" where
  "preSteps p =
     (if p_foreach p \<noteq> [] \<and> hasPrefix (p_foreach p) ''steps.'' then
        (let parts = split_dot (p_foreach p) in
         if length parts \<ge> 2 then ids_upto (parts ! 1) (p_steps p) else [])
      else [])"

definition plan_phase :: "string list \<Rightarrow> step \<Rightarrow> string" where
  "plan_phase pre st =
     (if st_parallelGroup st \<noteq> [] then ''parallel''
      else if st_afterForeach st then ''post''
      else if st_id st \<in> set pre then ''pre''
      else ''foreach'')"

definition plan_node :: "(json \<Rightarrow> string) \<Rightarrow> string list \<Rightarrow> step \<Rightarrow> dagNode" where
  "plan_node sh pre st =
     \<lparr>dn_id = st_id st, dn_plugin = st_plugin st, dn_phase = plan_phase pre st, dn_bind = st_bind st,
      dn_afterForeach = st_afterForeach st,
      dn_when = (if IsSet (st_when st) then When_String sh (st_when st) else []),
      dn_foreach = st_foreach st, dn_group = st_parallelGroup st\<rparr>"

definition edge_from :: "(string \<Rightarrow> string option) \<Rightarrow> step \<Rightarrow> string \<Rightarrow> dagEdge option" where
  "edge_from dep st path = map_option (\<lambda>d. \<lparr>de_from = d, de_to = st_id st, de_via = path\<rparr>) (dep path)"

text \<open>In paths of a condition and of a foreach the suffix \<open>_all\<close> is kept.\<close>

definition plan_edges :: "step \<Rightarrow> dagEdge list" where
  "plan_edges st =
     List.map_filter (edge_from dep_of st) (map snd (st_bind st)) @
     List.map_filter (edge_from bind_dep st) [w_path (st_when st), st_foreach st] @
     List.map_filter (edge_from dep_of st) (map ff_field (st_form st))"

definition PlanPipeline :: "(json \<Rightarrow> string) \<Rightarrow> vworld \<Rightarrow> pipelineFile \<Rightarrow> plan" where
  "PlanPipeline sh vw pf =
     (let p = pf_pipeline pf; (errs, warns) = Validate vw pf in
      \<lparr>pn_steps = p_steps p, pn_warnings = warns, pn_errors = errs,
       pn_nodes = map (plan_node sh (preSteps p)) (p_steps p),
       pn_edges = concat (map plan_edges (p_steps p))\<rparr>)"

section \<open>Lemmas\<close>

lemma ids_upto_index: "index_of_step i sts = Some n \<Longrightarrow> ids_upto i sts = map st_id (take (n + 1) sts)"
  by (induction sts arbitrary: n) (auto split: if_splits)

lemma map_filter_in: "y \<in> set (List.map_filter f xs) \<longleftrightarrow> (\<exists>x \<in> set xs. f x = Some y)"
  by (induction xs) (auto simp: map_filter_simps split: option.split)

lemma edge_from_Some: "edge_from dep st path = Some e \<longleftrightarrow>
    dep path = Some (de_from e) \<and> de_to e = st_id st \<and> de_via e = path"
  by (cases e) (auto simp: edge_from_def)

text \<open>The phases of the executor and those of the plan.\<close>

lemma phases_plan:
  assumes "phases p = Inr (pre, loop, post)" and "distinct (map st_id (p_steps p))"
    and "\<forall>st \<in> set pre. \<not> st_afterForeach st" and "st \<in> set (p_steps p)" and "st_parallelGroup st = []"
  shows "plan_phase (preSteps p) st =
    (if st \<in> set post then ''post'' else if st \<in> set loop then ''foreach'' else ''pre'')"
proof (cases "p_foreach p = [] \<or> hasPrefix (p_foreach p) ''input.''")
  case True
  then have "\<not> hasPrefix (p_foreach p) ''steps.''" by (auto simp: hasPrefix_def)
  with True assms show ?thesis by (auto simp: phases_def preSteps_def plan_phase_def Let_def)
next
  case False
  with assms(1) obtain n where n: "hasPrefix (p_foreach p) ''steps.''" "3 \<le> length (split_dot (p_foreach p))"
    "index_of_step (split_dot (p_foreach p) ! 1) (p_steps p) = Some n" "pre = take (n + 1) (p_steps p)"
    "loop = filter (\<lambda>st. \<not> st_afterForeach st) (drop (n + 1) (p_steps p))"
    "post = filter st_afterForeach (drop (n + 1) (p_steps p))"
    by (auto simp: phases_def Let_def split: if_splits option.splits)
  with False have ids: "preSteps p = map st_id pre"
    by (simp add: preSteps_def ids_upto_index Let_def)
  have ps: "p_steps p = pre @ drop (n + 1) (p_steps p)" using n(4) by (metis append_take_drop_id)
  with assms(2) have "distinct (map st_id pre @ map st_id (drop (n + 1) (p_steps p)))" by (metis map_append)
  moreover have "st \<in> set pre \<or> st \<in> set (drop (n + 1) (p_steps p))"
    using ps assms(4) by (metis Un_iff set_append)
  ultimately show ?thesis using n(5,6) assms(3,5) ids by (auto simp: plan_phase_def image_iff)
qed


definition plan_steps :: "step list" where
  "plan_steps =
     [zero_step\<lparr>st_id := ''a''\<rparr>, zero_step\<lparr>st_id := ''b'', st_bind := [(''x'', ''steps.a.v'')]\<rparr>,
      zero_step\<lparr>st_id := ''c'', st_afterForeach := True, st_bind := [(''x'', ''steps.b_all.v'')]\<rparr>]"

definition plan_pf :: pipelineFile where
  "plan_pf = \<lparr>pf_formatVersion = ''1'',
     pf_pipeline = zero_pipeline\<lparr>p_foreach := ''steps.a.items'', p_steps := plan_steps\<rparr>\<rparr>"


end
