(* ===== verification/Api_Listen.thy ===== *)
theory Api_Listen
  imports Go_Net
begin

text \<open>
  What the HTTP server answers to (internal/api/listen.go): the flags of the command line, the
  policy computed from them, and the hosts and origins the policy trusts. \<open>net/url\<close> is a parameter.
\<close>

section \<open>Hosts\<close>

definition bracket :: "char \<Rightarrow> bool" where
  "bracket c \<longleftrightarrow> c = CHR ''['' \<or> c = CHR '']''"

text \<open>\<open>strings.Trim(s, "[]")\<close>.\<close>

definition trimBrackets :: "string \<Rightarrow> string" where
  "trimBrackets s = rev (dropWhile bracket (rev (dropWhile bracket s)))"

definition parse_ip :: "string \<Rightarrow> ip option" where
  "parse_ip s = map_option (map word_of_nat) (ParseIP s)"

definition isLoopbackHost :: "string \<Rightarrow> bool" where
  "isLoopbackHost host =
     (let h = toLower (trimSpace (trimBrackets host)) in
      if h = [] then False
      else if h = ''localhost'' then True
      else case parse_ip h of None \<Rightarrow> False | Some i \<Rightarrow> IsLoopback i)"

definition isWildcardHost :: "string \<Rightarrow> bool" where
  "isWildcardHost host =
     (let h = trimSpace (trimBrackets host) in
      if h = [] then True else case parse_ip h of None \<Rightarrow> False | Some i \<Rightarrow> IsUnspecified i)"

definition isConcreteHost :: "string \<Rightarrow> bool" where
  "isConcreteHost host =
     (let h = trimSpace (trimBrackets host) in
      if h = [] then False else case parse_ip h of None \<Rightarrow> True | Some i \<Rightarrow> \<not> IsUnspecified i)"

definition isDigits :: "string \<Rightarrow> bool" where
  "isDigits s \<longleftrightarrow> s \<noteq> [] \<and> list_all is_digit s"

definition portForScheme :: "string \<Rightarrow> string" where
  "portForScheme scheme = (if toLower scheme = ''https'' then ''443'' else ''80'')"

text \<open>Always with a port; empty when it is no host.\<close>

definition normalizeHostPort :: "string \<Rightarrow> string \<Rightarrow> string" where
  "normalizeHostPort raw0 scheme =
     (let raw = trimSpace raw0 in
      if raw = [] \<or> containsAny raw (''/?#@ '' @ [CHR 0x5C, CHR 0x09, CHR 0x0D, CHR 0x0A]) then []
      else
        let (host0, port0) = (case SplitHostPort raw of Some hp \<Rightarrow> hp | None \<Rightarrow> (trimBrackets raw, []));
            host = toLower (trimSpace host0);
            port = (if port0 = [] then portForScheme scheme else port0)
        in if host = [] then [] else if \<not> isDigits port then [] else JoinHostPort host port)"

definition forwardedFirst :: "string \<Rightarrow> string" where
  "forwardedFirst v = trimSpace (hd (split_on CHR '','' v))"

section \<open>The flags\<close>

record listenOptions =
  lo_addr :: string
  lo_resolvedPort :: string
  lo_allowRemote :: bool
  lo_noSession :: bool
  lo_publicHosts :: "string list"
  lo_trustedProxy :: bool
  lo_scheme :: string
  lo_ttl :: int

datatype listenErr = ListenEmpty | ListenFormat | ListenPort | BadScheme | BadPublicHost string
  | RemoteNotAllowed | RemoteNoSession | WildcardNoHost | PublicHostLocal | BadResolvedPort

definition externalScheme :: "listenOptions \<Rightarrow> listenErr + string" where
  "externalScheme lo =
     (let s = toLower (trimSpace (lo_scheme lo)) in
      if s = [] then Inr (if lo_trustedProxy lo then ''https'' else ''http'')
      else if s = ''http'' \<or> s = ''https'' then Inr s
      else Inl BadScheme)"

definition splitListenAddr :: "string \<Rightarrow> listenErr + (string \<times> string)" where
  "splitListenAddr addr0 =
     (let addr = trimSpace addr0 in
      if addr = [] then Inl ListenEmpty
      else case SplitHostPort addr of
        None \<Rightarrow> Inl ListenFormat
      | Some (h, p) \<Rightarrow>
          (case scan_int p of
             None \<Rightarrow> Inl ListenPort
           | Some n \<Rightarrow> if n < 0 \<or> n > 65535 then Inl ListenPort else Inr (h, p)))"

definition ValidateListen :: "listenOptions \<Rightarrow> listenErr option" where
  "ValidateListen lo =
     (case splitListenAddr (lo_addr lo) of
        Inl e \<Rightarrow> Some e
      | Inr (host, _) \<Rightarrow>
         (case externalScheme lo of
            Inl e \<Rightarrow> Some e
          | Inr scheme \<Rightarrow>
             (case find (\<lambda>h. normalizeHostPort h scheme = []) (lo_publicHosts lo) of
                Some h \<Rightarrow> Some (BadPublicHost h)
              | None \<Rightarrow>
                  if \<not> isLoopbackHost host \<and> \<not> lo_allowRemote lo then Some RemoteNotAllowed
                  else if \<not> isLoopbackHost host \<and> lo_noSession lo then Some RemoteNoSession
                  else if \<not> isLoopbackHost host \<and> isWildcardHost host \<and> lo_publicHosts lo = [] then Some WildcardNoHost
                  else if lo_publicHosts lo \<noteq> [] \<and> \<not> lo_allowRemote lo then Some PublicHostLocal
                  else None)))"

section \<open>The policy\<close>

record listenPolicy =
  lp_addr :: string
  lp_port :: string
  lp_hosts :: "string list"
  lp_scheme :: string
  lp_proxied :: bool
  lp_ttl :: int
  lp_remote :: bool

definition defaultSessionTTL :: int where "defaultSessionTTL = 12 * 3600 * 1000000000"

definition NewListenPolicy :: "listenOptions \<Rightarrow> listenErr + listenPolicy" where
  "NewListenPolicy lo =
     (case ValidateListen lo of
        Some e \<Rightarrow> Inl e
      | None \<Rightarrow>
         (case (externalScheme lo, splitListenAddr (lo_addr lo)) of
            (Inr scheme, Inr (host, port0)) \<Rightarrow>
              let rp = trimSpace (lo_resolvedPort lo) in
              if rp \<noteq> [] \<and> \<not> isDigits rp then Inl BadResolvedPort
              else
                let port = (if rp \<noteq> [] then rp else port0) in
                Inr \<lparr>lp_addr = lo_addr lo, lp_port = port,
                     lp_hosts = (if isConcreteHost host then [JoinHostPort (toLower host) port] else []) @
                       filter (\<lambda>v. v \<noteq> []) (map (\<lambda>h. normalizeHostPort h scheme) (lo_publicHosts lo)),
                     lp_scheme = scheme, lp_proxied = lo_trustedProxy lo,
                     lp_ttl = (if lo_ttl lo \<le> 0 then defaultSessionTTL else lo_ttl lo),
                     lp_remote = lo_allowRemote lo\<rparr>
          | _ \<Rightarrow> Inl BadScheme))"

definition sessionCookiePrefix :: string where "sessionCookiePrefix = ''fidespipe_session''"

definition cookieName :: "listenPolicy \<Rightarrow> string" where
  "cookieName p =
     (if lp_port p = [] \<or> lp_port p = ''0'' then sessionCookiePrefix
      else sessionCookiePrefix @ ''_'' @ lp_port p)"

text \<open>The header \<open>X-Forwarded-Proto\<close> is \<open>proto\<close>.\<close>

definition SecureCookie :: "listenPolicy \<Rightarrow> string \<Rightarrow> bool" where
  "SecureCookie p proto =
     (if lp_scheme p = ''https'' then True
      else if \<not> lp_proxied p then False
      else toLower (forwardedFirst proto) = ''https'')"

definition policy_hostAllowed :: "listenPolicy \<Rightarrow> string \<Rightarrow> bool" where
  "policy_hostAllowed p raw =
     (let h = normalizeHostPort raw (lp_scheme p) in
      if h = [] then False
      else if h \<in> set (lp_hosts p) then True
      else isLoopbackHost (case SplitHostPort h of Some (host, _) \<Rightarrow> host | None \<Rightarrow> h))"

record urlParts =
  ur_scheme :: string
  ur_user :: bool
  ur_host :: string

definition originAllowed :: "(string \<Rightarrow> urlParts option) \<Rightarrow> listenPolicy \<Rightarrow> string \<Rightarrow> bool" where
  "originAllowed parse p raw =
     (case parse (trimSpace raw) of
        None \<Rightarrow> False
      | Some u \<Rightarrow>
          \<not> ur_user u \<and> ur_host u \<noteq> [] \<and> toLower (ur_scheme u) = toLower (lp_scheme p) \<and>
          \<not> containsAny (ur_host u) ('' '' @ [CHR 0x09, CHR 0x0D, CHR 0x0A]) \<and>
          policy_hostAllowed p (ur_host u))"

definition LinkScheme :: "listenOptions \<Rightarrow> string" where
  "LinkScheme lo = (case externalScheme lo of Inl _ \<Rightarrow> ''http'' | Inr s \<Rightarrow> s)"

section \<open>Lemmas\<close>

definition no_letters :: "string \<Rightarrow> bool" where
  "no_letters p \<longleftrightarrow> list_all (\<lambda>c. \<not> (65 \<le> (of_char c :: nat) \<and> (of_char c :: nat) \<le> 90) \<and>
     \<not> (97 \<le> (of_char c :: nat) \<and> (of_char c :: nat) \<le> 122)) p"

lemma lower_fixed: "no_letters [d] \<Longrightarrow> lower_char c = d \<longleftrightarrow> c = d"
proof
  assume d: "no_letters [d]" and l: "lower_char c = d"
  show "c = d"
  proof (cases "65 \<le> (of_char c :: nat) \<and> (of_char c :: nat) \<le> 90")
    case True
    then have "(of_char d :: nat) = of_char c + 32"
      using l by (auto simp: lower_char_def)
    with True d show ?thesis by (simp add: no_letters_def)
  next
    case False
    then have "lower_char c = c" by (auto simp: lower_char_def)
    with l show ?thesis by simp
  qed
next
  assume d: "no_letters [d]" and "c = d"
  then show "lower_char c = d" by (auto simp: lower_char_def no_letters_def)
qed

lemma map_lower_fixed: "no_letters p \<Longrightarrow> map lower_char t = p \<longleftrightarrow> t = p"
proof (induction p arbitrary: t)
  case (Cons d p)
  then show ?case using lower_fixed [of d] by (cases t) (auto simp: no_letters_def)
qed simp

lemma hasPrefix_lower: "no_letters p \<Longrightarrow> hasPrefix (toLower s) p \<longleftrightarrow> hasPrefix s p"
  by (simp add: hasPrefix_def toLower_def take_map map_lower_fixed)

lemma strip_lower: "list_all no_letters ps \<Longrightarrow> strip_with ps (toLower s) = toLower (strip_with ps s)"
proof (induction ps s rule: strip_with.induct)
  case (2 ps x xs)
  have "find (\<lambda>p. p \<noteq> [] \<and> hasPrefix (toLower (x # xs)) p) ps = find (\<lambda>p. p \<noteq> [] \<and> hasPrefix (x # xs) p) ps"
    using 2(2) hasPrefix_lower by (intro find_cong) (auto simp: list_all_iff)
  with 2 show ?case by (auto simp: toLower_def drop_map split: option.split)
qed (simp add: toLower_def)

lemma spaces_no_letters: "list_all no_letters spaces" "list_all no_letters (map rev spaces)"
  by code_simp+

lemma toLower_rev: "rev (toLower s) = toLower (rev s)"
  by (simp add: toLower_def rev_map)

lemma trimSpace_lower: "trimSpace (toLower s) = toLower (trimSpace s)"
  by (simp add: trimSpace_def strip_lower spaces_no_letters toLower_rev)

lemma bracket_lower: "bracket (lower_char c) = bracket c"
  using lower_fixed [of "CHR ''[''" c] lower_fixed [of "CHR '']''" c] by (simp add: bracket_def no_letters_def)

lemma trimBrackets_lower: "trimBrackets (toLower s) = toLower (trimBrackets s)"
  by (simp add: trimBrackets_def toLower_def rev_map dropWhile_map comp_def bracket_lower)

lemma lower_idem: "lower_char (lower_char c) = lower_char c"
  by (simp add: lower_char_def)

lemma isLoopbackHost_lower: "isLoopbackHost (toLower s) = isLoopbackHost s"
  by (simp add: isLoopbackHost_def trimBrackets_lower trimSpace_lower) (simp add: toLower_def comp_def lower_idem)

lemma lower_set: "no_letters [d] \<Longrightarrow> d \<in> set (toLower s) \<longleftrightarrow> d \<in> set s"
  by (induction s) (simp_all add: toLower_def lower_fixed eq_commute [of d])

lemma digits_no_sep: "isDigits p \<Longrightarrow> CHR '':'' \<notin> set p \<and> {CHR ''['', CHR '']''} \<inter> set p = {}"
  by (auto simp: isDigits_def list_all_iff is_digit_def)

section \<open>Properties\<close>

text \<open>The host name in a normalised host.\<close>

definition hostname :: "string \<Rightarrow> string" where
  "hostname h = (case SplitHostPort h of Some (host, _) \<Rightarrow> host | None \<Rightarrow> h)"

text \<open>
  A server that was not opened is local. Under a policy that was accepted, a request is answered
  only under a loopback name, or, when remote access was allowed, under a declared public host or
  the address listened on; a server on another address than loopback has remote access allowed and
  the session not switched off, and on all interfaces it has a public host.
\<close>

lemma local_server_stays_local:
  assumes "NewListenPolicy lo = Inr p" and "policy_hostAllowed p raw"
    and "splitListenAddr (lo_addr lo) = Inr (host, port)"
  shows "(isLoopbackHost (hostname (normalizeHostPort raw (lp_scheme p))) \<or>
      lo_allowRemote lo \<and> normalizeHostPort raw (lp_scheme p) \<in>
        insert (JoinHostPort (toLower host) (lp_port p))
          ((\<lambda>h. normalizeHostPort h (lp_scheme p)) ` set (lo_publicHosts lo))) \<and>
    (isLoopbackHost host \<or> lo_allowRemote lo \<and> \<not> lo_noSession lo \<and>
      (isWildcardHost host \<longrightarrow> lo_publicHosts lo \<noteq> []))"
proof -
  let ?h = "normalizeHostPort raw (lp_scheme p)"
  from assms(1) have v: "ValidateListen lo = None" by (simp add: NewListenPolicy_def split: option.splits)
  with assms(3) have c: "isLoopbackHost host \<or> lo_allowRemote lo \<and> \<not> lo_noSession lo \<and>
      (isWildcardHost host \<longrightarrow> lo_publicHosts lo \<noteq> [])"
    and pub: "lo_publicHosts lo = [] \<or> lo_allowRemote lo"
    by (auto simp: ValidateListen_def split: sum.splits option.splits if_splits)
  have pol: "set (lp_hosts p) \<subseteq> insert (JoinHostPort (toLower host) (lp_port p))
      ((\<lambda>h. normalizeHostPort h (lp_scheme p)) ` set (lo_publicHosts lo))"
    and port: "lp_port p = port \<or> isDigits (lp_port p)"
    using assms(1,3) v by (auto simp: NewListenPolicy_def Let_def split: sum.splits if_splits)
  have own: "isLoopbackHost (hostname (JoinHostPort (toLower host) (lp_port p)))" if "isLoopbackHost host"
  proof -
    from assms(3) have s: "SplitHostPort (trimSpace (lo_addr lo)) = Some (host, port)"
      by (auto simp: splitListenAddr_def Let_def split: if_splits option.splits)
    note sep = SplitHostPort_Some [OF s]
    have "SplitHostPort (JoinHostPort (toLower host) (lp_port p)) = Some (toLower host, lp_port p)"
    proof (rule Split_Join)
      show "CHR '':'' \<notin> set (lp_port p)" "{CHR ''['', CHR '']''} \<inter> set (lp_port p) = {}"
        using port sep(1,3) digits_no_sep [of "lp_port p"] by (elim disjE; simp)+
      show "{CHR ''['', CHR '']''} \<inter> set (toLower host) = {}"
        using sep(2) lower_set [of "CHR ''[''" host] lower_set [of "CHR '']''" host] by (simp add: no_letters_def)
    qed
    with that show ?thesis by (simp add: hostname_def isLoopbackHost_lower)
  qed
  from assms(2) consider "?h \<in> set (lp_hosts p)" | "isLoopbackHost (hostname ?h)"
    by (auto simp: policy_hostAllowed_def hostname_def Let_def split: if_splits)
  then show ?thesis
  proof cases
    case 1
    with pol have h: "?h \<in> insert (JoinHostPort (toLower host) (lp_port p))
        ((\<lambda>h. normalizeHostPort h (lp_scheme p)) ` set (lo_publicHosts lo))" by blast
    show ?thesis
    proof (cases "lo_allowRemote lo")
      case True
      with h c show ?thesis by blast
    next
      case False
      with pub h have "?h = JoinHostPort (toLower host) (lp_port p)" by simp
      with own c False show ?thesis by (simp only: simp_thms)
    qed
  next
    case 2
    with c show ?thesis by blast
  qed
qed

text \<open>All interfaces, behind a proxy, with one public name.\<close>

definition gui_options :: listenOptions where
  "gui_options = \<lparr>lo_addr = ''0.0.0.0:8080'', lo_resolvedPort = [], lo_allowRemote = True, lo_noSession = False,
     lo_publicHosts = [''gui.example''], lo_trustedProxy = True, lo_scheme = [], lo_ttl = 0\<rparr>"

definition gui_policy :: listenPolicy where
  "gui_policy = \<lparr>lp_addr = ''0.0.0.0:8080'', lp_port = ''8080'', lp_hosts = [''gui.example:443''],
     lp_scheme = ''https'', lp_proxied = True, lp_ttl = 12 * 3600 * 1000000000, lp_remote = True\<rparr>"

lemma gui_example:
  "NewListenPolicy gui_options = Inr gui_policy" "policy_hostAllowed gui_policy ''GUI.example''"
  "splitListenAddr (lo_addr gui_options) = Inr (''0.0.0.0'', ''8080'')"
  "\<not> policy_hostAllowed gui_policy ''evil.example''" "policy_hostAllowed gui_policy ''[::1]:99''"
  by code_simp+

end
