(* ===== verification/Api_Session.thy ===== *)
theory Api_Session
  imports Api_Listen Plugin_Exec
begin

text \<open>
  The session of a person (internal/api/session.go) and the guard in front of every request
  (internal/api/server.go \<open>Routes\<close>, \<open>csrfGuard\<close>). A lock makes each operation on the session state
  atomic; the random source is a parameter of the operation that reads it.
\<close>

section \<open>State\<close>

record sessionEntry =
  se_token :: string
  se_created :: int
  se_expires :: int

record sess =
  ss_code :: string
  ss_used :: bool
  ss_codeExpires :: int
  ss_failures :: nat
  ss_blocked :: int
  ss_sessions :: "(string \<times> sessionEntry) list"

definition pairingCodeTTL :: int where "pairingCodeTTL = 600 * 1000000000"
definition pairingLockout :: int where "pairingLockout = 60 * 1000000000"
definition maxSessions :: nat where "maxSessions = 8"
definition maxPairingFailures :: nat where "maxPairingFailures = 5"

definition no_session :: sess where
  "no_session = \<lparr>ss_code = [], ss_used = False, ss_codeExpires = 0, ss_failures = 0, ss_blocked = 0,
     ss_sessions = []\<rparr>"

definition pairingAlphabet :: string where
  "pairingAlphabet = ''ABCDEFGHJKMNPQRSTVWXYZ23456789''"

definition NewPairingCode :: "nat list option \<Rightarrow> string option" where
  "NewPairingCode rnd =
     map_option (\<lambda>buf. let out = map (\<lambda>b. pairingAlphabet ! (b mod length pairingAlphabet)) buf in
       take 4 out @ ''-'' @ take 4 (drop 4 out) @ ''-'' @ take 4 (drop 8 out)) rnd"

text \<open>The replacer of the code: a hyphen, a space and a no-break space are removed.\<close>

fun drop_separators :: "string \<Rightarrow> string" where
  "drop_separators [] = []"
| "drop_separators (c # cs) =
     (if c = CHR ''-'' \<or> c = CHR '' '' then drop_separators cs
      else if c = CHR 0xC2 \<and> take 1 cs = [CHR 0xA0] then drop_separators (tl cs)
      else c # drop_separators cs)"

definition normalizePairingCode :: "string \<Rightarrow> string" where
  "normalizePairingCode code = drop_separators (toUpper (trimSpace code))"

section \<open>Operations\<close>

definition setPairingCodeLocked :: "string \<Rightarrow> int \<Rightarrow> sess \<Rightarrow> sess" where
  "setPairingCodeLocked code now s =
     s\<lparr>ss_code := normalizePairingCode code, ss_used := False, ss_codeExpires := now + pairingCodeTTL,
       ss_failures := 0, ss_blocked := 0\<rparr>"

definition EnableSession :: "string \<Rightarrow> int \<Rightarrow> sess \<Rightarrow> sess" where
  "EnableSession code now s = (setPairingCodeLocked code now s)\<lparr>ss_sessions := []\<rparr>"

definition RotatePairingCode :: "string \<Rightarrow> int \<Rightarrow> sess \<Rightarrow> sess" where
  "RotatePairingCode code now s = setPairingCodeLocked code now s"

definition sessionRequired :: "sess \<Rightarrow> bool" where
  "sessionRequired s \<longleftrightarrow> ss_code s \<noteq> []"

definition sessionValid :: "string \<Rightarrow> int \<Rightarrow> sess \<Rightarrow> bool \<times> sess" where
  "sessionValid token now s =
     (if token = [] then (False, s)
      else case map_of (ss_sessions s) token of
        None \<Rightarrow> (False, s)
      | Some e \<Rightarrow>
          if se_expires e < now then (False, s\<lparr>ss_sessions := AList.delete token (ss_sessions s)\<rparr>)
          else (se_token e = token, s))"

definition hasSession :: "string option \<Rightarrow> int \<Rightarrow> sess \<Rightarrow> bool \<times> sess" where
  "hasSession cookie now s =
     (if \<not> sessionRequired s then (True, s)
      else case cookie of None \<Rightarrow> (False, s) | Some token \<Rightarrow> sessionValid token now s)"

text \<open>The oldest session, the first one met among equals; 0 is the zero time.\<close>

definition oldest_of :: "(string \<times> sessionEntry) list \<Rightarrow> string \<times> int" where
  "oldest_of es = foldl (\<lambda>(tok, old) (k, e). if old = 0 \<or> se_created e < old then (k, se_created e) else (tok, old))
     ([], 0) es"

lemma oldest_mem_gen:
  "fst (foldl (\<lambda>(tok, old) (k, e). if old = 0 \<or> se_created e < old then (k, se_created e) else (tok, old)) (tok, old) es)
     \<in> insert tok (fst ` set es)"
proof (induction es arbitrary: tok old)
  case (Cons x es)
  show ?case
    using Cons [of "fst x" "se_created (snd x)"] Cons [of tok old] by (cases x) auto
qed simp

lemma oldest_mem:
  assumes "es \<noteq> []"
  shows "fst (oldest_of es) \<in> fst ` set es"
proof -
  obtain k e r where es: "es = (k, e) # r" using assms by (cases es) auto
  show ?thesis using oldest_mem_gen [of k "se_created e" r] by (auto simp: oldest_of_def es)
qed

lemma delete_shorter: "k \<in> fst ` set es \<Longrightarrow> length (AList.delete k es) < length es"
  by (force simp: AList.delete_eq intro: length_filter_less)

function evict :: "(string \<times> sessionEntry) list \<Rightarrow> (string \<times> sessionEntry) list" where
  "evict es = (if length es \<ge> maxSessions then evict (AList.delete (fst (oldest_of es)) es) else es)"
  by auto
termination
  by (relation "measure length") (auto simp: maxSessions_def intro!: delete_shorter oldest_mem)

declare evict.simps [simp del]

text \<open>\<open>None\<close>: the random source failed, nothing changes.\<close>

definition mintSessionLocked :: "int \<Rightarrow> int \<Rightarrow> string option \<Rightarrow> sess \<Rightarrow> string option \<times> sess" where
  "mintSessionLocked ttl now rnd s =
     (case rnd of
        None \<Rightarrow> (None, s)
      | Some token \<Rightarrow>
          (Some token, s\<lparr>ss_sessions :=
             AList.update token \<lparr>se_token = token, se_created = now, se_expires = now + ttl\<rparr>
               (evict (filter (\<lambda>(k, e). \<not> se_expires e < now) (ss_sessions s)))\<rparr>))"

datatype pairErr = PairingBad | PairingDead | PairingLocked | PairingNoRandom

definition exchangePairingCode ::
  "int \<Rightarrow> string \<Rightarrow> int \<Rightarrow> string option \<Rightarrow> sess \<Rightarrow> (pairErr + string) \<times> sess" where
  "exchangePairingCode ttl code now rnd s =
     (if now < ss_blocked s then (Inl PairingLocked, s)
      else if ss_used s \<or> ss_codeExpires s < now then (Inl PairingDead, s)
      else if normalizePairingCode code \<noteq> ss_code s then
        (Inl PairingBad,
         if ss_failures s + 1 \<ge> maxPairingFailures
         then s\<lparr>ss_failures := 0, ss_blocked := now + pairingLockout\<rparr>
         else s\<lparr>ss_failures := ss_failures s + 1\<rparr>)
      else case mintSessionLocked ttl now rnd (s\<lparr>ss_used := True\<rparr>) of
        (None, s') \<Rightarrow> (Inl PairingNoRandom, s'\<lparr>ss_used := False\<rparr>)
      | (Some token, s') \<Rightarrow> (Inr token, s'))"

section \<open>Requests\<close>

text \<open>
  What the guard reads of a request: host, method, path, the session cookie, the parameter \<open>c\<close> of
  the query, the code of a JSON body (\<open>None\<close>: not JSON), and three headers.
\<close>

record httpReq =
  hq_host :: string
  hq_method :: string
  hq_path :: string
  hq_cookie :: "string option"
  hq_c :: string
  hq_body :: "string option"
  hq_site :: string
  hq_origin :: string
  hq_referer :: string

definition csrfGuard :: "(string \<Rightarrow> urlParts option) \<Rightarrow> listenPolicy \<Rightarrow> httpReq \<Rightarrow> bool" where
  "csrfGuard parse p r =
     (let site = toLower (trimSpace (hq_site r)) in
      if site \<notin> {[], ''same-origin'', ''none''} then False
      else if trimSpace (hq_origin r) \<noteq> [] then originAllowed parse p (trimSpace (hq_origin r))
      else if trimSpace (hq_referer r) \<noteq> [] \<and> \<not> originAllowed parse p (trimSpace (hq_referer r)) then False
      else True)"

definition publicAPI :: "string list" where
  "publicAPI = [''/api/health'', ''/api/session'']"

text \<open>The outcome of an exchange with the code that was presented; \<open>None\<close>: it was not tried.\<close>

type_synonym exchanged = "(string \<times> (pairErr + string)) option"

definition sessionHandshake ::
  "listenPolicy \<Rightarrow> int \<Rightarrow> string option \<Rightarrow> httpReq \<Rightarrow> sess \<Rightarrow> exchanged \<times> sess" where
  "sessionHandshake p now rnd r s =
     (if \<not> sessionRequired s \<or> hq_method r \<noteq> ''GET'' \<and> hq_method r \<noteq> ''HEAD'' then (None, s)
      else if hq_c r = [] then (None, s)
      else let (res, s') = exchangePairingCode (lp_ttl p) (hq_c r) now rnd s in (Some (hq_c r, res), s'))"

text \<open>The status of \<open>/api/session\<close>.\<close>

definition handleSession ::
  "listenPolicy \<Rightarrow> int \<Rightarrow> string option \<Rightarrow> httpReq \<Rightarrow> sess \<Rightarrow> nat \<times> exchanged \<times> sess" where
  "handleSession p now rnd r s =
     (if hq_method r = ''GET'' then (200, None, snd (hasSession (hq_cookie r) now s))
      else if hq_method r = ''POST'' then
        (case hq_body r of
           None \<Rightarrow> (400, None, s)
         | Some code \<Rightarrow>
             (case exchangePairingCode (lp_ttl p) code now rnd s of
                (Inl PairingLocked, s') \<Rightarrow> (429, Some (code, Inl PairingLocked), s')
              | (Inl e, s') \<Rightarrow> (401, Some (code, Inl e), s')
              | (Inr token, s') \<Rightarrow> (200, Some (code, Inr token), s')))
      else (405, None, s))"

datatype routed = HostRefused | Handshake | NeedSession | CsrfRefused | Dispatched

definition protected_path :: "string \<Rightarrow> bool" where
  "protected_path path \<longleftrightarrow> hasPrefix path ''/api/'' \<and> path \<notin> set publicAPI"

definition mutating :: "string \<Rightarrow> bool" where
  "mutating m \<longleftrightarrow> m \<in> {''POST'', ''PUT'', ''PATCH'', ''DELETE''}"

definition Routes ::
  "(string \<Rightarrow> urlParts option) \<Rightarrow> listenPolicy \<Rightarrow> int \<Rightarrow> string option \<Rightarrow> httpReq \<Rightarrow> sess \<Rightarrow>
   routed \<times> exchanged \<times> sess" where
  "Routes parse p now rnd r s =
     (if \<not> policy_hostAllowed p (hq_host r) then (HostRefused, None, s)
      else case sessionHandshake p now rnd r s of
        (Some x, s1) \<Rightarrow> (Handshake, Some x, s1)
      | (None, s1) \<Rightarrow>
          (let (ok, s2) = (if protected_path (hq_path r) then hasSession (hq_cookie r) now s1 else (True, s1)) in
           if \<not> ok then (NeedSession, None, s2)
           else if mutating (hq_method r) \<and> \<not> csrfGuard parse p r then (CsrfRefused, None, s2)
           else if hq_path r = ''/api/session'' then
             (let (_, x, s3) = handleSession p now rnd r s2 in (Dispatched, x, s3))
           else (Dispatched, None, s2)))"

section \<open>Executions\<close>

text \<open>What happened to codes and sessions, with the time; the newest event comes first.\<close>

datatype sev = Wiped | Installed string int | Minted string string int | Guess int

definition exchange_events :: "exchanged \<Rightarrow> int \<Rightarrow> sev list" where
  "exchange_events x now =
     (case x of
        Some (code, Inr token) \<Rightarrow> [Minted code token now]
      | Some (_, Inl PairingBad) \<Rightarrow> [Guess now]
      | _ \<Rightarrow> [])"

datatype sop = Enable string | Rotate string | Request httpReq "string option"

definition sess_step ::
  "(string \<Rightarrow> urlParts option) \<Rightarrow> listenPolicy \<Rightarrow> sop \<Rightarrow> int \<Rightarrow> sess \<Rightarrow> sess \<times> sev list" where
  "sess_step parse p op now s =
     (case op of
        Enable code \<Rightarrow> (EnableSession code now s, [Installed code now, Wiped])
      | Rotate code \<Rightarrow> (RotatePairingCode code now s, [Installed code now])
      | Request r rnd \<Rightarrow> (case Routes parse p now rnd r s of (_, x, s') \<Rightarrow> (s', exchange_events x now)))"

text \<open>The clock does not run backwards, and it is past Go's zero time.\<close>

inductive sess_reach :: "(string \<Rightarrow> urlParts option) \<Rightarrow> listenPolicy \<Rightarrow> int \<Rightarrow> sev list \<Rightarrow> sess \<Rightarrow> bool"
  for parse p where
  start: "0 < now \<Longrightarrow> sess_reach parse p now [] no_session"
| step: "sess_reach parse p now tr s \<Longrightarrow> now \<le> now' \<Longrightarrow> sess_step parse p op now' s = (s', evs) \<Longrightarrow>
    sess_reach parse p now' (evs @ tr) s'"

text \<open>The code in force with the time it was installed, and the events since.\<close>

fun installed :: "sev list \<Rightarrow> (string \<times> int) option" where
  "installed [] = None"
| "installed (Installed code t # tr) = Some (code, t)"
| "installed (e # tr) = installed tr"

fun since :: "sev list \<Rightarrow> sev list" where
  "since [] = []"
| "since (Installed code t # tr) = []"
| "since (e # tr) = e # since tr"

definition guesses :: "sev list \<Rightarrow> nat" where
  "guesses tr = length (filter (\<lambda>e. case e of Guess _ \<Rightarrow> True | _ \<Rightarrow> False) (since tr))"

definition mints :: "sev list \<Rightarrow> nat" where
  "mints tr = length (filter (\<lambda>e. case e of Minted _ _ _ \<Rightarrow> True | _ \<Rightarrow> False) (since tr))"

text \<open>
  A token was issued at \<open>t\<close> for the code then in force, inside its window and for the first time;
  no restart of the login has wiped the sessions since.
\<close>

definition issued :: "sev list \<Rightarrow> string \<Rightarrow> int \<Rightarrow> bool" where
  "issued tr token t \<longleftrightarrow> (\<exists>c presented a code t1. tr = c @ Minted presented token t # a \<and> Wiped \<notin> set c \<and>
     installed a = Some (code, t1) \<and> normalizePairingCode presented = normalizePairingCode code \<and>
     t \<le> t1 + pairingCodeTTL \<and> mints a = 0)"

section \<open>What an exchange changes\<close>

lemma evict_subset: "set (evict es) \<subseteq> set es"
proof (induction es rule: evict.induct)
  case (1 es)
  show ?case
  proof (cases "maxSessions \<le> length es")
    case True
    with 1 show ?thesis by (subst evict.simps) (auto simp: AList.delete_eq)
  qed (subst evict.simps, simp)
qed

lemma evict_room: "length (evict es) < maxSessions"
proof (induction es rule: evict.induct)
  case (1 es)
  then show ?case by (subst evict.simps) auto
qed

lemma set_update: "set (AList.update k v es) \<subseteq> insert (k, v) (set es)"
  by (induction es) auto

lemma length_update: "length (AList.update k v es) \<le> Suc (length es)"
  by (induction es) auto

definition exchange_open :: "int \<Rightarrow> sess \<Rightarrow> bool" where
  "exchange_open now s \<longleftrightarrow> ss_blocked s \<le> now \<and> \<not> ss_used s \<and> now \<le> ss_codeExpires s"

lemma exchange_cases:
  assumes "exchangePairingCode ttl code now rnd s = (res, s')"
  obtains (refused) e where "res = Inl e" "e \<noteq> PairingBad" "s' = s"
  | (guess) "res = Inl PairingBad" "exchange_open now s"
      "s' = (if ss_failures s + 1 \<ge> maxPairingFailures
         then s\<lparr>ss_failures := 0, ss_blocked := now + pairingLockout\<rparr>
         else s\<lparr>ss_failures := ss_failures s + 1\<rparr>)"
  | (minted) token where "res = Inr token" "exchange_open now s" "normalizePairingCode code = ss_code s"
      "s' = s\<lparr>ss_used := True, ss_sessions :=
             AList.update token \<lparr>se_token = token, se_created = now, se_expires = now + ttl\<rparr>
               (evict (filter (\<lambda>(k, e). \<not> se_expires e < now) (ss_sessions s)))\<rparr>"
proof (cases "exchange_open now s")
  case False
  then have "\<exists>e. res = Inl e \<and> e \<noteq> PairingBad \<and> s' = s"
    using assms by (auto simp: exchangePairingCode_def exchange_open_def split: if_splits)
  with refused show ?thesis by blast
next
  case True
  note o = this assms [unfolded exchangePairingCode_def]
  show ?thesis
  proof (cases "normalizePairingCode code = ss_code s")
    case False
    with o guess show ?thesis by (simp add: exchange_open_def)
  next
    case True
    have same: "s\<lparr>ss_used := False\<rparr> = s" if "\<not> ss_used s" using that by (cases s) simp
    show ?thesis
    proof (cases rnd)
      case None
      with True o same have "res = Inl PairingNoRandom \<and> s' = s"
        by (auto simp: exchange_open_def mintSessionLocked_def)
      with refused show ?thesis by blast
    next
      case (Some token)
      with True o minted [of token] show ?thesis by (simp add: exchange_open_def mintSessionLocked_def)
    qed
  qed
qed

lemma hasSession_state:
  "\<exists>q. snd (hasSession cookie now s) = s\<lparr>ss_sessions := filter q (ss_sessions s)\<rparr>"
proof -
  have "snd (hasSession cookie now s) = s \<or>
      (\<exists>k. snd (hasSession cookie now s) = s\<lparr>ss_sessions := AList.delete k (ss_sessions s)\<rparr>)"
    by (auto simp: hasSession_def sessionValid_def split: option.split)
  then show ?thesis
  proof
    assume "snd (hasSession cookie now s) = s"
    then show ?thesis by (intro exI [of _ "\<lambda>_. True"]) simp
  qed (auto simp: AList.delete_eq)
qed

lemma hasSession_true:
  assumes "hasSession cookie now s = (True, s')" and "sessionRequired s"
  obtains token e where "cookie = Some token" "(token, e) \<in> set (ss_sessions s)" "se_token e = token" "now \<le> se_expires e"
  using assms by (auto simp: hasSession_def sessionValid_def dest!: map_of_SomeD split: option.splits if_splits)

lemma handleSession_cases:
  assumes "handleSession p now rnd r s = (st, x, s')"
  shows "x = None \<and> (\<exists>q. s' = s\<lparr>ss_sessions := filter q (ss_sessions s)\<rparr>) \<or>
    (\<exists>code res. x = Some (code, res) \<and> exchangePairingCode (lp_ttl p) code now rnd s = (res, s'))"
proof -
  have same: "\<exists>q. s = s\<lparr>ss_sessions := filter q (ss_sessions s)\<rparr>" by (rule exI [of _ "\<lambda>_. True"]) simp
  consider "hq_method r = ''GET''" | "hq_method r = ''POST''" | "hq_method r \<notin> {''GET'', ''POST''}" by blast
  then show ?thesis
  proof cases
    case 1
    with assms hasSession_state [of "hq_cookie r" now s] show ?thesis by (auto simp: handleSession_def)
  next
    case 2
    show ?thesis
    proof (cases "hq_body r")
      case None
      with 2 assms same show ?thesis by (simp add: handleSession_def)
    next
      case (Some code)
      obtain res s1 where e: "exchangePairingCode (lp_ttl p) code now rnd s = (res, s1)" by fastforce
      have "x = Some (code, res) \<and> s1 = s'"
      proof (cases res)
        case (Inl err)
        with 2 Some assms e show ?thesis by (cases err) (simp_all add: handleSession_def)
      next
        case (Inr token)
        with 2 Some assms e show ?thesis by (simp add: handleSession_def)
      qed
      with e show ?thesis by blast
    qed
  next
    case 3
    with assms same show ?thesis by (simp add: handleSession_def)
  qed
qed

lemma Routes_cases:
  assumes "Routes parse p now rnd r s = (out, x, s')"
  obtains (quiet) q where "x = None" "s' = s\<lparr>ss_sessions := filter q (ss_sessions s)\<rparr>"
  | (exchange) code res where "x = Some (code, res)" "exchangePairingCode (lp_ttl p) code now rnd s = (res, s')"
proof (cases "policy_hostAllowed p (hq_host r)")
  case False
  with assms show ?thesis by (intro quiet [of "\<lambda>_. True"]) (simp_all add: Routes_def)
next
  case allowed: True
  obtain x1 s1 where h: "sessionHandshake p now rnd r s = (x1, s1)" by fastforce
  show ?thesis
  proof (cases x1)
    case (Some cr)
    with h have "exchangePairingCode (lp_ttl p) (hq_c r) now rnd s = (snd cr, s1)" "fst cr = hq_c r"
      by (auto simp: sessionHandshake_def split: if_splits prod.splits)
    with h Some allowed assms exchange [of "hq_c r" "snd cr"] show ?thesis by (cases cr) (simp add: Routes_def)
  next
    case None
    with h have s1: "s1 = s" by (auto simp: sessionHandshake_def split: if_splits prod.splits)
    obtain ok s2 where g: "(if protected_path (hq_path r) then hasSession (hq_cookie r) now s else (True, s)) = (ok, s2)"
      by fastforce
    then have s2: "\<exists>q. s2 = s\<lparr>ss_sessions := filter q (ss_sessions s)\<rparr>"
      using hasSession_state [of "hq_cookie r" now s] by (auto split: if_splits intro: exI [of _ "\<lambda>_. True"])
    have routes: "Routes parse p now rnd r s =
      (if \<not> ok then (NeedSession, None, s2)
       else if mutating (hq_method r) \<and> \<not> csrfGuard parse p r then (CsrfRefused, None, s2)
       else if hq_path r = ''/api/session'' then
         (let (_, x, s3) = handleSession p now rnd r s2 in (Dispatched, x, s3))
       else (Dispatched, None, s2))"
      by (simp add: Routes_def allowed h None s1 g)
    show ?thesis
    proof (cases "ok \<and> (mutating (hq_method r) \<longrightarrow> csrfGuard parse p r) \<and> hq_path r = ''/api/session''")
      case True
      then have "s2 = s" using g by (simp add: protected_path_def publicAPI_def)
      with True assms routes have "\<exists>st. handleSession p now rnd r s = (st, x, s')" by (auto split: prod.splits)
      with handleSession_cases quiet exchange show ?thesis by metis
    next
      case False
      with assms routes have "x = None" "s' = s2" by (auto split: if_splits)
      with quiet s2 show ?thesis by blast
    qed
  qed
qed

section \<open>The invariant\<close>

definition sessions_issued :: "int \<Rightarrow> sev list \<Rightarrow> sess \<Rightarrow> bool" where
  "sessions_issued ttl tr s \<longleftrightarrow> (\<forall>(k, e) \<in> set (ss_sessions s).
     se_expires e = se_created e + ttl \<and> issued tr k (se_created e))"

definition code_tracked :: "int \<Rightarrow> sev list \<Rightarrow> sess \<Rightarrow> bool" where
  "code_tracked now tr s \<longleftrightarrow> 0 < now \<and> mints tr = (if ss_used s then 1 else 0) \<and>
     (case installed tr of
        None \<Rightarrow> ss_codeExpires s = 0 \<and> guesses tr = 0
      | Some (code, t1) \<Rightarrow> t1 \<le> now \<and> ss_code s = normalizePairingCode code \<and> ss_codeExpires s = t1 + pairingCodeTTL \<and>
          ss_failures s < 5 \<and>
          (\<exists>k. guesses tr = 5 * k + ss_failures s \<and> guesses tr \<le> 55 \<and>
             (0 < k \<longrightarrow> t1 + int k * pairingLockout \<le> ss_blocked s)))"

lemmas track_defs = installed.simps since.simps guesses_def mints_def

lemma track_Minted [simp]:
  "installed (Minted c k t # tr) = installed tr" "mints (Minted c k t # tr) = Suc (mints tr)"
  "guesses (Minted c k t # tr) = guesses tr"
  by (simp_all add: track_defs)

lemma track_Guess [simp]:
  "installed (Guess t # tr) = installed tr" "mints (Guess t # tr) = mints tr"
  "guesses (Guess t # tr) = Suc (guesses tr)"
  by (simp_all add: track_defs)

lemma track_Installed [simp]:
  "mints (Installed c t # tr) = 0" "guesses (Installed c t # tr) = 0"
  by (simp_all add: track_defs)

lemma issued_Cons:
  assumes "issued tr k t" and "e \<noteq> Wiped"
  shows "issued (e # tr) k t"
  using assms unfolding issued_def
  by (metis append_Cons set_ConsD)

lemma sessions_issued_sub:
  "sessions_issued ttl tr s \<Longrightarrow> set (ss_sessions s') \<subseteq> set (ss_sessions s) \<Longrightarrow> sessions_issued ttl tr s'"
  by (auto simp: sessions_issued_def)

lemma sessions_issued_event:
  "sessions_issued ttl tr s \<Longrightarrow> e \<noteq> Wiped \<Longrightarrow> sessions_issued ttl (e # tr) s"
  by (auto simp: sessions_issued_def intro: issued_Cons)

lemma code_tracked_same:
  assumes "code_tracked now tr s" and "now \<le> now'" and "s' = s\<lparr>ss_sessions := es\<rparr>"
  shows "code_tracked now' tr s'"
  using assms by (auto simp: code_tracked_def split: option.splits)

text \<open>Nothing is exchanged before a code was installed.\<close>

lemma open_installed:
  assumes "code_tracked now tr s" and "now \<le> now'" and "exchange_open now' s"
  obtains code t1 k where "installed tr = Some (code, t1)" "t1 \<le> now" "ss_code s = normalizePairingCode code"
    "now' \<le> t1 + pairingCodeTTL" "mints tr = 0" "ss_failures s < 5"
    "guesses tr = 5 * k + ss_failures s" "k \<le> 10" "0 < k \<longrightarrow> t1 + int k * pairingLockout \<le> ss_blocked s"
proof (cases "installed tr")
  case None
  with assms show ?thesis by (simp add: code_tracked_def exchange_open_def)
next
  case (Some ct)
  obtain code t1 where ct: "ct = (code, t1)" by fastforce
  with Some assms obtain k where k: "guesses tr = 5 * k + ss_failures s"
      "0 < k \<longrightarrow> t1 + int k * pairingLockout \<le> ss_blocked s"
      "ss_codeExpires s = t1 + pairingCodeTTL" "t1 \<le> now" "ss_code s = normalizePairingCode code" "ss_failures s < 5"
      "mints tr = 0"
    by (auto simp: code_tracked_def exchange_open_def)
  moreover have "k \<le> 10"
  proof (cases "0 < k")
    case True
    with k assms(3) have "int k * 60000000000 \<le> 600000000000"
      by (simp add: exchange_open_def pairingCodeTTL_def pairingLockout_def)
    then show ?thesis by simp
  qed simp
  ultimately show ?thesis using that Some ct assms(3) by (simp add: exchange_open_def)
qed

lemma guess_tracked:
  assumes "code_tracked now tr s" and "now \<le> now'" and "exchange_open now' s"
    and s': "s' = (if ss_failures s + 1 \<ge> maxPairingFailures
         then s\<lparr>ss_failures := 0, ss_blocked := now' + pairingLockout\<rparr>
         else s\<lparr>ss_failures := ss_failures s + 1\<rparr>)"
  shows "code_tracked now' (Guess t # tr) s'"
proof -
  from open_installed [OF assms(1-3)] obtain code t1 k where k: "installed tr = Some (code, t1)" "t1 \<le> now"
    "ss_code s = normalizePairingCode code" "mints tr = 0" "ss_failures s < 5"
    "guesses tr = 5 * k + ss_failures s" "k \<le> 10" "0 < k \<longrightarrow> t1 + int k * pairingLockout \<le> ss_blocked s"
    by metis
  have late: "t1 + int k * pairingLockout \<le> now'"
    using k(2,8) assms(2,3) by (cases "0 < k") (auto simp: exchange_open_def)
  have base: "0 < now'" "\<not> ss_used s" "ss_codeExpires s = t1 + pairingCodeTTL"
    using assms k(1) by (auto simp: code_tracked_def exchange_open_def)
  show ?thesis
  proof (cases "ss_failures s = 4")
    case True
    have "t1 + int (k + 1) * pairingLockout \<le> now' + pairingLockout"
      using late by (simp add: distrib_right)
    with True k base assms(2) show ?thesis
      unfolding code_tracked_def s' maxPairingFailures_def
      by (simp add: exI [of _ "Suc k"])
  next
    case False
    with k base assms(2) show ?thesis
      unfolding code_tracked_def s' maxPairingFailures_def
      by (auto intro!: exI [of _ k])
  qed
qed

lemma minted_tracked:
  assumes "code_tracked now tr s" and "now \<le> now'" and "exchange_open now' s"
    and "s' = s\<lparr>ss_used := True, ss_sessions := es\<rparr>"
  shows "code_tracked now' (Minted c k t # tr) s'"
  using assms by (auto simp: code_tracked_def exchange_open_def split: option.splits)

lemma minted_issued:
  assumes "code_tracked now tr s" and "now \<le> now'" and "exchange_open now' s" and "normalizePairingCode code = ss_code s"
  shows "issued (Minted code token now' # tr) token now'"
proof -
  from open_installed [OF assms(1-3)] obtain c t1 where "installed tr = Some (c, t1)"
    "ss_code s = normalizePairingCode c" "now' \<le> t1 + pairingCodeTTL" "mints tr = 0" by metis
  with assms(4) have "Minted code token now' # tr = [] @ Minted code token now' # tr \<and> Wiped \<notin> set ([] :: sev list) \<and>
     installed tr = Some (c, t1) \<and> normalizePairingCode code = normalizePairingCode c \<and>
     now' \<le> t1 + pairingCodeTTL \<and> mints tr = 0" by simp
  then show ?thesis unfolding issued_def by blast
qed

definition sess_inv :: "int \<Rightarrow> int \<Rightarrow> sev list \<Rightarrow> sess \<Rightarrow> bool" where
  "sess_inv ttl now tr s \<longleftrightarrow> sessions_issued ttl tr s \<and> code_tracked now tr s \<and> length (ss_sessions s) \<le> maxSessions"

lemma exchange_inv:
  assumes "sess_inv ttl now tr s" and "now \<le> now'" and "exchangePairingCode ttl code now' rnd s = (res, s')"
  shows "sess_inv ttl now' (exchange_events (Some (code, res)) now' @ tr) s'"
proof -
  from assms(1) have i: "sessions_issued ttl tr s" "code_tracked now tr s" "length (ss_sessions s) \<le> maxSessions"
    by (simp_all add: sess_inv_def)
  from assms(3) show ?thesis
  proof (cases rule: exchange_cases)
    case (refused e)
    have "code_tracked now' tr s" using code_tracked_same [OF i(2) assms(2), of s "ss_sessions s"] by simp
    with refused i show ?thesis by (cases e) (simp_all add: exchange_events_def sess_inv_def)
  next
    case guess
    have "sessions_issued ttl (Guess now' # tr) s'"
      using sessions_issued_event [OF i(1), of "Guess now'"] guess(3) by (auto intro: sessions_issued_sub)
    with guess i guess_tracked [OF i(2) assms(2) guess(2,3)] show ?thesis
      by (auto simp: exchange_events_def sess_inv_def)
  next
    case (minted token)
    let ?tr = "Minted code token now' # tr" and ?e = "\<lparr>se_token = token, se_created = now', se_expires = now' + ttl\<rparr>"
    let ?old = "evict (filter (\<lambda>(k, e). \<not> se_expires e < now') (ss_sessions s))"
    have "sessions_issued ttl ?tr s" using sessions_issued_event [OF i(1)] by simp
    moreover have "issued ?tr token now'" by (rule minted_issued [OF i(2) assms(2) minted(2,3)])
    moreover have "set (ss_sessions s') \<subseteq> insert (token, ?e) (set (ss_sessions s))"
      using set_update [of token ?e ?old] evict_subset [of "filter (\<lambda>(k, e). \<not> se_expires e < now') (ss_sessions s)"]
      by (auto simp: minted(4))
    ultimately have "sessions_issued ttl ?tr s'" by (fastforce simp: sessions_issued_def)
    moreover have "length (ss_sessions s') \<le> maxSessions"
      using length_update [of token ?e ?old] evict_room [of "filter (\<lambda>(k, e). \<not> se_expires e < now') (ss_sessions s)"]
      by (simp add: minted(4))
    ultimately show ?thesis using minted_tracked [OF i(2) assms(2) minted(2,4)] minted(1)
      by (simp add: exchange_events_def sess_inv_def)
  qed
qed

lemma install_inv:
  assumes "sess_inv ttl now tr s" and "now \<le> now'"
  shows "sess_inv ttl now' (Installed code now' # tr) (RotatePairingCode code now' s)"
    and "sess_inv ttl now' (Installed code now' # Wiped # tr) (EnableSession code now' s)"
proof -
  have "0 < now'" using assms by (simp add: sess_inv_def code_tracked_def)
  then show "sess_inv ttl now' (Installed code now' # Wiped # tr) (EnableSession code now' s)"
    by (simp add: sess_inv_def EnableSession_def setPairingCodeLocked_def code_tracked_def sessions_issued_def)
  from \<open>0 < now'\<close> assms show "sess_inv ttl now' (Installed code now' # tr) (RotatePairingCode code now' s)"
    using sessions_issued_event [of ttl tr s "Installed code now'"]
    by (simp add: sess_inv_def RotatePairingCode_def setPairingCodeLocked_def code_tracked_def sessions_issued_def)
qed

lemma sess_reach_inv: "sess_reach parse p now tr s \<Longrightarrow> sess_inv (lp_ttl p) now tr s"
proof (induction rule: sess_reach.induct)
  case (start now)
  then show ?case by (simp add: sess_inv_def sessions_issued_def no_session_def code_tracked_def track_defs)
next
  case (step now tr s now' op s' evs)
  show ?case
  proof (cases op)
    case (Request r rnd)
    obtain out x where r: "Routes parse p now' rnd r s = (out, x, s')" and evs: "evs = exchange_events x now'"
      using step(3) Request by (auto simp: sess_step_def split: prod.splits)
    from r show ?thesis
    proof (cases rule: Routes_cases)
      case (quiet q)
      with step code_tracked_same [of now tr s now' s']
        sessions_issued_sub [of "lp_ttl p" tr s s'] show ?thesis
        by (auto simp: sess_inv_def evs exchange_events_def intro: le_trans [OF length_filter_le])
    next
      case (exchange code res)
      with exchange_inv [OF step(4,2)] evs show ?thesis by simp
    qed
  qed (use step install_inv [OF step(4,2)] in \<open>auto simp: sess_step_def\<close>)
qed

section \<open>Properties\<close>

text \<open>
  C23. Every guarded path is behind the three guards. With a session required, a request to a path
  under /api/ that is not public reaches its handler only under an allowed host, a mutating one only
  past the CSRF guard, and only with a cookie whose token was issued for the one-time code then in
  force, inside the code's ten minutes, as the code's first exchange; the token has not outlived the
  session time, and no restart of the login has come since.
\<close>

theorem api_guarded:
  assumes "sess_reach parse p now tr s" and "now \<le> now'"
    and "Routes parse p now' rnd r s = (Dispatched, x, s')"
    and "protected_path (hq_path r)" and "sessionRequired s"
  shows "policy_hostAllowed p (hq_host r) \<and> (mutating (hq_method r) \<longrightarrow> csrfGuard parse p r) \<and>
    (\<exists>token t. hq_cookie r = Some token \<and> issued tr token t \<and> now' \<le> t + lp_ttl p)"
proof -
  have host: "policy_hostAllowed p (hq_host r)" using assms(3) by (auto simp: Routes_def split: if_splits)
  obtain x1 s1 where h: "sessionHandshake p now' rnd r s = (x1, s1)" by fastforce
  have "x1 = None" using assms(3) h host by (cases x1) (auto simp: Routes_def)
  then have "s1 = s" using h by (auto simp: sessionHandshake_def split: if_splits prod.splits)
  obtain ok s2 where g: "hasSession (hq_cookie r) now' s = (ok, s2)" by fastforce
  have ok: "ok \<and> (mutating (hq_method r) \<longrightarrow> csrfGuard parse p r)"
    using assms(3,4) host h g \<open>x1 = None\<close> \<open>s1 = s\<close> by (auto simp: Routes_def split: if_splits)
  with g assms(5) obtain token e where "hq_cookie r = Some token" "(token, e) \<in> set (ss_sessions s)"
    "now' \<le> se_expires e" by (auto elim: hasSession_true)
  moreover have "sessions_issued (lp_ttl p) tr s" using sess_reach_inv [OF assms(1)] by (simp add: sess_inv_def)
  ultimately have "\<exists>token t. hq_cookie r = Some token \<and> issued tr token t \<and> now' \<le> t + lp_ttl p"
    unfolding sessions_issued_def by fastforce
  with host ok show ?thesis by blast
qed

definition local_policy :: listenPolicy where
  "local_policy = \<lparr>lp_addr = ''127.0.0.1:0'', lp_port = ''0'', lp_hosts = [''127.0.0.1:0''], lp_scheme = ''http'',
     lp_proxied = False, lp_ttl = defaultSessionTTL, lp_remote = False\<rparr>"

definition demo_request :: "string \<Rightarrow> string \<Rightarrow> string option \<Rightarrow> string option \<Rightarrow> httpReq" where
  "demo_request m path cookie body = \<lparr>hq_host = ''localhost:8080'', hq_method = m, hq_path = path, hq_cookie = cookie,
     hq_c = [], hq_body = body, hq_site = ''same-origin'', hq_origin = [], hq_referer = []\<rparr>"

definition demo_state :: sess where
  "demo_state = snd (snd (Routes (\<lambda>_. None) local_policy 20 (Some ''tok'')
     (demo_request ''POST'' ''/api/session'' None (Some ''abcd efgh-JKMN'')) (EnableSession ''ABCD-EFGH-JKMN'' 10 no_session)))"

lemma demo_routes:
  "Routes (\<lambda>_. None) local_policy 20 (Some ''tok'')
     (demo_request ''POST'' ''/api/session'' None (Some ''abcd efgh-JKMN'')) (EnableSession ''ABCD-EFGH-JKMN'' 10 no_session) =
   (Dispatched, Some (''abcd efgh-JKMN'', Inr ''tok''), demo_state)"
  "Routes (\<lambda>_. None) local_policy 30 None (demo_request ''DELETE'' ''/api/runs/x'' (Some ''tok'') None) demo_state =
   (Dispatched, None, demo_state)"
  "Routes (\<lambda>_. None) local_policy 30 None (demo_request ''DELETE'' ''/api/runs/x'' (Some ''other'') None) demo_state =
   (NeedSession, None, demo_state)"
  "sessionRequired demo_state" "protected_path ''/api/runs/x''"
  by code_simp+

lemma demo_reach:
  "sess_reach (\<lambda>_. None) local_policy 20 [Minted ''abcd efgh-JKMN'' ''tok'' 20, Installed ''ABCD-EFGH-JKMN'' 10, Wiped] demo_state"
proof -
  have "sess_reach (\<lambda>_. None) local_policy 10 ([Installed ''ABCD-EFGH-JKMN'' 10, Wiped] @ [])
      (EnableSession ''ABCD-EFGH-JKMN'' 10 no_session)"
    by (rule sess_reach.step [of _ _ 5, where op = "Enable ''ABCD-EFGH-JKMN''"]) (simp_all add: sess_reach.start sess_step_def)
  then have "sess_reach (\<lambda>_. None) local_policy 20
      ([Minted ''abcd efgh-JKMN'' ''tok'' 20] @ [Installed ''ABCD-EFGH-JKMN'' 10, Wiped] @ []) demo_state"
    by (rule sess_reach.step [where op = "Request (demo_request ''POST'' ''/api/session'' None (Some ''abcd efgh-JKMN'')) (Some ''tok'')"])
      (simp_all add: sess_step_def demo_routes exchange_events_def)
  then show ?thesis by simp
qed

theorem api_guarded_witness:
  "\<exists>t. issued [Minted ''abcd efgh-JKMN'' ''tok'' 20, Installed ''ABCD-EFGH-JKMN'' 10, Wiped] ''tok'' t \<and>
     30 \<le> t + lp_ttl local_policy"
  using api_guarded [OF demo_reach _ demo_routes(2)] demo_routes(4,5) by (simp add: demo_request_def)

text \<open>
  C24. Guessing the code is bounded. While one pairing code is in force, at most 55 wrong codes are ever
  compared with it (five for each of the eleven minutes the lockout leaves of its ten), it is exchanged
  at most once, and at most eight sessions are alive.
\<close>

theorem pairing_guess_bound:
  assumes "sess_reach parse p now tr s"
  shows "guesses tr \<le> 55 \<and> mints tr \<le> 1 \<and> length (ss_sessions s) \<le> 8"
  using sess_reach_inv [OF assms] by (auto simp: sess_inv_def code_tracked_def maxSessions_def split: option.splits)

theorem pairing_guess_bound_witness:
  "guesses [Minted ''abcd efgh-JKMN'' ''tok'' 20, Installed ''ABCD-EFGH-JKMN'' 10, Wiped] \<le> 55 \<and>
   mints [Minted ''abcd efgh-JKMN'' ''tok'' 20, Installed ''ABCD-EFGH-JKMN'' 10, Wiped] \<le> 1 \<and>
   length (ss_sessions demo_state) \<le> 8"
  by (rule pairing_guess_bound [OF demo_reach])

end
