(* ===== verification/Mcp_Calls.thy ===== *)
theory Mcp_Calls
  imports Fid_Prelude
begin

text \<open>
  Runs and cancellations of the MCP server (internal/mcp/session.go, runs.go, the body of
  \<open>toolRun\<close> in tools.go). Every section under the lock of the server is one operation; the
  goroutines of requests, of the run and of cancellations interleave between them.
\<close>

section \<open>State\<close>

text \<open>What a cancel function belongs to: the context of a run, or of the plugin a call executes.\<close>

datatype cancelCtx = RunCtx string | ExecCtx nat

record inflightCall =
  cl_key :: string
  cl_run :: string
  cl_exec :: bool
  cl_cancelled :: bool

record runState =
  mr_status :: string
  mr_errMsg :: string
  mr_done :: bool
  mr_cancelRequested :: bool

text \<open>
  Where the goroutine of a run is: its state exists; it is bound to the request; it registered its
  cancel function and runs; the outcome is recorded; the slot is free again; \<open>done\<close> is closed.
\<close>

datatype stage = Created | Bound | Live | Recorded | Cleared | Ended

text \<open>A cancellation that a goroutine is about to execute, outside the lock.\<close>

datatype pending = CancelRun string | CallCancel cancelCtx

text \<open>
  The fields of the server, then the calls (pointers are numbers), and where the goroutines are: the
  stage and the calling request of every run, pending cancellations, contexts that are cancelled.
\<close>

record msrv =
  ms_running :: bool
  ms_currentRunID :: string
  ms_runs :: "(string \<times> runState) list"
  ms_cancels :: "string list"
  ms_inflight :: "string \<rightharpoonup> nat"
  ms_runRequests :: "string \<rightharpoonup> string"
  ms_calls :: "nat \<rightharpoonup> inflightCall"
  ms_stage :: "string \<rightharpoonup> stage"
  ms_owner :: "string \<rightharpoonup> nat"
  ms_pend :: "pending list"
  ms_fired :: "cancelCtx list"

definition new_server :: msrv where
  "new_server = \<lparr>ms_running = False, ms_currentRunID = [], ms_runs = [], ms_cancels = [], ms_inflight = Map.empty,
     ms_runRequests = Map.empty, ms_calls = Map.empty, ms_stage = Map.empty, ms_owner = Map.empty, ms_pend = [],
     ms_fired = []\<rparr>"

definition maxRetainedRuns :: nat where "maxRetainedRuns = 128"

section \<open>Operations under the lock\<close>

definition requestKey :: "string \<Rightarrow> string" where "requestKey = trimSpace"

definition beginCall :: "nat \<Rightarrow> string \<Rightarrow> msrv \<Rightarrow> msrv" where
  "beginCall cid id0 s =
     (let key = requestKey id0;
          s1 = s\<lparr>ms_calls := (ms_calls s)(cid \<mapsto> \<lparr>cl_key = key, cl_run = [], cl_exec = False, cl_cancelled = False\<rparr>)\<rparr>
      in if key = [] then s1 else s1\<lparr>ms_inflight := (ms_inflight s)(key \<mapsto> cid)\<rparr>)"

definition endCall :: "string \<Rightarrow> msrv \<Rightarrow> msrv" where
  "endCall id0 s =
     (let key = requestKey id0 in if key = [] then s else s\<lparr>ms_inflight := (ms_inflight s)(key := None)\<rparr>)"

definition set_requested :: "string \<Rightarrow> msrv \<Rightarrow> msrv" where
  "set_requested r s =
     (case map_of (ms_runs s) r of
        None \<Rightarrow> s
      | Some st \<Rightarrow> s\<lparr>ms_runs := AList.update r (st\<lparr>mr_cancelRequested := True\<rparr>) (ms_runs s)\<rparr>)"

text \<open>A run whose request is already cancelled is noted, and cancelled after the lock.\<close>

definition bindRun :: "nat \<Rightarrow> inflightCall \<Rightarrow> string \<Rightarrow> msrv \<Rightarrow> msrv" where
  "bindRun cid c r s =
     (if r = [] then s
      else
        let s1 = s\<lparr>ms_calls := (ms_calls s)(cid \<mapsto> c\<lparr>cl_run := r\<rparr>)\<rparr>;
            s2 = (if cl_key c \<noteq> [] then s1\<lparr>ms_runRequests := (ms_runRequests s)(cl_key c \<mapsto> r)\<rparr> else s1)
        in if cl_cancelled c then (set_requested r s2)\<lparr>ms_pend := CancelRun r # ms_pend s\<rparr> else s2)"

definition bindExec :: "nat \<Rightarrow> inflightCall \<Rightarrow> msrv \<Rightarrow> msrv" where
  "bindExec cid c s =
     (let s1 = s\<lparr>ms_calls := (ms_calls s)(cid \<mapsto> c\<lparr>cl_exec := True\<rparr>)\<rparr>
      in if cl_cancelled c then s1\<lparr>ms_pend := CallCancel (ExecCtx cid) # ms_pend s\<rparr> else s1)"

definition cancelInflight :: "string \<Rightarrow> msrv \<Rightarrow> msrv" where
  "cancelInflight key s =
     (case ms_inflight s key of
        None \<Rightarrow>
          (case ms_runRequests s key of
             None \<Rightarrow> s
           | Some r \<Rightarrow> if r = [] then s else s\<lparr>ms_pend := CancelRun r # ms_pend s\<rparr>)
      | Some cid \<Rightarrow>
          (case ms_calls s cid of
             None \<Rightarrow> s
           | Some c \<Rightarrow>
               let r = (if cl_run c \<noteq> [] then cl_run c else case ms_runRequests s key of None \<Rightarrow> [] | Some x \<Rightarrow> x)
               in s\<lparr>ms_calls := (ms_calls s)(cid \<mapsto> c\<lparr>cl_cancelled := True\<rparr>),
                    ms_pend := (if cl_exec c then [CallCancel (ExecCtx cid)] else []) @
                      (if r \<noteq> [] then [CancelRun r] else []) @ ms_pend s\<rparr>))"

text \<open>The request id of a cancellation; \<open>None\<close>: other notifications and unreadable parameters.\<close>

definition handleNotification :: "(string \<Rightarrow> string option) \<Rightarrow> string \<Rightarrow> string \<Rightarrow> msrv \<Rightarrow> msrv" where
  "handleNotification decode meth params s =
     (if meth \<noteq> ''notifications/cancelled'' then s
      else case decode params of
        None \<Rightarrow> s
      | Some id0 \<Rightarrow> let key = requestKey id0 in if key = [] then s else cancelInflight key s)"

datatype cancelOutcome = NotFound | AlreadyDone | Noted | Cancelling

definition cancelRun :: "string \<Rightarrow> msrv \<Rightarrow> cancelOutcome \<times> msrv" where
  "cancelRun r s =
     (case map_of (ms_runs s) r of
        None \<Rightarrow> (NotFound, s)
      | Some st \<Rightarrow>
          if r \<notin> set (ms_cancels s) then
            (if mr_done st then (AlreadyDone, s) else (Noted, set_requested r s))
          else (Cancelling, s\<lparr>ms_pend := CallCancel (RunCtx r) # ms_pend s\<rparr>))"

text \<open>Finished runs are dropped in the order of iteration \<open>order\<close> while too many are kept.\<close>

fun prune_runs :: "string list \<Rightarrow> (string \<times> runState) list \<Rightarrow> (string \<times> runState) list" where
  "prune_runs [] rs = rs"
| "prune_runs (r # order) rs =
     (let rs1 = (case map_of rs r of Some st \<Rightarrow> if mr_done st then AList.delete r rs else rs | None \<Rightarrow> rs)
      in if length rs1 < maxRetainedRuns then rs1 else prune_runs order rs1)"

definition pruneRunsLocked :: "string list \<Rightarrow> (string \<times> runState) list \<Rightarrow> (string \<times> runState) list" where
  "pruneRunsLocked order rs = (if length rs < maxRetainedRuns then rs else prune_runs order rs)"

text \<open>\<open>None\<close>: E_RUN_BUSY.\<close>

definition toolRun_enter :: "string list \<Rightarrow> string \<Rightarrow> msrv \<Rightarrow> msrv option" where
  "toolRun_enter order r s =
     (if ms_running s then None
      else Some (s\<lparr>ms_running := True, ms_currentRunID := r,
        ms_runs := AList.update r \<lparr>mr_status = ''running'', mr_errMsg = [], mr_done = False, mr_cancelRequested = False\<rparr>
          (pruneRunsLocked order (ms_runs s))\<rparr>))"

definition run_register :: "string \<Rightarrow> msrv \<Rightarrow> msrv" where
  "run_register r s =
     (let s1 = s\<lparr>ms_cancels := r # ms_cancels s\<rparr> in
      case map_of (ms_runs s) r of
        Some st \<Rightarrow> if mr_cancelRequested st then s1\<lparr>ms_fired := RunCtx r # ms_fired s\<rparr> else s1
      | None \<Rightarrow> s1)"

definition runSucceeded :: "nat \<Rightarrow> nat \<Rightarrow> string \<Rightarrow> bool" where
  "runSucceeded aborted ok foreach =
     (if foreach = [] \<and> ok = 0 then False else \<not> (aborted > 0 \<and> foreach = []))"

text \<open>The outcome of the run: an error with its code and message, or the counters.\<close>

definition run_status :: "(string \<times> string) option \<Rightarrow> nat \<Rightarrow> nat \<Rightarrow> string \<Rightarrow> string" where
  "run_status err aborted ok foreach =
     (case err of
        Some (code, _) \<Rightarrow> if code = ''cancelled'' then ''cancelled'' else ''failed''
      | None \<Rightarrow> if \<not> runSucceeded aborted ok foreach then ''failed'' else ''done'')"

definition upd_run :: "string \<Rightarrow> (runState \<Rightarrow> runState) \<Rightarrow> msrv \<Rightarrow> msrv" where
  "upd_run r f s =
     (case map_of (ms_runs s) r of
        None \<Rightarrow> s
      | Some st \<Rightarrow> s\<lparr>ms_runs := AList.update r (f st) (ms_runs s)\<rparr>)"

definition run_record :: "string \<Rightarrow> (string \<times> string) option \<Rightarrow> nat \<Rightarrow> nat \<Rightarrow> string \<Rightarrow> msrv \<Rightarrow> msrv" where
  "run_record r err aborted ok foreach s =
     upd_run r (\<lambda>st. st\<lparr>mr_status := run_status err aborted ok foreach,
       mr_errMsg := (case err of Some (_, m) \<Rightarrow> m
                     | None \<Rightarrow> if \<not> runSucceeded aborted ok foreach then ''unsuccessful'' else mr_errMsg st)\<rparr>) s"

definition run_clear :: "string \<Rightarrow> msrv \<Rightarrow> msrv" where
  "run_clear r s =
     s\<lparr>ms_running := False, ms_currentRunID := [], ms_cancels := removeAll r (ms_cancels s),
       ms_runRequests := (\<lambda>k. if ms_runRequests s k = Some r then None else ms_runRequests s k)\<rparr>"

definition run_close :: "string \<Rightarrow> msrv \<Rightarrow> msrv" where
  "run_close r s = upd_run r (\<lambda>st. st\<lparr>mr_done := True\<rparr>) s"

definition recordRunStatus :: "string \<Rightarrow> string \<Rightarrow> string \<Rightarrow> msrv \<Rightarrow> msrv" where
  "recordRunStatus r status errMsg s =
     (let st = (case map_of (ms_runs s) r of Some st \<Rightarrow> st
                | None \<Rightarrow> \<lparr>mr_status = [], mr_errMsg = [], mr_done = False, mr_cancelRequested = False\<rparr>);
          st1 = st\<lparr>mr_status := status, mr_errMsg := (if errMsg \<noteq> [] then errMsg else mr_errMsg st)\<rparr>
      in s\<lparr>ms_runs := AList.update r st1 (ms_runs s)\<rparr>)"

section \<open>Executions\<close>

text \<open>One pending cancellation is executed; drain executes them all, newest first.\<close>

fun perform :: "pending \<Rightarrow> msrv \<Rightarrow> msrv" where
  "perform (CancelRun r) s = snd (cancelRun r s)"
| "perform (CallCancel x) s = s\<lparr>ms_fired := x # ms_fired s\<rparr>"

definition weight :: "pending \<Rightarrow> nat" where
  "weight q = (case q of CancelRun _ \<Rightarrow> 2 | CallCancel _ \<Rightarrow> 1)"

lemma set_requested_fields [simp]:
  "ms_pend (set_requested r s) = ms_pend s" "ms_cancels (set_requested r s) = ms_cancels s"
  "ms_stage (set_requested r s) = ms_stage s" "ms_owner (set_requested r s) = ms_owner s"
  "ms_calls (set_requested r s) = ms_calls s" "ms_fired (set_requested r s) = ms_fired s"
  "ms_running (set_requested r s) = ms_running s" "ms_currentRunID (set_requested r s) = ms_currentRunID s"
  "ms_inflight (set_requested r s) = ms_inflight s" "ms_runRequests (set_requested r s) = ms_runRequests s"
  by (simp_all add: set_requested_def split: option.split)

lemma perform_weight:
  "sum_list (map weight (ms_pend (perform q s))) < sum_list (map weight (q # ms_pend s))"
  by (cases q) (auto simp: cancelRun_def weight_def split: option.split)

function drain :: "msrv \<Rightarrow> msrv" where
  "drain s = (case ms_pend s of [] \<Rightarrow> s | q # rest \<Rightarrow> drain (perform q (s\<lparr>ms_pend := rest\<rparr>)))"
  by auto
termination
proof (relation "measure (\<lambda>s. sum_list (map weight (ms_pend s)))", simp)
  fix s :: msrv and q rest
  assume "ms_pend s = q # rest"
  then show "(perform q (s\<lparr>ms_pend := rest\<rparr>), s) \<in> measure (\<lambda>s. sum_list (map weight (ms_pend s)))"
    using perform_weight [of q "s\<lparr>ms_pend := rest\<rparr>"] by simp
qed

declare drain.simps [simp del]

inductive mcp_step :: "msrv \<Rightarrow> msrv \<Rightarrow> bool" where
  begin_call: "ms_calls s cid = None \<Longrightarrow> mcp_step s (beginCall cid id0 s)"
| end_call: "mcp_step s (endCall id0 s)"
| notification: "mcp_step s (handleNotification decode meth params s)"
| enter: "ms_calls s cid = Some c \<Longrightarrow> r \<noteq> [] \<Longrightarrow> ms_stage s r = None \<Longrightarrow> toolRun_enter order r s = Some s' \<Longrightarrow>
    mcp_step s (s'\<lparr>ms_stage := (ms_stage s)(r \<mapsto> Created), ms_owner := (ms_owner s)(r \<mapsto> cid)\<rparr>)"
| bind: "ms_stage s r = Some Created \<Longrightarrow> ms_owner s r = Some cid \<Longrightarrow> ms_calls s cid = Some c \<Longrightarrow>
    mcp_step s ((bindRun cid c r s)\<lparr>ms_stage := (ms_stage s)(r \<mapsto> Bound)\<rparr>)"
| register: "ms_stage s r = Some Bound \<Longrightarrow> mcp_step s ((run_register r s)\<lparr>ms_stage := (ms_stage s)(r \<mapsto> Live)\<rparr>)"
| outcome: "ms_stage s r = Some Live \<Longrightarrow>
    mcp_step s ((run_record r err aborted ok foreach s)\<lparr>ms_stage := (ms_stage s)(r \<mapsto> Recorded)\<rparr>)"
| clear: "ms_stage s r = Some Recorded \<Longrightarrow> mcp_step s ((run_clear r s)\<lparr>ms_stage := (ms_stage s)(r \<mapsto> Cleared)\<rparr>)"
| close: "ms_stage s r = Some Cleared \<Longrightarrow> mcp_step s ((run_close r s)\<lparr>ms_stage := (ms_stage s)(r \<mapsto> Ended)\<rparr>)"
| bind_exec: "ms_calls s cid = Some c \<Longrightarrow> mcp_step s (bindExec cid c s)"
| tool_cancel: "mcp_step s (s\<lparr>ms_pend := CancelRun r # ms_pend s\<rparr>)"
| console: "ms_stage s r = Some Live \<Longrightarrow> mcp_step s (s\<lparr>ms_fired := RunCtx r # ms_fired s\<rparr>)"
| journal_status: "mcp_step s (recordRunStatus r status errMsg s)"
| pending_step: "ms_pend s = a @ q # b \<Longrightarrow> mcp_step s (perform q (s\<lparr>ms_pend := a @ b\<rparr>))"

inductive mcp_reach :: "msrv \<Rightarrow> bool" where
  start: "mcp_reach new_server"
| step: "mcp_reach s \<Longrightarrow> mcp_step s s' \<Longrightarrow> mcp_reach s'"

lemma drain_reach: "mcp_reach s \<Longrightarrow> mcp_reach (drain s)"
proof (induction s rule: drain.induct)
  case (1 s)
  show ?case
  proof (cases "ms_pend s")
    case Nil
    with 1(2) show ?thesis by (simp add: drain.simps)
  next
    case (Cons q rest)
    then have "mcp_step s (perform q (s\<lparr>ms_pend := [] @ rest\<rparr>))" by (intro mcp_step.pending_step) simp
    with 1 Cons show ?thesis by (simp add: drain.simps [of s]) (metis mcp_reach.step)
  qed
qed

lemma drain_empty: "ms_pend (drain s) = []"
  by (induction s rule: drain.induct) (subst drain.simps, auto split: list.split)

section \<open>What the operations change\<close>

definition run_of :: "msrv \<Rightarrow> string \<Rightarrow> runState option" where
  "run_of s = map_of (ms_runs s)"

lemma upd_run_fields [simp]:
  "ms_pend (upd_run r f s) = ms_pend s" "ms_cancels (upd_run r f s) = ms_cancels s"
  "ms_stage (upd_run r f s) = ms_stage s" "ms_owner (upd_run r f s) = ms_owner s"
  "ms_calls (upd_run r f s) = ms_calls s" "ms_fired (upd_run r f s) = ms_fired s"
  "ms_running (upd_run r f s) = ms_running s" "ms_currentRunID (upd_run r f s) = ms_currentRunID s"
  "ms_inflight (upd_run r f s) = ms_inflight s" "ms_runRequests (upd_run r f s) = ms_runRequests s"
  by (simp_all add: upd_run_def split: option.split)

lemma run_of_upd [simp]:
  "run_of (upd_run r f s) = (\<lambda>x. if x = r then map_option f (run_of s r) else run_of s x)"
  by (auto simp: run_of_def upd_run_def update_conv' split: option.split)

lemma run_of_requested [simp]:
  "run_of (set_requested r s) =
    (\<lambda>x. if x = r then map_option (\<lambda>st. st\<lparr>mr_cancelRequested := True\<rparr>) (run_of s r) else run_of s x)"
  by (auto simp: run_of_def set_requested_def update_conv' split: option.split)

lemma run_of_more [simp]:
  "run_of (s\<lparr>ms_stage := a\<rparr>) = run_of s" "run_of (s\<lparr>ms_owner := b\<rparr>) = run_of s" "run_of (s\<lparr>ms_pend := c\<rparr>) = run_of s"
  "run_of (s\<lparr>ms_calls := d\<rparr>) = run_of s" "run_of (s\<lparr>ms_fired := e\<rparr>) = run_of s"
  "run_of (s\<lparr>ms_runRequests := f\<rparr>) = run_of s" "run_of (s\<lparr>ms_inflight := g\<rparr>) = run_of s"
  "run_of (s\<lparr>ms_cancels := h\<rparr>) = run_of s" "run_of (s\<lparr>ms_running := i\<rparr>) = run_of s"
  "run_of (s\<lparr>ms_currentRunID := j\<rparr>) = run_of s"
  by (simp_all add: run_of_def)

lemma cancelRun_run_of:
  "cancelRun r s = (case run_of s r of
     None \<Rightarrow> (NotFound, s)
   | Some st \<Rightarrow>
       if r \<notin> set (ms_cancels s) then (if mr_done st then (AlreadyDone, s) else (Noted, set_requested r s))
       else (Cancelling, s\<lparr>ms_pend := CallCancel (RunCtx r) # ms_pend s\<rparr>))"
  by (simp add: cancelRun_def run_of_def)

lemma run_register_run_of:
  "run_register r s = (case run_of s r of
     Some st \<Rightarrow> if mr_cancelRequested st then s\<lparr>ms_cancels := r # ms_cancels s, ms_fired := RunCtx r # ms_fired s\<rparr>
       else s\<lparr>ms_cancels := r # ms_cancels s\<rparr>
   | None \<Rightarrow> s\<lparr>ms_cancels := r # ms_cancels s\<rparr>)"
  by (simp add: run_register_def run_of_def Let_def split: option.split)

lemma prune_keeps: "map_of rs r = Some st \<Longrightarrow> \<not> mr_done st \<Longrightarrow> map_of (prune_runs order rs) r = Some st"
  by (induction order rs rule: prune_runs.induct) (auto simp: Let_def delete_conv' split: option.split)

lemma pruneRuns_keeps: "map_of rs r = Some st \<Longrightarrow> \<not> mr_done st \<Longrightarrow> map_of (pruneRunsLocked order rs) r = Some st"
  by (simp add: pruneRunsLocked_def prune_keeps)

text \<open>Pruning ends below the limit when enough runs are over.\<close>

lemma run_of_enter:
  assumes "toolRun_enter order r s = Some s'"
  shows "run_of s' r = Some \<lparr>mr_status = ''running'', mr_errMsg = [], mr_done = False, mr_cancelRequested = False\<rparr>"
    and "x \<noteq> r \<Longrightarrow> run_of s x = Some st \<Longrightarrow> \<not> mr_done st \<Longrightarrow> run_of s' x = Some st"
  using assms by (auto simp: run_of_def toolRun_enter_def update_conv' pruneRuns_keeps split: if_splits)

lemma enter_fields:
  assumes "toolRun_enter order r s = Some s'"
  shows "ms_pend s' = ms_pend s \<and> ms_cancels s' = ms_cancels s \<and> ms_stage s' = ms_stage s \<and> ms_owner s' = ms_owner s \<and>
    ms_calls s' = ms_calls s \<and> ms_fired s' = ms_fired s \<and> ms_running s' \<and> ms_currentRunID s' = r \<and>
    ms_inflight s' = ms_inflight s \<and> ms_runRequests s' = ms_runRequests s \<and> \<not> ms_running s"
  using assms by (auto simp: toolRun_enter_def split: if_splits)

lemma run_of_journal:
  "\<exists>f. run_of (recordRunStatus r status errMsg s) = (run_of s)(r \<mapsto> f) \<and>
    (\<forall>st. run_of s r = Some st \<longrightarrow> mr_done f = mr_done st \<and> mr_cancelRequested f = mr_cancelRequested st)"
  by (auto simp: run_of_def recordRunStatus_def Let_def update_conv' split: option.split)

lemma journal_fields [simp]:
  "ms_pend (recordRunStatus r st e s) = ms_pend s" "ms_cancels (recordRunStatus r st e s) = ms_cancels s"
  "ms_stage (recordRunStatus r st e s) = ms_stage s" "ms_owner (recordRunStatus r st e s) = ms_owner s"
  "ms_calls (recordRunStatus r st e s) = ms_calls s" "ms_fired (recordRunStatus r st e s) = ms_fired s"
  "ms_running (recordRunStatus r st e s) = ms_running s" "ms_currentRunID (recordRunStatus r st e s) = ms_currentRunID s"
  "ms_runRequests (recordRunStatus r st e s) = ms_runRequests s" "ms_inflight (recordRunStatus r st e s) = ms_inflight s"
  by (simp_all add: recordRunStatus_def Let_def)

text \<open>\<open>bindRun\<close> and \<open>cancelInflight\<close> in terms of their fields.\<close>

lemma bindRun_fields:
  assumes "r \<noteq> []"
  shows "ms_cancels (bindRun cid c r s) = ms_cancels s" "ms_stage (bindRun cid c r s) = ms_stage s"
    "ms_owner (bindRun cid c r s) = ms_owner s" "ms_calls (bindRun cid c r s) = (ms_calls s)(cid \<mapsto> c\<lparr>cl_run := r\<rparr>)"
    "ms_fired (bindRun cid c r s) = ms_fired s" "ms_running (bindRun cid c r s) = ms_running s"
    "ms_currentRunID (bindRun cid c r s) = ms_currentRunID s" "ms_inflight (bindRun cid c r s) = ms_inflight s"
    "ms_runRequests (bindRun cid c r s) =
      (if cl_key c \<noteq> [] then (ms_runRequests s)(cl_key c \<mapsto> r) else ms_runRequests s)"
    "ms_pend (bindRun cid c r s) = (if cl_cancelled c then CancelRun r # ms_pend s else ms_pend s)"
    "run_of (bindRun cid c r s) =
      (if cl_cancelled c then (\<lambda>x. if x = r then map_option (\<lambda>st. st\<lparr>mr_cancelRequested := True\<rparr>) (run_of s r) else run_of s x)
       else run_of s)"
  using assms by (auto simp: bindRun_def Let_def)

lemma cancelInflight_fields [simp]:
  "ms_cancels (cancelInflight k s) = ms_cancels s" "ms_stage (cancelInflight k s) = ms_stage s"
  "ms_owner (cancelInflight k s) = ms_owner s" "ms_fired (cancelInflight k s) = ms_fired s"
  "ms_running (cancelInflight k s) = ms_running s" "ms_currentRunID (cancelInflight k s) = ms_currentRunID s"
  "ms_inflight (cancelInflight k s) = ms_inflight s" "ms_runRequests (cancelInflight k s) = ms_runRequests s"
  "run_of (cancelInflight k s) = run_of s"
  by (simp_all add: cancelInflight_def Let_def split: option.split)

lemma cancelInflight_pend: "set (ms_pend s) \<subseteq> set (ms_pend (cancelInflight k s))"
  by (auto simp: cancelInflight_def Let_def split: option.split)

text \<open>A call marked as cancelled that was bound has a cancellation pending.\<close>

lemma cancelInflight_call:
  assumes "ms_calls (cancelInflight k s) cid = Some c"
  obtains c0 where "ms_calls s cid = Some c0" "cl_run c0 = cl_run c" "cl_key c0 = cl_key c"
    "cl_cancelled c \<Longrightarrow> cl_cancelled c0 \<or> cl_run c = [] \<or> CancelRun (cl_run c) \<in> set (ms_pend (cancelInflight k s))"
  using assms by (auto simp: cancelInflight_def Let_def split: option.splits if_splits)

section \<open>The invariant\<close>

definition over :: "stage option \<Rightarrow> bool" where
  "over st \<longleftrightarrow> st \<in> {Some Recorded, Some Cleared, Some Ended}"

definition holds_slot :: "stage option \<Rightarrow> bool" where
  "holds_slot st \<longleftrightarrow> st \<in> {Some Created, Some Bound, Some Live, Some Recorded}"

definition requested :: "msrv \<Rightarrow> string \<Rightarrow> bool" where
  "requested s r \<longleftrightarrow> (\<exists>x. run_of s r = Some x \<and> mr_cancelRequested x)"

text \<open>The run is over or cancelled, or its cancellation is under way, or noted before it registers.\<close>

definition settled :: "msrv \<Rightarrow> string \<Rightarrow> bool" where
  "settled s r \<longleftrightarrow> over (ms_stage s r) \<or> RunCtx r \<in> set (ms_fired s) \<or>
     CancelRun r \<in> set (ms_pend s) \<or> CallCancel (RunCtx r) \<in> set (ms_pend s) \<or>
     ms_stage s r \<in> {Some Created, Some Bound} \<and> requested s r"

definition slot_inv :: "msrv \<Rightarrow> bool" where
  "slot_inv s \<longleftrightarrow>
     (\<forall>r. ms_stage s r \<noteq> None \<and> ms_stage s r \<noteq> Some Ended \<longrightarrow> (\<exists>x. run_of s r = Some x \<and> \<not> mr_done x)) \<and>
     (\<forall>r. r \<in> set (ms_cancels s) \<longleftrightarrow> ms_stage s r \<in> {Some Live, Some Recorded}) \<and>
     (\<forall>r. holds_slot (ms_stage s r) \<longrightarrow> ms_running s \<and> ms_currentRunID s = r) \<and>
     (ms_running s \<longrightarrow> holds_slot (ms_stage s (ms_currentRunID s)))"

definition key_of :: "msrv \<Rightarrow> nat \<Rightarrow> string option" where
  "key_of s = (\<lambda>cid. map_option cl_key (ms_calls s cid))"

definition link_inv :: "msrv \<Rightarrow> bool" where
  "link_inv s \<longleftrightarrow>
     ms_stage s [] = None \<and>
     (\<forall>r. ms_stage s r \<noteq> None \<longrightarrow> (\<exists>cid k. ms_owner s r = Some cid \<and> key_of s cid = Some k \<and>
        (ms_stage s r \<in> {Some Bound, Some Live, Some Recorded} \<and> k \<noteq> [] \<longrightarrow> ms_runRequests s k = Some r)))"

definition calls_inv :: "msrv \<Rightarrow> bool" where
  "calls_inv s \<longleftrightarrow> (\<forall>cid c. ms_calls s cid = Some c \<and> cl_run c \<noteq> [] \<longrightarrow>
     ms_stage s (cl_run c) \<notin> {None, Some Created} \<and> (cl_cancelled c \<longrightarrow> settled s (cl_run c)))"

lemmas inv_defs = slot_inv_def link_inv_def calls_inv_def

lemma over_simps [simp]:
  "\<not> over None" "\<not> over (Some Created)" "\<not> over (Some Bound)" "\<not> over (Some Live)"
  "over (Some Recorded)" "over (Some Cleared)" "over (Some Ended)"
  by (simp_all add: over_def)

lemma holds_slot_simps [simp]:
  "\<not> holds_slot None" "holds_slot (Some Created)" "holds_slot (Some Bound)" "holds_slot (Some Live)"
  "holds_slot (Some Recorded)" "\<not> holds_slot (Some Cleared)" "\<not> holds_slot (Some Ended)"
  by (simp_all add: holds_slot_def)

lemma slot_current: "slot_inv s \<Longrightarrow> holds_slot (ms_stage s r) \<Longrightarrow> ms_running s \<and> ms_currentRunID s = r"
  by (simp add: slot_inv_def)

lemma key_of_ops [simp]:
  "key_of (cancelInflight k s) = key_of s" "ms_calls s cid = Some c \<Longrightarrow> key_of (bindExec cid c s) = key_of s"
  "key_of (recordRunStatus r st e s) = key_of s" "key_of (upd_run r f s) = key_of s" "key_of (set_requested r s) = key_of s"
  by (auto simp: key_of_def cancelInflight_def bindExec_def Let_def fun_eq_iff split: option.split)

lemma link_mono:
  assumes "link_inv s" and "ms_stage s' = ms_stage s" and "ms_owner s' = ms_owner s"
    and "ms_runRequests s' = ms_runRequests s" and "\<And>i k. key_of s i = Some k \<Longrightarrow> key_of s' i = Some k"
  shows "link_inv s'"
  using assms unfolding link_inv_def by metis

lemma run_record_upd:
  obtains f where "run_record r err aborted ok foreach s = upd_run r f s"
    "\<And>st. mr_done (f st) = mr_done st" "\<And>st. mr_cancelRequested (f st) = mr_cancelRequested st"
  by (rule that [OF run_record_def]) simp_all

lemma slot_step:
  assumes "mcp_step s s'" and "slot_inv s" and "link_inv s"
  shows "slot_inv s'"
  using assms
proof (cases rule: mcp_step.cases)
  case (begin_call cid id0)
  with assms(2) show ?thesis by (simp add: slot_inv_def beginCall_def Let_def)
next
  case (end_call id0)
  with assms(2) show ?thesis by (simp add: slot_inv_def endCall_def Let_def)
next
  case (notification decode meth params)
  with assms(2) show ?thesis by (simp add: slot_inv_def handleNotification_def Let_def split: option.split)
next
  case (enter cid c r order s1)
  then have "\<not> ms_running s" using enter_fields by blast
  with assms(2) have no: "\<not> holds_slot (ms_stage s x)" for x by (auto simp: slot_inv_def)
  have keep: "\<exists>y. run_of s1 x = Some y \<and> \<not> mr_done y" if "ms_stage s x \<noteq> None" "ms_stage s x \<noteq> Some Ended" "x \<noteq> r" for x
    using that assms(2) run_of_enter(2) [OF enter(5)] by (metis slot_inv_def)
  have "r \<notin> set (ms_cancels s)" using assms(2) enter(4) by (simp add: slot_inv_def)
  then show ?thesis using assms(2) no keep run_of_enter(1) [OF enter(5)] enter_fields [OF enter(5)]
    unfolding enter(1) slot_inv_def by (auto simp: holds_slot_def)
next
  case (bind r cid c)
  have "r \<noteq> []" using bind(2) assms(3) by (auto simp: link_inv_def)
  moreover have "ms_running s" using slot_current [OF assms(2), of r] bind(2) by simp
  ultimately show ?thesis using bind assms(2) by (auto simp: slot_inv_def bindRun_fields)
next
  case (register r)
  with slot_current [OF assms(2), of r] assms(2) show ?thesis
    by (auto simp: slot_inv_def run_register_run_of split: option.splits)
next
  case (outcome r err aborted ok foreach)
  obtain f where f: "run_record r err aborted ok foreach s = upd_run r f s" "\<And>st. mr_done (f st) = mr_done st"
    by (rule run_record_upd) blast
  have "ms_running s \<and> ms_currentRunID s = r" using slot_current [OF assms(2), of r] outcome(2) by simp
  with outcome assms(2) f(2) show ?thesis by (auto simp: slot_inv_def f(1))
next
  case (clear r)
  have r: "ms_currentRunID s = r" using slot_current [OF assms(2), of r] clear(2) by simp
  have "\<not> holds_slot (ms_stage s x)" if "x \<noteq> r" for x using slot_current [OF assms(2), of x] that r by auto
  with assms(2) clear(2) show ?thesis unfolding clear(1) by (simp add: slot_inv_def run_clear_def)
next
  case (close r)
  have "ms_currentRunID s = r \<Longrightarrow> \<not> ms_running s"
    using assms(2) close(2) by (metis holds_slot_simps(6) slot_inv_def)
  moreover have "\<not> ms_running s \<Longrightarrow> \<not> holds_slot (ms_stage s x)" for x using slot_current [OF assms(2)] by blast
  ultimately have no: "holds_slot (ms_stage s x) \<Longrightarrow> ms_currentRunID s \<noteq> r \<and> ms_running s" for x by blast
  have s': "ms_stage s' = (ms_stage s)(r \<mapsto> Ended)" "ms_cancels s' = ms_cancels s" "ms_running s' = ms_running s"
    "ms_currentRunID s' = ms_currentRunID s" "x \<noteq> r \<Longrightarrow> run_of s' x = run_of s x" for x
    by (simp_all add: close(1) run_close_def)
  show ?thesis unfolding slot_inv_def
  proof (intro conjI allI impI)
    fix x assume "ms_stage s' x \<noteq> None \<and> ms_stage s' x \<noteq> Some Ended"
    then show "\<exists>y. run_of s' x = Some y \<and> \<not> mr_done y"
      using assms(2) by (cases "x = r") (simp_all add: s' slot_inv_def)
  next
    fix x show "(x \<in> set (ms_cancels s')) = (ms_stage s' x \<in> {Some Live, Some Recorded})"
      using assms(2) close(2) by (cases "x = r") (simp_all add: s' slot_inv_def)
  next
    fix x assume "holds_slot (ms_stage s' x)"
    then show "ms_running s'" "ms_currentRunID s' = x"
      using slot_current [OF assms(2), of x] by (cases "x = r"; simp add: s')+
  next
    assume "ms_running s'"
    with no assms(2) show "holds_slot (ms_stage s' (ms_currentRunID s'))" by (simp add: s' slot_inv_def)
  qed
next
  case (bind_exec cid c)
  then show ?thesis using assms(2) by (simp add: slot_inv_def bindExec_def Let_def)
next
  case (journal_status r status errMsg)
  obtain f where "run_of s' = (run_of s)(r \<mapsto> f)" "\<forall>st. run_of s r = Some st \<longrightarrow> mr_done f = mr_done st"
    using run_of_journal journal_status by metis
  then show ?thesis using assms(2) journal_status(1) by (auto simp: slot_inv_def)
next
  case (pending_step a q b)
  then show ?thesis using assms(2)
    by (cases q) (auto simp: slot_inv_def cancelRun_run_of split: option.split)
qed (use assms(2) in \<open>simp_all add: slot_inv_def\<close>)

lemma link_step:
  assumes "mcp_step s s'" and "slot_inv s" and "link_inv s"
  shows "link_inv s'"
  using assms
proof (cases rule: mcp_step.cases)
  case (begin_call cid id0)
  have "key_of s' i = Some k" if "key_of s i = Some k" for i k
    using begin_call that by (auto simp: key_of_def beginCall_def Let_def)
  moreover have "ms_stage s' = ms_stage s" "ms_owner s' = ms_owner s" "ms_runRequests s' = ms_runRequests s"
    by (simp_all add: begin_call(1) beginCall_def Let_def)
  ultimately show ?thesis by (rule link_mono [OF assms(3), rotated 3])
next
  case (end_call id0)
  with assms(3) show ?thesis by (simp add: link_inv_def endCall_def key_of_def Let_def)
next
  case (notification decode meth params)
  have "link_inv (cancelInflight k s)" for k
    using assms(3) by (simp add: link_inv_def)
  with notification assms(3) show ?thesis by (simp add: handleNotification_def Let_def split: option.split)
next
  case (enter cid c r order s1)
  with assms(3) enter_fields [OF enter(5)] show ?thesis by (auto simp: link_inv_def key_of_def)
next
  case (bind r cid c)
  have "r \<noteq> []" using bind(2) assms(3) by (auto simp: link_inv_def)
  have "ms_currentRunID s = r" using slot_current [OF assms(2), of r] bind(2) by simp
  then have others: "ms_stage s x \<notin> {Some Bound, Some Live, Some Recorded}" for x
    using slot_current [OF assms(2), of x] bind(2) by (cases "x = r") (auto simp: holds_slot_def)
  show ?thesis unfolding link_inv_def
  proof (intro conjI allI impI)
    show "ms_stage s' [] = None" using bind(1) assms(3) \<open>r \<noteq> []\<close> by (simp add: link_inv_def)
  next
    fix x assume x: "ms_stage s' x \<noteq> None"
    have keys: "key_of s' = key_of s" using bind(1,4) \<open>r \<noteq> []\<close> by (auto simp: key_of_def bindRun_fields)
    show "\<exists>cid k. ms_owner s' x = Some cid \<and> key_of s' cid = Some k \<and>
        (ms_stage s' x \<in> {Some Bound, Some Live, Some Recorded} \<and> k \<noteq> [] \<longrightarrow> ms_runRequests s' k = Some x)"
    proof (cases "x = r")
      case True
      have "key_of s' cid = Some (cl_key c)" using bind(4) by (simp add: keys) (simp add: key_of_def)
      moreover have "ms_owner s' r = Some cid" "cl_key c \<noteq> [] \<longrightarrow> ms_runRequests s' (cl_key c) = Some r"
        using bind(1,3) \<open>r \<noteq> []\<close> by (simp_all add: bindRun_fields)
      ultimately show ?thesis using True by blast
    next
      case False
      then have st: "ms_stage s' x = ms_stage s x" "ms_owner s' x = ms_owner s x"
        using bind(1) \<open>r \<noteq> []\<close> by (simp_all add: bindRun_fields)
      with x assms(3) obtain i k where "ms_owner s x = Some i" "key_of s i = Some k" unfolding link_inv_def by metis
      with st keys others [of x] show ?thesis by simp
    qed
  qed
next
  case (register r)
  then show ?thesis using assms(3) by (auto simp: link_inv_def run_register_run_of key_of_def split: option.splits)
next
  case (outcome r err aborted ok foreach)
  then show ?thesis using assms(3) by (auto simp: link_inv_def run_record_def key_of_def)
next
  case (clear r)
  have "ms_currentRunID s = r" using slot_current [OF assms(2), of r] clear(2) by simp
  then have "ms_stage s x \<notin> {Some Bound, Some Live, Some Recorded}" if "x \<noteq> r" for x
    using slot_current [OF assms(2), of x] that by (auto simp: holds_slot_def)
  then show ?thesis using assms(3) clear by (fastforce simp: link_inv_def run_clear_def key_of_def)
next
  case (close r)
  then show ?thesis using assms(3) by (auto simp: link_inv_def run_close_def key_of_def)
next
  case (bind_exec cid c)
  with key_of_ops(2) [OF bind_exec(2)] show ?thesis
    by (intro link_mono [OF assms(3)]) (simp_all add: bindExec_def Let_def)
next
  case (pending_step a q b)
  then show ?thesis using assms(3)
    by (cases q) (simp_all add: link_inv_def cancelRun_run_of key_of_def split: option.split)
qed (use assms(3) in \<open>simp_all add: link_inv_def key_of_def\<close>)

text \<open>Once settled, a run stays settled.\<close>

lemma settled_step:
  assumes "mcp_step s s'" and "slot_inv s" and "settled s r" and "ms_stage s r \<noteq> None"
  shows "settled s' r"
  using assms(1)
proof (cases rule: mcp_step.cases)
  case (notification decode meth params)
  have "settled (cancelInflight k s) r" for k
    using assms(3) cancelInflight_pend [of s k] by (auto simp: settled_def requested_def)
  with notification assms(3) show ?thesis by (simp add: handleNotification_def Let_def split: option.split)
next
  case (enter cid c x order s1)
  then have "x \<noteq> r" using assms(4) by auto
  have "requested s1 r" if "requested s r" "ms_stage s r \<in> {Some Created, Some Bound}"
    using that assms(2) run_of_enter(2) [OF enter(5), of r] \<open>x \<noteq> r\<close> unfolding requested_def slot_inv_def
    by (metis insertE option.distinct(1) option.inject singletonD stage.distinct(9) stage.distinct(17))
  with enter enter_fields [OF enter(5)] assms(3) \<open>x \<noteq> r\<close> show ?thesis by (auto simp: settled_def requested_def)
next
  case (bind x cid c)
  show ?thesis
  proof (cases "x = []")
    case True
    with bind assms(3) show ?thesis by (auto simp: settled_def requested_def bindRun_def)
  next
    case False
    with bind assms(3) show ?thesis by (auto simp: settled_def requested_def bindRun_fields)
  qed
next
  case (register x)
  then show ?thesis using assms(3)
    by (auto simp: settled_def requested_def run_register_run_of split: option.splits)
next
  case (outcome x err aborted ok foreach)
  obtain f where "run_record x err aborted ok foreach s = upd_run x f s"
    "\<And>st. mr_cancelRequested (f st) = mr_cancelRequested st" by (rule run_record_upd) blast
  with outcome assms(3) show ?thesis by (auto simp: settled_def requested_def)
next
  case (journal_status x status errMsg)
  obtain f where "run_of s' = (run_of s)(x \<mapsto> f)" "\<forall>st. run_of s x = Some st \<longrightarrow> mr_cancelRequested f = mr_cancelRequested st"
    using run_of_journal journal_status by metis
  then show ?thesis using assms(3) journal_status(1) by (auto simp: settled_def requested_def)
next
  case (pending_step a q b)
  show ?thesis
  proof (cases "q = CancelRun r")
    case True
    consider "over (ms_stage s r)" | "ms_stage s r = Some Live" | "ms_stage s r \<in> {Some Created, Some Bound}"
      using assms(4) by (cases "ms_stage s r") (auto simp: over_def elim: stage.exhaust intro: stage.exhaust)
    then show ?thesis
    proof cases
      case 1
      with True pending_step show ?thesis by (auto simp: settled_def cancelRun_run_of split: option.split)
    next
      case 2
      then have "r \<in> set (ms_cancels s)" "\<exists>x. run_of s r = Some x" using assms(2) by (auto simp: slot_inv_def)
      with True pending_step show ?thesis by (auto simp: settled_def cancelRun_run_of)
    next
      case 3
      then obtain x where "run_of s r = Some x" "\<not> mr_done x" "r \<notin> set (ms_cancels s)"
        using assms(2) by (auto simp: slot_inv_def)
      with True pending_step 3 show ?thesis by (auto simp: settled_def cancelRun_run_of requested_def)
    qed
  next
    case False
    with pending_step assms(3) show ?thesis
      by (cases q) (auto simp: settled_def cancelRun_run_of requested_def split: option.split)
  qed
qed (use assms(3) in \<open>auto simp: settled_def requested_def beginCall_def endCall_def run_clear_def run_close_def
    bindExec_def Let_def\<close>)

lemma stage_step:
  assumes "mcp_step s s'" and "ms_stage s r \<notin> {None, Some Created}"
  shows "ms_stage s' r \<notin> {None, Some Created}"
  using assms
proof (cases rule: mcp_step.cases)
  case (notification decode meth params)
  with assms(2) show ?thesis by (simp add: handleNotification_def Let_def split: option.split)
next
  case (bind x cid c)
  with assms(2) show ?thesis by (cases "x = []") (auto simp: bindRun_def bindRun_fields)
next
  case (register x)
  with assms(2) show ?thesis by (auto simp: run_register_run_of split: option.split)
next
  case (pending_step a q b)
  with assms(2) show ?thesis by (cases q) (auto simp: cancelRun_run_of split: option.split)
qed (use assms(2) in \<open>auto simp: beginCall_def endCall_def bindExec_def Let_def\<close>)

lemma calls_step:
  assumes "mcp_step s s'" and "ms_calls s' cid = Some c" and "cl_run c \<noteq> []" and "link_inv s"
  shows "(\<exists>c0. ms_calls s cid = Some c0 \<and> cl_run c0 = cl_run c \<and>
      (cl_cancelled c \<longrightarrow> cl_cancelled c0 \<or> CancelRun (cl_run c) \<in> set (ms_pend s'))) \<or>
    ms_stage s' (cl_run c) = Some Bound \<and> (cl_cancelled c \<longrightarrow> CancelRun (cl_run c) \<in> set (ms_pend s'))"
  using assms(1)
proof (cases rule: mcp_step.cases)
  case (begin_call i id0)
  with assms(2,3) show ?thesis by (auto simp: beginCall_def Let_def split: if_splits)
next
  case (notification decode meth params)
  show ?thesis
  proof (cases "s' = s")
    case False
    then obtain k where k: "s' = cancelInflight k s"
      using notification by (auto simp: handleNotification_def Let_def split: option.splits if_splits)
    show ?thesis using assms(2,3) unfolding k by (auto elim!: cancelInflight_call)
  qed (use assms(2) in blast)
next
  case (enter i c' r order s1)
  with assms(2) enter_fields [OF enter(5)] show ?thesis by auto
next
  case (bind r i c')
  have "r \<noteq> []" using bind(2) assms(4) by (auto simp: link_inv_def)
  with bind assms(2) show ?thesis by (cases "cid = i") (auto simp: bindRun_fields)
next
  case (register x)
  with assms(2) show ?thesis by (auto simp: run_register_run_of split: option.splits if_splits)
next
  case (pending_step a q b)
  with assms(2) show ?thesis by (cases q) (auto simp: cancelRun_run_of split: option.splits if_splits)
qed (use assms(2) in \<open>auto simp: endCall_def bindExec_def run_record_def run_clear_def run_close_def Let_def split: if_splits\<close>)

lemma calls_inv_step:
  assumes "mcp_step s s'" and "slot_inv s" and "link_inv s" and "calls_inv s"
  shows "calls_inv s'"
  unfolding calls_inv_def
proof (intro allI impI)
  fix cid c
  assume c: "ms_calls s' cid = Some c \<and> cl_run c \<noteq> []"
  from calls_step [OF assms(1) _ _ assms(3)] c consider
    (old) c0 where "ms_calls s cid = Some c0" "cl_run c0 = cl_run c"
      "cl_cancelled c \<longrightarrow> cl_cancelled c0 \<or> CancelRun (cl_run c) \<in> set (ms_pend s')"
  | (new) "ms_stage s' (cl_run c) = Some Bound" "cl_cancelled c \<longrightarrow> CancelRun (cl_run c) \<in> set (ms_pend s')" by blast
  then show "ms_stage s' (cl_run c) \<notin> {None, Some Created} \<and> (cl_cancelled c \<longrightarrow> settled s' (cl_run c))"
  proof cases
    case old
    with assms(4) c have st: "ms_stage s (cl_run c) \<notin> {None, Some Created}"
      and se: "cl_cancelled c0 \<Longrightarrow> settled s (cl_run c)" unfolding calls_inv_def by metis+
    have "settled s' (cl_run c)" if "cl_cancelled c"
      using old(3) that se settled_step [OF assms(1,2)] st by (auto simp: settled_def)
    with stage_step [OF assms(1) st] show ?thesis by blast
  next
    case new
    then show ?thesis by (auto simp: settled_def)
  qed
qed

lemma mcp_inv: "mcp_reach s \<Longrightarrow> slot_inv s \<and> link_inv s \<and> calls_inv s"
proof (induction rule: mcp_reach.induct)
  case start
  then show ?case by (simp add: inv_defs new_server_def)
next
  case (step s s')
  then show ?case using slot_step link_step calls_inv_step by blast
qed

section \<open>Properties\<close>

text \<open>The run is over or its context is cancelled, or it will cancel itself when it registers.\<close>

definition stopped :: "msrv \<Rightarrow> string \<Rightarrow> bool" where
  "stopped s r \<longleftrightarrow> over (ms_stage s r) \<or> RunCtx r \<in> set (ms_fired s) \<or>
     ms_stage s r \<in> {Some Created, Some Bound} \<and> requested s r"

lemma settled_drain: "mcp_reach s \<Longrightarrow> settled s r \<Longrightarrow> ms_stage s r \<noteq> None \<Longrightarrow> stopped (drain s) r"
proof (induction s rule: drain.induct)
  case (1 s)
  show ?case
  proof (cases "ms_pend s")
    case Nil
    with 1 show ?thesis by (auto simp: drain.simps [of s] stopped_def settled_def)
  next
    case (Cons q rest)
    let ?s = "perform q (s\<lparr>ms_pend := rest\<rparr>)"
    have step: "mcp_step s ?s" using mcp_step.pending_step [of s "[]" q rest] Cons by simp
    have "ms_stage ?s = ms_stage s" by (cases q) (simp_all add: cancelRun_run_of split: option.split)
    with 1 Cons settled_step [OF step _ 1(3,4)] mcp_inv [OF 1(2)] mcp_reach.step [OF 1(2) step]
    show ?thesis by (simp add: drain.simps [of s])
  qed
qed


text \<open>The request is cancelled before its run exists; the run is then started and bound.\<close>

definition early_cancel :: msrv where
  "early_cancel = handleNotification (\<lambda>_. Some ''7'') ''notifications/cancelled'' [] (beginCall 0 ''7'' new_server)"

definition early_call :: inflightCall where
  "early_call = \<lparr>cl_key = ''7'', cl_run = [], cl_exec = False, cl_cancelled = True\<rparr>"

definition early_entered :: msrv where
  "early_entered = (the (toolRun_enter [] ''r'' early_cancel))
     \<lparr>ms_stage := (ms_stage early_cancel)(''r'' \<mapsto> Created), ms_owner := (ms_owner early_cancel)(''r'' \<mapsto> 0)\<rparr>"

definition early_bound :: msrv where
  "early_bound = (bindRun 0 early_call ''r'' early_entered)\<lparr>ms_stage := (ms_stage early_entered)(''r'' \<mapsto> Bound)\<rparr>"

lemma key_7: "requestKey ''7'' = ''7''" by code_simp

lemmas early_defs = early_cancel_def early_call_def early_entered_def early_bound_def new_server_def beginCall_def
  handleNotification_def cancelInflight_def toolRun_enter_def bindRun_def key_7 Let_def

lemma early_facts:
  "ms_calls early_cancel 0 = Some early_call" "ms_stage early_cancel = Map.empty" "\<not> ms_running early_cancel"
  "ms_calls early_entered 0 = Some early_call" "ms_stage early_entered ''r'' = Some Created"
  "ms_owner early_entered ''r'' = Some 0" "ms_calls early_bound 0 = Some (early_call\<lparr>cl_run := ''r''\<rparr>)"
  "ms_pend early_bound = [CancelRun ''r'']"
  by (simp_all add: early_defs)

lemma early_reach: "mcp_reach early_bound"
proof -
  have "mcp_reach (beginCall 0 ''7'' new_server)"
    by (rule mcp_reach.step [OF mcp_reach.start mcp_step.begin_call]) (simp add: new_server_def)
  then have "mcp_reach early_cancel"
    unfolding early_cancel_def by (rule mcp_reach.step) (rule mcp_step.notification)
  then have "mcp_reach early_entered"
    unfolding early_entered_def
    by (rule mcp_reach.step, intro mcp_step.enter [of _ 0 early_call])
      (simp_all add: early_facts toolRun_enter_def)
  then show ?thesis
    unfolding early_bound_def by (rule mcp_reach.step) (rule mcp_step.bind, simp_all add: early_facts)
qed


text \<open>
  C29. One run at a time. Of all runs at most one is between its start and the release of the slot, and
  a new run is refused as busy exactly when there is one.
\<close>

theorem mcp_one_run:
  assumes "mcp_reach s"
  shows "(\<forall>r r'. holds_slot (ms_stage s r) \<and> holds_slot (ms_stage s r') \<longrightarrow> r = r') \<and>
    (toolRun_enter order new_id s = None \<longleftrightarrow> (\<exists>r. holds_slot (ms_stage s r)))"
proof -
  have "slot_inv s" using mcp_inv [OF assms] by blast
  then show ?thesis unfolding slot_inv_def toolRun_enter_def by (auto split: if_splits) blast
qed

theorem mcp_one_run_witness:
  "toolRun_enter [] ''q'' early_bound = None \<longleftrightarrow> (\<exists>r. holds_slot (ms_stage early_bound r))"
  using mcp_one_run [OF early_reach, of "[]" "''q''"] by blast

text \<open>
  A run that is known from its journal only is entered with a channel that nobody closes: its
  cancellation is accepted although the run is over, and pruning never drops it.
\<close>

lemma foreign_run_never_done:
  assumes "map_of (ms_runs s) r = None" and "r \<notin> set (ms_cancels s)"
  shows "fst (cancelRun r (recordRunStatus r ''done'' [] s)) = Noted"
    and "map_of (pruneRunsLocked order (ms_runs (recordRunStatus r ''done'' [] s))) r \<noteq> None"
proof -
  obtain st where "map_of (ms_runs (recordRunStatus r ''done'' [] s)) r = Some st" "\<not> mr_done st"
    using assms(1) by (simp add: recordRunStatus_def Let_def update_conv')
  with pruneRuns_keeps [OF this] assms(2)
  show "fst (cancelRun r (recordRunStatus r ''done'' [] s)) = Noted"
    and "map_of (pruneRunsLocked order (ms_runs (recordRunStatus r ''done'' [] s))) r \<noteq> None"
    by (simp_all add: cancelRun_def)
qed

end
