(* ===== verification/Mcp_Guard.thy ===== *)
theory Mcp_Guard
  imports Go_Path Go_Net Gate_Policy Plugin_Trust Valid_Run Plugin_Exec
begin

text \<open>
  What the MCP server lets an agent do: the roots of plugins and files (internal/mcp/security.go,
  engine.go), the safety check of a pipeline (pipeline.go), the conditions of a run (the head of
  \<open>toolRun\<close>, tools.go) and the execution of a plugin (\<open>toolExecPlugin\<close>, runs.go); references to
  installed plugins (internal/registry/registry.go). The file system is a parameter.
\<close>

section \<open>Real paths\<close>

datatype lstatRes = LPlain | LReparse | LMissing | LError

text \<open>
  \<open>filepath.Abs\<close>, \<open>os.Readlink\<close>, \<open>os.Lstat\<close>, \<open>filepath.EvalSymlinks\<close>, whether \<open>os.Stat\<close> finds a
  file, and the version in the lock file of an installed plugin.
\<close>

record fsView =
  fv_abs :: "string \<Rightarrow> string option"
  fv_readlink :: "string \<Rightarrow> string option"
  fv_lstat :: "string \<Rightarrow> lstatRes"
  fv_eval :: "string \<Rightarrow> string option"
  fv_stat :: "string \<Rightarrow> bool"
  fv_version :: "string \<Rightarrow> string option"

datatype walkRes = Redirect string | Resolved string | WalkError

text \<open>The inner loop, from a path, its elements reversed, up to the root.\<close>

fun walk_up :: "fsView \<Rightarrow> string list \<Rightarrow> string list \<Rightarrow> walkRes" where
  "walk_up fv es suffix =
     (let probe = path_of (rev es) in
      case fv_readlink fv probe of
        Some link \<Rightarrow>
          Redirect (Clean (foldl Join
            (if hasPrefix link ''/'' then link else Join (path_of (rev (tl es))) link) suffix))
      | None \<Rightarrow>
          if fv_lstat fv probe = LReparse \<or> fv_lstat fv probe = LError then WalkError
          else case fv_eval fv probe of
            Some r \<Rightarrow> Resolved (Clean (foldl Join r suffix))
          | None \<Rightarrow> (case es of [] \<Rightarrow> WalkError | e # up \<Rightarrow> walk_up fv up (e # suffix)))"

primrec follow_links :: "fsView \<Rightarrow> nat \<Rightarrow> string \<Rightarrow> string option" where
  "follow_links fv 0 current = None"
| "follow_links fv (Suc n) current =
     (case walk_up fv (rev (elems current)) [] of
        Redirect p \<Rightarrow> follow_links fv n p
      | Resolved r \<Rightarrow> Some r
      | WalkError \<Rightarrow> None)"

definition resolvePathForContainment :: "fsView \<Rightarrow> string \<Rightarrow> string option" where
  "resolvePathForContainment fv path =
     (case fv_abs fv path of None \<Rightarrow> None | Some current \<Rightarrow> follow_links fv 255 (Clean current))"

definition pathWithinRoot :: "fsView \<Rightarrow> string \<Rightarrow> string \<Rightarrow> bool" where
  "pathWithinRoot fv base path =
     (case (resolvePathForContainment fv base, resolvePathForContainment fv path) of
        (Some r, Some p) \<Rightarrow> \<not> leaves (Rel r p)
      | _ \<Rightarrow> False)"

section \<open>References to plugins\<close>

definition IsLocalRef :: "string \<Rightarrow> bool" where
  "IsLocalRef ref0 =
     (let ref = trimSpace ref0 in
      if IsBuiltinNamespace ref then True
      else if hasPrefix ref ''.'' \<or> hasPrefix ref ''/'' \<or> hasPrefix ref [backslash] then True
      else if length ref \<ge> 2 \<and> ref ! 1 = CHR '':'' then True
      else containsAny ref [CHR ''/'', backslash])"

fun last_index :: "char \<Rightarrow> string \<Rightarrow> nat option" where
  "last_index c [] = None"
| "last_index c (x # xs) =
     (case last_index c xs of Some i \<Rightarrow> Some (Suc i) | None \<Rightarrow> if x = c then Some 0 else None)"

definition SplitRef :: "string \<Rightarrow> string \<times> string" where
  "SplitRef ref =
     (case last_index CHR ''@'' ref of
        Some i \<Rightarrow> if i > 0 then (take i ref, drop (i + 1) ref) else (ref, [])
      | None \<Rightarrow> (ref, []))"

definition RefToDir :: "fsView \<Rightarrow> string \<Rightarrow> string \<Rightarrow> string option" where
  "RefToDir fv ref pluginsDir =
     (if IsBuiltinNamespace ref then None
      else if IsLocalRef ref then Some ref
      else
        let (name, ver) = SplitRef ref;
            candidates = [Join pluginsDir name, Join (Join pluginsDir ''official'') name,
                          Join (Join pluginsDir ''community'') name]
        in case find (\<lambda>c. fv_stat fv (Join c ''plugin.yaml'')) candidates of
             None \<Rightarrow> None
           | Some dir \<Rightarrow>
               if ver \<noteq> [] \<and> fv_version fv dir \<noteq> Some ver then None else Some dir)"

record multiEngine =
  me_dirs :: "string list"
  me_workDir :: string

datatype guardErr = OutsideRoot | UnknownBuiltin | NotInstalled | LoadFailed

definition pluginRoots :: "multiEngine \<Rightarrow> string list" where
  "pluginRoots m = me_dirs m @ (if me_workDir m \<noteq> [] then [me_workDir m] else [])"

definition pluginPathAllowed :: "fsView \<Rightarrow> multiEngine \<Rightarrow> string \<Rightarrow> bool" where
  "pluginPathAllowed fv m path = list_ex (\<lambda>base. pathWithinRoot fv base path) (pluginRoots m)"

definition checkPluginDir :: "fsView \<Rightarrow> multiEngine \<Rightarrow> string \<Rightarrow> guardErr option" where
  "checkPluginDir fv m path =
     (if nul \<in> set path then Some OutsideRoot
      else case fv_abs fv path of
        None \<Rightarrow> Some OutsideRoot
      | Some absp \<Rightarrow>
          if \<not> pluginPathAllowed fv m absp then Some OutsideRoot
          else case resolvePathForContainment fv absp of
            None \<Rightarrow> Some OutsideRoot
          | Some resolved \<Rightarrow>
              if \<not> pluginPathAllowed fv m resolved then Some OutsideRoot
              else
                let manifest = Join absp ''plugin.yaml'' in
                if fv_lstat fv manifest \<in> {LPlain, LReparse} \<and> \<not> pathWithinRoot fv absp manifest
                then Some OutsideRoot else None)"

definition local_path :: "multiEngine \<Rightarrow> string \<Rightarrow> string" where
  "local_path m ref =
     (if \<not> hasPrefix ref ''/'' \<and> \<not> hasPrefix ref [backslash] then Join (me_workDir m) ref else ref)"

fun ref_in_roots :: "fsView \<Rightarrow> multiEngine \<Rightarrow> string \<Rightarrow> string list \<Rightarrow> guardErr option \<Rightarrow> guardErr option" where
  "ref_in_roots fv m ref [] boundary = boundary"
| "ref_in_roots fv m ref (base # roots) boundary =
     (case RefToDir fv ref base of
        None \<Rightarrow> ref_in_roots fv m ref roots boundary
      | Some dir \<Rightarrow>
          (case checkPluginDir fv m dir of
             Some e \<Rightarrow> ref_in_roots fv m ref roots (Some e)
           | None \<Rightarrow> None))"

definition multi_checkPluginRef :: "fsView \<Rightarrow> multiEngine \<Rightarrow> string \<Rightarrow> guardErr option" where
  "multi_checkPluginRef fv m ref =
     (if contains ref ''..'' then Some OutsideRoot
      else if \<not> IsLocalRef ref then ref_in_roots fv m ref (pluginRoots m) None
      else checkPluginDir fv m (local_path m ref))"

text \<open>\<open>load\<close> is the engine of one directory.\<close>

definition loadLocal ::
  "fsView \<Rightarrow> (string \<Rightarrow> string \<Rightarrow> manifest option) \<Rightarrow> multiEngine \<Rightarrow> string \<Rightarrow> guardErr + manifest" where
  "loadLocal fv load m ref =
     (case fv_abs fv (local_path m ref) of
        None \<Rightarrow> Inl LoadFailed
      | Some path \<Rightarrow>
          (case checkPluginDir fv m path of
             Some e \<Rightarrow> Inl e
           | None \<Rightarrow> (case load (me_workDir m) path of None \<Rightarrow> Inl LoadFailed | Some mf \<Rightarrow> Inr mf)))"

text \<open>The directories in turn; an error of the roots outlives an error of the load.\<close>

fun load_from ::
  "fsView \<Rightarrow> (string \<Rightarrow> string \<Rightarrow> manifest option) \<Rightarrow> multiEngine \<Rightarrow> string \<Rightarrow> string list \<Rightarrow>
   guardErr \<Rightarrow> guardErr option \<Rightarrow> guardErr + manifest" where
  "load_from fv load m ref [] lastErr boundary =
     Inl (case boundary of Some e \<Rightarrow> e | None \<Rightarrow> lastErr)"
| "load_from fv load m ref (dir # dirs) lastErr boundary =
     (case RefToDir fv ref dir of
        None \<Rightarrow> load_from fv load m ref dirs NotInstalled boundary
      | Some candidate \<Rightarrow>
          (case checkPluginDir fv m candidate of
             Some e \<Rightarrow> load_from fv load m ref dirs lastErr (Some e)
           | None \<Rightarrow>
               (case load dir candidate of
                  Some mf \<Rightarrow> Inr mf
                | None \<Rightarrow> load_from fv load m ref dirs LoadFailed boundary)))"

definition multi_LoadManifest ::
  "fsView \<Rightarrow> (string \<Rightarrow> string \<Rightarrow> manifest option) \<Rightarrow> multiEngine \<Rightarrow> string \<Rightarrow> guardErr + manifest" where
  "multi_LoadManifest fv load m ref =
     (if IsBuiltin ref then Inr (zero_manifest\<lparr>m_id := ''core/human_gate'', m_version := PlatformAPI\<rparr>)
      else if IsBuiltinNamespace ref then Inl UnknownBuiltin
      else if IsLocalRef ref then
        (case multi_checkPluginRef fv m ref of Some e \<Rightarrow> Inl e | None \<Rightarrow> loadLocal fv load m ref)
      else load_from fv load m ref (me_dirs m @ [me_workDir m]) NotInstalled None)"

definition server_checkPluginRef :: "fsView \<Rightarrow> multiEngine \<Rightarrow> string \<Rightarrow> guardErr option" where
  "server_checkPluginRef fv m ref =
     (if IsBuiltin ref then None
      else if IsBuiltinNamespace ref then Some UnknownBuiltin
      else if contains ref ''..'' then Some OutsideRoot
      else multi_checkPluginRef fv m ref)"

definition checkPathInWorkdir :: "fsView \<Rightarrow> multiEngine \<Rightarrow> string \<Rightarrow> bool" where
  "checkPathInWorkdir fv m p =
     (if p = [] then True
      else if nul \<in> set p then False
      else case fv_abs fv (if hasPrefix p ''/'' then p else Join (me_workDir m) p) of
        None \<Rightarrow> False
      | Some absp \<Rightarrow> pathWithinRoot fv (me_workDir m) absp)"

section \<open>The safety of a pipeline\<close>

definition plain_host :: "string \<Rightarrow> string" where
  "plain_host h = toLower (trimSuffix (trimSpace h) ''.'')"

definition public_host :: "string \<Rightarrow> bool" where
  "public_host host \<longleftrightarrow> host \<noteq> [] \<and> host \<noteq> ''localhost'' \<and> \<not> hasSuffix host ''.localhost'' \<and> \<not> hasSuffix host ''.local'' \<and>
     (case ParseIP host of
        None \<Rightarrow> True
      | Some b \<Rightarrow> (let i = map word_of_nat b in
          \<not> (IsLoopback i \<or> IsPrivate i \<or> IsLinkLocalUnicast i \<or> IsLinkLocalMulticast i \<or> IsUnspecified i)))"

definition checkPluginNetwork :: "manifest \<Rightarrow> bool" where
  "checkPluginNetwork m \<longleftrightarrow>
     list_all (\<lambda>np. \<not> np_anyHost np \<and> public_host (plain_host (np_host np))) (m_network m)"

definition foreachInputKey :: "string \<Rightarrow> string \<Rightarrow> string" where
  "foreachInputKey foreach item = (if foreach = [] then [] else if item = [] then ''item'' else item)"

definition fileRefSourceDynamic :: "pipeline \<Rightarrow> step \<Rightarrow> string \<Rightarrow> bool" where
  "fileRefSourceDynamic p st source =
     (if \<not> hasPrefix source ''input.'' then True
      else
        let key = trimPrefix source ''input.'' in
        if key = [] \<or> CHR ''.'' \<in> set key then True
        else if p_foreach p \<noteq> [] \<and> key = foreachInputKey (p_foreach p) (p_foreachItem p) then True
        else if st_foreach st \<noteq> [] \<and> key = foreachInputKey (st_foreach st) (st_foreachItem st) then True
        else list_ex (\<lambda>s. st_foreach s \<noteq> [] \<and> key = foreachInputKey (st_foreach s) (st_foreachItem s)) (p_steps p))"

datatype safetyErr = NetDenied | FileUnchecked | FileOutside | PluginOutside

definition check_file_port :: "fsView \<Rightarrow> multiEngine \<Rightarrow> pipeline \<Rightarrow> step \<Rightarrow> string \<times> port \<Rightarrow> safetyErr option" where
  "check_file_port fv me p st np =
     (let (name, port) = np in
      if po_format port \<noteq> ''file_ref'' then None
      else
        let source = PortSource name port st in
        if fileRefSourceDynamic p st source then Some FileUnchecked
        else case map_of (p_input p) (trimPrefix source ''input.'') of
          None \<Rightarrow> None
        | Some (JStr value) \<Rightarrow> if checkPathInWorkdir fv me value then None else Some FileOutside
        | Some _ \<Rightarrow> Some FileUnchecked)"

definition first_some :: "('a \<Rightarrow> 'b option) \<Rightarrow> 'a list \<Rightarrow> 'b option" where
  "first_some f xs = foldr (\<lambda>x r. case f x of None \<Rightarrow> r | Some y \<Rightarrow> Some y) xs None"

lemma first_some_None [simp]: "first_some f xs = None \<longleftrightarrow> (\<forall>x \<in> set xs. f x = None)"
  by (induction xs) (auto simp: first_some_def split: option.split)

definition check_step_safety ::
  "fsView \<Rightarrow> (string \<Rightarrow> string \<Rightarrow> manifest option) \<Rightarrow> multiEngine \<Rightarrow> pipeline \<Rightarrow> step \<Rightarrow> safetyErr option" where
  "check_step_safety fv load me p st =
     (if IsBuiltin (st_plugin st) then None
      else case multi_LoadManifest fv load me (st_plugin st) of
        Inl OutsideRoot \<Rightarrow> Some PluginOutside
      | Inl _ \<Rightarrow> None
      | Inr m \<Rightarrow>
          if \<not> checkPluginNetwork m then Some NetDenied
          else first_some (check_file_port fv me p st) (m_input m))"

definition checkPipelineSafety ::
  "fsView \<Rightarrow> (string \<Rightarrow> string \<Rightarrow> manifest option) \<Rightarrow> multiEngine \<Rightarrow> pipeline \<Rightarrow> safetyErr option" where
  "checkPipelineSafety fv load me p = first_some (check_step_safety fv load me p) (p_steps p)"

section \<open>The conditions of a run\<close>

text \<open>Reading a file and decoding YAML are parameters; the text of a JSON argument.\<close>

definition str_arg :: "obj \<Rightarrow> string \<Rightarrow> string" where
  "str_arg args k = (case map_of args k of Some (JStr s) \<Rightarrow> s | _ \<Rightarrow> [])"

datatype loadErr = BothGiven | NoneGiven | PathOutside | ReadFailed | ParseFailed | BadRef guardErr | Unsafe safetyErr

definition loadPipeline ::
  "(string \<Rightarrow> string option) \<Rightarrow> (string \<Rightarrow> pipelineFile option) \<Rightarrow> fsView \<Rightarrow> (string \<Rightarrow> string \<Rightarrow> manifest option) \<Rightarrow>
   multiEngine \<Rightarrow> obj \<Rightarrow> loadErr + pipelineFile" where
  "loadPipeline rd parse fv load me args =
     (let yaml = str_arg args ''yaml''; path = str_arg args ''path'' in
      if yaml \<noteq> [] \<and> path \<noteq> [] then Inl BothGiven
      else
        let raw = (if path \<noteq> [] then
                     (if \<not> checkPathInWorkdir fv me path then Inl PathOutside
                      else case rd (if hasPrefix path ''/'' then path else Join (me_workDir me) path) of
                        None \<Rightarrow> Inl ReadFailed | Some r \<Rightarrow> Inr r)
                   else if yaml \<noteq> [] then Inr yaml else Inl NoneGiven)
        in case raw of
          Inl e \<Rightarrow> Inl e
        | Inr text \<Rightarrow>
            (case parse text of
               None \<Rightarrow> Inl ParseFailed
             | Some pf \<Rightarrow>
                 (case first_some (\<lambda>st. server_checkPluginRef fv me (st_plugin st)) (p_steps (pf_pipeline pf)) of
                    Some e \<Rightarrow> Inl (BadRef e)
                  | None \<Rightarrow>
                      (case checkPipelineSafety fv load me (pf_pipeline pf) of
                         Some e \<Rightarrow> Inl (Unsafe e)
                       | None \<Rightarrow> Inr pf))))"

definition maxWaitSeconds :: rat where "maxWaitSeconds = 300"

text \<open>The console, elicitation, the bypass flag and whether its record reached the disk.\<close>

record runSwitches =
  rw_human :: bool
  rw_elicit :: bool
  rw_allowUngated :: bool
  rw_bypassLogged :: bool

datatype runDecision = LoadError loadErr | Invalid "issue list" | BadWait | SecretsMissing "string list"
  | GateRequired gateRequirement | NoHumanChannel | Start pipelineFile rat bool

definition engine_of :: "fsView \<Rightarrow> (string \<Rightarrow> string \<Rightarrow> manifest option) \<Rightarrow> multiEngine \<Rightarrow> string \<Rightarrow> manifest option" where
  "engine_of fv load me ref = (case multi_LoadManifest fv load me ref of Inl _ \<Rightarrow> None | Inr m \<Rightarrow> Some m)"

definition wait_arg :: "obj \<Rightarrow> rat option" where
  "wait_arg args =
     (case map_of args ''wait_seconds'' of
        Some (JFloat f) \<Rightarrow>
          (case f of Fin w \<Rightarrow> if w < 0 \<or> maxWaitSeconds < w then None else Some w | _ \<Rightarrow> None)
      | _ \<Rightarrow> Some 0)"

text \<open>\<open>toolRun\<close> up to the creation of the run; the last component of \<open>Start\<close>: it bypasses the gate.\<close>

definition toolRun_decide ::
  "(string \<Rightarrow> string option) \<Rightarrow> (string \<Rightarrow> pipelineFile option) \<Rightarrow> fsView \<Rightarrow> (string \<Rightarrow> string \<Rightarrow> manifest option) \<Rightarrow>
   multiEngine \<Rightarrow> vworld \<Rightarrow> runSwitches \<Rightarrow> obj \<Rightarrow> runDecision" where
  "toolRun_decide rd parse fv load me vw sw args =
     (case loadPipeline rd parse fv load me args of
        Inl e \<Rightarrow> LoadError e
      | Inr pf \<Rightarrow>
          let issues = ValidateIssues (vw\<lparr>vw_load := engine_of fv load me\<rparr>) pf; p = pf_pipeline pf in
          if fst (SplitIssues issues) \<noteq> [] then Invalid issues
          else case wait_arg args of
            None \<Rightarrow> BadWait
          | Some w \<Rightarrow>
              let missing = filter (\<lambda>k. vw_env vw k = []) (p_secrets p) in
              if missing \<noteq> [] then SecretsMissing missing
              else
                let req = EvaluateGateApproval (Some pf) (Some (engine_of fv load me)) in
                if gr_required req \<and> \<not> (rw_allowUngated sw \<and> rw_bypassLogged sw) then GateRequired req
                else if list_ex (\<lambda>st. IsHumanGate (st_plugin st)) (p_steps p) \<and> \<not> rw_human sw \<and> \<not> rw_elicit sw
                then NoHumanChannel
                else Start pf w (gr_required req))"

section \<open>exec_plugin\<close>

definition MaxConcurrentAgentExec :: nat where "MaxConcurrentAgentExec = 4"
definition maxAgentExecTimeout :: rat where "maxAgentExecTimeout = 300"

text \<open>The semaphore is the number of slots taken.\<close>

definition acquireExecSlot :: "nat \<Rightarrow> nat option" where
  "acquireExecSlot used = (if used < MaxConcurrentAgentExec then Some (used + 1) else None)"

definition releaseExecSlot :: "nat \<Rightarrow> nat" where "releaseExecSlot used = used - 1"

definition timeout_arg :: "obj \<Rightarrow> rat option" where
  "timeout_arg args =
     (case map_of args ''timeout_seconds'' of
        None \<Rightarrow> Some 60
      | Some (JFloat f) \<Rightarrow>
          (case f of Fin t \<Rightarrow> if t \<le> 0 \<or> maxAgentExecTimeout < t then None else Some t | _ \<Rightarrow> None)
      | Some _ \<Rightarrow> None)"

text \<open>
  The effects in their order: the record of the intent (with whether the plugin counts as untrusted),
  the execution, the record of the outcome.
\<close>

datatype execEvent = IntentLogged string bool | Executed manifest rat | OutcomeLogged string

datatype execReply = ExecDenied string | ExecFailed string | ExecBreach contractError | ExecOutput obj "string list"

definition toolExecPlugin ::
  "trustWorld \<Rightarrow> trustPolicy \<Rightarrow> bool \<Rightarrow> osrun \<Rightarrow> fsView \<Rightarrow> (string \<Rightarrow> string \<Rightarrow> manifest option) \<Rightarrow> multiEngine \<Rightarrow>
   (execEvent \<Rightarrow> bool) \<Rightarrow> nat \<Rightarrow> obj \<Rightarrow> execEvent list \<times> execReply" where
  "toolExecPlugin tw policy agentCanExec os fv load me logged used args =
     (if \<not> agentCanExec then ([], ExecDenied ''E_AGENT_EXEC_DENIED'')
      else case acquireExecSlot used of
        None \<Rightarrow> ([], ExecDenied ''E_AGENT_EXEC_BUSY'')
      | Some _ \<Rightarrow>
          let ref = str_arg args ''plugin'' in
          if ref = [] then ([], ExecDenied [])
          else if server_checkPluginRef fv me ref \<noteq> None then ([], ExecDenied ''E_PLUGIN_OUTSIDE_ROOT'')
          else case multi_LoadManifest fv load me ref of
            Inl _ \<Rightarrow> ([], ExecDenied [])
          | Inr m \<Rightarrow>
              if \<not> checkPluginNetwork m then ([], ExecDenied ''E_NETWORK_DENIED'')
              else if IsAgentWrittenPlugin (Some m) \<and> \<not> tp_allow policy
              then ([], ExecDenied ''E_AGENT_PLUGIN_UNTRUSTED'')
              else if Dangerous (ManifestCapabilities (Some m))
              then ([], ExecDenied ''E_AGENT_EXEC_CAPABILITIES'')
              else case timeout_arg args of
                None \<Rightarrow> ([], ExecDenied [])
              | Some t \<Rightarrow>
                  let intent = IntentLogged ref (\<not> IsTrusted tw (Some m) policy) in
                  if \<not> logged intent then ([], ExecDenied ''E_AGENT_EXEC_AUDIT'')
                  else
                    let res = execPluginEnv tw policy os m [''FIDESPIPE_NETWORK=deny''];
                        outcome = OutcomeLogged ref;
                        done = [intent, Executed m t] in
                    if \<not> logged outcome then (done, ExecDenied ''E_AGENT_EXEC_AUDIT'')
                    else (done @ [outcome],
                      if er_platform res \<or> er_exitCode res \<noteq> 0 then ExecFailed (er_errCode res)
                      else case EnforceOutput m (er_output res) of
                        (Inl e, _) \<Rightarrow> ExecBreach e
                      | (Inr out, dropped) \<Rightarrow> ExecOutput out dropped))"

section \<open>Lemmas\<close>

text \<open>The real path of one path lies below the real path of the other.\<close>

definition inside :: "fsView \<Rightarrow> string \<Rightarrow> string \<Rightarrow> bool" where
  "inside fv base path \<longleftrightarrow> (\<exists>r p rest. resolvePathForContainment fv base = Some r \<and>
     resolvePathForContainment fv path = Some p \<and> elems p = elems r @ rest)"

text \<open>A manifest came from a directory inside a root, and so did its file.\<close>

definition loaded_inside :: "fsView \<Rightarrow> (string \<Rightarrow> string \<Rightarrow> manifest option) \<Rightarrow> multiEngine \<Rightarrow> manifest \<Rightarrow> bool" where
  "loaded_inside fv load me m \<longleftrightarrow> (\<exists>d dir p base. load d dir = Some m \<and> base \<in> set (pluginRoots me) \<and>
     fv_abs fv dir = Some p \<and> inside fv base p \<and>
     (fv_lstat fv (Join p ''plugin.yaml'') \<in> {LPlain, LReparse} \<longrightarrow> inside fv p (Join p ''plugin.yaml'')))"

lemma pathWithinRoot_inside: "pathWithinRoot fv base path \<Longrightarrow> inside fv base path"
  by (auto simp: pathWithinRoot_def inside_def dest: Rel_inside split: option.splits)

lemma checkPluginDir_inside:
  assumes "checkPluginDir fv me dir = None"
  obtains p base where "fv_abs fv dir = Some p" "base \<in> set (pluginRoots me)" "inside fv base p"
    "fv_lstat fv (Join p ''plugin.yaml'') \<in> {LPlain, LReparse} \<longrightarrow> inside fv p (Join p ''plugin.yaml'')"
proof -
  from assms obtain p where "fv_abs fv dir = Some p" "pluginPathAllowed fv me p"
    "fv_lstat fv (Join p ''plugin.yaml'') \<in> {LPlain, LReparse} \<longrightarrow> pathWithinRoot fv p (Join p ''plugin.yaml'')"
    by (auto simp: checkPluginDir_def Let_def split: option.splits if_splits)
  with that pathWithinRoot_inside show ?thesis by (auto simp: pluginPathAllowed_def list_ex_iff)
qed

lemma checked_load_inside: "checkPluginDir fv me dir = None \<Longrightarrow> load d dir = Some m \<Longrightarrow> loaded_inside fv load me m"
  unfolding loaded_inside_def by (elim checkPluginDir_inside) blast

lemma load_from_inside: "load_from fv load me ref dirs e b = Inr m \<Longrightarrow> loaded_inside fv load me m"
proof (induction fv load me ref dirs e b rule: load_from.induct)
  case (2 fv load me ref dir dirs lastErr boundary)
  then show ?case by (auto intro: checked_load_inside split: option.splits)
qed simp

lemma LoadManifest_inside:
  assumes "multi_LoadManifest fv load me ref = Inr m" and "\<not> IsBuiltin ref"
  shows "loaded_inside fv load me m"
  using assms
  by (auto simp: multi_LoadManifest_def loadLocal_def intro: load_from_inside checked_load_inside
      split: if_splits option.splits)

lemma engine_of_Some: "engine_of fv load me ref = Some m \<longleftrightarrow> multi_LoadManifest fv load me ref = Inr m"
  by (auto simp: engine_of_def split: sum.split)

text \<open>What the safety check leaves of a step.\<close>

definition file_inside :: "fsView \<Rightarrow> multiEngine \<Rightarrow> json \<Rightarrow> bool" where
  "file_inside fv me v \<longleftrightarrow> (\<exists>s. v = JStr s \<and> (s = [] \<or>
     (\<exists>p. fv_abs fv (if hasPrefix s ''/'' then s else Join (me_workDir me) s) = Some p \<and> inside fv (me_workDir me) p)))"

lemma workdir_inside: "checkPathInWorkdir fv me s \<Longrightarrow> file_inside fv me (JStr s)"
  by (auto simp: checkPathInWorkdir_def file_inside_def intro: pathWithinRoot_inside split: if_splits option.splits)

lemma file_port_inside:
  assumes "check_file_port fv me p st (name, port) = None" and "po_format port = ''file_ref''"
  shows "\<not> fileRefSourceDynamic p st (PortSource name port st) \<and>
    (\<forall>v. map_of (p_input p) (trimPrefix (PortSource name port st) ''input.'') = Some v \<longrightarrow> file_inside fv me v)"
  using assms
  by (auto simp: check_file_port_def Let_def intro: workdir_inside split: if_splits option.splits json.splits)

section \<open>Properties\<close>

text \<open>
  C26. What a run of an agent may touch. \<open>run_pipeline\<close> starts a run only of a valid pipeline with its
  secrets present, a wait within bounds, and either an effective gate above every dangerous step or
  a bypass that the operator allowed and that was recorded; with a channel to a person when it has a
  gate. Every plugin was loaded from inside the roots, declares only public hosts, and takes a file
  only from a fixed input whose value lies inside the working directory.
\<close>

theorem mcp_run_guarded:
  assumes "toolRun_decide rd parse fv load me vw sw args = Start pf w bypass"
  shows "valid (vw\<lparr>vw_load := engine_of fv load me\<rparr>) pf \<and> (\<forall>k \<in> set (p_secrets (pf_pipeline pf)). vw_env vw k \<noteq> []) \<and>
    0 \<le> w \<and> w \<le> 300 \<and> (bypass \<longrightarrow> rw_allowUngated sw \<and> rw_bypassLogged sw) \<and>
    (\<not> bypass \<longrightarrow> (\<forall>i < length (p_steps (pf_pipeline pf)).
       dangerous_step (Some (engine_of fv load me)) (p_steps (pf_pipeline pf) ! i) \<longrightarrow>
       (\<exists>g \<in> set (take i (p_steps (pf_pipeline pf))). effective_gate (pf_pipeline pf) g (p_steps (pf_pipeline pf) ! i)))) \<and>
    ((\<exists>st \<in> set (p_steps (pf_pipeline pf)). IsHumanGate (st_plugin st)) \<longrightarrow> rw_human sw \<or> rw_elicit sw) \<and>
    (\<forall>st \<in> set (p_steps (pf_pipeline pf)). IsBuiltin (st_plugin st) \<or>
      (\<exists>m. multi_LoadManifest fv load me (st_plugin st) = Inr m \<and> loaded_inside fv load me m \<and> checkPluginNetwork m \<and>
        (\<forall>(name, port) \<in> set (m_input m). po_format port = ''file_ref'' \<longrightarrow>
          \<not> fileRefSourceDynamic (pf_pipeline pf) st (PortSource name port st) \<and>
          (\<forall>v. map_of (p_input (pf_pipeline pf)) (trimPrefix (PortSource name port st) ''input.'') = Some v \<longrightarrow>
             file_inside fv me v))))"
proof -
  let ?p = "pf_pipeline pf" and ?eng = "engine_of fv load me"
  have load: "loadPipeline rd parse fv load me args = Inr pf" and issues: "fst (SplitIssues (ValidateIssues (vw\<lparr>vw_load := ?eng\<rparr>) pf)) = []"
    and wait: "wait_arg args = Some w" and sec: "filter (\<lambda>k. vw_env vw k = []) (p_secrets ?p) = []"
    and gate: "bypass = gr_required (EvaluateGateApproval (Some pf) (Some ?eng))" "bypass \<longrightarrow> rw_allowUngated sw \<and> rw_bypassLogged sw"
    and human: "list_ex (\<lambda>st. IsHumanGate (st_plugin st)) (p_steps ?p) \<longrightarrow> rw_human sw \<or> rw_elicit sw"
    using assms by (auto simp: toolRun_decide_def Let_def split: sum.splits option.splits if_splits)
  have v: "valid (vw\<lparr>vw_load := ?eng\<rparr>) pf"
    using issues by (auto simp: valid_def no_errors_def SplitIssues_def filter_empty_conv list_all_iff)
  have w: "0 \<le> w" "w \<le> 300" using wait
    by (auto simp: wait_arg_def maxWaitSeconds_def not_less split: option.splits json.splits f64.splits if_splits)
  have safe: "\<forall>st \<in> set (p_steps ?p). check_step_safety fv load me ?p st = None"
    using load by (auto simp: loadPipeline_def checkPipelineSafety_def Let_def split: sum.splits option.splits if_splits)
  have "\<exists>m. multi_LoadManifest fv load me (st_plugin st) = Inr m \<and> loaded_inside fv load me m \<and> checkPluginNetwork m \<and>
      (\<forall>(name, port) \<in> set (m_input m). po_format port = ''file_ref'' \<longrightarrow>
        \<not> fileRefSourceDynamic ?p st (PortSource name port st) \<and>
        (\<forall>v. map_of (p_input ?p) (trimPrefix (PortSource name port st) ''input.'') = Some v \<longrightarrow> file_inside fv me v))"
    if st: "st \<in> set (p_steps ?p)" "\<not> IsBuiltin (st_plugin st)" for st
  proof -
    obtain m where m: "multi_LoadManifest fv load me (st_plugin st) = Inr m"
      using valid_step_network [OF v st] by (auto simp: engine_of_Some)
    with safe st have c: "checkPluginNetwork m" "\<forall>np \<in> set (m_input m). check_file_port fv me ?p st np = None"
      by (auto simp: check_step_safety_def split: if_splits)
    with m LoadManifest_inside [OF m st(2)] file_port_inside show ?thesis by fastforce
  qed
  with v w sec gate human show ?thesis
    by (simp add: filter_empty_conv list_ex_iff EvaluateGateApproval_def eval_steps_ok_iff) blast
qed

text \<open>
  C27. An agent executes harmless plugins only. When \<open>exec_plugin\<close> executes a plugin, the operator
  allows it, a slot is free, the time limit is within bounds, the intent has reached the disk before,
  and the plugin was loaded from inside the roots, declares neither network nor secrets nor writing,
  and is not one an agent wrote unless untrusted plugins are allowed.
\<close>

theorem mcp_exec_contained:
  assumes "toolExecPlugin tw policy agentCanExec os fv load me logged used args = (evs, reply)"
    and "Executed m t \<in> set evs"
  shows "agentCanExec \<and> used < 4 \<and> 0 < t \<and> t \<le> 300 \<and>
    (\<exists>intent rest. evs = intent # Executed m t # rest \<and> logged intent \<and>
       intent = IntentLogged (str_arg args ''plugin'') (\<not> IsTrusted tw (Some m) policy)) \<and>
    (IsBuiltin (str_arg args ''plugin'') \<or> loaded_inside fv load me m) \<and>
    m_network m = [] \<and> m_secrets m = [] \<and> \<not> FilesystemWrites (m_filesystem m) \<and>
    (IsAgentWrittenPlugin (Some m) \<longrightarrow> tp_allow policy)"
proof -
  let ?ref = "str_arg args ''plugin''"
  from assms obtain m' t' where m': "multi_LoadManifest fv load me ?ref = Inr m'"
      "\<not> Dangerous (ManifestCapabilities (Some m'))" "agentCanExec" "used < 4"
      "IsAgentWrittenPlugin (Some m') \<longrightarrow> tp_allow policy" "timeout_arg args = Some t'"
      "logged (IntentLogged ?ref (\<not> IsTrusted tw (Some m') policy))"
      "\<exists>rest. evs = IntentLogged ?ref (\<not> IsTrusted tw (Some m') policy) # Executed m' t' # rest \<and>
         (rest = [] \<or> rest = [OutcomeLogged ?ref])"
    by (auto simp: toolExecPlugin_def acquireExecSlot_def MaxConcurrentAgentExec_def Let_def
        split: if_splits option.splits sum.splits)
  with assms(2) have "m = m'" "t = t'" by auto
  moreover have "0 < t' \<and> t' \<le> 300" using m'(6)
    by (auto simp: timeout_arg_def maxAgentExecTimeout_def not_less not_le
        split: option.splits json.splits f64.splits if_splits)
  moreover have "m_network m' = [] \<and> m_secrets m' = [] \<and> \<not> FilesystemWrites (m_filesystem m')"
    using m'(2) by (simp add: Dangerous_def ManifestCapabilities_def)
  ultimately show ?thesis using m' LoadManifest_inside [OF m'(1)] by blast
qed

text \<open>A host without links, one installed plugin that reads a file, and a pipeline of one step.\<close>

definition plain_fs :: fsView where
  "plain_fs = \<lparr>fv_abs = (\<lambda>p. Some p), fv_readlink = (\<lambda>_. None), fv_lstat = (\<lambda>_. LPlain), fv_eval = (\<lambda>p. Some p),
     fv_stat = (\<lambda>p. p = ''/srv/plugins/reader/plugin.yaml''), fv_version = (\<lambda>_. None)\<rparr>"

definition srv_engine :: multiEngine where
  "srv_engine = \<lparr>me_dirs = [''/srv/plugins''], me_workDir = ''/srv''\<rparr>"

definition reader_manifest :: manifest where
  "reader_manifest = zero_manifest\<lparr>m_id := ''reader'', m_rtType := ''python'', m_entry := ''main.py'',
     m_dir := ''/srv/plugins/reader'',
     m_input := [(''doc'', \<lparr>po_from = [], po_type = ''string'', po_format = ''file_ref'', po_optional = False\<rparr>)]\<rparr>"

definition srv_load :: "string \<Rightarrow> string \<Rightarrow> manifest option" where
  "srv_load d dir = (if dir = ''/srv/plugins/reader'' then Some reader_manifest else None)"

definition reader_file :: pipelineFile where
  "reader_file = \<lparr>pf_formatVersion = ''0.2'', pf_pipeline = zero_pipeline\<lparr>p_input := [(''doc'', JStr ''docs/a.txt'')],
     p_steps := [zero_step\<lparr>st_id := ''r'', st_plugin := ''reader'', st_bind := [(''doc'', ''input.doc'')]\<rparr>]\<rparr>\<rparr>"

definition no_switches :: runSwitches where
  "no_switches = \<lparr>rw_human = False, rw_elicit = False, rw_allowUngated = False, rw_bypassLogged = False\<rparr>"

lemma reader_starts:
  "toolRun_decide (\<lambda>_. None) (\<lambda>t. if t = ''y'' then Some reader_file else None) plain_fs srv_load srv_engine sib_world
     no_switches [(''yaml'', JStr ''y''), (''wait_seconds'', JFloat (Fin 5))] = Start reader_file 5 False"
  by code_simp

theorem mcp_run_guarded_witness:
  "valid (sib_world\<lparr>vw_load := engine_of plain_fs srv_load srv_engine\<rparr>) reader_file \<and>
   (0 :: rat) \<le> 5 \<and> (5 :: rat) \<le> 300"
  using mcp_run_guarded [OF reader_starts] by blast

lemma reader_executes:
  "toolExecPlugin demo_tw \<lparr>tp_deny = False, tp_allow = True, tp_trusted = None\<rparr> True demo_os plain_fs srv_load srv_engine
     (\<lambda>_. True) 3 [(''plugin'', JStr ''reader'')] =
   ([IntentLogged ''reader'' True, Executed reader_manifest 60, OutcomeLogged ''reader''], ExecOutput [] [])"
  by code_simp

theorem mcp_exec_contained_witness:
  "loaded_inside plain_fs srv_load srv_engine reader_manifest \<and> m_network reader_manifest = []"
proof -
  have "\<not> IsBuiltin (str_arg [(''plugin'', JStr ''reader'')] ''plugin'')" by code_simp
  then show ?thesis using mcp_exec_contained [OF reader_executes, of reader_manifest 60] by simp
qed

end
