(* ===== verification/Toml.thy ===== *)
theory Toml
  imports Plugin_Contract "HOL-Library.Word"
begin

text \<open>
  The reader of the TOML subset a donor project is imported from (internal/importer/toml.go). The
  scanner is the rest of the text with the line number; an error is a constructor with its line.
\<close>

section \<open>Values\<close>

datatype tomlValue =
    TString string
  | TNumber string
  | TBool string
  | TArray "tomlValue list"
  | TInline "(string \<times> tomlValue) list"

datatype tomlErr =
    Unclosed nat | RawNewline nat | ControlChar nat | BadEscape nat | EscapeEnd nat | BadRune nat | NoValue nat
  | BadValue nat | BadBool nat | BadNumber nat | UnclosedArray nat | ArraySep nat | UnclosedTable nat
  | TableNewline nat | TableEq nat | TableSep nat | NoKey nat | NoEq nat | Trailing nat | ArrayOfTables nat
  | HeaderEnd nat | DupKey nat string | IsTable nat string | IsValue nat string | DupTable nat string
  | WrongKind nat string | OutOfFuel

type_synonym scan = "string \<times> nat"

section \<open>The scanner\<close>

definition lf :: char where "lf = CHR 0x0A"
definition cr :: char where "cr = CHR 0x0D"
definition tab :: char where "tab = CHR 0x09"

text \<open>At the end of the text the byte 0 is seen.\<close>

definition peekAt :: "string \<Rightarrow> nat \<Rightarrow> char" where
  "peekAt s n = (if n < length s then s ! n else CHR 0x00)"

definition newScanner :: "string \<Rightarrow> scan" where
  "newScanner src = (trimPrefix src [CHR 0xEF, CHR 0xBB, CHR 0xBF], 1)"

definition skipSpaces :: "string \<Rightarrow> string" where
  "skipSpaces = dropWhile (\<lambda>c. c = CHR '' '' \<or> c = tab)"

definition skipComment :: "string \<Rightarrow> string" where
  "skipComment = dropWhile (\<lambda>c. c \<noteq> lf)"

lemma skip_shorter [termination_simp]:
  "length (skipSpaces s) \<le> length s" "length (skipComment s) \<le> length s"
  by (simp_all add: skipSpaces_def skipComment_def length_dropWhile_le)

lemma skip_lt [termination_simp]: "length (skipComment s) < Suc (length s)"
  by (simp add: less_Suc_eq_le skip_shorter)

definition blank :: "char \<Rightarrow> bool" where
  "blank c \<longleftrightarrow> c = CHR '' '' \<or> c = tab \<or> c = lf \<or> c = cr"

fun skipToNextStatement :: "string \<Rightarrow> nat \<Rightarrow> scan" where
  "skipToNextStatement [] l = ([], l)"
| "skipToNextStatement (c # r) l =
     (if blank c then skipToNextStatement r (if c = lf then l + 1 else l)
      else if c = CHR ''#'' then skipToNextStatement (skipComment r) l
      else (c # r, l))"

definition skipArrayFiller :: "string \<Rightarrow> nat \<Rightarrow> scan" where
  "skipArrayFiller = skipToNextStatement"

definition endOfStatement :: "string \<Rightarrow> nat \<Rightarrow> tomlErr + scan" where
  "endOfStatement s0 l =
     (case skipSpaces s0 of
        [] \<Rightarrow> Inr ([], l)
      | c # r \<Rightarrow>
          if c = CHR ''#'' then Inr (skipComment r, l)
          else if c = cr then (case r of [] \<Rightarrow> Inr ([], l) | d # r' \<Rightarrow> if d = lf then Inr (r', l + 1) else Inl (Trailing l))
          else if c = lf then Inr (r, l + 1)
          else Inl (Trailing l))"

section \<open>Strings\<close>

definition hexDigit :: "char \<Rightarrow> nat option" where
  "hexDigit c =
     (let n = of_char c in
      if 48 \<le> n \<and> n \<le> 57 then Some (n - 48)
      else if 97 \<le> n \<and> n \<le> 102 then Some (n - 97 + 10)
      else if 65 \<le> n \<and> n \<le> 70 then Some (n - 65 + 10)
      else None)"

text \<open>A \<open>rune\<close> is an \<open>int32\<close>; what is no code point is written as U+FFFD.\<close>

type_synonym rune = "32 word"

definition utf8 :: "rune \<Rightarrow> string" where
  "utf8 r =
     (let n = unat r; b = (\<lambda>k. char_of (k :: nat)) in
      if n \<le> 0x7F then [b n]
      else if n \<le> 0x7FF then [b (0xC0 + n div 64), b (0x80 + n mod 64)]
      else if n > 0x10FFFF \<or> 0xD800 \<le> n \<and> n \<le> 0xDFFF then [b 0xEF, b 0xBF, b 0xBD]
      else if n \<le> 0xFFFF then [b (0xE0 + n div 4096), b (0x80 + n div 64 mod 64), b (0x80 + n mod 64)]
      else [b (0xF0 + n div 262144), b (0x80 + n div 4096 mod 64), b (0x80 + n div 64 mod 64), b (0x80 + n mod 64)])"

primrec hex_digits :: "nat \<Rightarrow> nat \<Rightarrow> rune \<Rightarrow> string \<Rightarrow> tomlErr + (rune \<times> string)" where
  "hex_digits 0 line r s = Inr (r, s)"
| "hex_digits (Suc n) line r s =
     (case s of
        [] \<Rightarrow> Inl (EscapeEnd line)
      | c # s' \<Rightarrow>
          (case hexDigit c of
             None \<Rightarrow> Inl (BadEscape line)
           | Some d \<Rightarrow> hex_digits n line (r * 16 + of_nat d) s'))"

definition readUnicodeEscape :: "nat \<Rightarrow> nat \<Rightarrow> string \<Rightarrow> tomlErr + (string \<times> string)" where
  "readUnicodeEscape digits line s =
     (case hex_digits digits line 0 s of
        Inl e \<Rightarrow> Inl e
      | Inr (r, s') \<Rightarrow>
          if sint r > 0x10FFFF \<or> sint r \<ge> 0xD800 \<and> sint r \<le> 0xDFFF then Inl (BadRune line)
          else Inr (utf8 r, s'))"

fun skip_fold :: "string \<Rightarrow> nat \<Rightarrow> scan" where
  "skip_fold [] l = ([], l)"
| "skip_fold (c # r) l = (if blank c then skip_fold r (if c = lf then l + 1 else l) else (c # r, l))"

text \<open>After the backslash: what is written, and the scanner.\<close>

definition readEscape :: "bool \<Rightarrow> string \<Rightarrow> nat \<Rightarrow> tomlErr + (string \<times> scan)" where
  "readEscape multiline s line =
     (case s of
        [] \<Rightarrow> Inl (Unclosed line)
      | c # r \<Rightarrow>
          if c = CHR ''b'' then Inr ([CHR 0x08], r, line)
          else if c = CHR ''t'' then Inr ([tab], r, line)
          else if c = CHR ''n'' then Inr ([lf], r, line)
          else if c = CHR ''f'' then Inr ([CHR 0x0C], r, line)
          else if c = CHR ''r'' then Inr ([cr], r, line)
          else if c = CHR 0x22 \<or> c = CHR 0x27 \<or> c = CHR 0x5C then Inr ([c], r, line)
          else if c = CHR ''u'' then map_sum id (\<lambda>(w, r'). (w, r', line)) (readUnicodeEscape 4 line r)
          else if c = CHR ''U'' then map_sum id (\<lambda>(w, r'). (w, r', line)) (readUnicodeEscape 8 line r)
          else if c = lf \<or> c = cr then
            (if \<not> multiline then Inl (BadEscape line)
             else Inr ([], skip_fold r (if c = lf then line + 1 else line)))
          else Inl (BadEscape line))"

lemma hex_digits_length: "hex_digits n line r s = Inr (x, s') \<Longrightarrow> length s' \<le> length s"
proof (induction n arbitrary: r s)
  case (Suc n)
  then show ?case by (fastforce split: list.splits option.splits)
qed simp

lemma skip_fold_length: "length (fst (skip_fold s l)) \<le> length s"
  by (induction s l rule: skip_fold.induct) auto

lemma readEscape_shorter [termination_simp]:
  assumes "readEscape m s l = Inr (w, s', l')"
  shows "length s' < length s"
proof (cases s)
  case (Cons c r)
  have "length (fst (skip_fold r k)) \<le> length r" for k by (rule skip_fold_length)
  then show ?thesis using assms Cons
    by (auto simp: readEscape_def readUnicodeEscape_def less_Suc_eq_le dest!: hex_digits_length
        split: if_splits sum.splits prod.splits) (metis fst_conv)+
qed (use assms in \<open>simp add: readEscape_def\<close>)

lemma drop_quotes [termination_simp]: "length (dropWhile (\<lambda>x. x = q) (q # r)) < Suc (length r)"
  by (simp add: less_Suc_eq_le length_dropWhile_le)

text \<open>
  The loop of \<open>readString\<close>: \<open>q\<close> is the quote, \<open>l0\<close> the line it started on, \<open>out\<close> what is written. A
  run of quotes in a multi-line string closes it from three on, the others are content.
\<close>

function string_loop :: "char \<Rightarrow> bool \<Rightarrow> nat \<Rightarrow> string \<Rightarrow> string \<Rightarrow> nat \<Rightarrow> tomlErr + (string \<times> scan)" where
  "string_loop q multiline l0 out [] l = Inl (Unclosed l0)"
| "string_loop q multiline l0 out (c # r) l =
     (if c = q \<and> multiline then
        (let n = length (takeWhile (\<lambda>x. x = q) (c # r)); rest = dropWhile (\<lambda>x. x = q) (c # r) in
         if n \<ge> 3 then Inr (out @ replicate (n - 3) q, rest, l)
         else string_loop q multiline l0 (out @ replicate n q) rest l)
      else if c = q then Inr (out, r, l)
      else if c = CHR 0x5C \<and> q = CHR 0x22 then
        (case readEscape multiline r l of
           Inl e \<Rightarrow> Inl e
         | Inr (w, r', l') \<Rightarrow> string_loop q multiline l0 (out @ w) r' l')
      else if c = lf \<and> \<not> multiline then Inl (RawNewline l)
      else if c = lf \<or> c = cr then string_loop q multiline l0 (out @ [c]) r (if c = lf then l + 1 else l)
      else if (of_char c :: nat) < 0x20 \<and> c \<noteq> tab then Inl (ControlChar l)
      else string_loop q multiline l0 (out @ [c]) r l)"
  by pat_completeness auto
termination
  by (relation "measure (\<lambda>(q, m, l0, out, s, l). length s)")
    (auto simp: less_Suc_eq_le length_dropWhile_le dest!: readEscape_shorter)

definition readString :: "bool \<Rightarrow> string \<Rightarrow> nat \<Rightarrow> tomlErr + (string \<times> scan)" where
  "readString multiline s l =
     (let q = peekAt s 0 in
      if multiline then
        (let s1 = drop 3 s; s2 = (if peekAt s1 0 = cr then drop 1 s1 else s1) in
         if peekAt s2 0 = lf then string_loop q True l [] (drop 1 s2) (l + 1)
         else string_loop q True l [] s2 l)
      else string_loop q False l [] (drop 1 s) l)"

section \<open>Keys\<close>

definition isBareKeyChar :: "char \<Rightarrow> bool" where
  "isBareKeyChar c \<longleftrightarrow> c = CHR ''-'' \<or> c = CHR ''_'' \<or>
     (let n = (of_char c :: nat) in 97 \<le> n \<and> n \<le> 122 \<or> 65 \<le> n \<and> n \<le> 90 \<or> 48 \<le> n \<and> n \<le> 57)"

definition readKeySegment :: "string \<Rightarrow> nat \<Rightarrow> tomlErr + (string \<times> scan)" where
  "readKeySegment s l =
     (if peekAt s 0 = CHR 0x22 \<or> peekAt s 0 = CHR 0x27 then readString False s l
      else
        let key = takeWhile isBareKeyChar s in
        if key = [] then Inl (NoKey l) else Inr (key, dropWhile isBareKeyChar s, l))"

text \<open>Fuel: the number of segments, each of them takes at least a byte and the dot.\<close>

fun readKeyPath :: "nat \<Rightarrow> string \<Rightarrow> nat \<Rightarrow> tomlErr + (string list \<times> scan)" where
  "readKeyPath 0 s l = Inl OutOfFuel"
| "readKeyPath (Suc n) s l =
     (case readKeySegment s l of
        Inl e \<Rightarrow> Inl e
      | Inr (seg, s1, l1) \<Rightarrow>
          if peekAt s1 0 = CHR ''.'' then
            (case readKeyPath n (drop 1 s1) l1 of
               Inl e \<Rightarrow> Inl e
             | Inr (path, sc) \<Rightarrow> Inr (seg # path, sc))
          else Inr ([seg], s1, l1))"

section \<open>Numbers and booleans\<close>

definition isValueTerminator :: "char \<Rightarrow> bool" where
  "isValueTerminator c \<longleftrightarrow> c = CHR 0x00 \<or> blank c \<or> c = CHR '','' \<or> c = CHR '']'' \<or> c = CHR ''}'' \<or> c = CHR ''#''"

definition readBool :: "string \<Rightarrow> nat \<Rightarrow> tomlErr + (tomlValue \<times> scan)" where
  "readBool s l =
     (case find (\<lambda>w. hasPrefix s w \<and> (isValueTerminator (peekAt s (length w)) \<or> peekAt s (length w) = CHR ''=''))
             [''true'', ''false''] of
        None \<Rightarrow> Inl (BadBool l)
      | Some w \<Rightarrow> Inr (TBool w, drop (length w) s, l))"

definition isNumberChar :: "char \<Rightarrow> bool" where
  "isNumberChar c \<longleftrightarrow>
     (let n = (of_char c :: nat) in 48 \<le> n \<and> n \<le> 57 \<or> 97 \<le> n \<and> n \<le> 102 \<or> 65 \<le> n \<and> n \<le> 70) \<or>
     c \<in> set ''xXoObBeE_.+-''"

text \<open>\<open>d(?:_?d)*\<close>\<close>

fun underscored :: "(char \<Rightarrow> bool) \<Rightarrow> string \<Rightarrow> bool" where
  "underscored d [] = False"
| "underscored d [c] = d c"
| "underscored d (c # e # r) = (d c \<and> (if e = CHR ''_'' then underscored d r else underscored d (e # r)))"

definition dec_char :: "char \<Rightarrow> bool" where "dec_char c \<longleftrightarrow> 48 \<le> (of_char c :: nat) \<and> (of_char c :: nat) \<le> 57"
definition oct_char :: "char \<Rightarrow> bool" where "oct_char c \<longleftrightarrow> 48 \<le> (of_char c :: nat) \<and> (of_char c :: nat) \<le> 55"
definition bin_char :: "char \<Rightarrow> bool" where "bin_char c \<longleftrightarrow> c = CHR ''0'' \<or> c = CHR ''1''"

definition dec_run :: "char \<Rightarrow> bool" where "dec_run c \<longleftrightarrow> dec_char c \<or> c = CHR ''_''"

definition drop_sign :: "string \<Rightarrow> string" where
  "drop_sign s = (case s of [] \<Rightarrow> [] | c # r \<Rightarrow> if c = CHR ''+'' \<or> c = CHR ''-'' then r else s)"

definition exponent :: "string \<Rightarrow> bool" where
  "exponent s = (case s of [] \<Rightarrow> True | c # r \<Rightarrow> (c = CHR ''e'' \<or> c = CHR ''E'') \<and> underscored dec_char (drop_sign r))"

definition decimal :: "string \<Rightarrow> bool" where
  "decimal s \<longleftrightarrow> underscored dec_char (takeWhile dec_run s) \<and>
     (case dropWhile dec_run s of
        [] \<Rightarrow> True
      | c # r \<Rightarrow>
          if c = CHR ''.'' then underscored dec_char (takeWhile dec_run r) \<and> exponent (dropWhile dec_run r)
          else exponent (c # r))"

definition numberRe :: "string \<Rightarrow> bool" where
  "numberRe raw =
     (let s = drop_sign raw in
      hasPrefix s ''0x'' \<and> underscored (\<lambda>c. hexDigit c \<noteq> None) (drop 2 s) \<or>
      hasPrefix s ''0o'' \<and> underscored oct_char (drop 2 s) \<or>
      hasPrefix s ''0b'' \<and> underscored bin_char (drop 2 s) \<or>
      decimal s)"

definition readNumber :: "string \<Rightarrow> nat \<Rightarrow> tomlErr + (tomlValue \<times> scan)" where
  "readNumber s l =
     (let raw = takeWhile isNumberChar s in
      if numberRe raw then Inr (TNumber raw, dropWhile isNumberChar s, l) else Inl (BadNumber l))"

section \<open>Values in the text\<close>

text \<open>
  \<open>readValue\<close> with the loops of \<open>readArray\<close> and \<open>readInlineTable\<close>, after the opening bracket; every
  call uses a unit of fuel.
\<close>

fun readValue :: "nat \<Rightarrow> string \<Rightarrow> nat \<Rightarrow> tomlErr + (tomlValue \<times> scan)"
  and array_loop :: "nat \<Rightarrow> nat \<Rightarrow> tomlValue list \<Rightarrow> string \<Rightarrow> nat \<Rightarrow> tomlErr + (tomlValue \<times> scan)"
  and table_loop :: "nat \<Rightarrow> nat \<Rightarrow> (string \<times> tomlValue) list \<Rightarrow> string \<Rightarrow> nat \<Rightarrow> tomlErr + (tomlValue \<times> scan)" where
  "readValue 0 s l = Inl OutOfFuel"
| "readValue (Suc n) s l =
     (if s = [] then Inl (NoValue l)
      else
        let c = hd s in
        if c = CHR 0x22 \<or> c = CHR 0x27 then
          map_sum id (\<lambda>(str, sc). (TString str, sc)) (readString (peekAt s 1 = c \<and> peekAt s 2 = c) s l)
        else if c = CHR ''['' then array_loop n l [] (tl s) l
        else if c = CHR ''{'' then table_loop n l [] (tl s) l
        else if c = CHR ''t'' \<or> c = CHR ''f'' then readBool s l
        else if c = CHR ''+'' \<or> c = CHR ''-'' \<or> dec_char c then readNumber s l
        else Inl (BadValue l))"
| "array_loop 0 l0 acc s l = Inl OutOfFuel"
| "array_loop (Suc n) l0 acc s l =
     (let (s1, l1) = skipArrayFiller s l in
      if s1 = [] then Inl (UnclosedArray l0)
      else if hd s1 = CHR '']'' then Inr (TArray acc, tl s1, l1)
      else case readValue n s1 l1 of
        Inl e \<Rightarrow> Inl e
      | Inr (v, s2, l2) \<Rightarrow>
          let (s3, l3) = skipArrayFiller s2 l2 in
          if s3 = [] then Inl (UnclosedArray l0)
          else if hd s3 = CHR '','' then array_loop n l0 (acc @ [v]) (tl s3) l3
          else if hd s3 = CHR '']'' then Inr (TArray (acc @ [v]), tl s3, l3)
          else Inl (ArraySep l3))"
| "table_loop 0 l0 acc s l = Inl OutOfFuel"
| "table_loop (Suc n) l0 acc s l =
     (let s1 = skipSpaces s in
      if s1 = [] then Inl (UnclosedTable l0)
      else if hd s1 = CHR ''}'' then Inr (TInline acc, tl s1, l)
      else if hd s1 = lf \<or> hd s1 = cr then Inl (TableNewline l)
      else case readKeySegment s1 l of
        Inl e \<Rightarrow> Inl e
      | Inr (key, s2, l2) \<Rightarrow>
          if peekAt (skipSpaces s2) 0 \<noteq> CHR ''='' then Inl (TableEq l2)
          else case readValue n (skipSpaces (drop 1 (skipSpaces s2))) l2 of
            Inl e \<Rightarrow> Inl e
          | Inr (v, s3, l3) \<Rightarrow>
              let s4 = skipSpaces s3 in
              if s4 = [] then Inl (UnclosedTable l0)
              else if hd s4 = CHR '','' then table_loop n l0 (acc @ [(key, v)]) (tl s4) l3
              else if hd s4 = CHR ''}'' then Inr (TInline (acc @ [(key, v)]), tl s4, l3)
              else Inl (TableSep l3))"

definition readTableHeader :: "string \<Rightarrow> nat \<Rightarrow> tomlErr + (string list \<times> nat \<times> scan)" where
  "readTableHeader s line =
     (let s1 = drop 1 s in
      if peekAt s1 0 = CHR ''['' then Inl (ArrayOfTables line)
      else case readKeyPath (length s1 + 1) s1 line of
        Inl e \<Rightarrow> Inl e
      | Inr (path, s2, l2) \<Rightarrow>
          if peekAt s2 0 \<noteq> CHR '']'' then Inl (HeaderEnd l2)
          else map_sum id (\<lambda>sc. (path, line, sc)) (endOfStatement (drop 1 s2) l2))"

definition readKeyValue :: "string \<Rightarrow> nat \<Rightarrow> tomlErr + (string list \<times> tomlValue \<times> scan)" where
  "readKeyValue s line =
     (case readKeyPath (length s + 1) s line of
        Inl e \<Rightarrow> Inl e
      | Inr (path, s1, l1) \<Rightarrow>
          if peekAt (skipSpaces s1) 0 \<noteq> CHR ''='' then Inl (NoEq line)
          else
            let s2 = skipSpaces (drop 1 (skipSpaces s1)) in
            (case readValue (2 * length s2 + 1) s2 l1 of
               Inl e \<Rightarrow> Inl e
             | Inr (val, s3, l3) \<Rightarrow> map_sum id (\<lambda>sc. (path, val, sc)) (endOfStatement s3 l3)))"

section \<open>The document\<close>

text \<open>The order of the fields is the order in which they were added.\<close>

datatype tomlNode = TNode (tn_line: nat) (tn_declared: bool) (tn_val: "tomlValue option") (tn_fields: "(string \<times> tomlNode) list")

definition newTomlNode :: "nat \<Rightarrow> tomlNode" where
  "newTomlNode line = TNode line False None []"

definition field :: "tomlNode \<Rightarrow> string \<Rightarrow> tomlNode option" where
  "field n seg = map_of (tn_fields n) seg"

definition put_field :: "string \<Rightarrow> tomlNode \<Rightarrow> tomlNode \<Rightarrow> tomlNode" where
  "put_field seg c n = TNode (tn_line n) (tn_declared n) (tn_val n) (AList.update seg c (tn_fields n))"

definition get_or_new :: "nat \<Rightarrow> string \<Rightarrow> tomlNode \<Rightarrow> tomlNode" where
  "get_or_new line seg n = (case field n seg of None \<Rightarrow> newTomlNode line | Some c \<Rightarrow> c)"

fun setPath :: "string list \<Rightarrow> tomlValue \<Rightarrow> nat \<Rightarrow> tomlNode \<Rightarrow> tomlErr + tomlNode" where
  "setPath [] val line n = Inr n"
| "setPath (seg # rest) val line n =
     (let next = get_or_new line seg n in
      if rest = [] then
        (if tn_val next \<noteq> None then Inl (DupKey line seg)
         else if tn_declared next then Inl (IsTable line seg)
         else Inr (put_field seg (TNode (tn_line next) (tn_declared next) (Some val) (tn_fields next)) n))
      else if tn_val next \<noteq> None then Inl (IsValue line seg)
      else map_sum id (\<lambda>c. put_field seg c n) (setPath rest val line next))"

fun attachTable :: "string list \<Rightarrow> nat \<Rightarrow> tomlNode \<Rightarrow> tomlErr + tomlNode" where
  "attachTable [] line n = Inr n"
| "attachTable (seg # rest) line n =
     (let next = get_or_new line seg n in
      if tn_val next \<noteq> None then Inl (IsValue line seg)
      else if rest = [] then
        (if tn_declared next then Inl (DupTable line seg)
         else Inr (put_field seg (TNode (tn_line next) True (tn_val next) (tn_fields next)) n))
      else map_sum id (\<lambda>c. put_field seg c n) (attachTable rest line next))"

text \<open>An operation on the table at a path.\<close>

fun at_table :: "string list \<Rightarrow> (tomlNode \<Rightarrow> tomlErr + tomlNode) \<Rightarrow> tomlNode \<Rightarrow> tomlErr + tomlNode" where
  "at_table [] f n = f n"
| "at_table (seg # rest) f n =
     (case field n seg of
        None \<Rightarrow> Inr n
      | Some c \<Rightarrow> map_sum id (\<lambda>c'. put_field seg c' n) (at_table rest f c))"

text \<open>
  The loop of \<open>parseToml\<close>: the tree, the path of the current table, and the scanner. The line a
  value is reported with is the one after its statement.
\<close>

fun parse_loop :: "nat \<Rightarrow> tomlNode \<Rightarrow> string list \<Rightarrow> string \<Rightarrow> nat \<Rightarrow> tomlErr + tomlNode" where
  "parse_loop 0 rt cur s l = Inl OutOfFuel"
| "parse_loop (Suc n) rt cur s l =
     (case skipToNextStatement s l of (s1, l1) \<Rightarrow>
        if s1 = [] then Inr rt
        else if hd s1 = CHR ''['' then
          (case readTableHeader s1 l1 of
             Inl e \<Rightarrow> Inl e
           | Inr (path, line, s2, l2) \<Rightarrow>
               (case attachTable path line rt of
                  Inl e \<Rightarrow> Inl e
                | Inr rt' \<Rightarrow> parse_loop n rt' path s2 l2))
        else
          (case readKeyValue s1 l1 of
             Inl e \<Rightarrow> Inl e
           | Inr (path, val, s2, l2) \<Rightarrow>
               (case at_table cur (setPath path val l2) rt of
                  Inl e \<Rightarrow> Inl e
                | Inr rt' \<Rightarrow> parse_loop n rt' cur s2 l2)))"

definition parseToml :: "string \<Rightarrow> tomlErr + tomlNode" where
  "parseToml src = (case newScanner src of (s, l) \<Rightarrow> parse_loop (length s + 1) (newTomlNode 0) [] s l)"

section \<open>Reading fields\<close>

definition table_of :: "tomlNode \<Rightarrow> string \<Rightarrow> tomlErr + tomlNode option" where
  "table_of n name =
     (case field n name of
        None \<Rightarrow> Inr None
      | Some c \<Rightarrow> if tn_val c \<noteq> None then Inl (WrongKind (tn_line c) name) else Inr (Some c))"

definition stringField :: "tomlNode \<Rightarrow> string \<Rightarrow> tomlErr + string option" where
  "stringField n name =
     (case field n name of
        None \<Rightarrow> Inr None
      | Some c \<Rightarrow>
          (case tn_val c of
             None \<Rightarrow> Inr None
           | Some (TString s) \<Rightarrow> Inr (Some s)
           | Some (TNumber s) \<Rightarrow> Inr (Some s)
           | Some _ \<Rightarrow> Inl (WrongKind (tn_line c) name)))"

fun text_of :: "tomlValue \<Rightarrow> string option" where
  "text_of (TString s) = Some s"
| "text_of (TNumber s) = Some s"
| "text_of _ = None"

definition ownStringList :: "tomlNode \<Rightarrow> string \<Rightarrow> tomlErr + string list" where
  "ownStringList n label =
     (case tn_val n of
        Some (TArray vs) \<Rightarrow>
          (case collect (map text_of vs) of None \<Rightarrow> Inl (WrongKind (tn_line n) label) | Some out \<Rightarrow> Inr out)
      | _ \<Rightarrow> Inl (WrongKind (tn_line n) label))"

definition stringList :: "tomlNode \<Rightarrow> string \<Rightarrow> tomlErr + string list option" where
  "stringList n name =
     (case field n name of
        None \<Rightarrow> Inr None
      | Some c \<Rightarrow> if tn_val c = None then Inr None else map_sum id Some (ownStringList c name))"

end
