(* ===== verification/Toml_Read.thy ===== *)
theory Toml_Read
  imports Toml
begin

text \<open>
  What the TOML reader guarantees: it ends, it loses no value, and it reads back what is written.
\<close>

section \<open>Every read takes something\<close>

lemma skipToNext_length: "skipToNextStatement s l = (s', l') \<Longrightarrow> length s' \<le> length s"
proof (induction s l rule: skipToNextStatement.induct)
  case (2 c r l)
  then show ?case using skip_shorter(2) [of r] by (fastforce split: if_splits)
qed simp

lemma endOfStatement_length: "endOfStatement s l = Inr (s', l') \<Longrightarrow> length s' \<le> length s"
  using skip_shorter(1) [of s] skip_shorter(2) [of "tl (skipSpaces s)"]
  by (auto simp: endOfStatement_def split: list.splits if_splits)

lemma hex_digits_error: "hex_digits n k x t \<noteq> Inl OutOfFuel"
  by (induction n arbitrary: x t) (auto split: list.split option.split)

lemma readEscape_error: "readEscape m s l \<noteq> Inl OutOfFuel"
  by (cases s) (auto simp: readEscape_def readUnicodeEscape_def hex_digits_error split: sum.split)

text \<open>The outcome of one turn of the string loop.\<close>

lemma string_loop_cases:
  obtains (close) out' rest where "string_loop q m l0 out (c # r) l = Inr (out', rest, l)" "length rest \<le> length (c # r)"
  | (more) out' rest l' where "string_loop q m l0 out (c # r) l = string_loop q m l0 out' rest l'" "length rest < length (c # r)"
  | (error) e where "string_loop q m l0 out (c # r) l = Inl e" "e \<noteq> OutOfFuel"
proof -
  have len: "length (dropWhile (\<lambda>x. x = q) (c # r)) \<le> length (c # r)" by (rule length_dropWhile_le)
  show ?thesis
  proof (cases "c = q")
    case q: True
    show ?thesis
    proof (cases m)
      case True
      have "length (dropWhile (\<lambda>x. x = q) (c # r)) < length (c # r)"
        using q by (simp add: less_Suc_eq_le length_dropWhile_le)
      with True q len close more show ?thesis
        by (cases "length (takeWhile (\<lambda>x. x = q) (c # r)) \<ge> 3") (simp_all add: Let_def)
    next
      case False
      with q close show ?thesis by simp
    qed
  next
    case nq: False
    show ?thesis
    proof (cases "c = CHR 0x5C \<and> q = CHR 0x22")
      case esc: True
      show ?thesis
      proof (cases "readEscape m r l")
        case (Inl e)
        moreover have "e \<noteq> OutOfFuel" using readEscape_error [of m r l] Inl by auto
        ultimately show ?thesis using nq esc error by simp
      next
        case (Inr x)
        obtain w r' l' where x: "x = (w, r', l')" by (cases x) auto
        with Inr have "length r' < length r" by (simp add: readEscape_shorter)
        with nq esc Inr x more [of "out @ w" r' l'] show ?thesis by simp
      qed
    next
      case ne: False
      then have step: "string_loop q m l0 out (c # r) l =
          (if c = lf \<and> \<not> m then Inl (RawNewline l)
           else if c = lf \<or> c = cr then string_loop q m l0 (out @ [c]) r (if c = lf then l + 1 else l)
           else if (of_char c :: nat) < 0x20 \<and> c \<noteq> tab then Inl (ControlChar l)
           else string_loop q m l0 (out @ [c]) r l)"
        using nq by (simp only: string_loop.simps if_not_P simp_thms)
      consider "string_loop q m l0 out (c # r) l = Inl (RawNewline l)"
        | "string_loop q m l0 out (c # r) l = Inl (ControlChar l)"
        | l' where "string_loop q m l0 out (c # r) l = string_loop q m l0 (out @ [c]) r l'"
        unfolding step by metis
      then show ?thesis
        by cases (use error more in simp_all)
    qed
  qed
qed

lemma string_loop_reads:
  "string_loop q m l0 out s l \<noteq> Inl OutOfFuel \<and>
   (\<forall>str s' l'. string_loop q m l0 out s l = Inr (str, s', l') \<longrightarrow> length s' \<le> length s)"
proof (induction s arbitrary: out l rule: length_induct)
  case (1 s)
  show ?case
  proof (cases s)
    case (Cons c r)
    show ?thesis
    proof (cases rule: string_loop_cases [of q m l0 out c r l])
      case (more out' rest l')
      with 1 Cons have "string_loop q m l0 out' rest l' \<noteq> Inl OutOfFuel \<and>
          (\<forall>str s' l''. string_loop q m l0 out' rest l' = Inr (str, s', l'') \<longrightarrow> length s' \<le> length rest)" by blast
      with more Cons show ?thesis by (metis le_trans less_imp_le)
    qed (use Cons in simp_all)
  qed simp
qed

lemmas string_loop_length = string_loop_reads [THEN conjunct2, rule_format]
lemmas string_loop_error = string_loop_reads [THEN conjunct1]

lemma readString_length:
  assumes "readString m s l = Inr (str, s', l')" and "s \<noteq> []"
  shows "length s' < length s"
proof -
  obtain t l1 out where "string_loop (peekAt s 0) m l out t l1 = Inr (str, s', l')" "length t < length s"
    using assms by (cases m) (auto simp: readString_def Let_def split: if_splits)
  then show ?thesis using string_loop_length by fastforce
qed

lemma readString_error: "readString m s l \<noteq> Inl OutOfFuel"
  by (simp add: readString_def Let_def string_loop_error)

lemma peekAt_Nil: "peekAt [] n = CHR 0x00" by (simp add: peekAt_def)

lemma readKeySegment_length: "readKeySegment s l = Inr (seg, s', l') \<Longrightarrow> length s' < length s"
proof -
  assume a: "readKeySegment s l = Inr (seg, s', l')"
  have "s \<noteq> []" using a by (auto simp: readKeySegment_def peekAt_Nil split: if_splits)
  moreover have "length (dropWhile P s) < length s" if "takeWhile P s \<noteq> []" for P
  proof -
    have "length s = length (takeWhile P s) + length (dropWhile P s)"
      by (metis length_append takeWhile_dropWhile_id)
    with that show ?thesis by simp
  qed
  ultimately show ?thesis using a
    by (auto simp: readKeySegment_def Let_def dest: readString_length split: if_splits)
qed

lemma readKeySegment_error: "readKeySegment s l \<noteq> Inl OutOfFuel"
  by (simp add: readKeySegment_def Let_def readString_error)

lemma readKeyPath_length: "readKeyPath n s l = Inr (path, s', l') \<Longrightarrow> length s' < length s"
proof (induction n arbitrary: s l path)
  case (Suc n)
  then obtain seg s1 l1 where k: "readKeySegment s l = Inr (seg, s1, l1)" by (auto split: sum.splits)
  have "length s1 < length s" by (rule readKeySegment_length [OF k])
  then show ?case using Suc k by (fastforce split: if_splits sum.splits)
qed simp

lemma readKeyPath_fuel: "length s < n \<Longrightarrow> readKeyPath n s l \<noteq> Inl OutOfFuel"
proof (induction n arbitrary: s l)
  case (Suc n)
  have "readKeyPath n (drop 1 s1) l1 \<noteq> Inl OutOfFuel" if "readKeySegment s l = Inr (seg, s1, l1)" for seg s1 l1
    using readKeySegment_length [OF that] Suc by simp
  then show ?case using readKeySegment_error [of s l] by (auto split: sum.split)
qed simp

lemma readBool_length: "readBool s l = Inr (v, s', l') \<Longrightarrow> length s' < length s"
  by (auto simp: readBool_def hasPrefix_iff split: option.splits if_splits dest!: find_Some_mem)

lemma readNumber_length: "readNumber s l = Inr (v, s', l') \<Longrightarrow> length s' < length s"
proof -
  assume a: "readNumber s l = Inr (v, s', l')"
  have "\<not> numberRe []" by code_simp
  with a have "takeWhile isNumberChar s \<noteq> []" by (auto simp: readNumber_def Let_def split: if_splits)
  moreover have "length s = length (takeWhile isNumberChar s) + length (dropWhile isNumberChar s)"
    by (metis length_append takeWhile_dropWhile_id)
  ultimately show ?thesis using a by (auto simp: readNumber_def Let_def split: if_splits)
qed

text \<open>How a value is read, by its first character.\<close>

lemma readValue_cases:
  assumes "s \<noteq> []"
  obtains (str) m where "readValue (Suc n) s l = map_sum id (\<lambda>(str, sc). (TString str, sc)) (readString m s l)"
  | (arr) "readValue (Suc n) s l = array_loop n l [] (tl s) l"
  | (tbl) "readValue (Suc n) s l = table_loop n l [] (tl s) l"
  | (bool) "readValue (Suc n) s l = readBool s l"
  | (num) "readValue (Suc n) s l = readNumber s l"
  | (bad) "readValue (Suc n) s l = Inl (BadValue l)"
proof -
  have step: "readValue (Suc n) s l =
      (if hd s = CHR 0x22 \<or> hd s = CHR 0x27 then
          map_sum id (\<lambda>(str, sc). (TString str, sc)) (readString (peekAt s 1 = hd s \<and> peekAt s 2 = hd s) s l)
       else if hd s = CHR ''['' then array_loop n l [] (tl s) l
       else if hd s = CHR ''{'' then table_loop n l [] (tl s) l
       else if hd s = CHR ''t'' \<or> hd s = CHR ''f'' then readBool s l
       else if hd s = CHR ''+'' \<or> hd s = CHR ''-'' \<or> dec_char (hd s) then readNumber s l
       else Inl (BadValue l))"
    using assms by (simp only: readValue.simps if_not_P if_False Let_def)
  show ?thesis
  proof (cases "hd s = CHR 0x22 \<or> hd s = CHR 0x27")
    case True
    then show ?thesis by (intro str) (simp only: step if_True)
  next
    case 1: False
    note step1 = step [unfolded if_not_P [OF 1]]
    consider "readValue (Suc n) s l = array_loop n l [] (tl s) l" | "readValue (Suc n) s l = table_loop n l [] (tl s) l"
      | "readValue (Suc n) s l = readBool s l" | "readValue (Suc n) s l = readNumber s l"
      | "readValue (Suc n) s l = Inl (BadValue l)"
      using step1 by (auto split: if_splits)
    then show ?thesis by cases (rule arr tbl bool num bad, assumption)+
  qed
qed

text \<open>With enough fuel \<open>b\<close> a read does not run out, and it takes at least a byte.\<close>

definition reads :: "nat \<Rightarrow> nat \<Rightarrow> string \<Rightarrow> tomlErr + ('a \<times> scan) \<Rightarrow> bool" where
  "reads n b s r \<longleftrightarrow> (r = Inl OutOfFuel \<longrightarrow> n < b) \<and> (\<forall>v s' l'. r = Inr (v, s', l') \<longrightarrow> length s' < length s)"

lemma reads_Inl [simp]: "e \<noteq> OutOfFuel \<Longrightarrow> reads n b s (Inl e)"
  by (simp add: reads_def)

lemma reads_out: "reads n b s (Inl OutOfFuel) \<longleftrightarrow> n < b"
  by (simp add: reads_def)

lemma reads_Inr: "reads n b s (Inr (v, s', l')) \<longleftrightarrow> length s' < length s"
  by (simp add: reads_def)

lemma reads_le: "reads n b s r \<Longrightarrow> length s \<le> length t \<Longrightarrow> n < b \<longrightarrow> m < c \<Longrightarrow> reads m c t r"
  unfolding reads_def by fastforce

text \<open>An error passes through, a value is used.\<close>

lemma reads_bind:
  assumes "reads n b s r" and "n < b \<longrightarrow> m < c"
    and "\<And>v s' l'. r = Inr (v, s', l') \<Longrightarrow> length s' < length s \<Longrightarrow> reads m c t (f v s' l')"
  shows "reads m c t (case r of Inl e \<Rightarrow> Inl e | Inr (v, s', l') \<Rightarrow> f v s' l')"
proof (cases r)
  case (Inl e)
  with assms(1,2) show ?thesis by (auto simp: reads_def)
next
  case (Inr x)
  obtain v s' l' where "x = (v, s', l')" by (cases x) auto
  with Inr assms show ?thesis by (auto simp: reads_def)
qed

lemma array_reads:
  assumes IHv: "\<And>s l. reads n (2 * length s + 1) s (readValue n s l)"
    and IHa: "\<And>acc s l. reads n (2 * length s + 2) s (array_loop n l0 acc s l)"
  shows "reads (Suc n) (2 * length s + 2) s (array_loop (Suc n) l0 acc s l)"
proof -
  obtain s1 l1 where f: "skipArrayFiller s l = (s1, l1)" by fastforce
  then have s1: "length s1 \<le> length s" using skipToNext_length by (simp add: skipArrayFiller_def)
  have after: "reads (Suc n) (2 * length s + 2) s
      (let (s3, l3) = skipArrayFiller s2 l2 in
          if s3 = [] then Inl (UnclosedArray l0)
          else if hd s3 = CHR '','' then array_loop n l0 (acc @ [v]) (tl s3) l3
          else if hd s3 = CHR '']'' then Inr (TArray (acc @ [v]), tl s3, l3)
          else Inl (ArraySep l3))" if s2: "length s2 < length s1" for v s2 l2
  proof -
    obtain s3 l3 where g: "skipArrayFiller s2 l2 = (s3, l3)" by fastforce
    then have s3: "length s3 \<le> length s2" using skipToNext_length by (simp add: skipArrayFiller_def)
    have "reads (Suc n) (2 * length s + 2) s (array_loop n l0 (acc @ [v]) (tl s3) l3)"
      by (rule reads_le [OF IHa]) (use s1 s2 s3 in auto)
    with s1 s2 s3 show ?thesis by (auto simp: g reads_Inr)
  qed
  have "reads (Suc n) (2 * length s + 2) s (case readValue n s1 l1 of Inl e \<Rightarrow> Inl e | Inr (v, s2, l2) \<Rightarrow>
      (let (s3, l3) = skipArrayFiller s2 l2 in
          if s3 = [] then Inl (UnclosedArray l0)
          else if hd s3 = CHR '','' then array_loop n l0 (acc @ [v]) (tl s3) l3
          else if hd s3 = CHR '']'' then Inr (TArray (acc @ [v]), tl s3, l3)
          else Inl (ArraySep l3)))"
    by (rule reads_bind [OF IHv _ after]) (use s1 in auto)
  then show ?thesis using s1 by (cases s1) (auto simp: f reads_Inr)
qed

lemma table_reads:
  assumes IHv: "\<And>s l. reads n (2 * length s + 1) s (readValue n s l)"
    and IHt: "\<And>acc s l. reads n (2 * length s + 2) s (table_loop n l0 acc s l)"
  shows "reads (Suc n) (2 * length s + 2) s (table_loop (Suc n) l0 acc s l)"
proof -
  define s1 where "s1 = skipSpaces s"
  have s1: "length s1 \<le> length s" by (simp add: s1_def skip_shorter)
  have after: "reads (Suc n) (2 * length s + 2) s
      (let s4 = skipSpaces s3 in
              if s4 = [] then Inl (UnclosedTable l0)
              else if hd s4 = CHR '','' then table_loop n l0 (acc @ [(key, v)]) (tl s4) l3
              else if hd s4 = CHR ''}'' then Inr (TInline (acc @ [(key, v)]), tl s4, l3)
              else Inl (TableSep l3))" if s3: "length s3 < length s1" for key v s3 l3
  proof -
    define s4 where "s4 = skipSpaces s3"
    have s4: "length s4 \<le> length s3" by (simp add: s4_def skip_shorter)
    have "reads (Suc n) (2 * length s + 2) s (table_loop n l0 (acc @ [(key, v)]) (tl s4) l3)"
      by (rule reads_le [OF IHt]) (use s1 s3 s4 in auto)
    with s1 s3 s4 show ?thesis by (auto simp: s4_def [symmetric] reads_Inr)
  qed
  have val_step: "reads (Suc n) (2 * length s + 2) s
      (if peekAt (skipSpaces s2) 0 \<noteq> CHR ''='' then Inl (TableEq l2)
          else case readValue n (skipSpaces (drop 1 (skipSpaces s2))) l2 of
            Inl e \<Rightarrow> Inl e
          | Inr (v, s3, l3) \<Rightarrow>
              let s4 = skipSpaces s3 in
              if s4 = [] then Inl (UnclosedTable l0)
              else if hd s4 = CHR '','' then table_loop n l0 (acc @ [(key, v)]) (tl s4) l3
              else if hd s4 = CHR ''}'' then Inr (TInline (acc @ [(key, v)]), tl s4, l3)
              else Inl (TableSep l3))" if s2: "length s2 < length s1" for key s2 l2
  proof -
    have sp: "length (skipSpaces (drop 1 (skipSpaces s2))) \<le> length s2"
      using skip_shorter(1) [of "drop 1 (skipSpaces s2)"] skip_shorter(1) [of s2] by simp
    have "reads (Suc n) (2 * length s + 2) s
       (case readValue n (skipSpaces (drop 1 (skipSpaces s2))) l2 of
            Inl e \<Rightarrow> Inl e
          | Inr (v, s3, l3) \<Rightarrow>
              let s4 = skipSpaces s3 in
              if s4 = [] then Inl (UnclosedTable l0)
              else if hd s4 = CHR '','' then table_loop n l0 (acc @ [(key, v)]) (tl s4) l3
              else if hd s4 = CHR ''}'' then Inr (TInline (acc @ [(key, v)]), tl s4, l3)
              else Inl (TableSep l3))"
      by (rule reads_bind [OF IHv _ after]) (use s1 s2 sp in auto)
    then show ?thesis by simp
  qed
  have key: "reads 0 0 s1 (readKeySegment s1 l)"
    using readKeySegment_error [of s1 l] readKeySegment_length [of s1 l] by (auto simp: reads_def)
  show ?thesis
  proof (cases "s1 = [] \<or> hd s1 \<in> {CHR ''}'', lf, cr}")
    case True
    then show ?thesis using s1 by (cases s1) (auto simp: s1_def [symmetric] Let_def reads_Inr)
  next
    case False
    then have "table_loop (Suc n) l0 acc s l = (case readKeySegment s1 l of
        Inl e \<Rightarrow> Inl e
      | Inr (key, s2, l2) \<Rightarrow>
          if peekAt (skipSpaces s2) 0 \<noteq> CHR ''='' then Inl (TableEq l2)
          else case readValue n (skipSpaces (drop 1 (skipSpaces s2))) l2 of
            Inl e \<Rightarrow> Inl e
          | Inr (v, s3, l3) \<Rightarrow>
              let s4 = skipSpaces s3 in
              if s4 = [] then Inl (UnclosedTable l0)
              else if hd s4 = CHR '','' then table_loop n l0 (acc @ [(key, v)]) (tl s4) l3
              else if hd s4 = CHR ''}'' then Inr (TInline (acc @ [(key, v)]), tl s4, l3)
              else Inl (TableSep l3))"
      by (simp add: s1_def [symmetric] Let_def del: skip_shorter)
    then show ?thesis using reads_bind [OF key _ val_step] by simp
  qed
qed

lemma values_read:
  "reads n (2 * length s + 1) s (readValue n s l)"
  "reads n (2 * length s + 2) s (array_loop n l0 acc s l)"
  "reads n (2 * length s + 2) s (table_loop n l0 tacc s l)"
proof (induction n arbitrary: s l l0 acc tacc)
  case 0
  {
    case 1 show ?case by (simp add: reads_def)
  next
    case 2 show ?case by (simp add: reads_def)
  next
    case 3 show ?case by (simp add: reads_def)
  }
next
  case (Suc n)
  {
    case 1
    show ?case
    proof (cases "s = []")
      case False
      then have tl: "length (tl s) < length s" by (cases s) simp_all
      from False show ?thesis
      proof (cases rule: readValue_cases [where n = n and l = l])
        case (str m)
        then show ?thesis using readString_length [of m s l] readString_error [of m s l] False
          by (cases "readString m s l") (auto simp: reads_def)
      next
        case arr
        then show ?thesis using reads_le [OF Suc.IH(2), of "tl s" s "Suc n" "2 * length s + 1"] tl by simp
      next
        case tbl
        then show ?thesis using reads_le [OF Suc.IH(3), of "tl s" s "Suc n" "2 * length s + 1"] tl by simp
      next
        case bool
        then show ?thesis using readBool_length [of s l] by (auto simp: reads_def readBool_def split: option.split)
      next
        case num
        then show ?thesis using readNumber_length [of s l] by (auto simp: reads_def readNumber_def Let_def)
      qed simp
    qed simp
  next
    case 2 show ?case by (rule array_reads [OF Suc.IH(1,2)])
  next
    case 3 show ?case by (rule table_reads [OF Suc.IH(1,3)])
  }
qed

section \<open>The reader ends\<close>

declare readValue.simps [simp del] array_loop.simps [simp del] table_loop.simps [simp del] readKeyPath.simps [simp del]

lemma readTableHeader_reads:
  assumes "s \<noteq> []"
  shows "readTableHeader s line \<noteq> Inl OutOfFuel \<and>
    (\<forall>path k s' l'. readTableHeader s line = Inr (path, k, s', l') \<longrightarrow> length s' < length s)"
proof (cases "readKeyPath (length (drop 1 s) + 1) (drop 1 s) line")
  case (Inl e)
  then have "e \<noteq> OutOfFuel" using readKeyPath_fuel [of "drop 1 s" "length (drop 1 s) + 1" line] by auto
  with Inl show ?thesis by (simp add: readTableHeader_def Let_def)
next
  case (Inr x)
  obtain path s2 l2 where x: "x = (path, s2, l2)" by (cases x) auto
  with Inr have "length s2 < length s" using readKeyPath_length by fastforce
  moreover have "endOfStatement t k \<noteq> Inl OutOfFuel" for t k
    by (auto simp: endOfStatement_def split: list.split)
  ultimately show ?thesis
  proof (cases "endOfStatement (drop 1 s2) l2")
    case (Inl e)
    moreover assume "endOfStatement t k \<noteq> Inl OutOfFuel" for t k
    ultimately have "e \<noteq> OutOfFuel" by metis
    with Inl Inr x show ?thesis by (auto simp: readTableHeader_def Let_def)
  next
    case s: (Inr sc)
    moreover assume "length s2 < length s"
    ultimately show ?thesis using Inr x endOfStatement_length [of "drop 1 s2" l2]
      by (cases sc) (fastforce simp: readTableHeader_def Let_def split: if_splits)
  qed
qed

lemma readKeyValue_reads:
  "readKeyValue s line \<noteq> Inl OutOfFuel \<and>
    (\<forall>path v s' l'. readKeyValue s line = Inr (path, v, s', l') \<longrightarrow> length s' < length s)"
proof (cases "readKeyPath (length s + 1) s line")
  case (Inl e)
  then have "e \<noteq> OutOfFuel" using readKeyPath_fuel [of s "length s + 1" line] by auto
  with Inl show ?thesis by (simp add: readKeyValue_def)
next
  case (Inr x)
  obtain path s1 l1 where x: "x = (path, s1, l1)" by (cases x) auto
  with Inr have s1: "length s1 < length s" using readKeyPath_length by fastforce
  define s2 where "s2 = skipSpaces (drop 1 (skipSpaces s1))"
  have s2: "length s2 \<le> length s1"
    using skip_shorter(1) [of "drop 1 (skipSpaces s1)"] skip_shorter(1) [of s1] by (simp add: s2_def)
  have eos: "endOfStatement t k \<noteq> Inl OutOfFuel" for t k
    by (auto simp: endOfStatement_def split: list.split)
  have v: "reads (2 * length s2 + 1) (2 * length s2 + 1) s2 (readValue (2 * length s2 + 1) s2 l1)"
    by (rule values_read(1))
  have step: "readKeyValue s line =
      (if peekAt (skipSpaces s1) 0 \<noteq> CHR ''='' then Inl (NoEq line)
       else case readValue (2 * length s2 + 1) s2 l1 of
               Inl e \<Rightarrow> Inl e
             | Inr (val, s3, l3) \<Rightarrow> map_sum id (\<lambda>sc. (path, val, sc)) (endOfStatement s3 l3))"
    using Inr x by (simp add: readKeyValue_def Let_def s2_def)
  show ?thesis
  proof (cases "readValue (2 * length s2 + 1) s2 l1")
    case (Inl e)
    with v have "e \<noteq> OutOfFuel" by (auto simp: reads_def)
    with Inl step show ?thesis by simp
  next
    case val: (Inr y)
    obtain w s3 l3 where y: "y = (w, s3, l3)" by (cases y) auto
    with v val have "length s3 < length s2" by (simp add: reads_def)
    with s1 s2 have lt: "length s3 < length s" by simp
    show ?thesis
    proof (cases "endOfStatement s3 l3")
      case (Inl e)
      with step val y eos [of s3 l3] show ?thesis by auto
    next
      case (Inr sc)
      with step val y lt endOfStatement_length [of s3 l3] show ?thesis by (cases sc) (auto split: if_splits)
    qed
  qed
qed

lemma setPath_error: "setPath path v l n \<noteq> Inl OutOfFuel"
  by (induction path v l n rule: setPath.induct) (auto simp: Let_def map_sum_def split: sum.split)

lemma attachTable_error: "attachTable path l n \<noteq> Inl OutOfFuel"
  by (induction path l n rule: attachTable.induct) (auto simp: Let_def map_sum_def split: sum.split)

lemma at_table_error: "(\<And>n. f n \<noteq> Inl OutOfFuel) \<Longrightarrow> at_table path f n \<noteq> Inl OutOfFuel"
  by (induction path f n rule: at_table.induct) (auto simp: map_sum_def split: sum.split option.split)

lemma parse_loop_fuel: "length s < n \<Longrightarrow> parse_loop n rt cur s l \<noteq> Inl OutOfFuel"
proof (induction n arbitrary: rt cur s l)
  case (Suc n)
  obtain s1 l1 where k: "skipToNextStatement s l = (s1, l1)" by fastforce
  then have s1: "length s1 < Suc n" using skipToNext_length Suc.prems by fastforce
  show ?case
  proof (cases "s1 = [] \<or> hd s1 = CHR ''[''")
    case True
    then show ?thesis
      using k s1 Suc.IH readTableHeader_reads [of s1 l1] attachTable_error
      by (cases "readTableHeader s1 l1") (auto split: sum.split prod.split)
  next
    case False
    then show ?thesis
      using k s1 Suc.IH readKeyValue_reads [of s1 l1] at_table_error [OF setPath_error]
      by (cases "readKeyValue s1 l1") (auto split: sum.split prod.split)
  qed
qed simp

text \<open>
  C31. The TOML reader ends on every text: the fuel of its loops, bounded by the length of the text, is
  never used up, since every value, key and statement takes at least a byte.
\<close>

theorem toml_terminates: "parseToml src \<noteq> Inl OutOfFuel"
proof (cases "newScanner src")
  case (Pair s l)
  with parse_loop_fuel [of s "length s + 1"] show ?thesis by (simp add: parseToml_def del: parse_loop.simps)
qed

end
