(* ===== verification/Toml_Show.thy ===== *)
theory Toml_Show
  imports Toml
begin

section \<open>Writing\<close>

definition hex_char :: "nat \<Rightarrow> char" where
  "hex_char n = char_of (if n < 10 then 48 + n else 87 + n)"

definition show_char :: "char \<Rightarrow> string" where
  "show_char c =
     (let n = (of_char c :: nat) in
      if c = CHR 0x22 \<or> c = CHR 0x5C then [CHR 0x5C, c]
      else if n < 0x20 then CHR 0x5C # ''u00'' @ [hex_char (n div 16), hex_char (n mod 16)]
      else [c])"

definition show_string :: "string \<Rightarrow> string" where
  "show_string s = CHR 0x22 # concat (map show_char s) @ [CHR 0x22]"

fun show_value :: "tomlValue \<Rightarrow> string"
  and show_items :: "tomlValue list \<Rightarrow> string"
  and show_entries :: "(string \<times> tomlValue) list \<Rightarrow> string" where
  "show_value (TString s) = show_string s"
| "show_value (TNumber t) = t"
| "show_value (TBool b) = b"
| "show_value (TArray vs) = CHR ''['' # show_items vs @ '']''"
| "show_value (TInline kvs) = CHR ''{'' # show_entries kvs @ ''}''"
| "show_items [] = []"
| "show_items (v # vs) = show_value v @ (if vs = [] then [] else CHR '','' # show_items vs)"
| "show_entries [] = []"
| "show_entries ((k, v) # kvs) =
     show_string k @ '' = '' @ show_value v @ (if kvs = [] then [] else CHR '','' # show_entries kvs)"

text \<open>A number is one in the syntax of TOML, a boolean is one of two words.\<close>

definition number_text :: "string \<Rightarrow> bool" where
  "number_text t \<longleftrightarrow> numberRe t \<and> list_all isNumberChar t \<and>
     (hd t = CHR ''+'' \<or> hd t = CHR ''-'' \<or> dec_char (hd t))"

fun wf_value :: "tomlValue \<Rightarrow> bool" where
  "wf_value (TString s) = True"
| "wf_value (TNumber t) = number_text t"
| "wf_value (TBool b) = (b = ''true'' \<or> b = ''false'')"
| "wf_value (TArray vs) = (\<forall>v \<in> set vs. wf_value v)"
| "wf_value (TInline kvs) = (\<forall>p \<in> set kvs. wf_value (snd p))"

type_synonym pairs = "(string \<times> tomlValue) list"

definition show_pair :: "string \<times> tomlValue \<Rightarrow> string" where
  "show_pair p = show_string (fst p) @ '' = '' @ show_value (snd p) @ [lf]"

definition show_pairs :: "pairs \<Rightarrow> string" where
  "show_pairs ps = concat (map show_pair ps)"

definition show_section :: "string \<times> pairs \<Rightarrow> string" where
  "show_section s = CHR ''['' # show_string (fst s) @ [CHR '']'', lf] @ show_pairs (snd s)"

definition show_toml :: "pairs \<Rightarrow> (string \<times> pairs) list \<Rightarrow> string" where
  "show_toml ps secs = show_pairs ps @ concat (map show_section secs)"

lemma hexDigit_hex_char: "n < 16 \<Longrightarrow> hexDigit (hex_char n) = Some n"
  by (auto simp: hexDigit_def hex_char_def Let_def)

lemma four: "(4 :: nat) = Suc (Suc (Suc (Suc 0)))"
  by simp

lemma unicode_escape_read:
  assumes "n < 32"
  shows "readUnicodeEscape 4 l (CHR ''0'' # CHR ''0'' # hex_char (n div 16) # hex_char (n mod 16) # r) = Inr ([char_of n], r)"
proof -
  have z: "hexDigit CHR ''0'' = Some 0" by (simp add: hexDigit_def)
  have d: "n div 16 < 16" "n mod 16 < 16" using assms by auto
  have "hex_digits 4 l 0 (CHR ''0'' # CHR ''0'' # hex_char (n div 16) # hex_char (n mod 16) # r) =
      Inr (of_nat (n div 16) * 16 + of_nat (n mod 16), r)"
    using d unfolding four by (simp only: hex_digits.simps z hexDigit_hex_char list.case option.case) simp
  also have "(of_nat (n div 16) * 16 + of_nat (n mod 16) :: rune) = of_nat (n div 16 * 16 + n mod 16)"
    by (simp only: of_nat_add of_nat_mult of_nat_numeral)
  also have "\<dots> = of_nat n" by (simp only: div_mult_mod_eq)
  finally have h: "hex_digits 4 l 0 (CHR ''0'' # CHR ''0'' # hex_char (n div 16) # hex_char (n mod 16) # r) = Inr (of_nat n, r)" .
  have u: "unat (of_nat n :: rune) = n" using assms by (simp add: unsigned_of_nat take_bit_nat_eq_self)
  have s: "sint (of_nat n :: rune) = int n" using assms by (simp add: signed_of_nat signed_take_bit_int_eq_self)
  show ?thesis using assms unfolding readUnicodeEscape_def h by (simp add: s u utf8_def Let_def)
qed

section \<open>Strings\<close>

lemma escape_read:
  "c = CHR 0x22 \<or> c = CHR 0x5C \<Longrightarrow> readEscape m (c # r) l = Inr ([c], r, l)"
  by (elim disjE) (simp_all add: readEscape_def lf_def cr_def tab_def)

lemma escape_unicode:
  "n < 32 \<Longrightarrow> readEscape m (''u00'' @ [hex_char (n div 16), hex_char (n mod 16)] @ r) l = Inr ([char_of n], r, l)"
  by (simp add: readEscape_def unicode_escape_read)

lemma string_loop_escape:
  "readEscape False s l = Inr (w, r, l') \<Longrightarrow>
   string_loop (CHR 0x22) False l0 out (CHR 0x5C # s) l = string_loop (CHR 0x22) False l0 (out @ w) r l'"
  by simp

lemma string_loop_char:
  assumes "c \<noteq> CHR 0x22" and "c \<noteq> CHR 0x5C" and "\<not> (of_char c :: nat) < 0x20"
  shows "string_loop (CHR 0x22) False l0 out (c # s) l = string_loop (CHR 0x22) False l0 (out @ [c]) s l"
proof -
  have "c \<noteq> lf" "c \<noteq> cr" using assms(3) by (auto simp: lf_def cr_def)
  with assms show ?thesis by simp
qed

lemma string_loop_show:
  "string_loop (CHR 0x22) False l0 out (concat (map show_char s) @ CHR 0x22 # r) l = Inr (out @ s, r, l)"
proof (induction s arbitrary: out)
  case (Cons c s)
  show ?case
  proof (cases "c = CHR 0x22 \<or> c = CHR 0x5C")
    case True
    then have "show_char c = [CHR 0x5C, c]" by (simp add: show_char_def Let_def)
    then show ?thesis using string_loop_escape [OF escape_read [OF True]] Cons by simp
  next
    case ne: False
    show ?thesis
    proof (cases "(of_char c :: nat) < 0x20")
      case True
      then have "show_char c = CHR 0x5C # ''u00'' @ [hex_char (of_char c div 16), hex_char (of_char c mod 16)]"
        using ne by (simp add: show_char_def Let_def)
      moreover have "of_char c < (32 :: nat)" using True by simp
      ultimately show ?thesis
        using string_loop_escape [OF escape_unicode [of "of_char c"]] Cons by simp
    next
      case False
      then have "show_char c = [c]" using ne by (simp add: show_char_def Let_def)
      with ne False Cons string_loop_char [of c] show ?thesis by simp
    qed
  qed
qed simp

declare string_loop.simps [simp del]

lemma show_char_not_quote: "\<exists>d ds. show_char c = d # ds \<and> d \<noteq> CHR 0x22"
  by (auto simp: show_char_def Let_def)

lemma readString_show:
  assumes "r \<noteq> []" and "hd r \<noteq> CHR 0x22"
  shows "readString False (show_string s @ r) l = Inr (s, r, l) \<and>
    \<not> (peekAt (show_string s @ r) 1 = CHR 0x22 \<and> peekAt (show_string s @ r) 2 = CHR 0x22)"
proof
  show "readString False (show_string s @ r) l = Inr (s, r, l)"
    by (simp add: readString_def show_string_def peekAt_def string_loop_show)
  show "\<not> (peekAt (show_string s @ r) 1 = CHR 0x22 \<and> peekAt (show_string s @ r) 2 = CHR 0x22)"
  proof (cases s)
    case Nil
    with assms show ?thesis by (cases r) (simp_all add: show_string_def peekAt_def)
  next
    case (Cons c s')
    with show_char_not_quote [of c] show ?thesis by (auto simp: show_string_def peekAt_def)
  qed
qed

lemma hd_show_string [simp]: "show_string s \<noteq> []" "hd (show_string s @ r) = CHR 0x22" "hd (show_string s) = CHR 0x22"
  by (simp_all add: show_string_def)

lemma readKeySegment_show:
  assumes "r \<noteq> []" and "hd r \<noteq> CHR 0x22"
  shows "readKeySegment (show_string k @ r) l = Inr (k, r, l)"
  using readString_show [OF assms] by (simp add: readKeySegment_def peekAt_def show_string_def)

section \<open>Values\<close>

definition ends :: "string \<Rightarrow> bool" where
  "ends r \<longleftrightarrow> r \<noteq> [] \<and> hd r \<in> {CHR '','', CHR '']'', CHR ''}'', lf}"

lemma ends_Cons [simp]: "ends (CHR '','' # r)" "ends (CHR '']'' # r)" "ends (CHR ''}'' # r)" "ends (lf # r)"
  by (simp_all add: ends_def)

lemma ends_facts:
  assumes "ends r"
  shows "r \<noteq> []" and "hd r \<noteq> CHR 0x22" and "\<not> isNumberChar (hd r)" and "isValueTerminator (hd r)"
  using assms by (auto simp: ends_def isNumberChar_def isValueTerminator_def blank_def Let_def lf_def)

lemma takeWhile_stop:
  assumes "list_all P t" and "r \<noteq> []" and "\<not> P (hd r)"
  shows "takeWhile P (t @ r) = t" and "dropWhile P (t @ r) = r"
  using assms by (cases r; simp add: list_all_iff takeWhile_append dropWhile_append)+

lemma numberRe_Nil [simp]: "\<not> numberRe []"
  by code_simp

lemma number_head: "number_text t \<Longrightarrow> t \<noteq> []"
  by (auto simp: number_text_def)

lemma readNumber_show: "number_text t \<Longrightarrow> ends r \<Longrightarrow> readNumber (t @ r) l = Inr (TNumber t, r, l)"
  using takeWhile_stop [of isNumberChar t r] ends_facts [of r]
  by (simp add: readNumber_def number_text_def Let_def)

lemma readBool_show:
  assumes "b = ''true'' \<or> b = ''false''" and "ends r"
  shows "readBool (b @ r) l = Inr (TBool b, r, l)"
proof -
  have "peekAt (b @ r) (length b) = hd r"
    using ends_facts(1) [OF assms(2)] by (simp add: peekAt_def nth_append hd_conv_nth)
  then have t: "isValueTerminator (peekAt (b @ r) (length b)) \<or> P" for P
    using ends_facts(4) [OF assms(2)] by simp
  have p: "hasPrefix (b @ r) b" by (simp add: hasPrefix_iff)
  have n: "b = ''false'' \<Longrightarrow> \<not> hasPrefix (b @ r) ''true''" by (simp add: hasPrefix_iff)
  from assms(1) have "find (\<lambda>w. hasPrefix (b @ r) w \<and> (isValueTerminator (peekAt (b @ r) (length w)) \<or> peekAt (b @ r) (length w) = CHR ''=''))
      [''true'', ''false''] = Some b"
  proof
    assume b: "b = ''true''"
    show ?thesis using p t unfolding b by (simp only: find.simps simp_thms if_True)
  next
    assume b: "b = ''false''"
    show ?thesis using p t n unfolding b by (simp only: find.simps simp_thms if_True if_False refl)
  qed
  then show ?thesis unfolding readBool_def by (simp only: option.case) simp
qed

text \<open>The first character decides how a value is read.\<close>

definition starts_value :: "char \<Rightarrow> bool" where
  "starts_value c \<longleftrightarrow> c \<in> {CHR 0x22, CHR ''['', CHR ''{'', CHR ''t'', CHR ''f'', CHR ''+'', CHR ''-''} \<or> dec_char c"

lemma show_value_head: "wf_value v \<Longrightarrow> show_value v \<noteq> [] \<and> starts_value (hd (show_value v))"
  by (cases v) (auto simp: starts_value_def number_text_def)

lemma starts_plain:
  assumes "starts_value c"
  shows "\<not> blank c" and "c \<noteq> CHR ''#''" and "c \<noteq> CHR '']''" and "c \<noteq> CHR ''}''" and "c \<noteq> lf" and "c \<noteq> cr"
    and "c \<noteq> CHR '' ''" and "c \<noteq> tab"
  using assms by (auto simp: starts_value_def blank_def lf_def cr_def tab_def dec_char_def)

lemma filler_plain:
  "s \<noteq> [] \<Longrightarrow> \<not> blank (hd s) \<Longrightarrow> hd s \<noteq> CHR ''#'' \<Longrightarrow> skipArrayFiller s l = (s, l)"
  "s \<noteq> [] \<Longrightarrow> \<not> blank (hd s) \<Longrightarrow> hd s \<noteq> CHR ''#'' \<Longrightarrow> skipToNextStatement s l = (s, l)"
  by (cases s; simp add: skipArrayFiller_def)+

lemma spaces_plain: "s = [] \<or> hd s \<noteq> CHR '' '' \<and> hd s \<noteq> tab \<Longrightarrow> skipSpaces s = s"
  by (cases s) (auto simp: skipSpaces_def)

lemma spaces_once [simp]: "skipSpaces (CHR '' '' # s) = skipSpaces s"
  by (simp add: skipSpaces_def)

lemma wf_items: "wf_value (TArray (v # vs)) \<longleftrightarrow> wf_value v \<and> wf_value (TArray vs)"
  by auto

lemma hd_append_value: "wf_value v \<Longrightarrow> starts_value (hd (show_value v @ r)) \<and> show_value v @ r \<noteq> []"
  using show_value_head [of v] by simp

declare readValue.simps [simp del] array_loop.simps [simp del] table_loop.simps [simp del] readKeyPath.simps [simp del]

text \<open>Reading a value after its first character is known.\<close>

lemma readValue_dispatch:
  assumes "s \<noteq> []"
  shows "hd s = CHR 0x22 \<Longrightarrow> \<not> (peekAt s 1 = CHR 0x22 \<and> peekAt s 2 = CHR 0x22) \<Longrightarrow>
      readValue (Suc n) s l = map_sum id (\<lambda>(str, sc). (TString str, sc)) (readString False s l)"
    and "hd s = CHR ''['' \<Longrightarrow> readValue (Suc n) s l = array_loop n l [] (tl s) l"
    and "hd s = CHR ''{'' \<Longrightarrow> readValue (Suc n) s l = table_loop n l [] (tl s) l"
    and "hd s = CHR ''t'' \<or> hd s = CHR ''f'' \<Longrightarrow> readValue (Suc n) s l = readBool s l"
    and "hd s = CHR ''+'' \<or> hd s = CHR ''-'' \<or> dec_char (hd s) \<Longrightarrow> readValue (Suc n) s l = readNumber s l"
proof -
  note step = readValue.simps(2) [of n s l, unfolded if_not_P [OF assms] Let_def]
  show "hd s = CHR 0x22 \<Longrightarrow> \<not> (peekAt s 1 = CHR 0x22 \<and> peekAt s 2 = CHR 0x22) \<Longrightarrow>
      readValue (Suc n) s l = map_sum id (\<lambda>(str, sc). (TString str, sc)) (readString False s l)"
    by (simp only: step simp_thms if_True refl)
  show "hd s = CHR ''['' \<Longrightarrow> readValue (Suc n) s l = array_loop n l [] (tl s) l"
    by (simp add: step)
  show "hd s = CHR ''{'' \<Longrightarrow> readValue (Suc n) s l = table_loop n l [] (tl s) l"
    by (simp add: step)
  show "hd s = CHR ''t'' \<or> hd s = CHR ''f'' \<Longrightarrow> readValue (Suc n) s l = readBool s l"
    by (elim disjE) (simp_all add: step)
  show "hd s = CHR ''+'' \<or> hd s = CHR ''-'' \<or> dec_char (hd s) \<Longrightarrow> readValue (Suc n) s l = readNumber s l"
    by (cases "hd s = CHR ''+'' \<or> hd s = CHR ''-''") (auto simp: step dec_char_def)
qed

text \<open>One turn of the loops of an array and of an inline table.\<close>

lemma array_item:
  assumes "wf_value v" and "\<And>t. ends t \<Longrightarrow> readValue n (show_value v @ t) l = Inr (v, t, l)"
  shows "array_loop (Suc n) l0 acc (show_value v @ CHR '','' # t) l = array_loop n l0 (acc @ [v]) t l"
    and "array_loop (Suc n) l0 acc (show_value v @ CHR '']'' # t) l = Inr (TArray (acc @ [v]), t, l)"
proof -
  have h: "starts_value (hd (show_value v @ t))" "show_value v @ t \<noteq> []" for t
    using hd_append_value [OF assms(1)] by simp_all
  have f: "skipArrayFiller (show_value v @ t) l = (show_value v @ t, l)" for t
    by (rule filler_plain) (use h starts_plain in \<open>auto simp del: append_is_Nil_conv\<close>)
  have b: "hd (show_value v @ t) \<noteq> CHR '']''" for t using h(1) starts_plain(3) by blast
  have c: "skipArrayFiller (CHR '','' # t) l = (CHR '','' # t, l)" "skipArrayFiller (CHR '']'' # t) l = (CHR '']'' # t, l)"
    by (rule filler_plain; simp add: blank_def lf_def cr_def tab_def)+
  show "array_loop (Suc n) l0 acc (show_value v @ CHR '','' # t) l = array_loop n l0 (acc @ [v]) t l"
    unfolding array_loop.simps f prod.case if_not_P [OF h(2)] if_not_P [OF b] Let_def
    by (simp add: assms(2) c)
  show "array_loop (Suc n) l0 acc (show_value v @ CHR '']'' # t) l = Inr (TArray (acc @ [v]), t, l)"
    unfolding array_loop.simps f prod.case if_not_P [OF h(2)] if_not_P [OF b] Let_def
    by (simp add: assms(2) c)
qed

lemma eq_spaces: "wf_value v \<Longrightarrow> skipSpaces (drop 1 (skipSpaces ('' = '' @ show_value v @ t))) = show_value v @ t"
  "peekAt (skipSpaces ('' = '' @ s)) 0 = CHR ''=''"
  using hd_append_value [of v t] starts_plain(7,8) [of "hd (show_value v @ t)"]
  by (simp_all add: spaces_plain peekAt_def tab_def)

lemma table_entry:
  assumes "wf_value v" and "\<And>t. ends t \<Longrightarrow> readValue n (show_value v @ t) l = Inr (v, t, l)"
  shows "table_loop (Suc n) l0 acc (show_string k @ '' = '' @ show_value v @ CHR '','' # t) l = table_loop n l0 (acc @ [(k, v)]) t l"
    and "table_loop (Suc n) l0 acc (show_string k @ '' = '' @ show_value v @ CHR ''}'' # t) l = Inr (TInline (acc @ [(k, v)]), t, l)"
proof -
  have f: "skipSpaces (show_string k @ t) = show_string k @ t" for t
    by (simp add: spaces_plain tab_def)
  have n: "show_string k @ t \<noteq> []" "hd (show_string k @ t) \<noteq> CHR ''}''"
    "\<not> (hd (show_string k @ t) = lf \<or> hd (show_string k @ t) = cr)" for t
    by (simp_all add: lf_def cr_def)
  have key: "readKeySegment (show_string k @ '' = '' @ t) l = Inr (k, '' = '' @ t, l)" for t
    by (rule readKeySegment_show) simp_all
  have c: "skipSpaces (CHR '','' # t) = CHR '','' # t" "skipSpaces (CHR ''}'' # t) = CHR ''}'' # t"
    by (simp_all add: spaces_plain tab_def)
  have step: "table_loop (Suc n) l0 acc (show_string k @ '' = '' @ show_value v @ t) l =
      (case readValue n (show_value v @ t) l of
            Inl e \<Rightarrow> Inl e
          | Inr (v, s3, l3) \<Rightarrow>
              let s4 = skipSpaces s3 in
              if s4 = [] then Inl (UnclosedTable l0)
              else if hd s4 = CHR '','' then table_loop n l0 (acc @ [(k, v)]) (tl s4) l3
              else if hd s4 = CHR ''}'' then Inr (TInline (acc @ [(k, v)]), tl s4, l3)
              else Inl (TableSep l3))" for t
    unfolding table_loop.simps(2) Let_def f if_not_P [OF n(1)] if_not_P [OF n(2)] if_not_P [OF n(3)] key
      sum.case prod.case eq_spaces(2) eq_spaces(1) [OF assms(1)] by simp
  show "table_loop (Suc n) l0 acc (show_string k @ '' = '' @ show_value v @ CHR '','' # t) l = table_loop n l0 (acc @ [(k, v)]) t l"
    unfolding step by (simp add: assms(2) c)
  show "table_loop (Suc n) l0 acc (show_string k @ '' = '' @ show_value v @ CHR ''}'' # t) l = Inr (TInline (acc @ [(k, v)]), t, l)"
    unfolding step by (simp add: assms(2) c)
qed

text \<open>Reading back a value that is followed by the end of a line or of an element.\<close>

lemma values_show:
  "wf_value v \<Longrightarrow> ends r \<Longrightarrow> 2 * length (show_value v) < n \<Longrightarrow> readValue n (show_value v @ r) l = Inr (v, r, l)"
  "(\<forall>v \<in> set vs. wf_value v) \<Longrightarrow> 2 * length (show_items vs) + 1 < n \<Longrightarrow>
    array_loop n l0 acc (show_items vs @ CHR '']'' # r) l = Inr (TArray (acc @ vs), r, l)"
  "(\<forall>p \<in> set kvs. wf_value (snd p)) \<Longrightarrow> 2 * length (show_entries kvs) + 1 < n \<Longrightarrow>
    table_loop n l0 acct (show_entries kvs @ CHR ''}'' # r) l = Inr (TInline (acct @ kvs), r, l)"
proof (induction v and vs and kvs arbitrary: n r l and n r l l0 acc and n r l l0 acct
    rule: show_value_show_items_show_entries.induct)
  case (1 s)
  then obtain m where n: "n = Suc m" by (cases n) auto
  have q: "\<not> (peekAt (show_string s @ r) 1 = CHR 0x22 \<and> peekAt (show_string s @ r) 2 = CHR 0x22)"
    and r: "readString False (show_string s @ r) l = Inr (s, r, l)"
    using readString_show [OF ends_facts(1,2) [OF 1(2)], of s l] by simp_all
  show ?case unfolding n show_value.simps by (subst readValue_dispatch(1) [OF _ _ q]) (simp_all add: r)
next
  case (2 t)
  then obtain m where n: "n = Suc m" by (cases n) auto
  have "hd (t @ r) = hd t" "t @ r \<noteq> []" using 2 number_head by auto
  then have "readValue (Suc m) (t @ r) l = readNumber (t @ r) l"
    using readValue_dispatch(5) [of "t @ r" m l] 2(1) by (simp add: number_text_def)
  with 2 show ?case by (simp add: n readNumber_show)
next
  case (3 b)
  then obtain m where n: "n = Suc m" by (cases n) auto
  have "readValue (Suc m) (b @ r) l = readBool (b @ r) l"
    using 3(1) by (intro readValue_dispatch(4)) auto
  with 3 readBool_show [of b r l] show ?case by (simp add: n)
next
  case (4 vs)
  then obtain m where n: "n = Suc m" by (cases n) auto
  have "readValue (Suc m) (show_value (TArray vs) @ r) l = array_loop m l [] (show_items vs @ CHR '']'' # r) l"
    by (subst readValue_dispatch(2)) simp_all
  also have "\<dots> = Inr (TArray vs, r, l)" using 4(2-) by (subst 4(1)) (simp_all add: n)
  finally show ?case by (simp add: n)
next
  case (5 kvs)
  then obtain m where n: "n = Suc m" by (cases n) auto
  have "readValue (Suc m) (show_value (TInline kvs) @ r) l = table_loop m l [] (show_entries kvs @ CHR ''}'' # r) l"
    by (subst readValue_dispatch(3)) simp_all
  also have "\<dots> = Inr (TInline kvs, r, l)" using 5(2-) by (subst 5(1)) (simp_all add: n)
  finally show ?case by (simp add: n)
next
  case 6
  then obtain m where n: "n = Suc m" by (cases n) auto
  show ?case by (simp add: n array_loop.simps(2) skipArrayFiller_def blank_def lf_def cr_def tab_def)
next
  case (7 v vs)
  then obtain m where n: "n = Suc m" by (cases n) auto
  have wf: "wf_value v" and rd: "\<And>t. ends t \<Longrightarrow> readValue m (show_value v @ t) l = Inr (v, t, l)"
    using 7 by (simp_all add: n)
  show ?case
  proof (cases "vs = []")
    case True
    then show ?thesis using array_item(2) [OF wf rd] by (simp add: n)
  next
    case False
    then have "array_loop n l0 acc (show_items (v # vs) @ CHR '']'' # r) l = array_loop m l0 (acc @ [v]) (show_items vs @ CHR '']'' # r) l"
      using array_item(1) [OF wf rd] by (simp add: n)
    also have "\<dots> = Inr (TArray ((acc @ [v]) @ vs), r, l)" using False 7 by (intro 7(2)) (simp_all add: n)
    finally show ?thesis by simp
  qed
next
  case 8
  then obtain m where n: "n = Suc m" by (cases n) auto
  show ?case by (simp add: n table_loop.simps(2) spaces_plain tab_def)
next
  case (9 k v kvs)
  then obtain m where n: "n = Suc m" by (cases n) auto
  have wf: "wf_value v" and rd: "\<And>t. ends t \<Longrightarrow> readValue m (show_value v @ t) l = Inr (v, t, l)"
    using 9 by (simp_all add: n)
  show ?case
  proof (cases "kvs = []")
    case True
    then show ?thesis using table_entry(2) [OF wf rd] by (simp add: n)
  next
    case False
    then have "table_loop n l0 acct (show_entries ((k, v) # kvs) @ CHR ''}'' # r) l =
        table_loop m l0 (acct @ [(k, v)]) (show_entries kvs @ CHR ''}'' # r) l"
      using table_entry(1) [OF wf rd] by (simp add: n)
    also have "\<dots> = Inr (TInline ((acct @ [(k, v)]) @ kvs), r, l)" using False 9 by (intro 9(2)) (simp_all add: n)
    finally show ?thesis by simp
  qed
qed

section \<open>Statements\<close>

lemma end_of_line: "endOfStatement (lf # r) l = Inr (r, l + 1)"
  by (simp add: endOfStatement_def spaces_plain lf_def cr_def tab_def)

lemma readKeyPath_show:
  assumes "r \<noteq> []" and "hd r \<noteq> CHR 0x22" and "hd r \<noteq> CHR ''.''"
  shows "readKeyPath (Suc n) (show_string k @ r) l = Inr ([k], r, l)"
  using readKeySegment_show [OF assms(1,2)] assms by (cases r) (simp_all add: readKeyPath.simps(2) peekAt_def)

lemma readKeyValue_show:
  assumes "wf_value (snd p)"
  shows "readKeyValue (show_pair p @ r) l = Inr ([fst p], snd p, r, l + 1)"
proof -
  have path: "readKeyPath (Suc n) (show_string (fst p) @ '' = '' @ t) l = Inr ([fst p], '' = '' @ t, l)" for n t
    by (rule readKeyPath_show) simp_all
  have v: "readValue (2 * length (show_value (snd p) @ lf # r) + 1) (show_value (snd p) @ lf # r) l = Inr (snd p, lf # r, l)"
    by (rule values_show(1) [OF assms]) simp_all
  have t: "show_pair p @ r = show_string (fst p) @ '' = '' @ show_value (snd p) @ lf # r" by (simp add: show_pair_def)
  show ?thesis
    unfolding readKeyValue_def t Suc_eq_plus1 [symmetric] path sum.case prod.case eq_spaces(2) Let_def
      eq_spaces(1) [OF assms] v [unfolded Suc_eq_plus1 [symmetric]]
    by (simp add: end_of_line)
qed

lemma readTableHeader_show:
  "readTableHeader (CHR ''['' # show_string name @ CHR '']'' # lf # r) l = Inr ([name], l, r, l + 1)"
proof -
  have "readKeyPath (Suc n) (show_string name @ CHR '']'' # lf # r) l = Inr ([name], CHR '']'' # lf # r, l)" for n
    by (rule readKeyPath_show) simp_all
  moreover have "peekAt (show_string name @ t) 0 = CHR 0x22" for t by (simp add: show_string_def peekAt_def)
  ultimately show ?thesis by (simp add: readTableHeader_def Let_def end_of_line peekAt_def)
qed

text \<open>The table after reading pairs from line \<open>l\<close> on.\<close>

fun put_pairs :: "nat \<Rightarrow> pairs \<Rightarrow> tomlNode \<Rightarrow> tomlNode" where
  "put_pairs l [] n = n"
| "put_pairs l ((k, v) # ps) n =
     put_pairs (l + 1) ps (TNode (tn_line n) (tn_declared n) (tn_val n) (tn_fields n @ [(k, TNode (l + 1) False (Some v) [])]))"

lemma update_fresh: "k \<notin> fst ` set xs \<Longrightarrow> AList.update k v xs = xs @ [(k, v)]"
  by (induction xs) auto

lemma field_fresh: "k \<notin> fst ` set (tn_fields n) \<Longrightarrow> field n k = None"
  by (simp add: field_def map_of_eq_None_iff)

lemma setPath_fresh:
  "k \<notin> fst ` set (tn_fields n) \<Longrightarrow>
   setPath [k] v l n = Inr (TNode (tn_line n) (tn_declared n) (tn_val n) (tn_fields n @ [(k, TNode l False (Some v) [])]))"
  by (simp add: get_or_new_def field_fresh newTomlNode_def put_field_def update_fresh Let_def)

lemma put_pairs_keeps [simp]:
  "tn_val (put_pairs l ps n) = tn_val n" "tn_line (put_pairs l ps n) = tn_line n"
  "tn_declared (put_pairs l ps n) = tn_declared n"
  by (induction l ps n rule: put_pairs.induct) simp_all

text \<open>The table that is current: the root, or the last section.\<close>

definition current :: "string list \<Rightarrow> tomlNode \<Rightarrow> tomlNode \<Rightarrow> (tomlNode \<Rightarrow> tomlNode) \<Rightarrow> bool" where
  "current cur rt c put \<longleftrightarrow> rt = put c \<and>
     (\<forall>f x y. f x = Inr y \<longrightarrow> at_table cur f (put x) = Inr (put y))"

lemma current_root: "current [] rt rt (\<lambda>c. c)"
  by (simp add: current_def)

lemma current_section:
  assumes "name \<notin> fst ` set fs"
  shows "current [name] (TNode l d v (fs @ [(name, c)])) c (\<lambda>c. TNode l d v (fs @ [(name, c)]))"
proof -
  have "map_of (fs @ [(name, x)]) name = Some x" for x :: tomlNode
    using assms by (simp add: map_add_def map_of_eq_None_iff [THEN iffD2])
  moreover have "AList.update name y (fs @ [(name, x)]) = fs @ [(name, y)]" for x y :: tomlNode
    using assms by (induction fs) auto
  ultimately show ?thesis by (simp add: current_def field_def put_field_def)
qed

lemma show_pair_head: "show_pair p @ r \<noteq> []" "hd (show_pair p @ r) = CHR 0x22"
  by (simp_all add: show_pair_def)

lemma pair_step:
  assumes "wf_value (snd p)" and "current cur rt c put" and "fst p \<notin> fst ` set (tn_fields c)"
  shows "parse_loop (Suc n) rt cur (show_pair p @ r) l = parse_loop n (put (put_pairs l [p] c)) cur r (l + 1)"
proof -
  have k: "skipToNextStatement (show_pair p @ r) l = (show_pair p @ r, l)"
    by (rule filler_plain(2)) (use show_pair_head [of p r] in \<open>simp_all add: blank_def lf_def cr_def tab_def\<close>)
  have "at_table cur (setPath [fst p] (snd p) (l + 1)) rt = Inr (put (put_pairs l [p] c))"
    using assms(2) setPath_fresh [OF assms(3)] unfolding current_def by (cases p) simp
  then show ?thesis
    unfolding parse_loop.simps k prod.case if_not_P [OF show_pair_head(1)]
    using show_pair_head(2) [of p r] readKeyValue_show [OF assms(1)] by simp
qed

section \<open>Documents\<close>

definition wf_pairs :: "pairs \<Rightarrow> bool" where
  "wf_pairs ps \<longleftrightarrow> (\<forall>p \<in> set ps. wf_value (snd p)) \<and> distinct (map fst ps)"

declare parse_loop.simps [simp del]

lemma pairs_loop:
  assumes "wf_pairs ps" and "current cur rt c put" and "fst ` set ps \<inter> fst ` set (tn_fields c) = {}"
    and "length (show_pairs ps @ r) < n"
  shows "\<exists>m. length r < m \<and>
    parse_loop n rt cur (show_pairs ps @ r) l = parse_loop m (put (put_pairs l ps c)) cur r (l + length ps)"
  using assms
proof (induction ps arbitrary: rt c n l)
  case Nil
  then show ?case by (auto simp: current_def show_pairs_def)
next
  case (Cons p ps)
  then obtain m where n: "n = Suc m" by (cases n) auto
  have len: "length (show_pairs ps @ r) < m"
    using Cons.prems(4) by (simp add: n show_pairs_def show_pair_def show_string_def)
  have step: "parse_loop n rt cur (show_pairs (p # ps) @ r) l =
      parse_loop m (put (put_pairs l [p] c)) cur (show_pairs ps @ r) (l + 1)"
    using Cons.prems pair_step [of p cur rt c put m "show_pairs ps @ r" l]
    by (simp add: n wf_pairs_def show_pairs_def)
  have "\<exists>k. length r < k \<and> parse_loop m (put (put_pairs l [p] c)) cur (show_pairs ps @ r) (l + 1) =
      parse_loop k (put (put_pairs (l + 1) ps (put_pairs l [p] c))) cur r (l + 1 + length ps)"
  proof (rule Cons.IH)
    show "wf_pairs ps" using Cons.prems(1) by (simp add: wf_pairs_def)
    show "current cur (put (put_pairs l [p] c)) (put_pairs l [p] c) put" using Cons.prems(2) by (simp add: current_def)
    show "fst ` set ps \<inter> fst ` set (tn_fields (put_pairs l [p] c)) = {}"
      using Cons.prems(1,3) by (cases p) (auto simp: wf_pairs_def)
  qed (rule len)
  moreover have "put_pairs (l + 1) ps (put_pairs l [p] c) = put_pairs l (p # ps) c" by (cases p) simp
  ultimately show ?case by (simp add: step)
qed

text \<open>The document after reading sections from line \<open>l\<close> on.\<close>

fun put_sections :: "nat \<Rightarrow> (string \<times> pairs) list \<Rightarrow> tomlNode \<Rightarrow> tomlNode" where
  "put_sections l [] rt = rt"
| "put_sections l ((name, ps) # secs) rt =
     put_sections (l + 1 + length ps) secs
       (TNode (tn_line rt) (tn_declared rt) (tn_val rt)
          (tn_fields rt @ [(name, put_pairs (l + 1) ps (TNode l True None []))]))"

lemma header_step:
  assumes "name \<notin> fst ` set (tn_fields rt)"
  shows "parse_loop (Suc n) rt cur (CHR ''['' # show_string name @ CHR '']'' # lf # r) l =
    parse_loop n (TNode (tn_line rt) (tn_declared rt) (tn_val rt) (tn_fields rt @ [(name, TNode l True None [])])) [name] r (l + 1)"
proof -
  have k: "skipToNextStatement (CHR ''['' # t) l = (CHR ''['' # t, l)" for t
    by (simp add: blank_def lf_def cr_def tab_def)
  have "attachTable [name] l rt =
      Inr (TNode (tn_line rt) (tn_declared rt) (tn_val rt) (tn_fields rt @ [(name, TNode l True None [])]))"
    using assms by (simp add: get_or_new_def field_fresh newTomlNode_def put_field_def update_fresh Let_def)
  then show ?thesis unfolding parse_loop.simps(2) k prod.case by (simp add: readTableHeader_show)
qed

lemma sections_loop:
  assumes "\<forall>s \<in> set secs. wf_pairs (snd s)" and "distinct (map fst secs)"
    and "fst ` set secs \<inter> fst ` set (tn_fields rt) = {}" and "length (concat (map show_section secs)) < n"
  shows "parse_loop n rt cur (concat (map show_section secs)) l = Inr (put_sections l secs rt)"
  using assms
proof (induction secs arbitrary: rt n l cur)
  case Nil
  then show ?case by (cases n) (auto simp: parse_loop.simps)
next
  case (Cons s secs)
  obtain name ps where s: "s = (name, ps)" by fastforce
  let ?r = "concat (map show_section secs)" and ?c = "TNode l True None []"
  let ?put = "\<lambda>c. TNode (tn_line rt) (tn_declared rt) (tn_val rt) (tn_fields rt @ [(name, c)])"
  from Cons.prems obtain m where n: "n = Suc m" by (cases n) auto
  have fresh: "name \<notin> fst ` set (tn_fields rt)" using Cons.prems(3) by (simp add: s)
  have "parse_loop n rt cur (concat (map show_section (s # secs))) l =
      parse_loop m (?put ?c) [name] (show_pairs ps @ ?r) (l + 1)"
    using header_step [OF fresh, of m cur "show_pairs ps @ ?r" l] by (simp add: s n show_section_def)
  moreover have "\<exists>k. length ?r < k \<and> parse_loop m (?put ?c) [name] (show_pairs ps @ ?r) (l + 1) =
      parse_loop k (?put (put_pairs (l + 1) ps ?c)) [name] ?r (l + 1 + length ps)"
    by (rule pairs_loop) (use Cons.prems current_section [OF fresh] in \<open>simp_all add: s n show_section_def\<close>)
  moreover have "parse_loop k (?put (put_pairs (l + 1) ps ?c)) [name] ?r (l + 1 + length ps) =
      Inr (put_sections (l + 1 + length ps) secs (?put (put_pairs (l + 1) ps ?c)))" if "length ?r < k" for k
    using Cons.prems that by (intro Cons.IH) (auto simp: s)
  ultimately show ?case by (auto simp: s)
qed

definition fields_of :: "tomlNode \<Rightarrow> (string \<times> tomlValue option) list" where
  "fields_of n = map (\<lambda>(k, c). (k, tn_val c)) (tn_fields n)"

definition given :: "pairs \<Rightarrow> (string \<times> tomlValue option) list" where
  "given ps = map (\<lambda>(k, v). (k, Some v)) ps"

lemma fields_put_pairs: "fields_of (put_pairs l ps n) = fields_of n @ given ps"
  by (induction l ps n rule: put_pairs.induct) (simp_all add: fields_of_def given_def)

lemma put_sections_fields: "\<exists>new. tn_fields (put_sections l secs rt) = tn_fields rt @ new \<and>
    map (\<lambda>(k, c). (k, tn_val c)) new = map (\<lambda>s. (fst s, None)) secs \<and>
    (\<forall>s \<in> set secs. \<exists>c. (fst s, c) \<in> set new \<and> fields_of c = given (snd s))"
proof (induction l secs rt rule: put_sections.induct)
  case (2 l name ps secs rt)
  have "fields_of (put_pairs (l + 1) ps (TNode l True None [])) = given ps"
    by (simp add: fields_put_pairs) (simp add: fields_of_def)
  with 2 show ?case by (elim exE conjE) (fastforce simp: add.assoc)
qed simp

lemma newScanner_show: "newScanner (show_toml ps secs) = (show_toml ps secs, 1)"
proof -
  have "show_toml ps secs = [] \<or> hd (show_toml ps secs) \<in> {CHR 0x22, CHR ''[''}"
    by (cases ps; cases secs) (simp_all add: show_toml_def show_pairs_def show_pair_def show_section_def)
  then have "\<not> hasPrefix (show_toml ps secs) [CHR 0xEF, CHR 0xBB, CHR 0xBF]"
    by (cases "show_toml ps secs") (auto simp: hasPrefix_def)
  then show ?thesis by (simp add: newScanner_def trimPrefix_def)
qed

lemma fst_fields: "map fst (tn_fields n) = map fst (fields_of n)"
  by (simp add: fields_of_def case_prod_unfold)

lemma fst_given: "map fst (given ps) = map fst ps"
  by (simp add: given_def case_prod_unfold)

lemma parse_show:
  assumes "wf_pairs ps" and "\<forall>s \<in> set secs. wf_pairs (snd s)" and "distinct (map fst ps @ map fst secs)"
  shows "parseToml (show_toml ps secs) = Inr (put_sections (1 + length ps) secs (put_pairs 1 ps (newTomlNode 0)))"
proof -
  have keys: "fst ` set (tn_fields (put_pairs 1 ps (newTomlNode 0))) = fst ` set ps"
    using arg_cong [OF fst_fields [of "put_pairs 1 ps (newTomlNode 0)"], of set]
    by (simp add: fields_put_pairs fst_given image_Un) (simp add: fields_of_def newTomlNode_def given_def image_image case_prod_unfold)
  obtain m where "length (concat (map show_section secs)) < m"
    "parse_loop (length (show_toml ps secs) + 1) (newTomlNode 0) [] (show_toml ps secs) 1 =
      parse_loop m (put_pairs 1 ps (newTomlNode 0)) [] (concat (map show_section secs)) (1 + length ps)"
    using pairs_loop [OF assms(1) current_root, of "newTomlNode 0" "concat (map show_section secs)" "length (show_toml ps secs) + 1" 1]
    by (auto simp: newTomlNode_def show_toml_def)
  moreover have "parse_loop m (put_pairs 1 ps (newTomlNode 0)) [] (concat (map show_section secs)) (1 + length ps) =
      Inr (put_sections (1 + length ps) secs (put_pairs 1 ps (newTomlNode 0)))" if "length (concat (map show_section secs)) < m"
    by (rule sections_loop [OF assms(2) _ _ that]) (use assms(3) keys in auto)
  ultimately show ?thesis by (simp add: parseToml_def newScanner_show)
qed


definition demo_pairs :: pairs where
  "demo_pairs = [(''name'', TString ''a\"b'')]"

definition demo_section :: "string \<times> pairs" where
  "demo_section = (''deps'', [(''x'', TArray [TNumber ''1.0'', TInline []])])"


section \<open>What it accepts although it should not\<close>

text \<open>An escape beyond the range of an \<open>int32\<close> is negative, passes the check and becomes U+FFFD.\<close>

lemma escape_wraps: "readUnicodeEscape 8 l ''80000000'' = Inr (utf8 0xFFFD, [])"
proof -
  have d: "hexDigit CHR ''8'' = Some 8" "hexDigit CHR ''0'' = Some 0" by (simp_all add: hexDigit_def)
  have "hex_digits (Suc (Suc (Suc (Suc (Suc (Suc (Suc (Suc 0)))))))) l 0 ''80000000'' = Inr (0x80000000, [])"
    by (simp add: d)
  then have "hex_digits 8 l 0 ''80000000'' = Inr (0x80000000, [])" by (simp add: eval_nat_numeral)
  moreover have "sint (0x80000000 :: rune) = - 0x80000000" "unat (0x80000000 :: rune) = 0x80000000" by simp_all
  ultimately show ?thesis by (simp add: readUnicodeEscape_def utf8_def Let_def)
qed

text \<open>A value covers a table that was only created by a dotted key.\<close>

lemma table_covered:
  "map_sum id fields_of (parseToml (''a.b=1'' @ [lf] @ ''a=2'')) = Inr [(''a'', Some (TNumber ''2''))]"
  by code_simp

text \<open>An inline table may hold a key twice.\<close>

lemma inline_duplicates:
  "map_sum id fields_of (parseToml ''a={x=1,x=2}'') = Inr [(''a'', Some (TInline [(''x'', TNumber ''1''), (''x'', TNumber ''2'')]))]"
  by code_simp

end
