(* ===== verification/Schema_Check.thy ===== *)
theory Schema_Check
  imports Fid_Prelude
begin

text \<open>
  The check of the published JSON schemas (internal/schemacheck/check.go): the guard against constructs
  the validator does not know, the validator, and the check of a repository. The compiler of regular
  expressions and the files are parameters.
\<close>

section \<open>The guard\<close>

definition sch_supported :: "string list" where
  "sch_supported =
     [''$schema'', ''title'', ''description'', ''type'', ''enum'', ''const'', ''required'', ''properties'',
      ''additionalProperties'', ''propertyNames'', ''items'', ''minItems'', ''maxItems'', ''minLength'', ''maxLength'',
      ''minProperties'', ''maxProperties'', ''minimum'', ''maximum'', ''pattern'', ''oneOf'', ''anyOf'', ''allOf'',
      ''not'', ''if'', ''then'', ''else'']"

definition literalKeys :: "string list" where
  "literalKeys = [''enum'', ''const'', ''required'', ''examples'', ''default'']"

definition mapOfSchemas :: "string list" where
  "mapOfSchemas = [''properties'', ''patternProperties'', ''definitions'', ''$defs'']"

definition branchKeys :: "string list" where
  "branchKeys = [''allOf'', ''anyOf'', ''oneOf'']"

lemma entry_size: "(k, a) \<in> set sc \<Longrightarrow> size a < size (JObj sc)"
  by (induction sc) auto

lemma elem_size: "a \<in> set l \<Longrightarrow> size a < size (JArr l)"
  by (induction l) auto

lemma entry_entry_size: "(k, JObj sub) \<in> set sc \<Longrightarrow> (n, a) \<in> set sub \<Longrightarrow> size a < size (JObj sc)"
  using entry_size less_trans by blast

lemma entry_elem_size: "(k, JArr l) \<in> set sc \<Longrightarrow> a \<in> set l \<Longrightarrow> size a < size (JObj sc)"
  using entry_size elem_size less_trans by blast

lemmas schema_size = entry_size entry_entry_size entry_elem_size

text \<open>A path is the list of its keys; the position in a list of branches is left out.\<close>

function unsupportedConstructs :: "json \<Rightarrow> string list \<Rightarrow> string list list" where
  "unsupportedConstructs s path =
     (case s of
        JObj m \<Rightarrow> concat (map (\<lambda>(k, v).
          let here = path @ [k] in
          if k \<in> set literalKeys then []
          else if k \<notin> set sch_supported then here # unsupportedConstructs v here
          else if k \<in> set mapOfSchemas then
            (case v of JObj sub \<Rightarrow> concat (map (\<lambda>(name, sch). unsupportedConstructs sch (here @ [name])) sub) | _ \<Rightarrow> [])
          else if k \<in> set branchKeys then
            (case v of JArr l \<Rightarrow> concat (map (\<lambda>sch. unsupportedConstructs sch here) l) | _ \<Rightarrow> [])
          else unsupportedConstructs v here) m)
      | _ \<Rightarrow> [])"
  by pat_completeness auto
termination
  by (relation "measure (\<lambda>(s, p). size s)") (auto intro: schema_size simp del: json.size)

declare unsupportedConstructs.simps [simp del]

section \<open>Values\<close>

text \<open>The number of runes of a text; a byte that starts none counts as one.\<close>

definition byte_in :: "nat \<Rightarrow> nat \<Rightarrow> string \<Rightarrow> nat \<Rightarrow> bool" where
  "byte_in lo hi s i \<longleftrightarrow> i < length s \<and> lo \<le> of_char (s ! i) \<and> of_char (s ! i) \<le> hi"

definition rune_size :: "string \<Rightarrow> nat" where
  "rune_size s =
     (if byte_in 0xC2 0xDF s 0 \<and> byte_in 0x80 0xBF s 1 then 2
      else if byte_in 0xE0 0xEF s 0 \<and> byte_in (if byte_in 0xE0 0xE0 s 0 then 0xA0 else 0x80) (if byte_in 0xED 0xED s 0 then 0x9F else 0xBF) s 1 \<and>
        byte_in 0x80 0xBF s 2 then 3
      else if byte_in 0xF0 0xF4 s 0 \<and> byte_in (if byte_in 0xF0 0xF0 s 0 then 0x90 else 0x80) (if byte_in 0xF4 0xF4 s 0 then 0x8F else 0xBF) s 1 \<and>
        byte_in 0x80 0xBF s 2 \<and> byte_in 0x80 0xBF s 3 then 4
      else 1)"

function rune_count :: "string \<Rightarrow> nat" where
  "rune_count [] = 0"
| "rune_count (c # r) = Suc (rune_count (drop (rune_size (c # r) - 1) r))"
  by pat_completeness auto
termination by (relation "measure length") auto

definition isString :: "json \<Rightarrow> bool" where
  "isString v = (case v of JStr _ \<Rightarrow> True | _ \<Rightarrow> False)"

definition isNumber :: "json \<Rightarrow> bool" where
  "isNumber v = (case v of JInt _ \<Rightarrow> True | JFloat _ \<Rightarrow> True | _ \<Rightarrow> False)"

definition sch_toFloat :: "json \<Rightarrow> f64" where
  "sch_toFloat v = (case v of JInt i \<Rightarrow> f64_of_int i | JFloat f \<Rightarrow> f | _ \<Rightarrow> Fin 0)"

text \<open>The conversion of a float to an \<open>int64\<close>; out of its range the least one, as on amd64.\<close>

definition int64_of :: "f64 \<Rightarrow> int" where
  "int64_of f =
     (case f of
        Fin r \<Rightarrow> (let i = (if r < 0 then - floor (- r) else floor r) in if - (2 ^ 63) \<le> i \<and> i < 2 ^ 63 then i else - (2 ^ 63))
      | _ \<Rightarrow> - (2 ^ 63))"

fun sch_deepEqual :: "json \<Rightarrow> json \<Rightarrow> bool" where
  "sch_deepEqual (JStr x) b = (case b of JStr y \<Rightarrow> x = y | _ \<Rightarrow> False)"
| "sch_deepEqual (JBool x) b = (case b of JBool y \<Rightarrow> x = y | _ \<Rightarrow> False)"
| "sch_deepEqual (JFloat x) b = (isNumber b \<and> f64_eq (sch_toFloat b) x)"
| "sch_deepEqual (JArr xs) b = (case b of JArr ys \<Rightarrow> list_all2 sch_deepEqual xs ys | _ \<Rightarrow> False)"
| "sch_deepEqual (JObj xs) b =
     (case b of
        JObj ys \<Rightarrow> length xs = length ys \<and>
          (\<forall>(k, v) \<in> set xs. case map_of ys k of None \<Rightarrow> False | Some w \<Rightarrow> sch_deepEqual v w)
      | _ \<Rightarrow> False)"
| "sch_deepEqual a b = (a = JNull \<and> b = JNull)"

fun typeMatches :: "json \<Rightarrow> json \<Rightarrow> bool" where
  "typeMatches (JStr name) v =
     (if name = ''object'' then (case v of JObj _ \<Rightarrow> True | _ \<Rightarrow> False)
      else if name = ''array'' then (case v of JArr _ \<Rightarrow> True | _ \<Rightarrow> False)
      else if name = ''string'' then isString v
      else if name = ''boolean'' then (case v of JBool _ \<Rightarrow> True | _ \<Rightarrow> False)
      else if name = ''number'' then isNumber v
      else if name = ''integer'' then isNumber v \<and> f64_eq (sch_toFloat v) (f64_of_int (int64_of (sch_toFloat v)))
      else if name = ''null'' then v = JNull
      else True)"
| "typeMatches (JArr l) v = (\<exists>n \<in> set l. typeMatches n v)"
| "typeMatches _ v = True"

definition inList :: "json list \<Rightarrow> json \<Rightarrow> bool" where
  "inList l v = list_ex (\<lambda>item. sch_deepEqual item v) l"

section \<open>The validator\<close>

datatype seg = Idx nat | Prop string | NameOf string | Then | Else

datatype verr = Forbidden | TypeMismatch | NotInEnum | NotConst | Missing string | PatternFails | Undescribed string
  | TooShort | TooLong | FewItems | FewFields | BelowMin | AboveMax | OneOfCount nat | NoneOf | MatchesNot

text \<open>A result: the errors with their paths, and the patterns that could not be compiled.\<close>

type_synonym vres = "(seg list \<times> verr) list \<times> (seg list \<times> string) list"

definition vok :: vres where "vok = ([], [])"

definition fault :: "seg list \<Rightarrow> verr \<Rightarrow> vres" where "fault p e = ([(p, e)], [])"

definition cat :: "vres list \<Rightarrow> vres" where
  "cat rs = (concat (map fst rs), concat (map snd rs))"

definition entries :: "json \<Rightarrow> obj" where
  "entries v = (case v of JObj o' \<Rightarrow> o' | _ \<Rightarrow> [])"

definition elements :: "json \<Rightarrow> json list" where
  "elements v = (case v of JArr l \<Rightarrow> l | _ \<Rightarrow> [])"

definition check_type :: "obj \<Rightarrow> json \<Rightarrow> bool" where
  "check_type sc v = (case map_of sc ''type'' of Some t \<Rightarrow> typeMatches t v | None \<Rightarrow> True)"

definition check_values :: "obj \<Rightarrow> json \<Rightarrow> seg list \<Rightarrow> vres" where
  "check_values sc v p = cat
     [case map_of sc ''enum'' of Some (JArr l) \<Rightarrow> if inList l v then vok else fault p NotInEnum | _ \<Rightarrow> vok,
      case map_of sc ''const'' of Some c \<Rightarrow> if sch_deepEqual c v then vok else fault p NotConst | None \<Rightarrow> vok]"

text \<open>\<open>fmt.Sprint\<close> of a name that is no string is the parameter \<open>sprint\<close>.\<close>

definition name_text :: "(json \<Rightarrow> string) \<Rightarrow> json \<Rightarrow> string" where
  "name_text sprint n = (case n of JStr s \<Rightarrow> s | _ \<Rightarrow> sprint n)"

definition check_required :: "(json \<Rightarrow> string) \<Rightarrow> obj \<Rightarrow> json \<Rightarrow> seg list \<Rightarrow> vres" where
  "check_required sprint sc v p =
     (case (map_of sc ''required'', v) of
        (Some (JArr names), JObj m) \<Rightarrow>
          cat (map (\<lambda>n. if map_of m (name_text sprint n) = None then fault p (Missing (name_text sprint n)) else vok) names)
      | _ \<Rightarrow> vok)"

definition check_pattern :: "(string \<Rightarrow> (string \<Rightarrow> bool) option) \<Rightarrow> obj \<Rightarrow> json \<Rightarrow> seg list \<Rightarrow> vres" where
  "check_pattern compile sc v p =
     (case (map_of sc ''pattern'', v) of
        (Some (JStr ps), JStr s) \<Rightarrow>
          (case compile ps of
             None \<Rightarrow> ([], [(p, ps)])
           | Some re \<Rightarrow> if re s then vok else fault p PatternFails)
      | _ \<Rightarrow> vok)"

definition limit :: "obj \<Rightarrow> string \<Rightarrow> (f64 \<Rightarrow> bool) \<Rightarrow> seg list \<Rightarrow> verr \<Rightarrow> vres" where
  "limit sc k bad p e =
     (case map_of sc k of Some n \<Rightarrow> if bad (sch_toFloat n) then fault p e else vok | None \<Rightarrow> vok)"

definition count :: "nat \<Rightarrow> f64" where "count n = f64_of_int (int n)"

definition check_sizes :: "obj \<Rightarrow> json \<Rightarrow> seg list \<Rightarrow> vres" where
  "check_sizes sc v p = cat
     [limit sc ''minLength'' (\<lambda>n. case v of JStr s \<Rightarrow> f64_lt (count (rune_count s)) n | _ \<Rightarrow> False) p TooShort,
      limit sc ''maxLength'' (\<lambda>n. case v of JStr s \<Rightarrow> f64_lt n (count (rune_count s)) | _ \<Rightarrow> False) p TooLong,
      limit sc ''minItems'' (\<lambda>n. case v of JArr l \<Rightarrow> f64_lt (count (length l)) n | _ \<Rightarrow> False) p FewItems,
      limit sc ''minProperties'' (\<lambda>n. case v of JObj m \<Rightarrow> f64_lt (count (length m)) n | _ \<Rightarrow> False) p FewFields,
      limit sc ''minimum'' (\<lambda>n. isNumber v \<and> f64_lt (sch_toFloat v) n) p BelowMin,
      limit sc ''maximum'' (\<lambda>n. isNumber v \<and> f64_lt n (sch_toFloat v)) p AboveMax]"

definition passed :: "vres list \<Rightarrow> nat" where
  "passed rs = length (filter (\<lambda>r. fst r = []) rs)"

definition seen_of :: "vres list \<Rightarrow> vres" where
  "seen_of rs = ([], concat (map snd rs))"

function validate :: "(string \<Rightarrow> (string \<Rightarrow> bool) option) \<Rightarrow> (json \<Rightarrow> string) \<Rightarrow> json \<Rightarrow> json \<Rightarrow> seg list \<Rightarrow> vres" where
  "validate compile sprint sch v p =
     (case sch of
        JBool b \<Rightarrow> if b then vok else fault p Forbidden
      | JObj sc \<Rightarrow>
          if \<not> check_type sc v then fault p TypeMismatch
          else cat
            [check_values sc v p,
             check_required sprint sc v p,
             check_pattern compile sc v p,
             (case map_of sc ''items'' of
                None \<Rightarrow> vok
              | Some sub \<Rightarrow> cat (map (\<lambda>(i, x). validate compile sprint sub x (p @ [Idx i])) (List.enumerate 0 (elements v)))),
             (case map_of sc ''properties'' of
                None \<Rightarrow> vok
              | Some (JObj pm) \<Rightarrow>
                  cat (map (\<lambda>(k, sub). case map_of (entries v) k of None \<Rightarrow> vok | Some x \<Rightarrow> validate compile sprint sub x (p @ [Prop k])) pm)
              | Some _ \<Rightarrow> vok),
             (case map_of sc ''properties'' of
                None \<Rightarrow> vok
              | Some props \<Rightarrow>
                  (case map_of sc ''additionalProperties'' of
                     None \<Rightarrow> vok
                   | Some ap \<Rightarrow>
                       cat (map (\<lambda>(k, x).
                         if map_of (entries props) k \<noteq> None then vok
                         else case ap of
                           JBool allowed \<Rightarrow> if allowed then vok else fault p (Undescribed k)
                         | _ \<Rightarrow> validate compile sprint ap x (p @ [Prop k])) (entries v)))),
             (case map_of sc ''propertyNames'' of
                None \<Rightarrow> vok
              | Some pn \<Rightarrow> cat (map (\<lambda>(k, x). validate compile sprint pn (JStr k) (p @ [NameOf k])) (entries v))),
             check_sizes sc v p,
             (case map_of sc ''oneOf'' of
                Some (JArr bs) \<Rightarrow>
                  (let rs = map (\<lambda>b. validate compile sprint b v p) bs
                   in cat [seen_of rs, if passed rs \<noteq> 1 then fault p (OneOfCount (passed rs)) else vok])
              | _ \<Rightarrow> vok),
             (case map_of sc ''anyOf'' of
                Some (JArr bs) \<Rightarrow>
                  (let rs = map (\<lambda>b. validate compile sprint b v p) bs
                   in cat [seen_of rs, if passed rs = 0 then fault p NoneOf else vok])
              | _ \<Rightarrow> vok),
             (case map_of sc ''allOf'' of
                Some (JArr bs) \<Rightarrow> cat (map (\<lambda>b. validate compile sprint b v p) bs)
              | _ \<Rightarrow> vok),
             (case map_of sc ''not'' of
                None \<Rightarrow> vok
              | Some n \<Rightarrow>
                  (let r = validate compile sprint n v p
                   in cat [seen_of [r], if fst r = [] then fault p MatchesNot else vok])),
             (case map_of sc ''if'' of
                None \<Rightarrow> vok
              | Some cond \<Rightarrow>
                  (let r = validate compile sprint cond v p
                   in cat [seen_of [r],
                     if fst r = []
                     then (case map_of sc ''then'' of None \<Rightarrow> vok | Some th \<Rightarrow> validate compile sprint th v (p @ [Then]))
                     else (case map_of sc ''else'' of None \<Rightarrow> vok | Some el \<Rightarrow> validate compile sprint el v (p @ [Else]))]))]
      | _ \<Rightarrow> vok)"
  by pat_completeness auto
termination
  by (relation "measure (\<lambda>(c, f, sch, v, p). size sch)") (auto intro: schema_size dest!: map_of_SomeD simp del: json.size)

declare validate.simps [simp del]

end
