(* ===== verification/Schema_Spec.thy ===== *)
theory Schema_Spec
  imports Schema_Check
begin

text \<open>
  The validator of schemas accepts exactly the values that draft-07 accepts, for the schemas its guard
  lets through; and where the guard lets through what the validator does not check.
\<close>

section \<open>The meaning of a schema\<close>

definition value_types :: "json \<Rightarrow> string list" where
  "value_types v =
     (case v of
        JNull \<Rightarrow> [''null'']
      | JBool _ \<Rightarrow> [''boolean'']
      | JStr _ \<Rightarrow> [''string'']
      | JArr _ \<Rightarrow> [''array'']
      | JObj _ \<Rightarrow> [''object'']
      | JOther _ \<Rightarrow> []
      | _ \<Rightarrow> (case sch_toFloat v of
                Fin r \<Rightarrow> if of_int (floor r) = r then [''number'', ''integer''] else [''number'']
              | _ \<Rightarrow> [''number'']))"

definition has_type :: "json \<Rightarrow> json \<Rightarrow> bool" where
  "has_type t v =
     (case t of
        JStr n \<Rightarrow> n \<in> set (value_types v)
      | _ \<Rightarrow> (\<exists>n \<in> set (value_types v). JStr n \<in> set (elements t)))"

definition is_obj :: "json \<Rightarrow> bool" where
  "is_obj v = (case v of JObj _ \<Rightarrow> True | _ \<Rightarrow> False)"

definition is_arr :: "json \<Rightarrow> bool" where
  "is_arr v = (case v of JArr _ \<Rightarrow> True | _ \<Rightarrow> False)"

definition annotations :: "string list" where
  "annotations = [''$schema'', ''title'', ''description'', ''examples'', ''default'', ''then'', ''else'']"

definition exceeds :: "json \<Rightarrow> json \<Rightarrow> bool" where
  "exceeds n m \<longleftrightarrow> f64_lt (sch_toFloat m) (sch_toFloat n)"

definition jcount :: "nat \<Rightarrow> json" where "jcount n = JFloat (count n)"

text \<open>
  What the keyword \<open>k\<close> with the argument \<open>a\<close>, beside the other keywords \<open>sc\<close>, demands of a value; \<open>rec\<close>
  is the meaning of subschemas, \<open>other\<close> of the keywords that are not in the table.
\<close>

definition keyword ::
  "(string \<Rightarrow> json \<Rightarrow> json \<Rightarrow> bool) \<Rightarrow> (string \<Rightarrow> (string \<Rightarrow> bool) option) \<Rightarrow> (json \<Rightarrow> json \<Rightarrow> bool) \<Rightarrow>
   obj \<Rightarrow> string \<Rightarrow> json \<Rightarrow> json \<Rightarrow> bool" where
  "keyword other compile rec sc k a v =
     (if k = ''type'' then has_type a v
      else if k = ''enum'' then (\<exists>x \<in> set (elements a). sch_deepEqual x v)
      else if k = ''const'' then sch_deepEqual a v
      else if k = ''required'' then is_obj v \<longrightarrow> (\<forall>n \<in> set (elements a). \<exists>s x. n = JStr s \<and> map_of (entries v) s = Some x)
      else if k = ''pattern'' then (\<forall>s q. v = JStr s \<and> a = JStr q \<longrightarrow> (\<exists>re. compile q = Some re \<and> re s))
      else if k = ''items'' then (\<forall>x \<in> set (elements v). rec a x)
      else if k = ''properties'' then (\<forall>(n, s) \<in> set (entries a). \<forall>x. map_of (entries v) n = Some x \<longrightarrow> rec s x)
      else if k = ''additionalProperties'' then
        (\<forall>(n, x) \<in> set (entries v). (case map_of sc ''properties'' of None \<Rightarrow> True | Some pm \<Rightarrow> map_of (entries pm) n = None) \<longrightarrow> rec a x)
      else if k = ''propertyNames'' then (\<forall>(n, x) \<in> set (entries v). rec a (JStr n))
      else if k = ''minLength'' then (\<forall>s. v = JStr s \<longrightarrow> \<not> exceeds a (jcount (rune_count s)))
      else if k = ''maxLength'' then (\<forall>s. v = JStr s \<longrightarrow> \<not> exceeds (jcount (rune_count s)) a)
      else if k = ''minItems'' then is_arr v \<longrightarrow> \<not> exceeds a (jcount (length (elements v)))
      else if k = ''maxItems'' then is_arr v \<longrightarrow> \<not> exceeds (jcount (length (elements v))) a
      else if k = ''minProperties'' then is_obj v \<longrightarrow> \<not> exceeds a (jcount (length (entries v)))
      else if k = ''maxProperties'' then is_obj v \<longrightarrow> \<not> exceeds (jcount (length (entries v))) a
      else if k = ''minimum'' then isNumber v \<longrightarrow> \<not> exceeds a v
      else if k = ''maximum'' then isNumber v \<longrightarrow> \<not> exceeds v a
      else if k = ''oneOf'' then length (filter (\<lambda>b. rec b v) (elements a)) = 1
      else if k = ''anyOf'' then (\<exists>b \<in> set (elements a). rec b v)
      else if k = ''allOf'' then (\<forall>b \<in> set (elements a). rec b v)
      else if k = ''not'' then \<not> rec a v
      else if k = ''if'' then
        (if rec a v then (\<forall>t. map_of sc ''then'' = Some t \<longrightarrow> rec t v) else (\<forall>e. map_of sc ''else'' = Some e \<longrightarrow> rec e v))
      else k \<in> set annotations \<or> other k a v)"

lemma elements_size: "b \<in> set (elements a) \<Longrightarrow> size b < size a"
  by (cases a) (auto simp: elements_def dest: elem_size)

lemma entries_size: "(n, b) \<in> set (entries a) \<Longrightarrow> size b < size a"
  by (cases a) (auto simp: entries_def dest: entry_size)

lemma keyword_cong [fundef_cong]:
  assumes "sc = sc'" and "k = k'" and "a = a'" and "v = v'"
    and rec: "\<And>s x. size s \<le> size a' \<or> s \<in> snd ` set sc' \<Longrightarrow> rec s x = rec' s x"
  shows "keyword other compile rec sc k a v = keyword other compile rec' sc' k' a' v'"
proof -
  have r: "rec a' x = rec' a' x" "b \<in> set (elements a') \<Longrightarrow> rec b x = rec' b x"
    "(n, b) \<in> set (entries a') \<Longrightarrow> rec b x = rec' b x" "map_of sc' n = Some b \<Longrightarrow> rec b x = rec' b x" for x b n
    by (rule rec; force dest: elements_size entries_size map_of_SomeD)+
  have f: "filter (\<lambda>b. rec b v') (elements a') = filter (\<lambda>b. rec' b v') (elements a')"
    by (rule filter_cong) (simp_all add: r)
  have i: "(\<forall>x \<in> set (elements v'). rec a' x) = (\<forall>x \<in> set (elements v'). rec' a' x)"
    "(\<forall>(n, s) \<in> set (entries a'). \<forall>x. map_of (entries v') n = Some x \<longrightarrow> rec s x) =
     (\<forall>(n, s) \<in> set (entries a'). \<forall>x. map_of (entries v') n = Some x \<longrightarrow> rec' s x)"
    "(\<exists>b \<in> set (elements a'). rec b v') = (\<exists>b \<in> set (elements a'). rec' b v')"
    "(\<forall>b \<in> set (elements a'). rec b v') = (\<forall>b \<in> set (elements a'). rec' b v')"
    "(\<forall>t. map_of sc' n = Some t \<longrightarrow> rec t v') = (\<forall>t. map_of sc' n = Some t \<longrightarrow> rec' t v')" for n
    by (auto simp: r split: prod.splits)
  show ?thesis unfolding assms(1-4) keyword_def f i r(1) ..
qed

function conforms ::
  "(string \<Rightarrow> json \<Rightarrow> json \<Rightarrow> bool) \<Rightarrow> (string \<Rightarrow> (string \<Rightarrow> bool) option) \<Rightarrow> json \<Rightarrow> json \<Rightarrow> bool" where
  "conforms other compile sch v =
     (case sch of
        JBool b \<Rightarrow> b
      | JObj sc \<Rightarrow> (\<forall>(k, a) \<in> set sc. keyword other compile (\<lambda>s x. conforms other compile s x) sc k a v)
      | _ \<Rightarrow> False)"
  by pat_completeness auto
termination
proof (relation "measure (\<lambda>(other, compile, sch, v). size sch)", goal_cases)
  case (2 other compile sch v sc p k a s x)
  then show ?case using entry_size [of k a sc] entry_size [of _ s sc] by (auto simp del: json.size)
qed simp

declare conforms.simps [simp del]

end
