(* ===== verification/Schema_Sound.thy ===== *)
theory Schema_Sound
  imports Schema_Spec
begin

section \<open>Schemas the validator decides\<close>

definition typeNames :: "string list" where
  "typeNames = [''object'', ''array'', ''string'', ''boolean'', ''number'', ''integer'', ''null'']"

definition known_type :: "json \<Rightarrow> bool" where
  "known_type t = (case t of JStr n \<Rightarrow> n \<in> set typeNames | _ \<Rightarrow> False)"

definition shape :: "(string \<Rightarrow> (string \<Rightarrow> bool) option) \<Rightarrow> (json \<Rightarrow> bool) \<Rightarrow> obj \<Rightarrow> string \<Rightarrow> json \<Rightarrow> bool" where
  "shape compile rec sc k a =
     (if k = ''type'' then known_type a \<or> is_arr a \<and> (\<forall>t \<in> set (elements a). known_type t)
      else if k = ''enum'' then is_arr a
      else if k = ''required'' then is_arr a \<and> (\<forall>n \<in> set (elements a). isString n)
      else if k = ''pattern'' then (case a of JStr q \<Rightarrow> compile q \<noteq> None | _ \<Rightarrow> False)
      else if k = ''maxItems'' \<or> k = ''maxProperties'' then False
      else if k = ''properties'' then (\<forall>(n, s) \<in> set (entries a). rec s)
      else if k = ''oneOf'' \<or> k = ''anyOf'' \<or> k = ''allOf'' then is_arr a \<and> (\<forall>b \<in> set (elements a). rec b)
      else if k = ''additionalProperties'' then map_of sc ''properties'' \<noteq> None \<and> rec a
      else if k = ''items'' \<or> k = ''propertyNames'' \<or> k = ''not'' \<or> k = ''if'' \<or> k = ''then'' \<or> k = ''else'' then rec a
      else True)"

lemma shape_cong [fundef_cong]:
  assumes "sc = sc'" and "k = k'" and "a = a'" and rec: "\<And>s. size s \<le> size a' \<Longrightarrow> rec s = rec' s"
  shows "shape compile rec sc k a = shape compile rec' sc' k' a'"
proof -
  have r: "rec a' = rec' a'" "b \<in> set (elements a') \<Longrightarrow> rec b = rec' b" "(n, b) \<in> set (entries a') \<Longrightarrow> rec b = rec' b" for b n
    by (rule rec; force dest: elements_size entries_size)+
  have i: "(\<forall>(n, s) \<in> set (entries a'). rec s) = (\<forall>(n, s) \<in> set (entries a'). rec' s)"
    "(\<forall>b \<in> set (elements a'). rec b) = (\<forall>b \<in> set (elements a'). rec' b)"
    by (auto simp: r split: prod.splits)
  show ?thesis unfolding assms(1-3) shape_def i r(1) ..
qed

function regular :: "(string \<Rightarrow> (string \<Rightarrow> bool) option) \<Rightarrow> json \<Rightarrow> bool" where
  "regular compile sch =
     (case sch of
        JBool b \<Rightarrow> True
      | JObj sc \<Rightarrow> distinct (map fst sc) \<and> (\<forall>(k, a) \<in> set sc. shape compile (\<lambda>s. regular compile s) sc k a)
      | _ \<Rightarrow> False)"
  by pat_completeness auto
termination
proof (relation "measure (\<lambda>(compile, sch). size sch)", goal_cases)
  case (2 compile sch sc p k a s)
  then show ?case using entry_size [of k a sc] by (auto simp del: json.size)
qed simp

declare regular.simps [simp del]

text \<open>Numbers below \<open>2^53\<close>, which a float represents.\<close>

fun sized :: "json \<Rightarrow> bool" where
  "sized (JInt i) = (\<bar>i\<bar> < 2 ^ 53)"
| "sized (JFloat f) = (case f of Fin r \<Rightarrow> \<bar>r\<bar> < 2 ^ 53 | _ \<Rightarrow> True)"
| "sized (JArr l) = (\<forall>x \<in> set l. sized x)"
| "sized (JObj m) = (\<forall>p \<in> set m. sized (snd p))"
| "sized _ = True"

section \<open>The pieces of the validator\<close>

lemma cat_ok [simp]: "fst (cat rs) = [] \<longleftrightarrow> (\<forall>r \<in> set rs. fst r = [])"
  by (simp add: cat_def)

lemma cat_map_ok: "fst (cat (map f xs)) = [] \<longleftrightarrow> (\<forall>x \<in> set xs. fst (f x) = [])"
  by simp

lemma vok_ok [simp]: "fst vok = []" "fst (seen_of rs) = []" "fst (fault p e) \<noteq> []"
  by (simp_all add: vok_def seen_of_def fault_def)

lemma fst_if: "fst (if b then fault p e else r) = [] \<longleftrightarrow> \<not> b \<and> fst r = []"
  by simp

lemma integral_float:
  assumes "\<bar>r :: rat\<bar> < 2 ^ 53"
  shows "f64_eq (Fin r) (f64_of_int (int64_of (Fin r))) \<longleftrightarrow> of_int (floor r) = r"
proof -
  define i where "i = (if r < 0 then - floor (- r) else floor r)"
  have i: "\<bar>i\<bar> < 2 ^ 53" using assms by (auto simp: i_def abs_if split: if_splits) linarith+
  have "int64_of (Fin r) = i" using i by (simp add: int64_of_def i_def [symmetric] Let_def abs_if split: if_splits)
  moreover have "f64_of_int i = Fin (of_int i)" using i by (rule f64_of_int_exact)
  moreover have "r = of_int i \<longleftrightarrow> of_int (floor r) = r"
    by (auto simp: i_def) (metis floor_of_int minus_minus of_int_minus)+
  ultimately show ?thesis by simp
qed

definition integral :: "json \<Rightarrow> bool" where
  "integral v = (case sch_toFloat v of Fin r \<Rightarrow> of_int (floor r) = r | _ \<Rightarrow> False)"

lemma integral_number:
  assumes "isNumber v" and "sized v"
  shows "f64_eq (sch_toFloat v) (f64_of_int (int64_of (sch_toFloat v))) = integral v"
proof -
  have "(\<exists>r. sch_toFloat v = Fin r \<and> \<bar>r\<bar> < 2 ^ 53) \<or> sch_toFloat v \<in> {PInf, NInf, NaN}"
    using assms by (cases v) (auto simp: isNumber_def sch_toFloat_def f64_of_int_exact split: f64.splits)
  moreover have "\<not> f64_eq x (f64_of_int k)" if "x \<in> {PInf, NInf, NaN}" for x k
    using that by (auto simp: f64_of_int_def Let_def)
  ultimately show ?thesis using integral_float by (fastforce simp: integral_def)
qed

lemma number_types: "isNumber v \<Longrightarrow> set (value_types v) = (if integral v then {''number'', ''integer''} else {''number''})"
  by (cases v) (auto simp: isNumber_def value_types_def integral_def split: f64.splits)

lemma typeMatches_name:
  assumes "n \<in> set typeNames" and "sized v"
  shows "typeMatches (JStr n) v \<longleftrightarrow> n \<in> set (value_types v)"
proof (cases "isNumber v")
  case True
  then have "\<not> isString v" "v \<noteq> JNull" "\<not> is_obj v" "\<not> is_arr v" "\<And>b. v \<noteq> JBool b"
    by (auto simp: isNumber_def isString_def is_obj_def is_arr_def split: json.splits)
  then show ?thesis using assms(1) True unfolding typeNames_def number_types [OF True]
    by (auto simp: integral_number [OF True assms(2)] is_obj_def is_arr_def split: json.splits)
next
  case False
  with assms(1) show ?thesis unfolding typeNames_def
    by (cases v) (auto simp: value_types_def isString_def isNumber_def)
qed

lemma typeMatches_type:
  assumes "known_type t \<or> is_arr t \<and> (\<forall>n \<in> set (elements t). known_type n)" and "sized v"
  shows "typeMatches t v = has_type t v"
proof (cases t)
  case (JStr n)
  with assms typeMatches_name show ?thesis by (simp add: known_type_def is_arr_def has_type_def del: typeMatches.simps)
next
  case (JArr l)
  have "typeMatches n v \<longleftrightarrow> (\<exists>m \<in> set (value_types v). n = JStr m)" if "n \<in> set l" for n
    using assms that JArr typeMatches_name by (cases n) (auto simp: known_type_def elements_def simp del: typeMatches.simps(1))
  then show ?thesis using JArr by (auto simp: has_type_def elements_def simp del: typeMatches.simps(1))
qed (use assms in \<open>simp_all add: known_type_def is_arr_def\<close>)

text \<open>A subschema is decided when the validator and the meaning agree on it.\<close>

definition agree :: "(json \<Rightarrow> json \<Rightarrow> seg list \<Rightarrow> vres) \<Rightarrow> (json \<Rightarrow> json \<Rightarrow> bool) \<Rightarrow> json \<Rightarrow> bool" where
  "agree V C s \<longleftrightarrow> (\<forall>x p. sized x \<longrightarrow> (fst (V s x p) = [] \<longleftrightarrow> C s x))"

lemma agreeD: "agree V C s \<Longrightarrow> sized x \<Longrightarrow> fst (V s x p) = [] \<longleftrightarrow> C s x"
  by (simp add: agree_def)

lemma sized_elements: "sized v \<Longrightarrow> x \<in> set (elements v) \<Longrightarrow> sized x"
  by (cases v) (auto simp: elements_def)

lemma sized_entries: "sized v \<Longrightarrow> (k, x) \<in> set (entries v) \<Longrightarrow> sized x"
  by (cases v) (auto simp: entries_def)

lemma mem_enumerate: "(\<forall>p \<in> set (List.enumerate n xs). P (snd p)) \<longleftrightarrow> (\<forall>x \<in> set xs. P x)"
  by (induction xs arbitrary: n) auto

definition demand where
  "demand other compile C sc v k \<longleftrightarrow> (\<forall>a. map_of sc k = Some a \<longrightarrow> keyword other compile C sc k a v)"

lemma keyword_simps:
  "keyword other compile C sc ''type'' a v \<longleftrightarrow> (has_type a v)"
  "keyword other compile C sc ''enum'' a v \<longleftrightarrow> ((\<exists>x \<in> set (elements a). sch_deepEqual x v))"
  "keyword other compile C sc ''const'' a v \<longleftrightarrow> (sch_deepEqual a v)"
  "keyword other compile C sc ''required'' a v \<longleftrightarrow> (is_obj v \<longrightarrow> (\<forall>n \<in> set (elements a). \<exists>s x. n = JStr s \<and> map_of (entries v) s = Some x))"
  "keyword other compile C sc ''pattern'' a v \<longleftrightarrow> ((\<forall>s q. v = JStr s \<and> a = JStr q \<longrightarrow> (\<exists>re. compile q = Some re \<and> re s)))"
  "keyword other compile C sc ''items'' a v \<longleftrightarrow> ((\<forall>x \<in> set (elements v). C a x))"
  "keyword other compile C sc ''properties'' a v \<longleftrightarrow> ((\<forall>(n, s) \<in> set (entries a). \<forall>x. map_of (entries v) n = Some x \<longrightarrow> C s x))"
  "keyword other compile C sc ''additionalProperties'' a v \<longleftrightarrow> ((\<forall>(n, x) \<in> set (entries v). (case map_of sc ''properties'' of None \<Rightarrow> True | Some pm \<Rightarrow> map_of (entries pm) n = None) \<longrightarrow> C a x))"
  "keyword other compile C sc ''propertyNames'' a v \<longleftrightarrow> ((\<forall>(n, x) \<in> set (entries v). C a (JStr n)))"
  "keyword other compile C sc ''minLength'' a v \<longleftrightarrow> ((\<forall>s. v = JStr s \<longrightarrow> \<not> exceeds a (jcount (rune_count s))))"
  "keyword other compile C sc ''maxLength'' a v \<longleftrightarrow> ((\<forall>s. v = JStr s \<longrightarrow> \<not> exceeds (jcount (rune_count s)) a))"
  "keyword other compile C sc ''minItems'' a v \<longleftrightarrow> (is_arr v \<longrightarrow> \<not> exceeds a (jcount (length (elements v))))"
  "keyword other compile C sc ''maxItems'' a v \<longleftrightarrow> (is_arr v \<longrightarrow> \<not> exceeds (jcount (length (elements v))) a)"
  "keyword other compile C sc ''minProperties'' a v \<longleftrightarrow> (is_obj v \<longrightarrow> \<not> exceeds a (jcount (length (entries v))))"
  "keyword other compile C sc ''maxProperties'' a v \<longleftrightarrow> (is_obj v \<longrightarrow> \<not> exceeds (jcount (length (entries v))) a)"
  "keyword other compile C sc ''minimum'' a v \<longleftrightarrow> (isNumber v \<longrightarrow> \<not> exceeds a v)"
  "keyword other compile C sc ''maximum'' a v \<longleftrightarrow> (isNumber v \<longrightarrow> \<not> exceeds v a)"
  "keyword other compile C sc ''oneOf'' a v \<longleftrightarrow> (length (filter (\<lambda>b. C b v) (elements a)) = 1)"
  "keyword other compile C sc ''anyOf'' a v \<longleftrightarrow> ((\<exists>b \<in> set (elements a). C b v))"
  "keyword other compile C sc ''allOf'' a v \<longleftrightarrow> ((\<forall>b \<in> set (elements a). C b v))"
  "keyword other compile C sc ''not'' a v \<longleftrightarrow> (\<not> C a v)"
  "keyword other compile C sc ''if'' a v \<longleftrightarrow> ((if C a v then (\<forall>t. map_of sc ''then'' = Some t \<longrightarrow> C t v) else (\<forall>e. map_of sc ''else'' = Some e \<longrightarrow> C e v)))"
  by (simp_all add: keyword_def)

lemma type_piece:
  assumes "\<And>t. map_of sc ''type'' = Some t \<Longrightarrow> known_type t \<or> is_arr t \<and> (\<forall>n \<in> set (elements t). known_type n)" and "sized v"
  shows "check_type sc v \<longleftrightarrow> demand other compile C sc v ''type''"
  using assms(1) typeMatches_type [OF _ assms(2)]
  by (auto simp: check_type_def demand_def keyword_simps split: option.split)

lemma values_piece:
  assumes "\<And>a. map_of sc ''enum'' = Some a \<Longrightarrow> is_arr a"
  shows "fst (check_values sc v p) = [] \<longleftrightarrow> demand other compile C sc v ''enum'' \<and> demand other compile C sc v ''const''"
  using assms by (auto simp: check_values_def demand_def keyword_simps inList_def list_ex_iff elements_def is_arr_def
      split: option.splits json.splits)

lemma isString_iff: "isString n \<longleftrightarrow> (\<exists>s. n = JStr s)"
  by (cases n) (simp_all add: isString_def)

lemma required_piece:
  assumes "\<And>a. map_of sc ''required'' = Some a \<Longrightarrow> is_arr a \<and> (\<forall>n \<in> set (elements a). isString n)"
  shows "fst (check_required sprint sc v p) = [] \<longleftrightarrow> demand other compile C sc v ''required''"
proof (cases "map_of sc ''required''")
  case (Some a)
  with assms obtain l where l: "a = JArr l" "\<forall>n \<in> set l. isString n"
    by (fastforce simp: is_arr_def elements_def split: json.splits)
  then have "\<forall>n \<in> set l. \<exists>s. n = JStr s" by (simp add: isString_iff)
  then have "(\<forall>n \<in> set l. fst (if map_of m (name_text sprint n) = None then fault p (Missing (name_text sprint n)) else vok) = []) \<longleftrightarrow>
      (\<forall>n \<in> set l. \<exists>s x. n = JStr s \<and> map_of m s = Some x)" for m :: obj
    by (intro ball_cong refl) (auto simp: name_text_def)
  with l Some show ?thesis
    by (cases v) (simp_all add: check_required_def demand_def keyword_simps elements_def entries_def is_obj_def cat_map_ok Ball_def [symmetric] del: cat_ok)
qed (simp add: check_required_def demand_def)

lemma pattern_piece:
  assumes "\<And>a. map_of sc ''pattern'' = Some a \<Longrightarrow> (case a of JStr q \<Rightarrow> compile q \<noteq> None | _ \<Rightarrow> False)"
  shows "fst (check_pattern compile sc v p) = [] \<longleftrightarrow> demand other compile C sc v ''pattern''"
  using assms by (auto simp: check_pattern_def demand_def keyword_simps split: option.splits json.splits)

lemma sizes_piece:
  "fst (check_sizes sc v p) = [] \<longleftrightarrow>
   (\<forall>k \<in> {''minLength'', ''maxLength'', ''minItems'', ''minProperties'', ''minimum'', ''maximum''}. demand other compile C sc v k)"
  by (cases v) (auto simp: check_sizes_def limit_def demand_def keyword_simps exceeds_def jcount_def sch_toFloat_def
      is_arr_def is_obj_def isNumber_def elements_def entries_def split: option.splits)

lemma items_piece:
  assumes "\<And>a. map_of sc ''items'' = Some a \<Longrightarrow> agree V C a" and "sized v"
  shows "fst (case map_of sc ''items'' of None \<Rightarrow> vok
      | Some sub \<Rightarrow> cat (map (\<lambda>(i, x). V sub x (p @ [Idx i])) (List.enumerate 0 (elements v)))) = [] \<longleftrightarrow>
    demand other compile C sc v ''items''"
proof (cases "map_of sc ''items''")
  case (Some a)
  have "(\<forall>q \<in> set (List.enumerate 0 (elements v)). fst (V a (snd q) (p @ [Idx (fst q)])) = []) \<longleftrightarrow>
      (\<forall>q \<in> set (List.enumerate 0 (elements v)). C a (snd q))"
    using agreeD [OF assms(1) [OF Some] sized_elements [OF assms(2)]]
    by (intro ball_cong refl) (auto simp: in_set_enumerate_eq)
  with Some show ?thesis by (simp add: demand_def keyword_simps case_prod_unfold mem_enumerate)
qed (simp add: demand_def)

lemma properties_piece:
  assumes "\<And>pm n s. map_of sc ''properties'' = Some pm \<Longrightarrow> (n, s) \<in> set (entries pm) \<Longrightarrow> agree V C s" and "sized v"
  shows "fst (case map_of sc ''properties'' of None \<Rightarrow> vok
      | Some (JObj pm) \<Rightarrow> cat (map (\<lambda>(k, sub). case map_of (entries v) k of None \<Rightarrow> vok | Some x \<Rightarrow> V sub x (p @ [Prop k])) pm)
      | Some _ \<Rightarrow> vok) = [] \<longleftrightarrow> demand other compile C sc v ''properties''"
proof (cases "map_of sc ''properties''")
  case (Some pm)
  have "fst (V s x q) = [] \<longleftrightarrow> C s x" if "(n, s) \<in> set (entries pm)" "map_of (entries v) n = Some x" for n s x q
    using agreeD [OF assms(1) [OF Some that(1)] sized_entries [OF assms(2) map_of_SomeD [OF that(2)]]] .
  with Some show ?thesis
    by (cases pm) (auto simp: demand_def keyword_simps entries_def split: option.splits; blast)+
qed (simp add: demand_def)

lemma additional_piece:
  assumes "\<And>a. map_of sc ''additionalProperties'' = Some a \<Longrightarrow> agree V C a \<and> map_of sc ''properties'' \<noteq> None" and "sized v"
    and bools: "\<And>b x. C (JBool b) x = b"
  shows "fst (case map_of sc ''properties'' of None \<Rightarrow> vok
      | Some props \<Rightarrow>
          (case map_of sc ''additionalProperties'' of None \<Rightarrow> vok
           | Some ap \<Rightarrow>
               cat (map (\<lambda>(k, x). if map_of (entries props) k \<noteq> None then vok
                 else case ap of JBool allowed \<Rightarrow> if allowed then vok else fault p (Undescribed k)
                   | _ \<Rightarrow> V ap x (p @ [Prop k])) (entries v)))) = [] \<longleftrightarrow>
    demand other compile C sc v ''additionalProperties''"
proof (cases "map_of sc ''additionalProperties''")
  case (Some a)
  then obtain pm where pm: "map_of sc ''properties'' = Some pm" using assms(1) by auto
  have "fst (case a of JBool allowed \<Rightarrow> if allowed then vok else fault p (Undescribed k) | _ \<Rightarrow> V a x (p @ [Prop k])) = [] \<longleftrightarrow> C a x"
    if "(k, x) \<in> set (entries v)" for k x
    using assms(1) [OF Some] sized_entries [OF assms(2) that] by (cases a) (simp_all add: agree_def bools)
  then have "(\<forall>q \<in> set (entries v). fst (if map_of (entries pm) (fst q) \<noteq> None then vok
        else case a of JBool allowed \<Rightarrow> if allowed then vok else fault p (Undescribed (fst q)) | _ \<Rightarrow> V a (snd q) (p @ [Prop (fst q)])) = []) \<longleftrightarrow>
      (\<forall>q \<in> set (entries v). map_of (entries pm) (fst q) = None \<longrightarrow> C a (snd q))"
    by (intro ball_cong refl) auto
  with Some pm show ?thesis by (simp add: demand_def keyword_simps cat_map_ok case_prod_unfold del: cat_ok)
qed (auto simp: demand_def split: option.split)

lemma names_piece:
  assumes "\<And>a. map_of sc ''propertyNames'' = Some a \<Longrightarrow> agree V C a"
  shows "fst (case map_of sc ''propertyNames'' of None \<Rightarrow> vok
      | Some pn \<Rightarrow> cat (map (\<lambda>(k, x). V pn (JStr k) (p @ [NameOf k])) (entries v))) = [] \<longleftrightarrow>
    demand other compile C sc v ''propertyNames''"
proof (cases "map_of sc ''propertyNames''")
  case (Some a)
  with agreeD [OF assms [OF Some]] show ?thesis by (auto simp: demand_def keyword_simps)
qed (simp add: demand_def)

lemma branches_agree:
  assumes "\<forall>b \<in> set bs. agree V C b" and "sized v"
  shows "passed (map (\<lambda>b. V b v p) bs) = length (filter (\<lambda>b. C b v) bs)"
  using assms by (induction bs) (auto simp: passed_def agree_def)

lemma branch_list:
  assumes "is_arr a \<and> (\<forall>b \<in> set (elements a). agree V C b)"
  obtains bs where "a = JArr bs" "elements a = bs" "\<forall>b \<in> set bs. agree V C b"
  using assms by (cases a) (simp_all add: is_arr_def elements_def)

lemma oneOf_piece:
  assumes "\<And>a. map_of sc ''oneOf'' = Some a \<Longrightarrow> is_arr a \<and> (\<forall>b \<in> set (elements a). agree V C b)" and "sized v"
  shows "fst (case map_of sc ''oneOf'' of
        Some (JArr bs) \<Rightarrow> (let rs = map (\<lambda>b. V b v p) bs in cat [seen_of rs, if passed rs \<noteq> 1 then fault p (OneOfCount (passed rs)) else vok])
      | _ \<Rightarrow> vok) = [] \<longleftrightarrow> demand other compile C sc v ''oneOf''"
proof (cases "map_of sc ''oneOf''")
  case (Some a)
  obtain bs where bs: "a = JArr bs" "elements a = bs" "\<forall>b \<in> set bs. agree V C b" by (rule branch_list [OF assms(1) [OF Some]])
  show ?thesis using Some bs(2) branches_agree [OF bs(3) assms(2), of p]
    by (simp add: bs(1) demand_def keyword_simps Let_def)
qed (simp add: demand_def)

lemma anyOf_piece:
  assumes "\<And>a. map_of sc ''anyOf'' = Some a \<Longrightarrow> is_arr a \<and> (\<forall>b \<in> set (elements a). agree V C b)" and "sized v"
  shows "fst (case map_of sc ''anyOf'' of
        Some (JArr bs) \<Rightarrow> (let rs = map (\<lambda>b. V b v p) bs in cat [seen_of rs, if passed rs = 0 then fault p NoneOf else vok])
      | _ \<Rightarrow> vok) = [] \<longleftrightarrow> demand other compile C sc v ''anyOf''"
proof (cases "map_of sc ''anyOf''")
  case (Some a)
  obtain bs where bs: "a = JArr bs" "elements a = bs" "\<forall>b \<in> set bs. agree V C b" by (rule branch_list [OF assms(1) [OF Some]])
  show ?thesis using Some bs(2) branches_agree [OF bs(3) assms(2), of p]
    by (simp add: bs(1) demand_def keyword_simps Let_def filter_empty_conv)
qed (simp add: demand_def)

lemma allOf_piece:
  assumes "\<And>a. map_of sc ''allOf'' = Some a \<Longrightarrow> is_arr a \<and> (\<forall>b \<in> set (elements a). agree V C b)" and "sized v"
  shows "fst (case map_of sc ''allOf'' of Some (JArr bs) \<Rightarrow> cat (map (\<lambda>b. V b v p) bs) | _ \<Rightarrow> vok) = [] \<longleftrightarrow>
      demand other compile C sc v ''allOf''"
proof (cases "map_of sc ''allOf''")
  case (Some a)
  obtain bs where bs: "a = JArr bs" "elements a = bs" "\<forall>b \<in> set bs. agree V C b" by (rule branch_list [OF assms(1) [OF Some]])
  have "(\<forall>b \<in> set bs. fst (V b v p) = []) \<longleftrightarrow> (\<forall>b \<in> set bs. C b v)" using bs(3) agreeD [OF _ assms(2)] by blast
  then show ?thesis using Some bs(2) by (simp add: bs(1) demand_def keyword_simps)
qed (simp add: demand_def)

lemma not_piece:
  assumes "\<And>a. map_of sc ''not'' = Some a \<Longrightarrow> agree V C a" and "sized v"
  shows "fst (case map_of sc ''not'' of None \<Rightarrow> vok
      | Some n \<Rightarrow> (let r = V n v p in cat [seen_of [r], if fst r = [] then fault p MatchesNot else vok])) = [] \<longleftrightarrow>
    demand other compile C sc v ''not''"
  using agreeD [OF assms(1) assms(2)] by (auto simp: demand_def keyword_simps Let_def split: option.split)

lemma if_piece:
  assumes "\<And>k a. map_of sc k = Some a \<Longrightarrow> k \<in> {''if'', ''then'', ''else''} \<Longrightarrow> agree V C a" and "sized v"
  shows "fst (case map_of sc ''if'' of None \<Rightarrow> vok
      | Some cond \<Rightarrow>
          (let r = V cond v p
           in cat [seen_of [r],
             if fst r = []
             then (case map_of sc ''then'' of None \<Rightarrow> vok | Some th \<Rightarrow> V th v (p @ [Then]))
             else (case map_of sc ''else'' of None \<Rightarrow> vok | Some el \<Rightarrow> V el v (p @ [Else]))])) = [] \<longleftrightarrow>
    demand other compile C sc v ''if''"
proof -
  have "fst (V a v q) = [] \<longleftrightarrow> C a v" if "map_of sc k = Some a" "k \<in> {''if'', ''then'', ''else''}" for k a q
    by (rule agreeD [OF assms(1) [OF that] assms(2)])
  then show ?thesis by (auto simp: demand_def keyword_simps Let_def split: option.split)
qed

lemmas validate_obj = validate.simps [of _ _ "JObj sc" for sc, unfolded json.case]

section \<open>The guard and the validator\<close>

definition clean :: "json \<Rightarrow> bool" where
  "clean s \<longleftrightarrow> (\<exists>q. unsupportedConstructs s q = [])"

lemma concat_map_Nil: "concat (map f xs) = [] \<Longrightarrow> x \<in> set xs \<Longrightarrow> f x = []"
  by simp

text \<open>What a clean and regular schema allows at each of its keys.\<close>

lemma clean_entry:
  assumes "clean (JObj sc)" and "map_of sc k = Some a"
  shows "k \<in> set literalKeys \<or> k \<in> set sch_supported"
    and "k \<in> {''items'', ''additionalProperties'', ''propertyNames'', ''not'', ''if'', ''then'', ''else''} \<Longrightarrow> clean a"
    and "k = ''properties'' \<Longrightarrow> (n, s) \<in> set (entries a) \<Longrightarrow> clean s"
    and "k \<in> {''oneOf'', ''anyOf'', ''allOf''} \<Longrightarrow> b \<in> set (elements a) \<Longrightarrow> clean b"
proof -
  obtain q where q: "unsupportedConstructs (JObj sc) q = []" using assms(1) by (auto simp: clean_def)
  let ?here = "q @ [k]"
  let ?r = "if k \<in> set literalKeys then []
          else if k \<notin> set sch_supported then ?here # unsupportedConstructs a ?here
          else if k \<in> set mapOfSchemas then
            (case a of JObj sub \<Rightarrow> concat (map (\<lambda>(name, sch). unsupportedConstructs sch (?here @ [name])) sub) | _ \<Rightarrow> [])
          else if k \<in> set branchKeys then
            (case a of JArr l \<Rightarrow> concat (map (\<lambda>sch. unsupportedConstructs sch ?here) l) | _ \<Rightarrow> [])
          else unsupportedConstructs a ?here"
  have r: "?r = []"
    using concat_map_Nil [OF q [unfolded unsupportedConstructs.simps [of "JObj sc"] json.case Let_def] map_of_SomeD [OF assms(2)]]
    by (simp only: prod.case)
  show "k \<in> set literalKeys \<or> k \<in> set sch_supported" using r by (auto split: if_splits)
  show "clean a" if k: "k \<in> {''items'', ''additionalProperties'', ''propertyNames'', ''not'', ''if'', ''then'', ''else''}"
  proof -
    have "k \<notin> set literalKeys" "k \<in> set sch_supported" "k \<notin> set mapOfSchemas" "k \<notin> set branchKeys"
      using k by (elim insertE emptyE; simp add: literalKeys_def sch_supported_def mapOfSchemas_def branchKeys_def)+
    with r show ?thesis by (auto simp: clean_def)
  qed
  show "clean s" if k: "k = ''properties''" and m: "(n, s) \<in> set (entries a)"
  proof -
    have "k \<notin> set literalKeys" "k \<in> set sch_supported" "k \<in> set mapOfSchemas"
      using k by (simp_all add: literalKeys_def sch_supported_def mapOfSchemas_def)
    with r m show ?thesis by (cases a) (auto simp: clean_def entries_def)
  qed
  show "clean b" if k: "k \<in> {''oneOf'', ''anyOf'', ''allOf''}" and m: "b \<in> set (elements a)"
  proof -
    have "k \<notin> set literalKeys" "k \<in> set sch_supported" "k \<notin> set mapOfSchemas" "k \<in> set branchKeys"
      using k by (elim insertE emptyE; simp add: literalKeys_def sch_supported_def mapOfSchemas_def branchKeys_def)+
    with r m show ?thesis by (cases a) (auto simp: clean_def elements_def)
  qed
qed

lemma regular_entry:
  assumes "regular compile (JObj sc)" and "map_of sc k = Some a"
  shows "shape compile (regular compile) sc k a"
  using assms map_of_SomeD [OF assms(2)] by (auto simp: regular.simps [of _ "JObj sc"])

definition checked_keys :: "string list" where
  "checked_keys = [''type'', ''enum'', ''const'', ''required'', ''pattern'', ''items'', ''properties'', ''additionalProperties'',
     ''propertyNames'', ''minLength'', ''maxLength'', ''minItems'', ''minProperties'', ''minimum'', ''maximum'', ''oneOf'',
     ''anyOf'', ''allOf'', ''not'', ''if'']"

lemma conforms_demands:
  assumes "regular compile (JObj sc)" and "clean (JObj sc)"
  shows "conforms other compile (JObj sc) v \<longleftrightarrow> (\<forall>k \<in> set checked_keys. demand other compile (conforms other compile) sc v k)"
proof -
  have d: "distinct (map fst sc)" using assms(1) by (simp add: regular.simps [of _ "JObj sc"])
  have rest: "k \<in> set checked_keys \<or> k \<in> set annotations" if "map_of sc k = Some a" for k a
  proof -
    have "k \<noteq> ''maxItems''" "k \<noteq> ''maxProperties''" using regular_entry [OF assms(1) that] by (auto simp: shape_def)
    moreover have "set literalKeys \<union> set sch_supported \<subseteq> set checked_keys \<union> set annotations \<union> {''maxItems'', ''maxProperties''}"
      by code_simp
    ultimately show ?thesis using clean_entry(1) [OF assms(2) that] by blast
  qed
  have "list_all (\<lambda>k. keyword other compile C sc k a v) annotations" for C a
    by (simp add: annotations_def keyword_def)
  then have ann: "keyword other compile C sc k a v" if "k \<in> set annotations" for C k a
    using that by (simp add: list_all_iff)
  have "conforms other compile (JObj sc) v \<longleftrightarrow>
      (\<forall>k a. map_of sc k = Some a \<longrightarrow> keyword other compile (conforms other compile) sc k a v)"
    using d by (auto simp: conforms.simps [of _ _ "JObj sc"] dest: map_of_SomeD)
  also have "\<dots> \<longleftrightarrow> (\<forall>k \<in> set checked_keys. demand other compile (conforms other compile) sc v k)"
    using rest ann unfolding demand_def by blast
  finally show ?thesis .
qed

lemma validate_agrees:
  assumes "regular compile sch" and "clean sch"
  shows "agree (validate compile sprint) (conforms other compile) sch"
  using assms
proof (induction sch rule: measure_induct_rule [of size])
  case (less sch)
  show ?case
  proof (cases sch)
    case (JObj sc)
    let ?V = "validate compile sprint" and ?C = "conforms other compile"
    note reg = less.prems(1) [unfolded JObj] and cl = less.prems(2) [unfolded JObj]
    have entry: "size a < size sch" if "map_of sc k = Some a" for k a
      using entry_size [OF map_of_SomeD [OF that]] by (simp only: JObj)
    note sh = regular_entry [OF reg]
    have one: "agree ?V ?C a" if m: "map_of sc k = Some a"
      and k: "k \<in> {''items'', ''additionalProperties'', ''propertyNames'', ''not'', ''if'', ''then'', ''else''}" for k a
    proof (rule less.IH [OF entry [OF m]])
      show "regular compile a" using sh [OF m] k by (elim insertE emptyE; simp add: shape_def)
      show "clean a" by (rule clean_entry(2) [OF cl m k])
    qed
    have sub: "agree ?V ?C s" if m: "map_of sc ''properties'' = Some pm" and n: "(n, s) \<in> set (entries pm)" for pm n s
    proof (rule less.IH)
      show "size s < size sch" using entry [OF m] entries_size [OF n] by simp
      show "regular compile s" using sh [OF m] n by (auto simp: shape_def)
      show "clean s" by (rule clean_entry(3) [OF cl m refl n])
    qed
    have branch: "is_arr a \<and> (\<forall>b \<in> set (elements a). agree ?V ?C b)" if m: "map_of sc k = Some a" and k: "k \<in> {''oneOf'', ''anyOf'', ''allOf''}" for k a
    proof (intro conjI ballI)
      have s: "is_arr a \<and> (\<forall>b \<in> set (elements a). regular compile b)" using sh [OF m] k by (elim insertE emptyE; simp add: shape_def)
      then show "is_arr a" ..
      show "agree ?V ?C b" if b: "b \<in> set (elements a)" for b
        by (rule less.IH) (use entry [OF m] elements_size [OF b] s b clean_entry(4) [OF cl m k b] in auto)
    qed
    have bools: "?C (JBool b) x = b" for b x by (simp add: conforms.simps [of _ _ "JBool b"])
    have "fst (?V sch v p) = [] \<longleftrightarrow> ?C sch v" if v: "sized v" for v p
    proof -
      have kinds: "map_of sc ''type'' = Some t \<Longrightarrow> known_type t \<or> is_arr t \<and> (\<forall>n \<in> set (elements t). known_type n)"
        "map_of sc ''enum'' = Some t \<Longrightarrow> is_arr t"
        "map_of sc ''required'' = Some t \<Longrightarrow> is_arr t \<and> (\<forall>n \<in> set (elements t). isString n)"
        "map_of sc ''pattern'' = Some t \<Longrightarrow> (case t of JStr q \<Rightarrow> compile q \<noteq> None | _ \<Rightarrow> False)"
        "map_of sc ''additionalProperties'' = Some t \<Longrightarrow> agree ?V ?C t \<and> map_of sc ''properties'' \<noteq> None" for t
        using sh [of _ t] one [of "''additionalProperties''" t] by (auto simp: shape_def split: json.splits)
      have ones: "map_of sc ''items'' = Some a \<Longrightarrow> agree ?V ?C a" "map_of sc ''propertyNames'' = Some a \<Longrightarrow> agree ?V ?C a"
        "map_of sc ''not'' = Some a \<Longrightarrow> agree ?V ?C a" "map_of sc k = Some a \<Longrightarrow> k \<in> {''if'', ''then'', ''else''} \<Longrightarrow> agree ?V ?C a" for a k
        by (rule one, assumption, blast)+
      have branches: "map_of sc ''oneOf'' = Some a \<Longrightarrow> is_arr a \<and> (\<forall>b \<in> set (elements a). agree ?V ?C b)"
        "map_of sc ''anyOf'' = Some a \<Longrightarrow> is_arr a \<and> (\<forall>b \<in> set (elements a). agree ?V ?C b)"
        "map_of sc ''allOf'' = Some a \<Longrightarrow> is_arr a \<and> (\<forall>b \<in> set (elements a). agree ?V ?C b)" for a
        by (rule branch, assumption, blast)+
      note pieces = type_piece [OF kinds(1) v, where other = other and compile = compile and C = ?C]
        values_piece [OF kinds(2), where other = other and compile = compile and C = ?C]
        required_piece [OF kinds(3), where other = other and compile = compile and C = ?C]
        pattern_piece [OF kinds(4), where other = other and C = ?C]
        sizes_piece [where other = other and compile = compile and C = ?C]
        items_piece [OF ones(1) v, where other = other and compile = compile]
        properties_piece [OF sub v, where other = other and compile = compile]
        additional_piece [OF kinds(5) v bools, where other = other and compile = compile]
        names_piece [OF ones(2), where other = other and compile = compile]
        oneOf_piece [OF branches(1) v, where other = other and compile = compile]
        anyOf_piece [OF branches(2) v, where other = other and compile = compile]
        allOf_piece [OF branches(3) v, where other = other and compile = compile]
        not_piece [OF ones(3) v, where other = other and compile = compile]
        if_piece [OF ones(4) v, where other = other and compile = compile]
      have "fst (?V sch v p) = [] \<longleftrightarrow> (\<forall>k \<in> set checked_keys. demand other compile ?C sc v k)"
        unfolding JObj validate.simps [of compile sprint "JObj sc"] json.case checked_keys_def
        by (simp only: fst_if cat_ok list.set ball_simps pieces not_not simp_thms conj_assoc)
      then show ?thesis using conforms_demands [OF reg cl] by (simp add: JObj)
    qed
    then show ?thesis by (simp add: agree_def)
  qed (use less.prems in \<open>simp_all add: regular.simps agree_def validate.simps conforms.simps\<close>)
qed


definition demo_schema :: json where
  "demo_schema = JObj [(''type'', JStr ''object''), (''required'', JArr [JStr ''a'']),
     (''properties'', JObj [(''a'', JObj [(''minimum'', JFloat (Fin 1))])]), (''additionalProperties'', JBool False)]"


section \<open>Where the guard is blind\<close>

text \<open>The guard lets maxItems and maxProperties through, which the validator does not check.\<close>

lemma maxItems_unchecked:
  "unsupportedConstructs (JObj [(''maxItems'', JFloat (Fin 1))]) [] = []"
  "validate compile sprint (JObj [(''maxItems'', n)]) v p = ([], [])"
  by (simp_all add: unsupportedConstructs.simps literalKeys_def sch_supported_def mapOfSchemas_def branchKeys_def
      validate_obj check_type_def check_values_def check_required_def check_pattern_def check_sizes_def limit_def cat_def vok_def)

text \<open>A closed object without described properties, and a list of item schemas, are not checked either.\<close>

lemma additional_unchecked:
  "unsupportedConstructs (JObj [(''additionalProperties'', JBool False)]) [] = []"
  "validate compile sprint (JObj [(''additionalProperties'', JBool False)]) v p = ([], [])"
  by (simp_all add: unsupportedConstructs.simps literalKeys_def sch_supported_def mapOfSchemas_def branchKeys_def
      validate_obj check_type_def check_values_def check_required_def check_pattern_def check_sizes_def limit_def cat_def vok_def)

lemma item_list_unchecked:
  "unsupportedConstructs (JObj [(''items'', JArr l)]) [] = []"
  "fst (validate compile sprint (JObj [(''items'', JArr l)]) v p) = []"
  by (simp_all add: unsupportedConstructs.simps literalKeys_def sch_supported_def mapOfSchemas_def branchKeys_def
      validate_obj validate.simps [of _ _ "JArr l"] check_type_def check_values_def check_required_def check_pattern_def check_sizes_def limit_def cat_def vok_def
      case_prod_unfold)

end
