(* ===== verification/Schema_Repo.thy ===== *)
theory Schema_Repo
  imports Schema_Sound
begin

text \<open>
  The check of a repository against its schemas (internal/schemacheck/check.go, \<open>CheckRepo\<close>). Reading
  files is a parameter; the report is left out, the errors are constructors.
\<close>

text \<open>
  The entries of schemas/ with whether each is a directory; the schema a file holds; the files that match
  a pattern; the value of a YAML file.
\<close>

record repo =
  rp_dir :: "(string \<times> bool) list option"
  rp_read :: "string \<Rightarrow> json option"
  rp_glob :: "string \<Rightarrow> string list option"
  rp_yaml :: "string \<Rightarrow> json option"

datatype repoErr = NoDir | NoSchemas | BadSchemas nat | NoSchema string | BadGlob string | NoFiles string
  | BadPipelines nat | BadManifests nat | BadTests nat

datatype docProblem = Unreadable | Violates "seg list" verr

record docBatch =
  db_total :: nat
  db_bad :: nat
  db_problems :: "(string \<times> docProblem) list"
  db_unver :: "(seg list \<times> string) list"

definition schema_names :: "(string \<times> bool) list \<Rightarrow> string list" where
  "schema_names entries' = map fst (filter (\<lambda>(n, dir). \<not> dir \<and> hasSuffix n ''.json'') entries')"

definition schema_problems :: "repo \<Rightarrow> string \<Rightarrow> nat" where
  "schema_problems rp name =
     (case rp_read rp name of None \<Rightarrow> 1 | Some doc \<Rightarrow> length (nub (unsupportedConstructs doc [])))"

definition check_doc ::
  "repo \<Rightarrow> (string \<Rightarrow> (string \<Rightarrow> bool) option) \<Rightarrow> (json \<Rightarrow> string) \<Rightarrow> json \<Rightarrow> string \<Rightarrow> docBatch \<Rightarrow> docBatch" where
  "check_doc rp compile sprint sch f out =
     (case rp_yaml rp f of
        None \<Rightarrow> out\<lparr>db_total := db_total out + 1, db_bad := db_bad out + 1, db_problems := db_problems out @ [(f, Unreadable)]\<rparr>
      | Some data \<Rightarrow>
          let (errs, seen) = validate compile sprint sch data [] in
          out\<lparr>db_total := db_total out + 1, db_bad := (if errs = [] then db_bad out else db_bad out + 1),
            db_problems := db_problems out @ map (\<lambda>(q, e). (f, Violates q e)) errs,
            db_unver := db_unver out @ nub seen\<rparr>)"

definition no_docs :: docBatch where
  "no_docs = \<lparr>db_total = 0, db_bad = 0, db_problems = [], db_unver = []\<rparr>"

definition checkDocs ::
  "repo \<Rightarrow> (string \<Rightarrow> (string \<Rightarrow> bool) option) \<Rightarrow> (json \<Rightarrow> string) \<Rightarrow> string \<Rightarrow> string \<Rightarrow> bool \<Rightarrow> repoErr + docBatch" where
  "checkDocs rp compile sprint schemaName pattern required =
     (case rp_read rp schemaName of
        None \<Rightarrow> Inl (NoSchema schemaName)
      | Some sch \<Rightarrow>
          (case rp_glob rp pattern of
             None \<Rightarrow> Inl (BadGlob pattern)
           | Some files \<Rightarrow>
               if files = [] then (if required then Inl (NoFiles pattern) else Inr no_docs)
               else Inr (foldl (\<lambda>out f. check_doc rp compile sprint sch f out) no_docs files)))"

definition dedupNotes :: "(seg list \<times> string) list \<Rightarrow> (seg list \<times> string) list" where
  "dedupNotes = nub"

definition two_sets ::
  "repo \<Rightarrow> (string \<Rightarrow> (string \<Rightarrow> bool) option) \<Rightarrow> (json \<Rightarrow> string) \<Rightarrow> string \<Rightarrow> string \<Rightarrow> string \<Rightarrow> bool \<Rightarrow> repoErr + (docBatch \<times> docBatch)" where
  "two_sets rp compile sprint schemaName p1 p2 required =
     (case checkDocs rp compile sprint schemaName p1 False of
        Inl e \<Rightarrow> Inl e
      | Inr a \<Rightarrow>
          (case checkDocs rp compile sprint schemaName p2 required of
             Inl e \<Rightarrow> Inl e
           | Inr b \<Rightarrow> Inr (a, b)))"

text \<open>On success: the rules that could not be checked.\<close>

definition CheckRepo :: "(string \<Rightarrow> (string \<Rightarrow> bool) option) \<Rightarrow> (json \<Rightarrow> string) \<Rightarrow> repo \<Rightarrow> repoErr + (seg list \<times> string) list" where
  "CheckRepo compile sprint rp =
     (case rp_dir rp of
        None \<Rightarrow> Inl NoDir
      | Some dir \<Rightarrow>
          let names = schema_names dir; problems = sum_list (map (schema_problems rp) names) in
          if names = [] then Inl NoSchemas
          else if problems > 0 then Inl (BadSchemas problems)
          else case checkDocs rp compile sprint ''pipeline.v0.2.schema.json'' ''examples/*.yaml'' True of
            Inl e \<Rightarrow> Inl e
          | Inr pb \<Rightarrow>
              if db_bad pb > 0 then Inl (BadPipelines (db_bad pb))
              else case two_sets rp compile sprint ''manifest.schema.json'' ''plugins/*/plugin.yaml'' ''plugins/*/*/plugin.yaml'' False of
                Inl e \<Rightarrow> Inl e
              | Inr (mn, mn2) \<Rightarrow>
                  if db_bad mn + db_bad mn2 > 0 then Inl (BadManifests (db_bad mn + db_bad mn2))
                  else case two_sets rp compile sprint ''plugin.test.schema.json'' ''plugins/*/plugin.test.yaml''
                      ''plugins/*/*/plugin.test.yaml'' True of
                    Inl e \<Rightarrow> Inl e
                  | Inr (tn, tn2) \<Rightarrow>
                      if db_bad tn + db_bad tn2 > 0 then Inl (BadTests (db_bad tn + db_bad tn2))
                      else Inr (dedupNotes (db_unver pb @ db_unver mn @ db_unver mn2) @ dedupNotes (db_unver tn @ db_unver tn2)))"

section \<open>What a passed check means\<close>

text \<open>The file holds a value its schema accepts.\<close>

definition fits :: "repo \<Rightarrow> (string \<Rightarrow> (string \<Rightarrow> bool) option) \<Rightarrow> (json \<Rightarrow> string) \<Rightarrow> json \<Rightarrow> string \<Rightarrow> bool" where
  "fits rp compile sprint sch f \<longleftrightarrow>
     (case rp_yaml rp f of None \<Rightarrow> False | Some data \<Rightarrow> fst (validate compile sprint sch data []) = [])"

lemma check_doc_bad: "db_bad (check_doc rp compile sprint sch f out) = db_bad out + (if fits rp compile sprint sch f then 0 else 1)"
  by (auto simp: check_doc_def fits_def split: option.split prod.split)

lemma check_docs_bad:
  "db_bad (foldl (\<lambda>out f. check_doc rp compile sprint sch f out) out files) =
     db_bad out + length (filter (\<lambda>f. \<not> fits rp compile sprint sch f) files)"
  by (induction files arbitrary: out) (simp_all add: check_doc_bad)

lemma checkDocs_Inr:
  assumes "checkDocs rp compile sprint name pattern required = Inr b" and "db_bad b = 0"
  shows "\<exists>sch files. rp_read rp name = Some sch \<and> rp_glob rp pattern = Some files \<and> (required \<longrightarrow> files \<noteq> []) \<and>
    (\<forall>f \<in> set files. fits rp compile sprint sch f)"
proof -
  obtain sch files where r: "rp_read rp name = Some sch" "rp_glob rp pattern = Some files"
    using assms(1) by (auto simp: checkDocs_def split: option.splits)
  show ?thesis
  proof (cases "files = []")
    case True
    with r assms(1) show ?thesis by (auto simp: checkDocs_def split: if_splits)
  next
    case False
    with r assms have "filter (\<lambda>f. \<not> fits rp compile sprint sch f) files = []"
      by (auto simp: checkDocs_def check_docs_bad no_docs_def)
    with r False show ?thesis by (auto simp: filter_empty_conv)
  qed
qed

lemma two_sets_Inr:
  assumes "two_sets rp compile sprint name p1 p2 required = Inr (a, b)" and "db_bad a + db_bad b = 0"
  shows "checkDocs rp compile sprint name p1 False = Inr a \<and> db_bad a = 0 \<and>
    checkDocs rp compile sprint name p2 required = Inr b \<and> db_bad b = 0"
  using assms by (auto simp: two_sets_def split: sum.splits)

text \<open>The schema of a file, by the pattern that finds it.\<close>

definition contracts :: "(string \<times> string) list" where
  "contracts =
     [(''examples/*.yaml'', ''pipeline.v0.2.schema.json''),
      (''plugins/*/plugin.yaml'', ''manifest.schema.json''), (''plugins/*/*/plugin.yaml'', ''manifest.schema.json''),
      (''plugins/*/plugin.test.yaml'', ''plugin.test.schema.json''), (''plugins/*/*/plugin.test.yaml'', ''plugin.test.schema.json'')]"

lemma CheckRepo_Inr:
  assumes "CheckRepo compile sprint rp = Inr notes"
  obtains dir where "rp_dir rp = Some dir" "\<forall>n \<in> set (schema_names dir). schema_problems rp n = 0"
    "\<forall>(p, s) \<in> set contracts. \<exists>b r. checkDocs rp compile sprint s p r = Inr b \<and> db_bad b = 0 \<and> (p = ''examples/*.yaml'' \<longrightarrow> r)"
proof -
  obtain dir where dir: "rp_dir rp = Some dir" using assms by (auto simp: CheckRepo_def split: option.splits)
  note run = assms [unfolded CheckRepo_def dir option.case Let_def]
  have z: "sum_list (map (schema_problems rp) (schema_names dir)) = 0" using run by (auto split: if_splits)
  then obtain pb where pb: "checkDocs rp compile sprint ''pipeline.v0.2.schema.json'' ''examples/*.yaml'' True = Inr pb" "db_bad pb = 0"
    using run by (auto split: if_splits sum.splits)
  then obtain mn mn2 where mn: "two_sets rp compile sprint ''manifest.schema.json'' ''plugins/*/plugin.yaml'' ''plugins/*/*/plugin.yaml'' False = Inr (mn, mn2)"
    "db_bad mn + db_bad mn2 = 0"
    using run by (auto split: if_splits sum.splits)
  then obtain tn tn2 where tn: "two_sets rp compile sprint ''plugin.test.schema.json'' ''plugins/*/plugin.test.yaml''
      ''plugins/*/*/plugin.test.yaml'' True = Inr (tn, tn2)" "db_bad tn + db_bad tn2 = 0"
    using run pb by (auto split: if_splits sum.splits)
  show ?thesis
  proof (rule that [OF dir])
    show "\<forall>n \<in> set (schema_names dir). schema_problems rp n = 0" using z by simp
    show "\<forall>(p, s) \<in> set contracts. \<exists>b r. checkDocs rp compile sprint s p r = Inr b \<and> db_bad b = 0 \<and> (p = ''examples/*.yaml'' \<longrightarrow> r)"
      using pb two_sets_Inr [OF mn] two_sets_Inr [OF tn] unfolding contracts_def by auto
  qed
qed

text \<open>
  C37. A repository that passes the check has schemas without unknown constructs, and every example
  pipeline, plugin manifest and contract test of it is readable and accepted by its schema; where the
  schema is regular and listed, it conforms to it. Examples are there, an empty set does not pass.
\<close>

theorem repo_check_sound:
  assumes "CheckRepo compile sprint rp = Inr notes"
  shows "\<exists>dir. rp_dir rp = Some dir \<and> rp_glob rp ''examples/*.yaml'' \<noteq> Some [] \<and>
    (\<forall>n \<in> set (schema_names dir). \<exists>s. rp_read rp n = Some s \<and> unsupportedConstructs s [] = []) \<and>
    (\<forall>(p, name) \<in> set contracts. \<exists>sch files. rp_read rp name = Some sch \<and> rp_glob rp p = Some files \<and>
       (\<forall>f \<in> set files. \<exists>data. rp_yaml rp f = Some data \<and> fst (validate compile sprint sch data []) = [] \<and>
          (name \<in> set (schema_names dir) \<and> regular compile sch \<and> sized data \<longrightarrow> conforms other compile sch data)))"
proof -
  obtain dir where dir: "rp_dir rp = Some dir" and names: "\<forall>n \<in> set (schema_names dir). schema_problems rp n = 0"
    and sets: "\<forall>(p, s) \<in> set contracts. \<exists>b r. checkDocs rp compile sprint s p r = Inr b \<and> db_bad b = 0 \<and> (p = ''examples/*.yaml'' \<longrightarrow> r)"
    by (rule CheckRepo_Inr [OF assms])
  have "length (nub xs) = 0 \<Longrightarrow> xs = []" for xs :: "string list list"
    using set_nub [of xs] by auto
  with names have clean: "\<forall>n \<in> set (schema_names dir). \<exists>s. rp_read rp n = Some s \<and> unsupportedConstructs s [] = []"
    by (fastforce simp: schema_problems_def split: option.splits)
  have docs: "\<exists>sch files. rp_read rp name = Some sch \<and> rp_glob rp p = Some files \<and> (p = ''examples/*.yaml'' \<longrightarrow> files \<noteq> []) \<and>
      (\<forall>f \<in> set files. \<exists>data. rp_yaml rp f = Some data \<and> fst (validate compile sprint sch data []) = [] \<and>
          (name \<in> set (schema_names dir) \<and> regular compile sch \<and> sized data \<longrightarrow> conforms other compile sch data))"
    if "(p, name) \<in> set contracts" for p name
  proof -
    obtain b r where "checkDocs rp compile sprint name p r = Inr b" "db_bad b = 0" "p = ''examples/*.yaml'' \<longrightarrow> r"
      using sets \<open>(p, name) \<in> set contracts\<close> by auto
    then obtain sch files where f: "rp_read rp name = Some sch" "rp_glob rp p = Some files" "p = ''examples/*.yaml'' \<longrightarrow> files \<noteq> []"
      "\<forall>f \<in> set files. fits rp compile sprint sch f"
      using checkDocs_Inr by blast
    have "clean sch" if "name \<in> set (schema_names dir)"
      using clean that f(1) unfolding clean_def by fastforce
    then have "conforms other compile sch data"
      if "name \<in> set (schema_names dir)" "regular compile sch" "sized data" "fst (validate compile sprint sch data []) = []" for data
      using agreeD [OF validate_agrees [where other = other and sprint = sprint] that(3), of compile sch "[]"] that by simp
    with f show ?thesis by (fastforce simp: fits_def split: option.splits)
  qed
  have "(''examples/*.yaml'', ''pipeline.v0.2.schema.json'') \<in> set contracts" by (simp add: contracts_def)
  then have "rp_glob rp ''examples/*.yaml'' \<noteq> Some []" using docs by fastforce
  with dir clean docs show ?thesis by blast
qed

definition demo_repo :: repo where
  "demo_repo = \<lparr>rp_dir = Some [(''pipeline.v0.2.schema.json'', False)],
     rp_read = (\<lambda>n. Some (JObj [(''type'', JStr ''object'')])), rp_glob = (\<lambda>p. Some [''x.yaml'']), rp_yaml = (\<lambda>f. Some (JObj []))\<rparr>"

theorem repo_check_sound_witness:
  "CheckRepo (\<lambda>s. None) (\<lambda>v. []) demo_repo = Inr [] \<and>
   fst (validate (\<lambda>s. None) (\<lambda>v. []) (JObj [(''type'', JStr ''object'')]) (JObj []) []) = []"
proof -
  have v: "validate (\<lambda>s. None) (\<lambda>v. []) (JObj [(''type'', JStr ''object'')]) (JObj []) [] = ([], [])"
    by (simp add: validate_obj check_type_def check_values_def check_required_def check_pattern_def check_sizes_def limit_def cat_def vok_def)
  have u: "unsupportedConstructs (JObj [(''type'', JStr ''object'')]) [] = []"
    by (simp add: unsupportedConstructs.simps literalKeys_def sch_supported_def mapOfSchemas_def branchKeys_def)
  have r: "CheckRepo (\<lambda>s. None) (\<lambda>v. []) demo_repo = Inr []"
    by (simp add: CheckRepo_def demo_repo_def schema_names_def hasSuffix_def hasPrefix_def schema_problems_def u
        checkDocs_def two_sets_def check_doc_def v no_docs_def dedupNotes_def)
  have "(''examples/*.yaml'', ''pipeline.v0.2.schema.json'') \<in> set contracts" by (simp add: contracts_def)
  then show ?thesis using r repo_check_sound [OF r] by (fastforce simp: demo_repo_def)
qed

end
