(* ===== verification/Requirement.thy ===== *)
theory Requirement
  imports Manifest_Check Plugin_Trust
begin

text \<open>
  The dependencies of a donor project (internal/importer/requirement.go): the subset of PEP 508 that is
  understood, and what of it a manifest can hold. Errors are constructors, their texts are left out.
\<close>

record requirement =
  rq_raw :: string
  rq_name :: string
  rq_extras :: "string list"
  rq_constraint :: string
  rq_version :: string
  rq_url :: string
  rq_marker :: string
  rq_pinned :: bool

datatype reqErr = EmptyRequirementText | EmptyMarker | NoPackage | VCSLink | EmptyURL | URLSpaces | OpenBracket
  | EmptyExtra | BadExtra string | BadName string | EmptyPart | BadPart string | TwoPins

section \<open>Patterns\<close>

definition manifestRequiresRe :: "string \<Rightarrow> bool" where
  "manifestRequiresRe = manifestRequirementPattern"

definition dist_class :: "char \<Rightarrow> bool" where
  "dist_class c \<longleftrightarrow> is_alnum c \<or> c \<in> {CHR ''.'', CHR ''_'', CHR ''-''}"

definition distNameRe :: "string \<Rightarrow> bool" where
  "distNameRe s \<longleftrightarrow> s \<noteq> [] \<and> is_alnum (hd s) \<and> is_alnum (last s) \<and> list_all dist_class s"

definition extraNameRe :: "string \<Rightarrow> bool" where
  "extraNameRe = distNameRe"

definition version_class :: "char \<Rightarrow> bool" where
  "version_class c \<longleftrightarrow> is_alnum c \<or> c \<in> {CHR ''.'', CHR ''*'', CHR ''+'', CHR ''!'', CHR ''_'', CHR ''-''}"

definition operators :: "string list" where
  "operators = [''==='', ''=='', ''!='', ''~='', ''<='', ''>='', ''<'', ''>'']"

text \<open>The operator and the version of a part; the first operator of the list that matches.\<close>

definition constraintPartRe :: "string \<Rightarrow> (string \<times> string) option" where
  "constraintPartRe s =
     (let version = (\<lambda>o'. dropWhile (\<lambda>c. c \<in> {CHR '' '', CHR 0x09, CHR 0x0A, CHR 0x0C, CHR 0x0D}) (drop (length o') s)) in
      map_option (\<lambda>o'. (o', version o'))
        (find (\<lambda>o'. hasPrefix s o' \<and> head_tail is_alnum version_class (version o')) operators))"

section \<open>Names\<close>

text \<open>\<open>strings.NewReplacer\<close>: one pass over the text, the result is not read again.\<close>

fun replace_separators :: "string \<Rightarrow> string" where
  "replace_separators [] = []"
| "replace_separators (c # r) =
     (if c = CHR ''_'' \<or> c = CHR ''.'' then CHR ''-'' # replace_separators r
      else if c = CHR ''-'' \<and> r \<noteq> [] \<and> hd r = CHR ''-'' then CHR ''-'' # replace_separators (tl r)
      else c # replace_separators r)"

definition normalizeDistName :: "string \<Rightarrow> string" where
  "normalizeDistName name = toLower (replace_separators (trimSpace name))"

definition normalizeExtra :: "string \<Rightarrow> string" where
  "normalizeExtra extra = toLower (replaceChar (CHR ''-'') (CHR ''_'') extra)"

section \<open>Parsing\<close>

text \<open>\<open>strings.Index\<close>.\<close>

fun index_sub :: "string \<Rightarrow> string \<Rightarrow> nat option" where
  "index_sub [] sub = (if sub = [] then Some 0 else None)"
| "index_sub (c # r) sub = (if hasPrefix (c # r) sub then Some 0 else map_option Suc (index_sub r sub))"

definition isVCSLink :: "string \<Rightarrow> bool" where
  "isVCSLink body = list_ex (\<lambda>p. hasPrefix body p \<or> contains body (CHR ''@'' # p) \<or> contains body (CHR '' '' # p))
     [''git+'', ''hg+'', ''svn+'', ''bzr+'']"

definition isDistNameChar :: "char \<Rightarrow> bool" where
  "isDistNameChar c \<longleftrightarrow> c = CHR ''-'' \<or> c = CHR ''_'' \<or> c = CHR ''.'' \<or> is_alnum c"

definition splitNameAndRest :: "string \<Rightarrow> string \<times> string" where
  "splitNameAndRest body = (takeWhile isDistNameChar body, dropWhile isDistNameChar body)"

fun parse_extras :: "string list \<Rightarrow> reqErr + string list" where
  "parse_extras [] = Inr []"
| "parse_extras (i # is) =
     (let item = trimSpace i in
      if item = [] then Inl EmptyExtra
      else if \<not> extraNameRe item then Inl (BadExtra item)
      else map_sum id (\<lambda>es. normalizeExtra item # es) (parse_extras is))"

definition parseNameExtras :: "string \<Rightarrow> reqErr + (string \<times> string list)" where
  "parseNameExtras namePart =
     (let parsed =
        (case index_of (CHR ''['') namePart of
           None \<Rightarrow> Inr (namePart, [])
         | Some idx \<Rightarrow>
             if \<not> hasSuffix namePart '']'' then Inl OpenBracket
             else
               let inner = trimSpace (take (length namePart - 1 - (idx + 1)) (drop (idx + 1) namePart)) in
               map_sum id (\<lambda>es. (trimSpace (take idx namePart), es)) (parse_extras (split_on (CHR '','') inner)))
      in case parsed of
           Inl e \<Rightarrow> Inl e
         | Inr (name, extras) \<Rightarrow>
             if name = [] \<or> \<not> distNameRe name then Inl (BadName name)
             else Inr (normalizeDistName name, extras))"

text \<open>The parts of a constraint: their clean texts, the number of \<open>==\<close> so far and the pinned version.\<close>

fun version_parts :: "string list \<Rightarrow> nat \<Rightarrow> string \<Rightarrow> reqErr + (string list \<times> nat \<times> string)" where
  "version_parts [] pins version = Inr ([], pins, version)"
| "version_parts (p # ps) pins version =
     (let part = trimSpace p in
      if part = [] then Inl EmptyPart
      else case constraintPartRe part of
        None \<Rightarrow> Inl (BadPart part)
      | Some (oper, v) \<Rightarrow>
          if oper = ''=='' \<and> pins \<ge> 1 then Inl TwoPins
          else
            let pins' = (if oper = ''=='' then pins + 1 else pins);
                version' = (if oper = ''=='' \<and> CHR ''*'' \<notin> set v then v else version)
            in map_sum id (\<lambda>(clean, n, w). ((oper @ v) # clean, n, w)) (version_parts ps pins' version'))"

definition applyVersion :: "requirement \<Rightarrow> reqErr + requirement" where
  "applyVersion req =
     (if rq_constraint req = [] then Inr req
      else case version_parts (split_on (CHR '','') (rq_constraint req)) 0 (rq_version req) of
        Inl e \<Rightarrow> Inl e
      | Inr (clean, pins, version) \<Rightarrow>
          Inr (req\<lparr>rq_constraint := join '','' clean, rq_version := version, rq_pinned := (pins = 1 \<and> version \<noteq> [])\<rparr>))"

definition blank_req :: "string \<Rightarrow> requirement" where
  "blank_req s = \<lparr>rq_raw = s, rq_name = [], rq_extras = [], rq_constraint = [], rq_version = [], rq_url = [], rq_marker = [],
     rq_pinned = False\<rparr>"

definition cut_comment :: "string \<Rightarrow> string" where
  "cut_comment raw = (case index_sub raw '' #'' of Some (Suc i) \<Rightarrow> trimSpace (take (Suc i) raw) | _ \<Rightarrow> raw)"

definition cut_marker :: "string \<Rightarrow> reqErr + (string \<times> string)" where
  "cut_marker raw =
     (case index_of (CHR '';'') raw of
        None \<Rightarrow> Inr ([], raw)
      | Some idx \<Rightarrow>
          if trimSpace (drop (idx + 1) raw) = [] then Inl EmptyMarker
          else Inr (trimSpace (drop (idx + 1) raw), trimSpace (take idx raw)))"

text \<open>After the name: an opening bracket takes the text up to the closing one with it.\<close>

definition name_and_constraint :: "string \<Rightarrow> reqErr + (string \<times> string)" where
  "name_and_constraint body =
     (let (namePart, rest0) = splitNameAndRest body; rest = dropWhile (\<lambda>c. c = CHR '' '' \<or> c = CHR 0x09) rest0 in
      if hasPrefix rest ''['' then
        (case index_of (CHR '']'') rest of
           None \<Rightarrow> Inl OpenBracket
         | Some close \<Rightarrow> Inr (namePart @ take (close + 1) rest, drop (close + 1) rest))
      else Inr (namePart, rest))"

definition ParseRequirement :: "string \<Rightarrow> reqErr + requirement" where
  "ParseRequirement s =
     (if trimSpace s = [] then Inl EmptyRequirementText
      else case cut_marker (cut_comment (trimSpace s)) of
        Inl e \<Rightarrow> Inl e
      | Inr (marker, body) \<Rightarrow>
          let req = (blank_req s)\<lparr>rq_marker := marker\<rparr> in
          if body = [] then Inl NoPackage
          else if isVCSLink body then Inl VCSLink
          else case index_of (CHR ''@'') body of
            Some idx \<Rightarrow>
              let url = trimSpace (drop (idx + 1) body) in
              if url = [] then Inl EmptyURL
              else if containsAny url [CHR '' '', CHR 0x09] then Inl URLSpaces
              else (case parseNameExtras (trimSpace (take idx body)) of
                 Inl e \<Rightarrow> Inl e
               | Inr (name, extras) \<Rightarrow> Inr (req\<lparr>rq_name := name, rq_extras := extras, rq_url := url\<rparr>))
          | None \<Rightarrow>
              (case name_and_constraint body of
                 Inl e \<Rightarrow> Inl e
               | Inr (namePart, rest) \<Rightarrow>
                   (case parseNameExtras namePart of
                      Inl e \<Rightarrow> Inl e
                    | Inr (name, extras) \<Rightarrow>
                        applyVersion (req\<lparr>rq_name := name, rq_extras := extras, rq_constraint := trimSpace rest\<rparr>))))"

definition ManifestSpec :: "requirement \<Rightarrow> string option" where
  "ManifestSpec r =
     (let spec = rq_name r @ ''=='' @ rq_version r in
      if \<not> rq_pinned r \<or> rq_version r = [] then None
      else if rq_extras r \<noteq> [] \<or> rq_url r \<noteq> [] \<or> rq_marker r \<noteq> [] then None
      else if \<not> manifestRequiresRe spec then None
      else Some spec)"

end
