(* ===== verification/Import_Project.thy ===== *)
theory Import_Project
  imports Toml Requirement
begin

text \<open>
  Reading the metadata of a donor project (internal/importer/importer.go, setupcfg.go): pyproject.toml
  through the TOML reader, setup.cfg through the reader of INI files, the layout of the sources. The file
  system is the parameter \<open>donorFs\<close>. Notes and errors are constructors.
\<close>

datatype layout = LayoutSrcLayout | LayoutFlat | LayoutUnknown

datatype inote = SetupCfgIgnored | ReadmeMissing string | ReadmeInline | WhereUnknown string | VersionDynamic
  | LongDescription | GroupIgnored string | NoSrcDir | NoPackageFound

record project =
  pj_name :: string
  pj_version :: string
  pj_description :: string
  pj_requiresPython :: string
  pj_dependencies :: "string list"
  pj_optional :: "(string \<times> string list) list"
  pj_scripts :: "(string \<times> string) list"
  pj_packageRoot :: string
  pj_layout :: layout
  pj_descriptionFile :: string
  pj_optionalGroup :: string
  pj_readmeRef :: string
  pj_dynamic :: "string list"
  pj_findWhere :: string
  pj_notes :: "inote list"
  pj_sourceFile :: string

definition new_project :: "string \<Rightarrow> project" where
  "new_project src = \<lparr>pj_name = [], pj_version = [], pj_description = [], pj_requiresPython = [], pj_dependencies = [],
     pj_optional = [], pj_scripts = [], pj_packageRoot = [], pj_layout = LayoutUnknown, pj_descriptionFile = [],
     pj_optionalGroup = [], pj_readmeRef = [], pj_dynamic = [], pj_findWhere = [], pj_notes = [], pj_sourceFile = src\<rparr>"

datatype iniErr = OpenSection nat | EmptySection nat | DupSection nat string | BeforeSection nat | EmptyParam nat
  | DupParam nat string | BadLine nat

datatype importErr = TomlError tomlErr | NoProjectTable | NoProjectName | BadReadme nat | BadScript nat string
  | IniError iniErr | NoMetadata | BadConsoleScript nat string | NoDir | DirUnavailable | NotDirectory | FileUnreadable string
  | OnlySetupPy | NothingToImport

section \<open>pyproject.toml\<close>

definition toml_bind :: "tomlErr + 'a \<Rightarrow> ('a \<Rightarrow> importErr + 'b) \<Rightarrow> importErr + 'b" where
  "toml_bind r f = (case r of Inl e \<Rightarrow> Inl (TomlError e) | Inr x \<Rightarrow> f x)"

definition text_or_empty :: "string option \<Rightarrow> string" where
  "text_or_empty o' = (case o' of None \<Rightarrow> [] | Some s \<Rightarrow> s)"

definition list_or_empty :: "string list option \<Rightarrow> string list" where
  "list_or_empty o' = (case o' of None \<Rightarrow> [] | Some s \<Rightarrow> s)"

definition readme_file :: "(string \<times> tomlValue) list \<Rightarrow> string" where
  "readme_file items = foldl (\<lambda>r (k, v). case v of TString s \<Rightarrow> if k = ''file'' then s else r | _ \<Rightarrow> r) [] items"

definition readReadme :: "tomlNode \<Rightarrow> project \<Rightarrow> importErr + project" where
  "readReadme node p =
     (case field node ''readme'' of
        None \<Rightarrow> Inr p
      | Some child \<Rightarrow>
          (case tn_val child of
             None \<Rightarrow> Inr p
           | Some (TString s) \<Rightarrow> Inr (p\<lparr>pj_readmeRef := s\<rparr>)
           | Some (TInline items) \<Rightarrow>
               if readme_file items = [] then Inr (p\<lparr>pj_notes := pj_notes p @ [ReadmeInline]\<rparr>)
               else Inr (p\<lparr>pj_readmeRef := readme_file items\<rparr>)
           | Some _ \<Rightarrow> Inl (BadReadme (tn_line child))))"

fun read_groups :: "(string \<times> tomlNode) list \<Rightarrow> tomlErr + (string \<times> string list) list" where
  "read_groups [] = Inr []"
| "read_groups ((g, child) # r) =
     (case ownStringList child g of
        Inl e \<Rightarrow> Inl e
      | Inr l \<Rightarrow> map_sum id (\<lambda>gs. (g, l) # gs) (read_groups r))"

definition readOptionalDependencies :: "tomlNode \<Rightarrow> project \<Rightarrow> importErr + project" where
  "readOptionalDependencies node p =
     toml_bind (table_of node ''optional-dependencies'') (\<lambda>opt. case opt of
         None \<Rightarrow> Inr p
       | Some t \<Rightarrow> toml_bind (read_groups (tn_fields t)) (\<lambda>gs. Inr (p\<lparr>pj_optional := gs\<rparr>)))"

fun read_entries :: "(string \<times> tomlNode) list \<Rightarrow> importErr + (string \<times> string) list" where
  "read_entries [] = Inr []"
| "read_entries ((name, child) # r) =
     (case tn_val child of
        Some (TString s) \<Rightarrow> map_sum id (\<lambda>es. (name, s) # es) (read_entries r)
      | _ \<Rightarrow> Inl (BadScript (tn_line child) name))"

definition readScripts :: "tomlNode \<Rightarrow> project \<Rightarrow> importErr + project" where
  "readScripts node p =
     toml_bind (table_of node ''scripts'') (\<lambda>scripts. case scripts of
         None \<Rightarrow> Inr p
       | Some t \<Rightarrow> map_sum id (\<lambda>es. p\<lparr>pj_scripts := es\<rparr>) (read_entries (tn_fields t)))"

text \<open>\<open>filepath.ToSlash\<close> changes nothing on a Unix host.\<close>

fun sub_table :: "tomlNode \<Rightarrow> string list \<Rightarrow> tomlNode option" where
  "sub_table n [] = Some n"
| "sub_table n (k # ks) =
     (case table_of n k of Inr (Some c) \<Rightarrow> sub_table c ks | _ \<Rightarrow> None)"

definition findWhere :: "tomlNode \<Rightarrow> string" where
  "findWhere rt =
     (case sub_table rt [''tool'', ''setuptools'', ''packages'', ''find''] of
        None \<Rightarrow> []
      | Some find' \<Rightarrow> (case stringList find' ''where'' of Inr (Some (w # ws)) \<Rightarrow> trimSpace w | _ \<Rightarrow> []))"

definition dynamicField :: "project \<Rightarrow> string \<Rightarrow> bool" where
  "dynamicField p name = List.member (pj_dynamic p) name"

definition declared_layout :: "project \<Rightarrow> project" where
  "declared_layout p =
     (if pj_findWhere p = ''src'' then p\<lparr>pj_layout := LayoutSrcLayout\<rparr>
      else if pj_findWhere p = ''.'' then p\<lparr>pj_layout := LayoutFlat\<rparr>
      else p\<lparr>pj_layout := LayoutUnknown,
        pj_notes := pj_notes p @ (if pj_findWhere p \<noteq> [] then [WhereUnknown (pj_findWhere p)] else [])\<rparr>)"

definition imp_bind :: "importErr + 'a \<Rightarrow> ('a \<Rightarrow> importErr + 'b) \<Rightarrow> importErr + 'b" where
  "imp_bind r f = (case r of Inl e \<Rightarrow> Inl e | Inr x \<Rightarrow> f x)"

definition project_fields :: "tomlNode \<Rightarrow> importErr + project" where
  "project_fields node =
     toml_bind (stringField node ''name'') (\<lambda>name.
     if text_or_empty name = [] then Inl NoProjectName
     else
     toml_bind (stringField node ''version'') (\<lambda>version.
     toml_bind (stringField node ''description'') (\<lambda>description.
     toml_bind (stringField node ''requires-python'') (\<lambda>python.
     toml_bind (stringList node ''dependencies'') (\<lambda>deps.
     toml_bind (stringList node ''dynamic'') (\<lambda>dyn.
     Inr ((new_project ''pyproject.toml'')\<lparr>pj_name := text_or_empty name, pj_version := text_or_empty version,
       pj_description := text_or_empty description, pj_requiresPython := text_or_empty python,
       pj_dependencies := list_or_empty deps, pj_dynamic := list_or_empty dyn\<rparr>)))))))"

definition ParsePyproject :: "string \<Rightarrow> importErr + project" where
  "ParsePyproject src =
     toml_bind (parseToml src) (\<lambda>rt.
     toml_bind (table_of rt ''project'') (\<lambda>table. case table of
       None \<Rightarrow> Inl NoProjectTable
     | Some node \<Rightarrow>
         imp_bind (project_fields node) (\<lambda>p0.
         imp_bind (readReadme node p0) (\<lambda>p1.
         imp_bind (readOptionalDependencies node p1) (\<lambda>p2.
         imp_bind (readScripts node p2) (\<lambda>p3.
         let p4 = declared_layout (p3\<lparr>pj_findWhere := findWhere rt\<rparr>) in
         Inr (if dynamicField p4 ''version'' then p4\<lparr>pj_notes := pj_notes p4 @ [VersionDynamic]\<rparr> else p4)))))))"

section \<open>setup.cfg\<close>

record iniValue =
  iv_line :: nat
  iv_first :: string
  iv_rest :: "string list"

type_synonym iniSection = "(string \<times> iniValue) list"
type_synonym iniDoc = "(string \<times> iniSection) list"

definition value_lines :: "iniValue \<Rightarrow> string list" where
  "value_lines v = filter (\<lambda>l. l \<noteq> []) (map trimSpace (iv_first v # iv_rest v))"

text \<open>The state of the loop: the sections so far, the name of the current one and its last key.\<close>

definition add_value :: "string \<Rightarrow> string \<Rightarrow> iniValue \<Rightarrow> iniDoc \<Rightarrow> iniDoc" where
  "add_value sec key v doc = map (\<lambda>(n, s). if n = sec then (n, s @ [(key, v)]) else (n, s)) doc"

definition continue_value :: "string \<Rightarrow> string \<Rightarrow> string \<Rightarrow> iniDoc \<Rightarrow> iniDoc" where
  "continue_value sec key line doc =
     map (\<lambda>(n, s). if n = sec then (n, map (\<lambda>(k, v). if k = key then (k, v\<lparr>iv_rest := iv_rest v @ [line]\<rparr>) else (k, v)) s) else (n, s)) doc"

fun first_sep :: "string \<Rightarrow> nat option" where
  "first_sep [] = None"
| "first_sep (c # r) = (if c = CHR ''='' \<or> c = CHR '':'' then Some 0 else map_option Suc (first_sep r))"

record iniState =
  is_doc :: iniDoc
  is_current :: "string option"
  is_lastKey :: string

definition section_line :: "nat \<Rightarrow> string \<Rightarrow> iniState \<Rightarrow> iniErr + iniState" where
  "section_line n trimmed st =
     (if \<not> hasSuffix trimmed '']'' then Inl (OpenSection n)
      else
        let name = trimSpace (take (length trimmed - 2) (drop 1 trimmed)) in
        if name = [] then Inl (EmptySection n)
        else if map_of (is_doc st) name \<noteq> None then Inl (DupSection n name)
        else Inr \<lparr>is_doc = is_doc st @ [(name, [])], is_current = Some name, is_lastKey = []\<rparr>)"

definition key_line :: "nat \<Rightarrow> string \<Rightarrow> nat \<Rightarrow> string \<Rightarrow> iniState \<Rightarrow> iniErr + iniState" where
  "key_line n trimmed sep sec st =
     (let key = trimSpace (take sep trimmed); v = \<lparr>iv_line = n, iv_first = trimSpace (drop (sep + 1) trimmed), iv_rest = []\<rparr> in
      if key = [] then Inl (EmptyParam n)
      else if map_of (the (map_of (is_doc st) sec)) key \<noteq> None then Inl (DupParam n key)
      else Inr (st\<lparr>is_doc := add_value sec key v (is_doc st), is_lastKey := key\<rparr>))"

definition ini_line :: "nat \<Rightarrow> string \<Rightarrow> iniState \<Rightarrow> iniErr + iniState" where
  "ini_line n raw st =
     (let line = trimRightChar (CHR 0x0D) raw; trimmed = trimSpace line in
      if trimmed = [] \<or> hasPrefix trimmed ''#'' \<or> hasPrefix trimmed '';'' then Inr st
      else if hasPrefix trimmed ''['' then section_line n trimmed st
      else case is_current st of
        None \<Rightarrow> Inl (BeforeSection n)
      | Some sec \<Rightarrow>
          let indented = (line \<noteq> [] \<and> (hd line = CHR '' '' \<or> hd line = CHR 0x09));
              sep = (case first_sep trimmed of None \<Rightarrow> 0 | Some i \<Rightarrow> i) in
          if \<not> indented \<and> sep > 0 then key_line n trimmed sep sec st
          else if \<not> indented \<or> is_lastKey st = [] then Inl (BadLine n)
          else Inr (st\<lparr>is_doc := continue_value sec (is_lastKey st) line (is_doc st)\<rparr>))"

fun ini_loop :: "nat \<Rightarrow> string list \<Rightarrow> iniState \<Rightarrow> iniErr + iniDoc" where
  "ini_loop n [] st = Inr (is_doc st)"
| "ini_loop n (raw # lines) st = (case ini_line n raw st of Inl e \<Rightarrow> Inl e | Inr st' \<Rightarrow> ini_loop (n + 1) lines st')"

definition parseIni :: "string \<Rightarrow> iniErr + iniDoc" where
  "parseIni src = ini_loop 1 (split_on (CHR 0x0A) src) \<lparr>is_doc = [], is_current = None, is_lastKey = []\<rparr>"

definition ini_text :: "iniSection \<Rightarrow> string \<Rightarrow> string" where
  "ini_text sec key = (case map_of sec key of None \<Rightarrow> [] | Some v \<Rightarrow> trimSpace (iv_first v))"

text \<open>A comma outside quotes separates; the quotes are dropped.\<close>

fun extras_items :: "string \<Rightarrow> bool \<Rightarrow> string \<Rightarrow> string list" where
  "extras_items cur q [] = [cur]"
| "extras_items cur q (c # r) =
     (if c = CHR 0x22 then extras_items cur (\<not> q) r
      else if c = CHR '','' \<and> \<not> q then cur # extras_items [] q r
      else extras_items (cur @ [c]) q r)"

definition splitExtrasLine :: "string \<Rightarrow> string list" where
  "splitExtrasLine line = filter (\<lambda>i. i \<noteq> []) (map trimSpace (extras_items [] False line))"

definition splitExtraItems :: "iniValue \<Rightarrow> string list" where
  "splitExtraItems v = concat (map splitExtrasLine (value_lines v))"

definition readSetupExtras :: "iniDoc \<Rightarrow> project \<Rightarrow> project" where
  "readSetupExtras doc p =
     (case map_of doc ''options.extras_require'' of
        None \<Rightarrow> p
      | Some sec \<Rightarrow> p\<lparr>pj_optional := map (\<lambda>(g, v). (g, splitExtraItems v)) sec\<rparr>)"

fun console_scripts :: "nat \<Rightarrow> string list \<Rightarrow> (string \<times> string) list \<Rightarrow> importErr + (string \<times> string) list" where
  "console_scripts line [] acc = Inr acc"
| "console_scripts line (item # items) acc =
     (case index_of (CHR ''='') item of
        Some (Suc i) \<Rightarrow>
          let name = trimSpace (take (Suc i) item); tgt = trimSpace (drop (i + 2) item) in
          if name = [] \<or> tgt = [] then Inl (BadConsoleScript line item)
          else console_scripts line items (AList.update name tgt acc)
      | _ \<Rightarrow> Inl (BadConsoleScript line item))"

fun entry_groups :: "iniSection \<Rightarrow> project \<Rightarrow> importErr + project" where
  "entry_groups [] p = Inr p"
| "entry_groups ((g, v) # r) p =
     (if g \<noteq> ''console_scripts'' then entry_groups r (p\<lparr>pj_notes := pj_notes p @ [GroupIgnored g]\<rparr>)
      else case console_scripts (iv_line v) (value_lines v) (pj_scripts p) of
        Inl e \<Rightarrow> Inl e
      | Inr s \<Rightarrow> entry_groups r (p\<lparr>pj_scripts := s\<rparr>))"

definition readSetupEntryPoints :: "iniDoc \<Rightarrow> project \<Rightarrow> importErr + project" where
  "readSetupEntryPoints doc p =
     (case map_of doc ''options.entry_points'' of None \<Rightarrow> Inr p | Some sec \<Rightarrow> entry_groups sec p)"

definition long_description :: "iniSection \<Rightarrow> project \<Rightarrow> project" where
  "long_description meta p =
     (let v = ini_text meta ''long_description'' in
      if hasPrefix v ''file:'' then p\<lparr>pj_readmeRef := trimSpace (trimPrefix v ''file:'')\<rparr>
      else if v \<noteq> [] then p\<lparr>pj_notes := pj_notes p @ [LongDescription]\<rparr>
      else p)"

definition read_options :: "iniDoc \<Rightarrow> project \<Rightarrow> project" where
  "read_options doc p =
     (case map_of doc ''options'' of
        None \<Rightarrow> p
      | Some options \<Rightarrow>
          let p1 = p\<lparr>pj_requiresPython := ini_text options ''python_requires'',
                pj_dependencies := (case map_of options ''install_requires'' of None \<Rightarrow> [] | Some v \<Rightarrow> value_lines v)\<rparr>
          in if hasPrefix (ini_text options ''packages'') ''find:'' then
               let w = (case map_of doc ''options.packages.find'' of None \<Rightarrow> [] | Some f \<Rightarrow> ini_text f ''where'')
               in p1\<lparr>pj_findWhere := (if w = [] then ''.'' else w)\<rparr>
             else p1)"

definition parseSetupCfg :: "string \<Rightarrow> importErr + project" where
  "parseSetupCfg src =
     (case parseIni src of
        Inl e \<Rightarrow> Inl (IniError e)
      | Inr doc \<Rightarrow>
          (case map_of doc ''metadata'' of
             None \<Rightarrow> Inl NoMetadata
           | Some meta \<Rightarrow>
               if ini_text meta ''name'' = [] then Inl NoProjectName
               else
                 let p = (new_project ''setup.cfg'')\<lparr>pj_name := ini_text meta ''name'', pj_version := ini_text meta ''version'',
                   pj_description := ini_text meta ''description''\<rparr>
                 in readSetupEntryPoints doc (readSetupExtras doc (read_options doc (long_description meta p)))))"

section \<open>The directory\<close>

record donorFs =
  df_stat :: "string \<Rightarrow> fileKind"
  df_read :: "string \<Rightarrow> string option"
  df_list :: "string \<Rightarrow> (string \<times> bool) list option"

definition fileExists :: "donorFs \<Rightarrow> string \<Rightarrow> bool" where
  "fileExists fs path \<longleftrightarrow> df_stat fs path = RegularFile"

definition isDir :: "donorFs \<Rightarrow> string \<Rightarrow> bool" where
  "isDir fs path \<longleftrightarrow> df_stat fs path = Directory"

definition skipDir :: "string \<Rightarrow> bool" where
  "skipDir name \<longleftrightarrow> List.member [''src'', ''tests'', ''test'', ''docs'', ''doc'', ''examples'', ''example'', ''scripts'',
     ''tools'', ''build'', ''dist'', ''venv'', ''.venv''] name \<or> hasPrefix name ''.''"

definition hasPythonPackage :: "donorFs \<Rightarrow> string \<Rightarrow> bool" where
  "hasPythonPackage fs dir =
     (case df_list fs dir of
        None \<Rightarrow> False
      | Some entries \<Rightarrow>
          list_ex (\<lambda>(name, d). d \<and> \<not> skipDir name \<and> fileExists fs (Join dir (name @ ''/__init__.py''))) entries)"

definition moduleNameFor :: "string \<Rightarrow> string" where
  "moduleNameFor d = replaceChar (CHR ''-'') (CHR ''_'') (normalizeDistName d)"

definition detectLayout :: "donorFs \<Rightarrow> string \<Rightarrow> project \<Rightarrow> project" where
  "detectLayout fs dir p =
     (let srcDir = Join dir ''src''; srcExists = isDir fs srcDir; rootModule = moduleNameFor (pj_name p) in
      if pj_findWhere p = ''src'' then
        (if srcExists then p\<lparr>pj_layout := LayoutSrcLayout\<rparr>
         else p\<lparr>pj_layout := LayoutUnknown, pj_notes := pj_notes p @ [NoSrcDir]\<rparr>)
      else if srcExists \<and> (rootModule = [] \<or> isDir fs (Join srcDir rootModule) \<or> hasPythonPackage fs srcDir)
      then p\<lparr>pj_layout := LayoutSrcLayout\<rparr>
      else if rootModule \<noteq> [] \<and> fileExists fs (Join dir (rootModule @ ''/__init__.py'')) then p\<lparr>pj_layout := LayoutFlat\<rparr>
      else if hasPythonPackage fs dir then p\<lparr>pj_layout := LayoutFlat\<rparr>
      else p\<lparr>pj_layout := LayoutUnknown, pj_notes := pj_notes p @ [NoPackageFound]\<rparr>)"

definition findDescriptionFile :: "donorFs \<Rightarrow> string \<Rightarrow> string \<Rightarrow> string" where
  "findDescriptionFile fs dir declared =
     (if declared \<noteq> [] \<and> fileExists fs (Join dir declared) then Join dir declared
      else case find (fileExists fs) (map (Join dir) [''README.md'', ''README.rst'', ''README.txt'']) of
        None \<Rightarrow> [] | Some c \<Rightarrow> c)"

definition read_metadata :: "donorFs \<Rightarrow> string \<Rightarrow> importErr + project" where
  "read_metadata fs dir =
     (if fileExists fs (Join dir ''pyproject.toml'') then
        (case df_read fs (Join dir ''pyproject.toml'') of
           None \<Rightarrow> Inl (FileUnreadable ''pyproject.toml'')
         | Some raw \<Rightarrow> map_sum id (\<lambda>p. if fileExists fs (Join dir ''setup.cfg'')
               then p\<lparr>pj_notes := pj_notes p @ [SetupCfgIgnored]\<rparr> else p) (ParsePyproject raw))
      else if fileExists fs (Join dir ''setup.cfg'') then
        (case df_read fs (Join dir ''setup.cfg'') of
           None \<Rightarrow> Inl (FileUnreadable ''setup.cfg'')
         | Some raw \<Rightarrow> parseSetupCfg raw)
      else if fileExists fs (Join dir ''setup.py'') then Inl OnlySetupPy
      else Inl NothingToImport)"

definition Inspect :: "donorFs \<Rightarrow> string \<Rightarrow> importErr + project" where
  "Inspect fs dir =
     (if trimSpace dir = [] then Inl NoDir
      else if df_stat fs dir \<in> {NotThere, StatError} then Inl DirUnavailable
      else if df_stat fs dir \<noteq> Directory then Inl NotDirectory
      else map_sum id (\<lambda>p0.
        let p1 = detectLayout fs dir (p0\<lparr>pj_packageRoot := Clean dir\<rparr>);
            p2 = p1\<lparr>pj_descriptionFile := findDescriptionFile fs dir (pj_readmeRef p1)\<rparr>
        in if pj_descriptionFile p2 = [] \<and> pj_readmeRef p2 \<noteq> []
           then p2\<lparr>pj_notes := pj_notes p2 @ [ReadmeMissing (pj_readmeRef p2)]\<rparr> else p2) (read_metadata fs dir))"

section \<open>Divergences\<close>

text \<open>Dependencies given as a table are lost without a note.\<close>

lemma dependencies_table_lost:
  "case ParsePyproject (''[project]'' @ [CHR 0x0A] @ ''name = '' @ [CHR 0x22] @ ''x'' @ [CHR 0x22, CHR 0x0A] @
       ''[project.dependencies]'' @ [CHR 0x0A] @ ''httpx = 1'' @ [CHR 0x0A]) of
     Inr p \<Rightarrow> pj_dependencies p = [] \<and> pj_notes p = [] | Inl e \<Rightarrow> False"
  by code_simp

end
