(* ===== verification/Import_Plan.thy ===== *)
theory Import_Plan
  imports Import_Project
begin

text \<open>
  The import plan (internal/importer/plan.go): which of the metadata of a donor project a plugin can use,
  what a person has to check (warnings) and what stands in the way (blockers). Their texts are constructors.
\<close>

section \<open>Plugin identifiers\<close>

definition pluginIDRe :: "string \<Rightarrow> bool" where
  "pluginIDRe = head_tail is_lower (\<lambda>c. is_lower c \<or> is_digit c \<or> c = CHR ''_'')"

definition id_chars :: "string \<Rightarrow> string" where
  "id_chars s = concat (map (\<lambda>c.
     if is_lower c \<or> is_digit c then [c]
     else if c \<in> {CHR ''-'', CHR ''_'', CHR ''.'', CHR '' '', CHR ''+''} then ''_'' else []) s)"

text \<open>\<open>strings.ReplaceAll\<close> of two underscores by one, and its repetition.\<close>

fun replace_double :: "string \<Rightarrow> string" where
  "replace_double (a # b # r) =
     (if a = CHR ''_'' \<and> b = CHR ''_'' then CHR ''_'' # replace_double r else a # replace_double (b # r))"
| "replace_double s = s"

lemma replace_double_le: "length (replace_double s) \<le> length s"
  by (induction s rule: replace_double.induct) auto

lemma replace_double_less [termination_simp]: "contains s ''__'' \<Longrightarrow> length (replace_double s) < length s"
proof (induction s rule: replace_double.induct)
  case (1 a b r)
  then show ?case using replace_double_le [of r] by (auto simp: hasPrefix_def)
qed (auto simp: hasPrefix_def)

function collapse :: "string \<Rightarrow> string" where
  "collapse s = (if contains s ''__'' then collapse (replace_double s) else s)"
  by pat_completeness auto
termination by (relation "measure length") (auto simp: replace_double_less)

declare collapse.simps [simp del]

definition sanitizePluginID :: "string \<Rightarrow> string" where
  "sanitizePluginID name =
     (let i = trimChars ''_'' (collapse (id_chars (toLower (trimSpace name)))) in
      if i = [] then [] else if \<not> is_lower (hd i) then ''p_'' @ i else i)"

definition pluginIDFor :: "project \<Rightarrow> string" where
  "pluginIDFor p =
     (let candidates = pj_name p # (if pj_packageRoot p \<noteq> [] then [Base (Clean (pj_packageRoot p))] else []) @ [''imported_plugin''] in
      case find pluginIDRe (map sanitizePluginID candidates) of None \<Rightarrow> ''imported_plugin'' | Some i \<Rightarrow> i)"

section \<open>The plan\<close>

record entryPoint =
  ep_name :: string
  ep_target :: string

datatype unresolved = DirectLink string | DependsOnMarker string | WithoutVersion | VersionRange string
datatype notSpec = HasExtras "string list" | HasMarker string | NotInPattern string

datatype planWarning = ReaderNote inote | Repeated string string | GroupsNotIncluded "string list" | GroupIncluded string nat
  | LockNeeded | SomeLikeCLI "string list" | RootRelative | PythonRange string | NoProjectVersion | NoReadme

datatype planBlocker = NoProject | NotParsed string reqErr | NotPinned string unresolved | NotRecorded string string notSpec
  | GroupMissing string | TargetForm string string | NoEntryPoints | AllLikeCLI "string list" | LayoutNotKnown

record importPlan =
  ip_pluginID :: string
  ip_requirements :: "requirement list"
  ip_unresolved :: "requirement list"
  ip_entryPoints :: "entryPoint list"
  ip_importPath :: string
  ip_warnings :: "planWarning list"
  ip_blockers :: "planBlocker list"
  ip_description :: string
  ip_descriptionFile :: string

definition empty_plan :: importPlan where
  "empty_plan = \<lparr>ip_pluginID = [], ip_requirements = [], ip_unresolved = [], ip_entryPoints = [], ip_importPath = [],
     ip_warnings = [], ip_blockers = [], ip_description = [], ip_descriptionFile = []\<rparr>"

definition warn :: "planWarning list \<Rightarrow> importPlan \<Rightarrow> importPlan" where
  "warn ws pl = pl\<lparr>ip_warnings := ip_warnings pl @ ws\<rparr>"

definition block :: "planBlocker list \<Rightarrow> importPlan \<Rightarrow> importPlan" where
  "block bs pl = pl\<lparr>ip_blockers := ip_blockers pl @ bs\<rparr>"

section \<open>Requirements\<close>

fun insert_key :: "string \<Rightarrow> string list \<Rightarrow> string list" where
  "insert_key k [] = [k]"
| "insert_key k (x # xs) = (if str_less x k then x # insert_key k xs else k # x # xs)"

definition sortedKeys :: "(string \<times> 'a) list \<Rightarrow> string list" where
  "sortedKeys m = foldr insert_key (nub (map fst m)) []"

text \<open>The key of an entry is the name of its package; an entry that does not parse is its own key.\<close>

definition requirement_key :: "string \<Rightarrow> string" where
  "requirement_key item = (case ParseRequirement item of Inl _ \<Rightarrow> item | Inr r \<Rightarrow> rq_name r)"

fun add_items :: "string \<Rightarrow> string list \<Rightarrow> string list \<Rightarrow> string list \<Rightarrow> importPlan \<Rightarrow>
    string list \<times> string list \<times> importPlan" where
  "add_items origin [] seen raw pl = (raw, seen, pl)"
| "add_items origin (i # is) seen raw pl =
     (let key = requirement_key i in
      if key \<noteq> [] \<and> List.member seen key then add_items origin is seen raw (warn [Repeated i origin] pl)
      else add_items origin is (key # seen) (raw @ [i]) pl)"

definition selectedRequirements :: "project \<Rightarrow> importPlan \<Rightarrow> string list \<times> importPlan" where
  "selectedRequirements p pl =
     (case add_items ''dependencies'' (pj_dependencies p) [] [] pl of
        (raw, seen, pl1) \<Rightarrow>
          if pj_optionalGroup p = [] then
            (raw, if sortedKeys (pj_optional p) \<noteq> [] then warn [GroupsNotIncluded (sortedKeys (pj_optional p))] pl1 else pl1)
          else case map_of (pj_optional p) (pj_optionalGroup p) of
            None \<Rightarrow> (raw, block [GroupMissing (pj_optionalGroup p)] pl1)
          | Some list \<Rightarrow>
              (case add_items (pj_optionalGroup p) list seen raw (warn [GroupIncluded (pj_optionalGroup p) (length list)] pl1) of
                 (raw2, seen2, pl2) \<Rightarrow> (raw2, pl2)))"

fun parse_all :: "string list \<Rightarrow> importPlan \<Rightarrow> importPlan" where
  "parse_all [] pl = pl"
| "parse_all (raw # rs) pl =
     (case ParseRequirement raw of
        Inl e \<Rightarrow> parse_all rs (block [NotParsed raw e] (pl\<lparr>ip_requirements := ip_requirements pl @ [blank_req raw]\<rparr>))
      | Inr r \<Rightarrow> parse_all rs (pl\<lparr>ip_requirements := ip_requirements pl @ [r]\<rparr>))"

definition unresolvedReason :: "requirement \<Rightarrow> unresolved" where
  "unresolvedReason r =
     (if rq_url r \<noteq> [] then DirectLink (rq_url r)
      else if rq_marker r \<noteq> [] then DependsOnMarker (rq_marker r)
      else if rq_constraint r = [] then WithoutVersion
      else VersionRange (rq_constraint r))"

definition manifestSpecReason :: "requirement \<Rightarrow> notSpec" where
  "manifestSpecReason r =
     (if rq_extras r \<noteq> [] then HasExtras (rq_extras r)
      else if rq_marker r \<noteq> [] then HasMarker (rq_marker r)
      else NotInPattern (rq_name r @ ''=='' @ rq_version r))"

fun check_all :: "requirement list \<Rightarrow> importPlan \<Rightarrow> importPlan" where
  "check_all [] pl = pl"
| "check_all (r # rs) pl =
     (if \<not> rq_pinned r then
        check_all rs (block [NotPinned (rq_name r) (unresolvedReason r)] (pl\<lparr>ip_unresolved := ip_unresolved pl @ [r]\<rparr>))
      else if ManifestSpec r = None then
        check_all rs (block [NotRecorded (rq_name r) (rq_version r) (manifestSpecReason r)] pl)
      else check_all rs pl)"

section \<open>Entry points and the path of the modules\<close>

definition word_char :: "char \<Rightarrow> bool" where
  "word_char c \<longleftrightarrow> is_alnum c \<or> c = CHR ''_''"

definition word_head :: "char \<Rightarrow> bool" where
  "word_head c \<longleftrightarrow> is_lower c \<or> is_upper c \<or> c = CHR ''_''"

definition targetRe :: "string \<Rightarrow> bool" where
  "targetRe s =
     (case index_of (CHR '':'') s of
        None \<Rightarrow> False
      | Some i \<Rightarrow> list_all (head_tail word_head word_char) (split_on (CHR ''.'') (take i s)) \<and>
          head_tail word_head (\<lambda>c. word_char c \<or> c = CHR ''.'') (drop (i + 1) s))"

definition cliLikeTargets :: "string list" where
  "cliLikeTargets = [''cli'', ''main_cli'', ''console_main'', ''console'', ''__main__'', ''serve'', ''serve_forever'',
     ''run_server'', ''start_server'', ''start_service'', ''launcher'', ''launch'', ''main_app'', ''application_cli'']"

text \<open>\<open>strings.Cut\<close>.\<close>

definition cut_colon :: "string \<Rightarrow> string \<times> string" where
  "cut_colon s = (case index_of (CHR '':'') s of None \<Rightarrow> (s, []) | Some i \<Rightarrow> (take i s, drop (i + 1) s))"

definition looksLikeCLI :: "entryPoint \<Rightarrow> bool" where
  "looksLikeCLI ep =
     (case cut_colon (ep_target ep) of (m, f) \<Rightarrow>
        List.member cliLikeTargets (toLower f) \<or>
        length (split_on (CHR ''.'') m) > 1 \<and> List.member cliLikeTargets (toLower (last (split_on (CHR ''.'') m))))"

fun usable_points :: "(string \<times> string) list \<Rightarrow> string list \<Rightarrow> importPlan \<Rightarrow> entryPoint list \<times> importPlan" where
  "usable_points scripts [] pl = ([], pl)"
| "usable_points scripts (name # names) pl =
     (let tgt = trimSpace (text_or_empty (map_of scripts name)) in
      if \<not> targetRe tgt then usable_points scripts names (block [TargetForm name tgt] pl)
      else apfst ((#) \<lparr>ep_name = name, ep_target = tgt\<rparr>) (usable_points scripts names pl))"

definition entryPointsOf :: "project \<Rightarrow> importPlan \<Rightarrow> entryPoint list \<times> importPlan" where
  "entryPointsOf p pl =
     (let names = sortedKeys (pj_scripts p) in
      case usable_points (pj_scripts p) names pl of
        (usable, pl1) \<Rightarrow>
          let cliLike = filter looksLikeCLI usable; targetList = map ep_target cliLike in
          (usable,
           if names = [] then block [NoEntryPoints] pl1
           else if usable = [] then pl1
           else if length cliLike = length usable then block [AllLikeCLI targetList] pl1
           else if cliLike \<noteq> [] then warn [SomeLikeCLI targetList] pl1
           else pl1))"

definition importPathOf :: "project \<Rightarrow> importPlan \<Rightarrow> string \<times> importPlan" where
  "importPathOf p pl =
     (case pj_layout p of
        LayoutSrcLayout \<Rightarrow>
          if pj_packageRoot p = [] then (''src'', warn [RootRelative] pl) else (Join (pj_packageRoot p) ''src'', pl)
      | LayoutFlat \<Rightarrow> (pj_packageRoot p, pl)
      | LayoutUnknown \<Rightarrow> ([], block [LayoutNotKnown] pl))"

section \<open>Plan\<close>

definition requirement_part :: "project \<Rightarrow> importPlan \<Rightarrow> importPlan" where
  "requirement_part p pl =
     (case selectedRequirements p pl of
        (raw, pl1) \<Rightarrow>
          let pl2 = parse_all raw pl1; pl3 = check_all (ip_requirements pl2) pl2 in
          if ip_requirements pl3 \<noteq> [] then warn [LockNeeded] pl3 else pl3)"

definition module_part :: "project \<Rightarrow> importPlan \<Rightarrow> importPlan" where
  "module_part p pl =
     (case entryPointsOf p pl of (eps, pl1) \<Rightarrow>
      case importPathOf p (pl1\<lparr>ip_entryPoints := eps\<rparr>) of (path, pl2) \<Rightarrow> pl2\<lparr>ip_importPath := path\<rparr>)"

definition final_warnings :: "project \<Rightarrow> planWarning list" where
  "final_warnings p =
     (if pj_requiresPython p \<noteq> [] then [PythonRange (pj_requiresPython p)] else []) @
     (if pj_version p = [] then [NoProjectVersion] else []) @
     (if pj_descriptionFile p = [] then [NoReadme] else [])"

definition Plan :: "project option \<Rightarrow> importPlan" where
  "Plan pj =
     (case pj of
        None \<Rightarrow> block [NoProject] empty_plan
      | Some p \<Rightarrow>
          warn (final_warnings p) (module_part p (requirement_part p
            (warn (map ReaderNote (pj_notes p)) (empty_plan\<lparr>ip_pluginID := pluginIDFor p,
               ip_description := pj_description p, ip_descriptionFile := pj_descriptionFile p\<rparr>)))))"

section \<open>Lemmas: identifiers\<close>

lemma id_chars_word: "list_all (\<lambda>c. is_lower c \<or> is_digit c \<or> c = CHR ''_'') (id_chars s)"
  by (auto simp: id_chars_def list_all_iff)

lemma set_replace_double: "set (replace_double s) \<subseteq> set s"
  by (induction s rule: replace_double.induct) auto

lemma set_collapse: "set (collapse s) \<subseteq> set s"
proof (induction s rule: collapse.induct)
  case (1 s)
  then show ?case using set_replace_double [of s] by (subst collapse.simps) auto
qed

lemma collapse_single: "\<not> contains (collapse s) ''__''"
proof (induction s rule: collapse.induct)
  case (1 s)
  then show ?case by (subst collapse.simps) simp
qed

lemma collapse_id: "\<not> contains s ''__'' \<Longrightarrow> collapse s = s"
  by (subst collapse.simps) simp

lemma contains_append: "contains s sub \<Longrightarrow> contains (a @ s) sub"
  by (induction a) auto

lemma contains_Nil [simp]: "contains s []"
  by (cases s) auto

lemma contains_prefix: "contains s sub \<Longrightarrow> contains (s @ b) sub"
proof (induction s)
  case (Cons a s)
  then show ?case by (auto simp: hasPrefix_iff) (metis append_Cons append_assoc)
qed simp

lemma trimChars_split: "\<exists>a b. s = a @ trimChars cs s @ b \<and> set a \<subseteq> set cs \<and> set b \<subseteq> set cs"
proof -
  let ?P = "\<lambda>c. c \<in> set cs"
  have 1: "s = takeWhile ?P s @ dropWhile ?P s" by simp
  let ?t = "dropWhile ?P s"
  have "rev ?t = takeWhile ?P (rev ?t) @ dropWhile ?P (rev ?t)" by simp
  then have 2: "?t = trimChars cs s @ rev (takeWhile ?P (rev ?t))"
    by (metis rev_append rev_rev_ident trimChars_def)
  show ?thesis
    by (rule exI [of _ "takeWhile ?P s"], rule exI [of _ "rev (takeWhile ?P (rev ?t))"])
      (use 1 2 in \<open>auto dest: set_takeWhileD\<close>)
qed

lemma trimChars_ends: "trimChars cs s \<noteq> [] \<Longrightarrow> hd (trimChars cs s) \<notin> set cs \<and> last (trimChars cs s) \<notin> set cs"
proof -
  assume ne: "trimChars cs s \<noteq> []"
  let ?P = "\<lambda>c. c \<in> set cs" and ?t = "dropWhile (\<lambda>c. c \<in> set cs) s"
  have r: "dropWhile ?P (rev ?t) \<noteq> []" using ne by (simp add: trimChars_def)
  have l: "last (trimChars cs s) \<notin> set cs"
    using hd_dropWhile [OF r] r by (simp add: trimChars_def last_rev)
  have "rev ?t = takeWhile ?P (rev ?t) @ dropWhile ?P (rev ?t)" by simp
  then have t: "?t = trimChars cs s @ rev (takeWhile ?P (rev ?t))"
    by (metis rev_append rev_rev_ident trimChars_def)
  then have "hd ?t = hd (trimChars cs s)" "?t \<noteq> []" using ne by (metis hd_append, metis Nil_is_append_conv)
  with l show ?thesis using hd_dropWhile [of ?P s] by simp
qed

lemma dropWhile_hd: "s = [] \<or> \<not> P (hd s) \<Longrightarrow> dropWhile P s = s"
  by (cases s) auto

lemma trimChars_id: "s = [] \<or> hd s \<notin> set cs \<and> last s \<notin> set cs \<Longrightarrow> trimChars cs s = s"
proof -
  assume a: "s = [] \<or> hd s \<notin> set cs \<and> last s \<notin> set cs"
  then have "dropWhile (\<lambda>c. c \<in> set cs) s = s" "dropWhile (\<lambda>c. c \<in> set cs) (rev s) = rev s"
    by (auto intro!: dropWhile_hd simp: hd_rev)
  then show ?thesis by (simp add: trimChars_def)
qed

definition id_word :: "string \<Rightarrow> bool" where
  "id_word s \<longleftrightarrow> list_all (\<lambda>c. is_lower c \<or> is_digit c \<or> c = CHR ''_'') s"

lemma id_word_same: "id_word s \<Longrightarrow> toLower s = s \<and> id_chars s = s \<and> plain s"
  by (induction s) (auto simp: id_word_def toLower_def id_chars_def lower_char_def plain_def is_lower_def is_digit_def)

lemma no_double_tail: "\<not> contains (c # s) ''__'' \<longleftrightarrow> \<not> (c = CHR ''_'' \<and> s \<noteq> [] \<and> hd s = CHR ''_'') \<and> \<not> contains s ''__''"
  by (cases s) (auto simp: hasPrefix_def)

text \<open>What every identifier of a plan looks like.\<close>

definition id_shape :: "string \<Rightarrow> bool" where
  "id_shape s \<longleftrightarrow> id_word s \<and> \<not> contains s ''__'' \<and> s \<noteq> [] \<and> is_lower (hd s) \<and> last s \<noteq> CHR ''_''"

lemma sanitize_shape: "sanitizePluginID s = [] \<or> id_shape (sanitizePluginID s)"
proof -
  let ?c = "collapse (id_chars (toLower (trimSpace s)))" and ?i = "trimChars ''_'' (collapse (id_chars (toLower (trimSpace s))))"
  obtain a b where sp: "?c = a @ ?i @ b" using trimChars_split [of ?c "''_''"] by auto
  have "id_word ?c" using set_collapse [of "id_chars (toLower (trimSpace s))"] id_chars_word [of "toLower (trimSpace s)"]
    by (auto simp: id_word_def list_all_iff)
  then have w: "id_word ?i" by (subst (asm) sp) (simp add: id_word_def)
  have "\<not> contains (a @ ?i @ b) ''__''" using collapse_single [of "id_chars (toLower (trimSpace s))"] by (simp add: sp [symmetric])
  then have d: "\<not> contains ?i ''__''" using contains_append contains_prefix by blast
  show ?thesis
  proof (cases "?i = []")
    case False
    then have e: "hd ?i \<noteq> CHR ''_''" "last ?i \<noteq> CHR ''_''" using trimChars_ends [of "''_''" ?c] by auto
    have p: "id_shape (''p_'' @ ?i)" if "\<not> is_lower (hd ?i)"
      using w d e False by (auto simp: id_shape_def id_word_def is_lower_def no_double_tail simp del: contains.simps)
    show ?thesis using w d e False p by (auto simp: sanitizePluginID_def Let_def id_shape_def)
  qed (simp add: sanitizePluginID_def)
qed

lemma shape_id: "id_shape s \<Longrightarrow> sanitizePluginID s = s"
proof -
  assume a: "id_shape s"
  then have "trimChars ''_'' s = s" by (intro trimChars_id) (auto simp: id_shape_def is_lower_def)
  with a id_word_same [of s] show ?thesis by (auto simp: sanitizePluginID_def id_shape_def collapse_id)
qed

lemma shape_matches: "id_shape s \<Longrightarrow> pluginIDRe s"
  by (cases s) (auto simp: id_shape_def id_word_def pluginIDRe_def head_tail_def)

lemma fallback_shape: "id_shape ''imported_plugin''"
  by code_simp

lemma sanitize_matches: "pluginIDRe (sanitizePluginID s) \<Longrightarrow> id_shape (sanitizePluginID s)"
  using sanitize_shape [of s] by (auto simp: pluginIDRe_def head_tail_def)

lemma pluginIDFor_shape: "id_shape (pluginIDFor p)"
  by (auto simp: pluginIDFor_def Let_def fallback_shape sanitize_matches)

section \<open>Lemmas: the plan\<close>

text \<open>The parts of the plan as equations: what each adds to the lists.\<close>

definition parsed :: "string \<Rightarrow> requirement" where
  "parsed raw = (case ParseRequirement raw of Inl _ \<Rightarrow> blank_req raw | Inr r \<Rightarrow> r)"

definition parse_blockers :: "string \<Rightarrow> planBlocker list" where
  "parse_blockers raw = (case ParseRequirement raw of Inl e \<Rightarrow> [NotParsed raw e] | Inr r \<Rightarrow> [])"

definition requirement_blockers :: "requirement \<Rightarrow> planBlocker list" where
  "requirement_blockers r =
     (if \<not> rq_pinned r then [NotPinned (rq_name r) (unresolvedReason r)]
      else if ManifestSpec r = None then [NotRecorded (rq_name r) (rq_version r) (manifestSpecReason r)] else [])"

lemma no_requirement_blockers: "requirement_blockers r = [] \<longleftrightarrow> rq_pinned r \<and> ManifestSpec r \<noteq> None"
  by (auto simp: requirement_blockers_def)

lemma applyVersion_raw: "applyVersion req = Inr r \<Longrightarrow> rq_raw r = rq_raw req"
  by (auto simp: applyVersion_def split: if_splits sum.splits)

lemma parsed_raw: "rq_raw (parsed raw) = raw"
proof (cases "ParseRequirement raw")
  case (Inr r)
  then have "rq_raw r = raw"
    by (auto simp: ParseRequirement_def blank_req_def Let_def dest!: applyVersion_raw split: if_splits sum.splits option.splits)
  with Inr show ?thesis by (simp add: parsed_def)
qed (simp add: parsed_def blank_req_def)

lemma parse_all_eq: "parse_all rs pl = pl\<lparr>ip_requirements := ip_requirements pl @ map parsed rs,
    ip_blockers := ip_blockers pl @ concat (map parse_blockers rs)\<rparr>"
  by (induction rs arbitrary: pl) (auto simp: parsed_def parse_blockers_def block_def split: sum.splits)

lemma check_all_eq: "check_all rs pl = pl\<lparr>ip_unresolved := ip_unresolved pl @ filter (\<lambda>r. \<not> rq_pinned r) rs,
    ip_blockers := ip_blockers pl @ concat (map requirement_blockers rs)\<rparr>"
  by (induction rs arbitrary: pl) (auto simp: requirement_blockers_def block_def)

lemma add_items_facts:
  assumes "add_items origin is seen raw pl = (raw', seen', pl')"
  shows "set raw \<union> set is \<subseteq> set raw' \<union> {i. Repeated i origin \<in> set (ip_warnings pl')} \<and> set raw \<subseteq> set raw' \<and>
    (\<exists>ws. pl' = warn ws pl)"
  using assms
proof (induction origin "is" seen raw pl rule: add_items.induct)
  case (1 origin seen raw pl)
  then show ?case by (auto simp: warn_def intro: exI [of _ "[]"])
next
  case (2 origin i "is" seen raw pl)
  show ?case
  proof (cases "requirement_key i \<noteq> [] \<and> List.member seen (requirement_key i)")
    case True
    with 2(3) have e: "add_items origin is seen raw (warn [Repeated i origin] pl) = (raw', seen', pl')" by (simp add: Let_def)
    from 2(1) [OF refl True e] show ?thesis by (auto simp: warn_def)
  next
    case False
    with 2(3) have e: "add_items origin is (requirement_key i # seen) (raw @ [i]) pl = (raw', seen', pl')"
      by (auto simp: Let_def)
    from 2(2) [OF refl False e] show ?thesis by auto
  qed
qed

lemma warn_fields [simp]:
  "ip_requirements (warn ws pl) = ip_requirements pl" "ip_blockers (warn ws pl) = ip_blockers pl"
  "ip_warnings (warn ws pl) = ip_warnings pl @ ws" "ip_unresolved (warn ws pl) = ip_unresolved pl"
  "ip_pluginID (warn ws pl) = ip_pluginID pl" "ip_entryPoints (warn ws pl) = ip_entryPoints pl"
  by (simp_all add: warn_def)

lemma block_fields [simp]:
  "ip_requirements (block bs pl) = ip_requirements pl" "ip_blockers (block bs pl) = ip_blockers pl @ bs"
  "ip_warnings (block bs pl) = ip_warnings pl" "ip_unresolved (block bs pl) = ip_unresolved pl"
  "ip_pluginID (block bs pl) = ip_pluginID pl" "ip_entryPoints (block bs pl) = ip_entryPoints pl"
  by (simp_all add: block_def)

definition keeps :: "importPlan \<Rightarrow> importPlan \<Rightarrow> bool" where
  "keeps pl pl' \<longleftrightarrow> set (ip_warnings pl) \<subseteq> set (ip_warnings pl') \<and> set (ip_blockers pl) \<subseteq> set (ip_blockers pl') \<and>
     ip_requirements pl' = ip_requirements pl \<and> ip_unresolved pl' = ip_unresolved pl \<and> ip_pluginID pl' = ip_pluginID pl"

lemma keeps_refl [simp]: "keeps pl pl" "keeps pl (warn ws pl)" "keeps pl (block bs pl)"
  by (auto simp: keeps_def)

lemma keeps_trans: "keeps a b \<Longrightarrow> keeps b c \<Longrightarrow> keeps a c"
  by (auto simp: keeps_def)

lemma selected_facts:
  assumes "selectedRequirements p pl = (raw, pl')"
  shows "set (pj_dependencies p) \<subseteq> set raw \<union> {i. Repeated i ''dependencies'' \<in> set (ip_warnings pl')} \<and> keeps pl pl'"
proof -
  obtain raw1 seen1 pl1 where a: "add_items ''dependencies'' (pj_dependencies p) [] [] pl = (raw1, seen1, pl1)"
    by (cases "add_items ''dependencies'' (pj_dependencies p) [] [] pl")
  note f = add_items_facts [OF a]
  then have k: "keeps pl pl1" by auto
  have "set raw1 \<subseteq> set raw \<and> keeps pl1 pl'"
  proof (cases "map_of (pj_optional p) (pj_optionalGroup p)")
    case (Some l)
    then show ?thesis using assms a by (auto simp: selectedRequirements_def keeps_def split: if_splits prod.splits dest!: add_items_facts)
  qed (use assms a in \<open>auto simp: selectedRequirements_def split: if_splits\<close>)
  with f k show ?thesis by (auto simp: keeps_def intro: keeps_trans)
qed

lemma requirement_part_facts:
  fixes p :: project and pl :: importPlan
  assumes "ip_requirements pl = []" and "ip_unresolved pl = []"
  defines "pl' \<equiv> requirement_part p pl"
  shows "set (pj_dependencies p) \<subseteq> set (map rq_raw (ip_requirements pl')) \<union> {i. Repeated i ''dependencies'' \<in> set (ip_warnings pl')}"
    and "ip_blockers pl' = [] \<Longrightarrow> (\<forall>r \<in> set (ip_requirements pl'). ManifestSpec r \<noteq> None) \<and> ip_unresolved pl' = []"
    and "ip_pluginID pl' = ip_pluginID pl"
proof -
  obtain raw pl1 where s: "selectedRequirements p pl = (raw, pl1)" by (cases "selectedRequirements p pl")
  note f = selected_facts [OF s]
  have q: "ip_requirements pl' = map parsed raw" "ip_warnings pl' = ip_warnings pl1 @ (if raw \<noteq> [] then [LockNeeded] else [])"
    "ip_blockers pl' = ip_blockers pl1 @ concat (map parse_blockers raw) @ concat (map requirement_blockers (map parsed raw))"
    "ip_unresolved pl' = filter (\<lambda>r. \<not> rq_pinned r) (map parsed raw)" "ip_pluginID pl' = ip_pluginID pl"
    using f assms by (auto simp: requirement_part_def s Let_def parse_all_eq check_all_eq keeps_def)
  show "set (pj_dependencies p) \<subseteq> set (map rq_raw (ip_requirements pl')) \<union> {i. Repeated i ''dependencies'' \<in> set (ip_warnings pl')}"
    using f q by (auto simp: parsed_raw o_def)
  show "ip_blockers pl' = [] \<Longrightarrow> (\<forall>r \<in> set (ip_requirements pl'). ManifestSpec r \<noteq> None) \<and> ip_unresolved pl' = []"
    using q by (simp add: no_requirement_blockers filter_empty_conv)
  show "ip_pluginID pl' = ip_pluginID pl" by (rule q)
qed

lemma usable_points_facts:
  "usable_points scripts names pl = (usable, pl1) \<Longrightarrow>
     (\<exists>bs. pl1 = block bs pl \<and> (bs = [] \<longrightarrow> length usable = length names)) \<and> (\<forall>ep \<in> set usable. targetRe (ep_target ep))"
proof (induction scripts names pl arbitrary: usable rule: usable_points.induct)
  case (1 scripts pl)
  then show ?case by (auto simp: block_def intro: exI [of _ "[]"])
next
  case (2 scripts name names pl)
  let ?t = "trimSpace (text_or_empty (map_of scripts name))"
  show ?case
  proof (cases "targetRe ?t")
    case True
    with 2(3) obtain us where e: "usable_points scripts names pl = (us, pl1)" "usable = \<lparr>ep_name = name, ep_target = ?t\<rparr> # us"
      by (cases "usable_points scripts names pl") (auto simp: Let_def)
    from 2(2) [OF refl _ e(1)] True e(2) show ?thesis by auto
  next
    case False
    with 2(3) have "usable_points scripts names (block [TargetForm name ?t] pl) = (usable, pl1)" by (simp add: Let_def)
    from 2(1) [OF refl False this] show ?thesis by (auto simp: block_def)
  qed
qed

lemma filter_shorter: "length (filter P xs) \<noteq> length xs \<Longrightarrow> \<exists>x \<in> set xs. \<not> P x"
  by (metis filter_True)

lemma entryPointsOf_facts:
  assumes "entryPointsOf p pl = (us, pl')"
  shows "keeps pl pl' \<and> (ip_blockers pl' = [] \<longrightarrow> (\<exists>ep \<in> set us. targetRe (ep_target ep) \<and> \<not> looksLikeCLI ep))"
proof -
  obtain vs pl1 where u: "usable_points (pj_scripts p) (sortedKeys (pj_scripts p)) pl = (vs, pl1)"
    by (cases "usable_points (pj_scripts p) (sortedKeys (pj_scripts p)) pl")
  have v: "vs = us" using assms by (simp add: entryPointsOf_def u Let_def)
  from usable_points_facts [OF u] v obtain bs where b: "pl1 = block bs pl" "bs = [] \<Longrightarrow> length us = length (sortedKeys (pj_scripts p))"
    and t: "\<forall>ep \<in> set us. targetRe (ep_target ep)" by blast
  have k: "keeps pl pl'" using assms b by (auto simp: entryPointsOf_def u Let_def keeps_def split: if_splits)
  have "ip_blockers pl' = [] \<Longrightarrow> bs = [] \<and> sortedKeys (pj_scripts p) \<noteq> [] \<and> (us = [] \<or> length (filter looksLikeCLI us) \<noteq> length us)"
    using assms [symmetric] b(1) v by (auto simp: entryPointsOf_def u Let_def split: if_splits)
  with b(2) have "ip_blockers pl' = [] \<Longrightarrow> length (filter looksLikeCLI us) \<noteq> length us" by auto
  with k t show ?thesis using filter_shorter [of looksLikeCLI us] by blast
qed

lemma importPathOf_facts:
  "importPathOf p pl = (path, pl') \<Longrightarrow>
     keeps pl pl' \<and> ip_entryPoints pl' = ip_entryPoints pl \<and> (ip_blockers pl' = [] \<longrightarrow> pj_layout p \<noteq> LayoutUnknown)"
  by (auto simp: importPathOf_def split: layout.splits if_splits)

lemma module_part_facts:
  "keeps pl (module_part p pl) \<and> (ip_blockers (module_part p pl) = [] \<longrightarrow> pj_layout p \<noteq> LayoutUnknown \<and>
     (\<exists>ep \<in> set (ip_entryPoints (module_part p pl)). targetRe (ep_target ep) \<and> \<not> looksLikeCLI ep))"
proof -
  obtain us pl1 where e: "entryPointsOf p pl = (us, pl1)" by (cases "entryPointsOf p pl")
  obtain path pl2 where i: "importPathOf p (pl1\<lparr>ip_entryPoints := us\<rparr>) = (path, pl2)"
    by (cases "importPathOf p (pl1\<lparr>ip_entryPoints := us\<rparr>)")
  show ?thesis using entryPointsOf_facts [OF e] importPathOf_facts [OF i]
    by (auto simp: module_part_def e i keeps_def)
qed

lemma Plan_parts:
  obtains pl0 where "ip_requirements pl0 = []" "ip_unresolved pl0 = []" "ip_pluginID pl0 = pluginIDFor p"
    "Plan (Some p) = warn (final_warnings p) (module_part p (requirement_part p pl0))"
  by (rule that [of "warn (map ReaderNote (pj_notes p)) (empty_plan\<lparr>ip_pluginID := pluginIDFor p,
      ip_description := pj_description p, ip_descriptionFile := pj_descriptionFile p\<rparr>)"]) (simp_all add: empty_plan_def Plan_def)

section \<open>Properties\<close>


text \<open>
  C40. Every identifier that is made from foreign text is one of a plugin. \<open>sanitizePluginID\<close> gives the empty
  text or a text that the pattern of plugin identifiers accepts, without two underscores in a row, and it
  changes nothing in its own result; the plan always has such an identifier.
\<close>

theorem plugin_id_sanitized:
  "(sanitizePluginID s = [] \<or> pluginIDRe (sanitizePluginID s) \<and> id_shape (sanitizePluginID s)) \<and>
   sanitizePluginID (sanitizePluginID s) = sanitizePluginID s \<and>
   pluginIDRe (ip_pluginID (Plan (Some p)))"
proof -
  have n: "sanitizePluginID [] = []" by code_simp
  obtain pl0 where "ip_requirements pl0 = []" "ip_unresolved pl0 = []" "ip_pluginID pl0 = pluginIDFor p"
    and e: "Plan (Some p) = warn (final_warnings p) (module_part p (requirement_part p pl0))" by (rule Plan_parts)
  then have "ip_pluginID (Plan (Some p)) = pluginIDFor p"
    using requirement_part_facts(3) [of pl0 p] module_part_facts [of "requirement_part p pl0" p] by (simp add: e keeps_def)
  then show ?thesis using sanitize_shape [of s] shape_id [of "sanitizePluginID s"] shape_matches pluginIDFor_shape [of p] n by auto
qed

definition demo_project :: project where
  "demo_project = (new_project ''pyproject.toml'')\<lparr>pj_name := ''demo'', pj_version := ''1.0'',
     pj_dependencies := [''a==1.0''], pj_scripts := [(''d'', ''d:run'')],
     pj_packageRoot := ''/p'', pj_layout := LayoutFlat, pj_descriptionFile := ''/p/README.md''\<rparr>"


end
