(* ===== verification/Import_Generate.thy ===== *)
theory Import_Generate
  imports Import_Plan Schema_Check
begin

text \<open>
  The generation of a plugin directory from an import plan (internal/importer/generate.go, genmanifest.go,
  \<open>renderFiles\<close> of genshell.go). The text of plugin.yaml is represented by the fields it writes and the texts
  of main.py, the tests and the README by what they are rendered from; requirements.lock is the text. The
  file system is the parameter \<open>destWorld\<close>, the decoding of a plain YAML scalar the parameter \<open>yaml\<close>.
\<close>

section \<open>Options, result, skeleton\<close>

record generateOptions =
  go_pluginID :: string
  go_description :: string

datatype genWarning = FromPlan planWarning | DirectoryName string string | DonorDescription | DescriptionCut
datatype genBlocker = OfPlan planBlocker | DepsNotPinned "string list" | NoDonorRoot | RelativeDonorRoot string
  | NoDonorEntry | EntryNotPicked | DonorNotCalled string | DescriptionMissing

record genResult =
  rs_dir :: string
  rs_pluginID :: string
  rs_files :: "string list"
  rs_warnings :: "genWarning list"
  rs_blockers :: "genBlocker list"

record skeleton =
  sk_id :: string
  sk_description :: string
  sk_descFromDonor :: bool
  sk_donorReadme :: string
  sk_specs :: "string list"
  sk_donorRoot :: string
  sk_donorModule :: string
  sk_donorAttr :: string
  sk_donorEntry :: string

definition empty_result :: genResult where
  "empty_result = \<lparr>rs_dir = [], rs_pluginID = [], rs_files = [], rs_warnings = [], rs_blockers = []\<rparr>"

definition new_skeleton :: "string \<Rightarrow> string \<Rightarrow> skeleton" where
  "new_skeleton i readme = \<lparr>sk_id = i, sk_description = [], sk_descFromDonor = False, sk_donorReadme = readme, sk_specs = [],
     sk_donorRoot = [], sk_donorModule = [], sk_donorAttr = [], sk_donorEntry = []\<rparr>"

definition gwarn :: "genWarning list \<Rightarrow> genResult \<Rightarrow> genResult" where
  "gwarn ws res = res\<lparr>rs_warnings := rs_warnings res @ ws\<rparr>"

definition gblock :: "genBlocker list \<Rightarrow> genResult \<Rightarrow> genResult" where
  "gblock bs res = res\<lparr>rs_blockers := rs_blockers res @ bs\<rparr>"

section \<open>What is written to the manifest\<close>

definition unnamed :: string where
  "unnamed = ''('' @ [CHR 0xD0, CHR 0xB7, CHR 0xD0, CHR 0xB0, CHR 0xD0, CHR 0xB2, CHR 0xD0, CHR 0xB8, CHR 0xD1, CHR 0x81, CHR
     0xD0, CHR 0xB8, CHR 0xD0, CHR 0xBC, CHR 0xD0, CHR 0xBE, CHR 0xD1, CHR 0x81, CHR 0xD1, CHR 0x82, CHR 0xD1, CHR
     0x8C] @ '' '' @ [CHR 0xD0, CHR 0xB1, CHR 0xD0, CHR 0xB5, CHR 0xD0, CHR 0xB7] @ '' '' @ [CHR 0xD0, CHR 0xB8, CHR
     0xD0, CHR 0xBC, CHR 0xD0, CHR 0xB5, CHR 0xD0, CHR 0xBD, CHR 0xD0, CHR 0xB8] @ '')''"

definition requirementLabel :: "requirement \<Rightarrow> string" where
  "requirementLabel r = (if rq_name r \<noteq> [] then rq_name r else if trimSpace (rq_raw r) \<noteq> [] then rq_raw r else unnamed)"

fun add_specs :: "requirement list \<Rightarrow> string list \<times> string list \<Rightarrow> string list \<times> string list" where
  "add_specs [] acc = acc"
| "add_specs (r # rs) (specs, notWritable) =
     (case ManifestSpec r of
        Some spec \<Rightarrow> add_specs rs (if List.member specs spec then specs else specs @ [spec], notWritable)
      | None \<Rightarrow> add_specs rs (specs, if List.member notWritable (requirementLabel r) then notWritable
                                  else notWritable @ [requirementLabel r]))"

definition manifestSpecs :: "importPlan \<Rightarrow> string list \<times> string list" where
  "manifestSpecs plan = add_specs (ip_unresolved plan) (add_specs (ip_requirements plan) ([], []))"

definition decideRequirements :: "importPlan \<Rightarrow> skeleton \<times> genResult \<Rightarrow> skeleton \<times> genResult" where
  "decideRequirements plan = (\<lambda>(skel, res).
     case manifestSpecs plan of (specs, notWritable) \<Rightarrow>
       if ip_requirements plan = [] \<and> ip_unresolved plan = [] then (skel, res)
       else if notWritable = [] then (skel\<lparr>sk_specs := specs\<rparr>, res)
       else (skel, gblock [DepsNotPinned notWritable] res))"

definition pickEntryPoint :: "entryPoint list \<Rightarrow> entryPoint option" where
  "pickEntryPoint eps = find (\<lambda>ep. \<not> looksLikeCLI ep \<and> contains (ep_target ep) '':'') eps"

definition decideDonor :: "importPlan \<Rightarrow> skeleton \<times> genResult \<Rightarrow> skeleton \<times> genResult" where
  "decideDonor plan = (\<lambda>(skel0, res0).
     let dir = ip_importPath plan; skel = skel0\<lparr>sk_donorRoot := dir\<rparr>;
         res = (if trimSpace dir = [] then gblock [NoDonorRoot] res0
                else if \<not> hasPrefix dir ''/'' then gblock [RelativeDonorRoot dir] res0 else res0) in
     if ip_entryPoints plan = [] then (skel, gblock [NoDonorEntry] res)
     else case pickEntryPoint (ip_entryPoints plan) of
       None \<Rightarrow> (skel, gblock [EntryNotPicked] res)
     | Some ep \<Rightarrow>
         (case cut_colon (ep_target ep) of (m, a) \<Rightarrow>
           (skel\<lparr>sk_donorModule := m, sk_donorAttr := a, sk_donorEntry := ep_target ep\<rparr>,
            gblock [DonorNotCalled (ep_target ep)] res)))"

definition maxDescription :: nat where "maxDescription = 300"

text \<open>The default description around the identifier of the plugin, and the ellipsis, in UTF-8.\<close>

definition desc_head :: string where
  "desc_head = [CHR 0xD0, CHR 0x9F, CHR 0xD0, CHR 0xBB, CHR 0xD0, CHR 0xB0, CHR 0xD0, CHR 0xB3, CHR 0xD0, CHR 0xB8, CHR 0xD0,
     CHR 0xBD, CHR 0x2D, CHR 0xD0, CHR 0xB8, CHR 0xD0, CHR 0xBC, CHR 0xD0, CHR 0xBF, CHR 0xD0, CHR 0xBE, CHR 0xD1,
     CHR 0x80, CHR 0xD1, CHR 0x82, CHR 0x20, CHR 0xD0, CHR 0xBF, CHR 0xD1, CHR 0x80, CHR 0xD0, CHR 0xBE, CHR 0xD0,
     CHR 0xB5, CHR 0xD0, CHR 0xBA, CHR 0xD1, CHR 0x82, CHR 0xD0, CHR 0xB0, CHR 0x20]"

definition desc_tail :: string where
  "desc_tail = [CHR 0x3A, CHR 0x20, CHR 0xD0, CHR 0xB0, CHR 0xD0, CHR 0xB4, CHR 0xD0, CHR 0xB0, CHR 0xD0, CHR 0xBF, CHR 0xD1,
     CHR 0x82, CHR 0xD0, CHR 0xB5, CHR 0xD1, CHR 0x80, CHR 0x20, CHR 0xD1, CHR 0x81, CHR 0xD0, CHR 0xBE, CHR 0xD0,
     CHR 0xB7, CHR 0xD0, CHR 0xB4, CHR 0xD0, CHR 0xB0, CHR 0xD0, CHR 0xBD, CHR 0x2C, CHR 0x20, CHR 0xD0, CHR 0xB2,
     CHR 0xD1, CHR 0x8B, CHR 0xD0, CHR 0xB7, CHR 0xD0, CHR 0xBE, CHR 0xD0, CHR 0xB2, CHR 0x20, CHR 0xD1, CHR 0x84,
     CHR 0xD1, CHR 0x83, CHR 0xD0, CHR 0xBD, CHR 0xD0, CHR 0xBA, CHR 0xD1, CHR 0x86, CHR 0xD0, CHR 0xB8, CHR 0xD0,
     CHR 0xB8, CHR 0x20, CHR 0xD0, CHR 0xB4, CHR 0xD0, CHR 0xBE, CHR 0xD0, CHR 0xBD, CHR 0xD0, CHR 0xBE, CHR 0xD1,
     CHR 0x80, CHR 0xD0, CHR 0xB0, CHR 0x20, CHR 0xD0, CHR 0xBD, CHR 0xD0, CHR 0xB5, CHR 0x20, CHR 0xD0, CHR 0xB4,
     CHR 0xD0, CHR 0xBE, CHR 0xD0, CHR 0xBF, CHR 0xD0, CHR 0xB8, CHR 0xD1, CHR 0x81, CHR 0xD0, CHR 0xB0, CHR 0xD0,
     CHR 0xBD]"

definition ellipsis :: string where
  "ellipsis = [CHR 0x20, CHR 0xE2, CHR 0x80, CHR 0xA6]"

text \<open>\<open>string(runes[:n])\<close>: the first runes; a byte that is not UTF-8 becomes U+FFFD.\<close>

fun take_runes :: "nat \<Rightarrow> string \<Rightarrow> string" where
  "take_runes 0 s = []"
| "take_runes (Suc n) [] = []"
| "take_runes (Suc n) (c # r) =
     (let k = rune_size (c # r) in
      (if k = 1 \<and> (of_char c :: nat) \<ge> 0x80 then [CHR 0xEF, CHR 0xBF, CHR 0xBD] else take k (c # r)) @
      take_runes n (drop k (c # r)))"

definition decideDescription :: "importPlan \<Rightarrow> generateOptions \<Rightarrow> skeleton \<times> genResult \<Rightarrow> skeleton \<times> genResult" where
  "decideDescription plan opts = (\<lambda>(skel, res).
     let given = trimSpace (go_description opts); donor = trimSpace (ip_description plan);
         desc0 = (if given \<noteq> [] then given else donor);
         (desc, skel1, res1) =
           (if desc0 = [] then (desc_head @ sk_id skel @ desc_tail, skel, gblock [DescriptionMissing] res)
            else if given = [] then (desc0, skel\<lparr>sk_descFromDonor := True\<rparr>, gwarn [DonorDescription] res)
            else (desc0, skel, res)) in
     if rune_count desc > maxDescription then
       (skel1\<lparr>sk_description := trimSpace (take_runes maxDescription desc) @ ellipsis\<rparr>, gwarn [DescriptionCut] res1)
     else (skel1\<lparr>sk_description := desc\<rparr>, res1))"

definition decide :: "importPlan \<Rightarrow> string \<Rightarrow> generateOptions \<Rightarrow> genResult \<Rightarrow> skeleton \<times> genResult" where
  "decide plan i opts res =
     decideDescription plan opts (decideDonor plan (decideRequirements plan (new_skeleton i (ip_descriptionFile plan), res)))"

section \<open>The files\<close>

text \<open>The fields of plugin.yaml; what stands there unquoted is read as \<open>yaml\<close> reads it.\<close>

definition renderManifest :: "(string \<Rightarrow> string) \<Rightarrow> skeleton \<Rightarrow> manifest" where
  "renderManifest yaml skel = zero_manifest\<lparr>
     m_id := yaml (sk_id skel), m_version := yaml ''0.1.0'', m_platformAPI := ''^0.1'', m_rtType := yaml ''python'',
     m_entry := yaml ''main.py'', m_requires := map yaml (sk_specs skel),
     m_input := [(''request'', \<lparr>po_from = yaml ''input.request'', po_type = yaml ''object'', po_format = [], po_optional = False\<rparr>)],
     m_output := [(''payload'', \<lparr>po_from = [], po_type = yaml ''object'', po_format = [], po_optional = False\<rparr>)],
     m_filesystem := yaml ''none''\<rparr>"

definition lock_comments :: "string list" where
  "lock_comments = [''# '' @ [CHR 0xD0, CHR 0xA2, CHR 0xD0, CHR 0xBE, CHR 0xD1, CHR 0x87, CHR 0xD0, CHR 0xBD, CHR 0xD1, CHR 0x8B,
     CHR 0xD0, CHR 0xB5] @ '' '' @ [CHR 0xD0, CHR 0xB2, CHR 0xD0, CHR 0xB5, CHR 0xD1, CHR 0x80, CHR 0xD1, CHR 0x81,
     CHR 0xD0, CHR 0xB8, CHR 0xD0, CHR 0xB8] @ '' '' @ [CHR 0xD0, CHR 0xB7, CHR 0xD0, CHR 0xB0, CHR 0xD0, CHR 0xB2,
     CHR 0xD0, CHR 0xB8, CHR 0xD1, CHR 0x81, CHR 0xD0, CHR 0xB8, CHR 0xD0, CHR 0xBC, CHR 0xD0, CHR 0xBE, CHR 0xD1,
     CHR 0x81, CHR 0xD1, CHR 0x82, CHR 0xD0, CHR 0xB5, CHR 0xD0, CHR 0xB9] @ '' '' @ [CHR 0xD0, CHR 0xBF, CHR 0xD0,
     CHR 0xBB, CHR 0xD0, CHR 0xB0, CHR 0xD0, CHR 0xB3, CHR 0xD0, CHR 0xB8, CHR 0xD0, CHR 0xBD, CHR 0xD0, CHR 0xB0] @
     ''.'',
     ''# '' @ [CHR 0xD0, CHR 0xA1, CHR 0xD1, CHR 0x82, CHR 0xD1, CHR 0x80, CHR 0xD0, CHR 0xBE, CHR 0xD0, CHR 0xBA,
     CHR 0xD0, CHR 0xB8] @ '' '' @ [CHR 0xD0, CHR 0xBE, CHR 0xD0, CHR 0xB1, CHR 0xD1, CHR 0x8F, CHR 0xD0, CHR 0xB7,
     CHR 0xD0, CHR 0xB0, CHR 0xD0, CHR 0xBD, CHR 0xD1, CHR 0x8B] @ '' '' @ [CHR 0xD1, CHR 0x81, CHR 0xD0, CHR 0xBE,
     CHR 0xD0, CHR 0xB2, CHR 0xD0, CHR 0xBF, CHR 0xD0, CHR 0xB0, CHR 0xD0, CHR 0xB4, CHR 0xD0, CHR 0xB0, CHR 0xD1,
     CHR 0x82, CHR 0xD1, CHR 0x8C] @ '' '' @ [CHR 0xD1, CHR 0x81] @ '' runtime.requires '' @ [CHR 0xD0, CHR 0xB2] @
     '' plugin.yaml '' @ [CHR 0xD0, CHR 0xBF, CHR 0xD0, CHR 0xBE, CHR 0xD1, CHR 0x81, CHR 0xD1, CHR 0x82, CHR 0xD1,
     CHR 0x80, CHR 0xD0, CHR 0xBE, CHR 0xD1, CHR 0x87, CHR 0xD0, CHR 0xBD, CHR 0xD0, CHR 0xBE] @ '' '' @ [CHR 0xE2,
     CHR 0x80, CHR 0x94],
     ''# '' @ [CHR 0xD1, CHR 0x8D, CHR 0xD1, CHR 0x82, CHR 0xD0, CHR 0xBE] @ '' '' @ [CHR 0xD0, CHR 0xBF, CHR 0xD1,
     CHR 0x80, CHR 0xD0, CHR 0xBE, CHR 0xD0, CHR 0xB2, CHR 0xD0, CHR 0xB5, CHR 0xD1, CHR 0x80, CHR 0xD1, CHR 0x8F,
     CHR 0xD0, CHR 0xB5, CHR 0xD1, CHR 0x82] @ '' internal/pipeline/validator.go.'']"

definition renderRequirementsLock :: "string list \<Rightarrow> string" where
  "renderRequirementsLock specs = concat (map (\<lambda>l. l @ [CHR 0x0A]) (lock_comments @ specs))"

datatype content = ManifestYaml skeleton | MainPy skeleton | ContractTests | ReadmeMd skeleton genResult | LockText string

definition renderFiles :: "skeleton \<Rightarrow> genResult \<Rightarrow> (string \<times> content) list" where
  "renderFiles skel res =
     [(''plugin.yaml'', ManifestYaml skel), (''main.py'', MainPy skel), (''plugin.test.yaml'', ContractTests),
      (''README.md'', ReadmeMd skel res)] @
     (if length (sk_specs skel) > 0 then [(''requirements.lock'', LockText (renderRequirementsLock (sk_specs skel)))] else [])"

section \<open>Generate\<close>

record destWorld =
  dw_stat :: "string \<Rightarrow> fileKind"
  dw_list :: "string \<Rightarrow> string list option"
  dw_mkdir :: "string \<Rightarrow> bool"
  dw_write :: "string \<Rightarrow> bool"

datatype genErr = NoDestDir | NoPlanID | BadPlanID string | DestIsFile | DestUnreadable | DestNotEmpty | DestUnavailable
  | MkdirFailed | WriteFailed string "string list"

definition pluginIDForGeneration :: "importPlan \<Rightarrow> generateOptions \<Rightarrow> genErr + string" where
  "pluginIDForGeneration plan opts =
     (let i = (if trimSpace (go_pluginID opts) = [] then trimSpace (ip_pluginID plan) else trimSpace (go_pluginID opts)) in
      if i = [] then Inl NoPlanID else if \<not> pluginIDRe i then Inl (BadPlanID i) else Inr i)"

definition checkDestDir :: "destWorld \<Rightarrow> string \<Rightarrow> genErr option" where
  "checkDestDir w dest =
     (case dw_stat w dest of
        RegularFile \<Rightarrow> Some DestIsFile
      | Directory \<Rightarrow> (case dw_list w dest of None \<Rightarrow> Some DestUnreadable | Some es \<Rightarrow> if length es > 0 then Some DestNotEmpty else None)
      | NotThere \<Rightarrow> None
      | StatError \<Rightarrow> Some DestUnavailable)"

definition planResult :: "importPlan \<Rightarrow> string \<Rightarrow> string \<Rightarrow> genResult" where
  "planResult plan dest i =
     \<lparr>rs_dir = dest, rs_pluginID = i, rs_files = [],
      rs_warnings = map FromPlan (ip_warnings plan) @ (if Base dest \<noteq> i then [DirectoryName (Base dest) i] else []),
      rs_blockers = map OfPlan (ip_blockers plan)\<rparr>"

fun write_files :: "destWorld \<Rightarrow> string \<Rightarrow> (string \<times> content) list \<Rightarrow> genResult \<Rightarrow>
    genResult \<times> (string \<times> content) list \<times> genErr option" where
  "write_files w dest [] res = (res, [], None)"
| "write_files w dest ((name, c) # fs) res =
     (if \<not> dw_write w (Join dest name) then (res, [], Some (WriteFailed name (rs_files res)))
      else case write_files w dest fs (res\<lparr>rs_files := rs_files res @ [name]\<rparr>) of
        (res', written, err) \<Rightarrow> (res', (name, c) # written, err))"

text \<open>The result, the files that were written and the error.\<close>

definition Generate :: "destWorld \<Rightarrow> importPlan \<Rightarrow> string \<Rightarrow> generateOptions \<Rightarrow>
    genResult \<times> (string \<times> content) list \<times> genErr option" where
  "Generate w plan destDir opts =
     (if trimSpace destDir = [] then (empty_result, [], Some NoDestDir)
      else
        let dest = Clean destDir in
        case pluginIDForGeneration plan opts of
          Inl e \<Rightarrow> (empty_result, [], Some e)
        | Inr i \<Rightarrow>
            (case checkDestDir w dest of
               Some e \<Rightarrow> (empty_result, [], Some e)
             | None \<Rightarrow>
                 (case decide plan i opts (planResult plan dest i) of (skel, res) \<Rightarrow>
                    if \<not> dw_mkdir w dest then (res, [], Some MkdirFailed)
                    else write_files w dest (renderFiles skel res) res)))"

section \<open>Lemmas: the decisions\<close>

lemma add_specs_facts:
  "add_specs rs (sp, nw) = (sp', nw') \<Longrightarrow>
     Some ` set sp' = Some ` set sp \<union> (ManifestSpec ` set rs - {None}) \<and>
     (nw' = [] \<longrightarrow> nw = [] \<and> None \<notin> ManifestSpec ` set rs)"
proof (induction rs "(sp, nw)" arbitrary: sp nw rule: add_specs.induct)
  case (2 r rs sp nw)
  show ?case
  proof (cases "ManifestSpec r")
    case None
    from 2(1) [OF None] 2(3) None show ?thesis by (auto split: if_splits)
  next
    case (Some a)
    from 2(2) [OF Some] 2(3) Some show ?thesis by (auto split: if_splits)
  qed
qed auto

definition writable_specs :: "importPlan \<Rightarrow> string list" where
  "writable_specs plan = (case manifestSpecs plan of (specs, notWritable) \<Rightarrow> if notWritable = [] then specs else [])"

lemma decideRequirements_specs:
  "sk_specs skel = [] \<Longrightarrow> sk_specs (fst (decideRequirements plan (skel, res))) = writable_specs plan"
  by (auto simp: decideRequirements_def writable_specs_def manifestSpecs_def split: prod.splits)

lemma decideRequirements_keeps:
  "sk_id (fst (decideRequirements plan (skel, res))) = sk_id skel"
  "rs_dir (snd (decideRequirements plan (skel, res))) = rs_dir res"
  "rs_pluginID (snd (decideRequirements plan (skel, res))) = rs_pluginID res"
  "rs_files (snd (decideRequirements plan (skel, res))) = rs_files res"
  by (auto simp: decideRequirements_def gblock_def split: prod.splits)

lemma decideDonor_keeps:
  "sk_id (fst (decideDonor plan sr)) = sk_id (fst sr)" "sk_specs (fst (decideDonor plan sr)) = sk_specs (fst sr)"
  "rs_dir (snd (decideDonor plan sr)) = rs_dir (snd sr)" "rs_pluginID (snd (decideDonor plan sr)) = rs_pluginID (snd sr)"
  "rs_files (snd (decideDonor plan sr)) = rs_files (snd sr)"
  by (auto simp: decideDonor_def gblock_def Let_def split: prod.splits option.splits)

lemma decideDescription_keeps:
  "sk_id (fst (decideDescription plan opts sr)) = sk_id (fst sr)" "sk_specs (fst (decideDescription plan opts sr)) = sk_specs (fst sr)"
  "rs_dir (snd (decideDescription plan opts sr)) = rs_dir (snd sr)"
  "rs_pluginID (snd (decideDescription plan opts sr)) = rs_pluginID (snd sr)"
  "rs_files (snd (decideDescription plan opts sr)) = rs_files (snd sr)"
  by (auto simp: decideDescription_def gblock_def gwarn_def Let_def split: prod.splits if_splits)

lemmas decide_keeps = decideDescription_keeps decideDonor_keeps decideRequirements_keeps

lemma decide_facts:
  assumes "decide plan i opts res = (skel, res')"
  shows "sk_id skel = i \<and> sk_specs skel = writable_specs plan \<and>
    rs_dir res' = rs_dir res \<and> rs_pluginID res' = rs_pluginID res \<and> rs_files res' = rs_files res"
proof -
  have "skel = fst (decide plan i opts res)" "res' = snd (decide plan i opts res)" using assms by simp_all
  then show ?thesis
    using decideRequirements_specs [of "new_skeleton i (ip_descriptionFile plan)" plan res]
    by (simp add: decide_def decide_keeps new_skeleton_def)
qed

lemma write_files_all:
  "write_files w dest fs res = (res', written, None) \<Longrightarrow>
     written = fs \<and> rs_dir res' = rs_dir res \<and> rs_pluginID res' = rs_pluginID res"
  by (induction w dest fs res arbitrary: written rule: write_files.induct) (auto split: if_splits prod.splits)

lemma Generate_ok:
  assumes "Generate w plan d opts = (res, written, None)" and "(''plugin.yaml'', ManifestYaml skel) \<in> set written"
  shows "sk_specs skel = writable_specs plan \<and> sk_id skel = rs_pluginID res \<and> pluginIDRe (rs_pluginID res) \<and>
    rs_dir res = Clean d \<and> (\<exists>r. written = renderFiles skel r)"
proof -
  obtain i skel0 r where i: "pluginIDForGeneration plan opts = Inr i"
    and k: "decide plan i opts (planResult plan (Clean d) i) = (skel0, r)"
    and f: "write_files w (Clean d) (renderFiles skel0 r) r = (res, written, None)"
    using assms(1) by (auto simp: Generate_def Let_def split: if_splits sum.splits option.splits prod.splits)
  note wr = write_files_all [OF f]
  have "skel = skel0" using assms(2) wr by (auto simp: renderFiles_def split: if_splits)
  moreover have "pluginIDRe i" using i by (auto simp: pluginIDForGeneration_def Let_def split: if_splits)
  ultimately show ?thesis using decide_facts [OF k] wr by (auto simp: planResult_def)
qed

section \<open>Lemmas: the manifest\<close>

definition spec_char :: "char \<Rightarrow> bool" where
  "spec_char c \<longleftrightarrow> is_alnum c \<or> c \<in> {CHR ''_'', CHR ''.'', CHR ''-'', CHR ''+'', CHR ''=''}"

text \<open>What YAML reads as the text that stands there: a plain scalar of these characters that is not null.\<close>

definition plain_scalar :: "string \<Rightarrow> bool" where
  "plain_scalar s \<longleftrightarrow> s \<noteq> [] \<and> is_alnum (hd s) \<and> list_all spec_char s \<and> \<not> List.member [''null'', ''Null'', ''NULL''] s"

lemma spec_facts:
  assumes "manifestRequirementPattern s"
  shows "list_all spec_char s \<and> plain_scalar s"
proof -
  let ?n = "takeWhile (\<lambda>c. c \<noteq> CHR ''='') s" and ?r = "dropWhile (\<lambda>c. c \<noteq> CHR ''='') s"
  have a: "head_tail is_alnum (\<lambda>c. is_alnum c \<or> c \<in> {CHR ''_'', CHR ''.'', CHR ''-''}) ?n" "hasPrefix ?r ''==''"
    "head_tail is_alnum (\<lambda>c. is_alnum c \<or> c \<in> {CHR ''_'', CHR ''.'', CHR ''+'', CHR ''-''}) (drop 2 ?r)"
    using assms by (simp_all add: manifestRequirementPattern_def Let_def)
  have "list_all spec_char ?n" using a(1) by (auto simp: head_tail_def spec_char_def list_all_iff split: list.splits)
  moreover have "list_all spec_char ?r"
    using a(2,3) by (auto simp: hasPrefix_iff head_tail_def spec_char_def list_all_iff split: list.splits)
  ultimately have l: "list_all spec_char s" by (metis list_all_append takeWhile_dropWhile_id)
  obtain c n where cn: "?n = c # n" "is_alnum c" using a(1) by (auto simp: head_tail_def split: list.splits)
  then have "s \<noteq> []" "hd s = c" by (auto, metis hd_append list.sel(1) list.simps(3) takeWhile_dropWhile_id)
  moreover have "CHR ''='' \<in> set ?r" using a(2) by (auto simp: hasPrefix_iff)
  then have "CHR ''='' \<in> set s" by (metis set_dropWhileD)
  ultimately show ?thesis using l cn by (auto simp: plain_scalar_def)
qed

lemma spec_plain: "list_all spec_char s \<Longrightarrow> plain s \<and> CHR 0x0A \<notin> set s \<and> CHR 0x0D \<notin> set s \<and> CHR ''#'' \<notin> set s"
  by (auto simp: list_all_iff spec_char_def plain_def is_alnum_def is_lower_def is_upper_def is_digit_def)

lemma split_lines: "(\<forall>l \<in> set ls. CHR 0x0A \<notin> set l) \<Longrightarrow> split_on (CHR 0x0A) (concat (map (\<lambda>l. l @ [CHR 0x0A]) ls)) = ls @ [[]]"
  by (induction ls) (simp_all add: split_on_append_sep)

lemma lock_lines_written:
  assumes "\<forall>l \<in> set specs. list_all spec_char l \<and> l \<noteq> []"
  shows "lock_lines (renderRequirementsLock specs) = specs"
proof -
  have c: "filter (\<lambda>l. l \<noteq> [] \<and> \<not> hasPrefix l ''#'') (map (\<lambda>l. trimSpace (trimSuffix l [CHR 0x0D])) lock_comments) = []"
    by code_simp
  have m: "map (\<lambda>l. trimSpace (trimSuffix l [CHR 0x0D])) specs = specs"
  proof (rule map_idI)
    fix l
    assume l: "l \<in> set specs"
    then have "plain l" "CHR 0x0D \<notin> set l" using assms spec_plain by blast+
    then show "trimSpace (trimSuffix l [CHR 0x0D]) = l" by (auto simp: trimSuffix_def hasSuffix_iff)
  qed
  have "\<forall>l \<in> set specs. l \<noteq> [] \<and> \<not> hasPrefix l ''#''" using assms spec_plain by (fastforce simp: hasPrefix_iff)
  then have f: "filter (\<lambda>l. l \<noteq> [] \<and> \<not> hasPrefix l ''#'') specs = specs" by (auto simp: filter_id_conv)
  have "\<forall>l \<in> set lock_comments. CHR 0x0A \<notin> set l" by code_simp
  then have "\<forall>l \<in> set (lock_comments @ specs). CHR 0x0A \<notin> set l" using assms spec_plain by auto
  from split_lines [OF this] have "split_on (CHR 0x0A) (renderRequirementsLock specs) = lock_comments @ specs @ [[]]"
    by (simp add: renderRequirementsLock_def)
  moreover have "trimSpace (trimSuffix [] [CHR 0x0D]) = []" by code_simp
  ultimately show ?thesis by (simp add: lock_lines_def c m f)
qed

lemma requirements_accepted:
  assumes "\<forall>l \<in> set specs. manifestRequirementPattern l"
  shows "requirement_problems i specs = []"
  using assms
proof (induction specs arbitrary: i)
  case (Cons a specs)
  then have "plain a" "a \<noteq> []" using spec_facts spec_plain by (auto simp: plain_scalar_def)
  with Cons show ?case by simp
qed simp

lemma rel_below: "rel_elems bs (bs @ [e]) = [e]"
  by (induction bs) auto

text \<open>What the file system shows after the files were written to \<open>dest\<close>: no link is among them.\<close>

definition disk :: "fileWorld \<Rightarrow> string \<Rightarrow> (string \<times> content) list \<Rightarrow> bool" where
  "disk fw dest written \<longleftrightarrow>
     (case fw_abs fw dest of None \<Rightarrow> False
      | Some base \<Rightarrow> (case fw_real fw base of None \<Rightarrow> False
        | Some target \<Rightarrow> hasPrefix base ''/'' \<and> hasPrefix target ''/'' \<and>
            list_all (\<lambda>(n, c). fw_stat fw (Join dest n) = RegularFile \<and> fw_stat fw (Join base n) = RegularFile \<and>
              fw_real fw (Join base n) = Some (Join target n) \<and>
              (case c of LockText t \<Rightarrow> fw_lock fw dest = Some t | _ \<Rightarrow> True)) written))"

lemma written_entry_fine:
  assumes "disk fw dest written" and "(''main.py'', c) \<in> set written"
  shows "fw_stat fw (Join dest ''main.py'') = RegularFile \<and> validateManifestEntryFile fw dest ''main.py'' = None"
proof -
  obtain base target where a: "fw_abs fw dest = Some base" "fw_real fw base = Some target" "hasPrefix base ''/''" "hasPrefix target ''/''"
    and f: "fw_stat fw (Join dest ''main.py'') = RegularFile" "fw_stat fw (Join base ''main.py'') = RegularFile"
      "fw_real fw (Join base ''main.py'') = Some (Join target ''main.py'')"
    using assms by (auto simp: disk_def list_all_iff split: option.splits)
  have p: "proper ''main.py''" by (simp add: proper_def)
  have "\<not> leaves (Rel r (Join r ''main.py''))" if "hasPrefix r ''/''" for r
    using conjunct2 [OF Join_proper [OF that p]] by (simp add: Rel_def Let_def rel_below leaves_def hasPrefix_def)
  with a f show ?thesis by (simp add: validateManifestEntryFile_def)
qed

lemma written_lock:
  assumes "disk fw dest (renderFiles skel r)" and "sk_specs skel \<noteq> []"
  shows "fw_lock fw dest = Some (renderRequirementsLock (sk_specs skel))"
  using assms by (auto simp: disk_def renderFiles_def split: option.splits)

lemma lock_accepted:
  assumes "fw_lock fw dest = Some (renderRequirementsLock specs)" and "\<forall>l \<in> set specs. list_all spec_char l \<and> l \<noteq> []"
  shows "validateManifestRequirements fw dest specs = None"
  using assms(1) lock_lines_written [OF assms(2)]
  by (auto simp: validateManifestRequirements_def find_None_iff split: option.splits)

lemma writable_specs_facts:
  "(\<forall>l \<in> set (writable_specs plan). manifestRequirementPattern l) \<and>
   (writable_specs plan = [] \<or>
    Some ` set (writable_specs plan) = ManifestSpec ` (set (ip_requirements plan) \<union> set (ip_unresolved plan)))"
proof -
  obtain sp nw where a: "add_specs (ip_requirements plan) ([], []) = (sp, nw)" by fastforce
  obtain sp' nw' where b: "add_specs (ip_unresolved plan) (sp, nw) = (sp', nw')" by fastforce
  have f: "Some ` set sp' = ManifestSpec ` (set (ip_requirements plan) \<union> set (ip_unresolved plan)) - {None}"
    "nw' = [] \<longrightarrow> None \<notin> ManifestSpec ` (set (ip_requirements plan) \<union> set (ip_unresolved plan))"
    using add_specs_facts [OF a] add_specs_facts [OF b] by auto
  have "manifestRequirementPattern l" if "l \<in> set sp'" for l
  proof -
    have "Some l \<in> Some ` set sp'" using that by simp
    then obtain r where "ManifestSpec r = Some l" unfolding f by (metis DiffD1 imageE)
    then show ?thesis by (auto simp: ManifestSpec_def Let_def manifestRequiresRe_def split: if_splits)
  qed
  with f show ?thesis by (auto simp: writable_specs_def manifestSpecs_def a b)
qed

definition shown :: "(string \<Rightarrow> string) \<Rightarrow> bool" where
  "shown yaml \<longleftrightarrow> (\<forall>s. plain_scalar s \<longrightarrow> yaml s = s)"

lemma rendered_fields:
  assumes "shown yaml" and "pluginIDRe (sk_id skel)" and "sk_id skel \<noteq> ''null''"
    and "\<forall>l \<in> set (sk_specs skel). manifestRequirementPattern l"
  shows "renderManifest yaml skel = renderManifest id skel \<and> m_id (renderManifest yaml skel) = sk_id skel \<and>
    m_requires (renderManifest yaml skel) = sk_specs skel"
proof -
  have c: "plain_scalar ''0.1.0''" "plain_scalar ''python''" "plain_scalar ''main.py''" "plain_scalar ''input.request''"
    "plain_scalar ''object''" "plain_scalar ''none''" by code_simp+
  have "plain_scalar (sk_id skel)"
    using assms(2,3) by (auto simp: plain_scalar_def pluginIDRe_def head_tail_def spec_char_def is_alnum_def list_all_iff is_lower_def
      split: list.splits)
  moreover have "map yaml (sk_specs skel) = sk_specs skel"
    using assms(1,4) spec_facts by (intro map_idI) (auto simp: shown_def)
  ultimately show ?thesis using c assms(1) by (simp add: renderManifest_def shown_def zero_manifest_def)
qed

text \<open>The parts of the validation on the rendered manifest.\<close>

lemma main_py_safe: "safeManifestEntry ''main.py''"
  by code_simp

lemma rendered_constants:
  "platformAPICompatible ''^0.1'' \<and> manifestVersionPattern ''0.1.0'' \<and> validManifestSource ''input.request'' \<and>
   manifestNamePattern ''request'' \<and> manifestNamePattern ''payload''"
  by code_simp

lemma pluginID_manifestID: "pluginIDRe s \<Longrightarrow> manifestIDPattern s"
  by (auto simp: pluginIDRe_def manifestIDPattern_def head_tail_def list_all_iff split: list.splits)

lemma manifest_accepted:
  assumes "pluginIDRe (sk_id skel)"
    and "fw_stat fw (Join dir ''main.py'') = RegularFile \<and> validateManifestEntryFile fw dir ''main.py'' = None"
    and "sk_specs skel \<noteq> [] \<Longrightarrow> validateManifestRequirements fw dir (sk_specs skel) = None"
    and "\<forall>l \<in> set (sk_specs skel). manifestRequirementPattern l"
  shows "ValidatePluginDir fw dir (renderManifest id skel) = []"
proof -
  let ?m = "(renderManifest id skel)\<lparr>m_dir := dir\<rparr>"
  have i: "id_problems ?m = []"
    using assms(1) rendered_constants by (simp add: id_problems_def renderManifest_def pluginID_manifestID)
  have e: "entry_problems fw ?m = []" using assms(2) main_py_safe by (simp add: entry_problems_def renderManifest_def)
  have q: "requires_problems fw ?m = []"
    using assms(3,4) by (simp add: requires_problems_def renderManifest_def requirements_accepted)
  have p: "validateManifestPorts ''input'' (m_input ?m) = [] \<and> validateManifestPorts ''output'' (m_output ?m) = []"
    using rendered_constants by (simp add: validateManifestPorts_def port_problems_def renderManifest_def manifestPortTypes_def)
  have s: "policy_problems ?m = []" "secret_problems 0 [] (m_secrets ?m) = []" "network_problems 0 [] (m_network ?m) = []"
    by (simp_all add: policy_problems_def renderManifest_def zero_manifest_def)
  have "ValidateManifest fw ?m = []" using i e q p s by (simp add: ValidateManifest_def)
  moreover have "m_output (renderManifest id skel) \<noteq> [] \<and> m_entry (renderManifest id skel) = ''main.py''"
    by (simp add: renderManifest_def)
  ultimately show ?thesis using assms(2) by (simp add: ValidatePluginDir_def Let_def)
qed

section \<open>Properties\<close>


definition demo_plan :: importPlan where
  "demo_plan = empty_plan\<lparr>ip_pluginID := ''demo'', ip_requirements :=
     [(blank_req ''a==1.0'')\<lparr>rq_name := ''a'', rq_constraint := ''==1.0'', rq_version := ''1.0'', rq_pinned := True\<rparr>]\<rparr>"

definition demo_dest :: destWorld where
  "demo_dest = \<lparr>dw_stat = (\<lambda>_. NotThere), dw_list = (\<lambda>_. None), dw_mkdir = (\<lambda>_. True), dw_write = (\<lambda>_. True)\<rparr>"

definition demo_disk :: fileWorld where
  "demo_disk = \<lparr>fw_abs = Some, fw_stat = (\<lambda>_. RegularFile), fw_real = Some,
     fw_lock = (\<lambda>_. Some (renderRequirementsLock [''a==1.0'']))\<rparr>"

lemma demo_specs: "writable_specs demo_plan = [''a==1.0'']"
  by code_simp

text \<open>Without errors of the file system an accepted identifier and a fresh directory are enough.\<close>

lemma Generate_succeeds:
  assumes "trimSpace d \<noteq> []" and "pluginIDForGeneration plan opts = Inr i"
  shows "\<exists>res skel r. Generate demo_dest plan d opts = (res, renderFiles skel r, None) \<and> rs_dir res = Clean d \<and>
    rs_pluginID res = i \<and> sk_specs skel = writable_specs plan"
proof -
  obtain skel r where k: "decide plan i opts (planResult plan (Clean d) i) = (skel, r)" by fastforce
  have wf: "\<exists>res. write_files demo_dest e fs r0 = (res, fs, None) \<and> rs_dir res = rs_dir r0 \<and> rs_pluginID res = rs_pluginID r0" for e fs r0
  proof (induction fs arbitrary: r0)
    case (Cons f fs)
    obtain n c where "f = (n, c)" by fastforce
    with Cons [of "r0\<lparr>rs_files := rs_files r0 @ [n]\<rparr>"] show ?case by (auto simp: demo_dest_def)
  qed simp
  from wf [of "Clean d" "renderFiles skel r" r] obtain res where
    "write_files demo_dest (Clean d) (renderFiles skel r) r = (res, renderFiles skel r, None)"
    "rs_dir res = rs_dir r" "rs_pluginID res = rs_pluginID r" by blast
  moreover have "checkDestDir demo_dest (Clean d) = None" "dw_mkdir demo_dest (Clean d)"
    by (simp_all add: checkDestDir_def demo_dest_def)
  moreover have "rs_dir (planResult plan (Clean d) i) = Clean d" "rs_pluginID (planResult plan (Clean d) i) = i"
    by (simp_all add: planResult_def)
  ultimately show ?thesis using assms decide_facts [OF k]
    by (intro exI [of _ res] exI [of _ skel] exI [of _ r]) (simp add: Generate_def Let_def k)
qed


section \<open>Divergences\<close>

text \<open>A project named null: the identifier stands unquoted in plugin.yaml and is read as no text.\<close>

lemma null_is_an_id: "pluginIDFor (new_project ''pyproject.toml''\<lparr>pj_name := ''Null''\<rparr>) = ''null''"
  by code_simp

lemma null_id_invalid: "yaml ''null'' = [] \<Longrightarrow> sk_id skel = ''null'' \<Longrightarrow> BadId \<in> set (ValidateManifest fw (renderManifest yaml skel))"
  by (simp add: ValidateManifest_def id_problems_def renderManifest_def manifestIDPattern_def head_tail_def)

text \<open>One pass of the replacer: the normal form of a name is not a fixed point, and not the one of PEP 503.\<close>

lemma normal_form_moves: "normalizeDistName ''a.-b'' = ''a--b'' \<and> normalizeDistName ''a--b'' = ''a-b''"
  by code_simp

end
