(* ===== verification/Spec2Isabelle.thy ===== *)
theory Spec2Isabelle
  imports Exec_Graph Run_Correct Daemon Valid_Run Manifest_Check Run_Store Gate_Approver Plugin_Egress Planner
    Api_Session Mcp_Calls Mcp_Guard Toml_Read Toml_Show Schema_Repo Import_Generate
begin

text \<open>
  A verification library of FidesPipe, the runner of YAML pipelines of plugins with human
  gates (Go, internal/).

  \<^bold>\<open>The program.\<close> A pipeline is a list of steps. A step is a plugin, run as a separate process
  under a contract on its input and output, a built-in module, or a human gate. The runner
  (internal/execution) checks the pipeline, opens a run directory with an append-only journal
  and a context snapshot (internal/journal), and executes the steps over a context of nested
  maps (internal/runctx): before, inside and after a foreach, in sequence or in parallel groups,
  with conditions, loops and retries. Plugins are trusted by content hash or isolated
  (internal/plugin). Gates ask a person or follow the approval policy (internal/gate,
  internal/pipeline/gate_policy.go). A browser reaches a run through the HTTP server (internal/api),
  an agent through the MCP server (internal/mcp); a Python project becomes a plugin through the
  importer (internal/importer), and the published schemas are checked against the repository
  (internal/schemacheck).

  \<^bold>\<open>Theories.\<close>
  \<^item> \<open>Fid_Prelude\<close>: Go strings, \<open>float64\<close>, JSON values and their round trip, association lists,
    the hint collections \<open>fid_wf\<close> and \<open>go_str\<close>.
  \<^item> \<open>RunCtx\<close> (runctx/store.go, binding.go), \<open>Pipeline_Model\<close> (pipeline/model.go, common/util.go),
    \<open>When_Cond\<close> (pipeline/when.go), \<open>Plugin_Contract\<close> (plugin/contract.go, \<open>EnforceOutput\<close>,
    \<open>buildInput\<close>): the data and the pure operations on it.
  \<^item> \<open>Exec_Graph\<close> (execution/graph.go) and \<open>Gate_Policy\<close> (pipeline/gate_policy.go): analyses of a
    pipeline before it runs.
  \<^item> \<open>Port_Source\<close>, \<open>Cycle_Check\<close>, \<open>Manifest_Check\<close> (pipeline/validator.go) and \<open>Validator\<close>
    (pipeline/validate_issues.go, issue.go): the validation of pipelines and manifests;
    \<open>Valid_Run\<close> shows what a valid pipeline means for its run.
    \<open>Go_Path\<close> holds the operations of path/filepath and their laws. \<open>Planner\<close> (pipeline/planner.go)
    is the plan shown before a run.
  \<^item> \<open>Journal\<close> (journal/writer.go, reading in reader.go): the journal object with its two files;
    what the disk does to the n-th write is a parameter. \<open>Journal_Reader\<close> (journal/reader.go): the
    bounded windows over the lines of a journal, polling with a cursor, the metadata scan.
    \<open>Run_Store\<close> (journal/store.go, prune.go): run directories, the two stores and pruning.
  \<^item> \<open>Plugin_Trust\<close> (plugin/trust.go, trustlist.go), \<open>Plugin_Exec\<close> (plugin/process.go): the trust
    decision and the execution of a plugin, the operating system being a parameter.
    \<open>Plugin_Egress\<close> (plugin/egress.go): the proxy an isolated plugin reaches the network through.
  \<^item> \<open>Gate_Channel\<close> (gate/channel.go, timeout.go): the channel of a gate as atomic steps of goroutines,
    which refine a mailbox of one slot, and the deadline of a wait. \<open>Gate_Link\<close> (gate/link.go) and
    \<open>Gate_Approver\<close> (gate/approver.go): signed approval links and the registry that delivers them.
  \<^item> \<open>Gate_Service\<close> (gate/service.go), \<open>Step_Runner\<close> (execution/steps.go, loop.go,
    builtin_text_stats.go), \<open>Parallel_Run\<close> (execution/parallel.go), \<open>Run_Resume\<close> and
    \<open>Run_Pipeline\<close> (execution/runner.go, resume_steps.go, journal.go): the run itself, with
    explicit state \<open>rstate\<close> and a \<open>world\<close> that answers for everything outside the process.
  \<^item> \<open>Cron\<close> (cron/cron.go), \<open>Slot_Queue\<close> (cron/queue.go) and \<open>Daemon\<close> (cron/daemon.go): the scheduler.
    \<open>claim_register\<close> is the contract of a register of claims; the queue and the daemon over it
    are its two interpretations.
  \<^item> \<open>Go_Net\<close> (addresses and hosts of package net), \<open>Api_Listen\<close> (api/listen.go) and \<open>Api_Session\<close>
    (api/session.go, \<open>Routes\<close> of server.go): where the server may listen, pairing, sessions and the
    chain of guards before every handler.
  \<^item> \<open>Mcp_Calls\<close> (mcp/session.go, runs.go): calls in flight, the run slot and cancellation, as atomic
    steps under the mutex. \<open>Mcp_Guard\<close> (mcp/security.go, tools.go): path containment and the checks
    before an agent's run or plugin.
  \<^item> \<open>Toml\<close>, \<open>Toml_Read\<close>, \<open>Toml_Show\<close> (importer/toml.go): the TOML reader, its termination, and that it
    reads back what is written. \<open>Requirement\<close> (requirement.go), \<open>Import_Project\<close> (importer.go,
    setupcfg.go), \<open>Import_Plan\<close> (plan.go), \<open>Import_Generate\<close> (generate.go, genmanifest.go): from the
    metadata of a donor project to the files of a plugin, which \<open>Manifest_Check\<close> accepts.
  \<^item> \<open>Schema_Check\<close> (schemacheck/check.go) and its specification \<open>Schema_Spec\<close>, \<open>Schema_Sound\<close>: the
    validator decides conformance for the schemas the guard lets through. \<open>Schema_Repo\<close>: the check of
    a repository.
  \<^item> \<open>Run_Journal\<close> and \<open>Run_Correct\<close>: the journal only changes by events and snapshots
    (\<open>jreach\<close>), and the theorems about a whole run.

  \<^bold>\<open>Conventions.\<close> Errors are values: \<open>Inl\<close> of an error, or \<open>None\<close>. Message texts, durations and
  timestamps are left out where no code reads them. Go maps are association lists; properties
  do not depend on the order of iteration. A nondeterministic answer of the world may depend on
  the clock \<open>rs_clock\<close>, which counts the interactions. Case folding is that of ASCII. The
  conversion of a \<open>float64\<close> out of range to \<open>int64\<close> is the one of amd64. Fuel appears where a loop
  is not structural: \<open>cursor_from\<close> has one unit per entry of the map it walks, which \<open>cursor_fuel\<close> shows
  to suffice, and \<open>dfs\<close> one per node, which \<open>dfs_spec\<close> shows to suffice; the TOML reader has the length of
  the text, which \<open>toml_terminates\<close> shows to suffice; the loops of the program that count attempts
  recurse on the number of attempts.

  \<^bold>\<open>Not modelled.\<close> The command line; the HTTP handlers behind the guards and the editor; the framing of
  MCP messages, progress and elicitation; the texts of main.py, tests and README that the importer writes;
  plugin creation; installers and the registry client; sandbox back ends and the bytes the egress proxy
  copies: text templates, wiring and input or output. HMAC, regular expressions, JSON and YAML codecs and
  the file system are parameters; what YAML decoding gives are the records of \<open>Pipeline_Model\<close>. The
  interleaving inside a branch of a parallel group is one atomic block, in an arbitrary order of branches.
\<close>

end
